(* ===== verification/Prelude.thy ===== *)
theory Prelude
  imports Main "HOL-Library.Char_ord" "HOL-Library.List_Lexorder"
begin

text \<open>
  Shared vocabulary of the development: the errors a TypeScript operation can throw and the
  result type of a fallible operation, the pieces of the JavaScript standard library that the
  services use on strings and arrays (\<open>split\<close>, \<open>join\<close>, \<open>trim\<close>, \<open>replace\<close>, \<open>includes\<close>,
  \<open>padStart\<close>, the insertion-ordered \<open>Set\<close>), and the generic lemmas about them that every
  component uses. Strings are lists of characters; every delimiter, prefix and key the code
  compares against is ASCII.
\<close>

section \<open>Errors and results\<close>

text \<open>The NestJS exceptions the services throw, by HTTP status.\<close>

datatype exc_kind =
    BadRequest | Unauthorized | Forbidden | NotFound | Conflict | InternalServerError

text \<open>The fields of a Postgres driver error that the code reads.\<close>

record driver_error =
  de_code :: "string option"
  de_constraint :: "string option"
  de_detail :: "string option"
  de_table :: "string option"
  de_column :: "string option"
  de_message :: "string option"

text \<open>Everything that can be thrown: an HTTP exception with its optional \<open>code\<close> and its
  message, the three TypeORM errors the services recognise, and any other \<open>Error\<close>.\<close>

datatype js_error =
    HttpException exc_kind "string option" string
  | EntityPropertyNotFoundError string
  | OptimisticLockVersionMismatchError
  | QueryFailedError driver_error
  | PlainError string

type_synonym 'a result = "js_error + 'a"

abbreviation BadRequestException :: "string \<Rightarrow> js_error" where
  "BadRequestException m \<equiv> HttpException BadRequest None m"

abbreviation UnauthorizedException :: "string \<Rightarrow> js_error" where
  "UnauthorizedException m \<equiv> HttpException Unauthorized None m"

abbreviation ForbiddenException :: "string \<Rightarrow> js_error" where
  "ForbiddenException m \<equiv> HttpException Forbidden None m"

abbreviation NotFoundException :: "string \<Rightarrow> js_error" where
  "NotFoundException m \<equiv> HttpException NotFound None m"

abbreviation ConflictException :: "string \<Rightarrow> js_error" where
  "ConflictException m \<equiv> HttpException Conflict None m"

abbreviation InternalServerErrorException :: "string \<Rightarrow> js_error" where
  "InternalServerErrorException m \<equiv> HttpException InternalServerError None m"

definition is_ok :: "'a result \<Rightarrow> bool" where
  "is_ok r = (case r of Inl _ \<Rightarrow> False | Inr _ \<Rightarrow> True)"

section \<open>JavaScript arrays and sets\<close>

text \<open>\<open>[...new Set(xs)]\<close>: the distinct elements in the order of their first occurrence.\<close>

definition js_set :: "'a list \<Rightarrow> 'a list" where
  "js_set xs = rev (remdups (rev xs))"

text \<open>\<open>new Map(pairs).get(k)\<close>: the last pair with a key wins.\<close>

definition js_map_get :: "('k \<times> 'v) list \<Rightarrow> 'k \<Rightarrow> 'v option" where
  "js_map_get ps k = map_of (rev ps) k"

text \<open>\<open>xs.every(f)\<close> and \<open>xs.some(f)\<close> with a predicate that may throw.\<close>

fun every_r :: "('a \<Rightarrow> bool result) \<Rightarrow> 'a list \<Rightarrow> bool result" where
  "every_r f [] = Inr True"
| "every_r f (x # xs) =
     (case f x of Inl e \<Rightarrow> Inl e | Inr b \<Rightarrow> if b then every_r f xs else Inr False)"

fun some_r :: "('a \<Rightarrow> bool result) \<Rightarrow> 'a list \<Rightarrow> bool result" where
  "some_r f [] = Inr False"
| "some_r f (x # xs) =
     (case f x of Inl e \<Rightarrow> Inl e | Inr b \<Rightarrow> if b then Inr True else some_r f xs)"

section \<open>JavaScript strings\<close>

fun is_prefix :: "'a list \<Rightarrow> 'a list \<Rightarrow> bool" where
  "is_prefix [] ys = True"
| "is_prefix (x # xs) [] = False"
| "is_prefix (x # xs) (y # ys) = (x = y \<and> is_prefix xs ys)"

text \<open>\<open>s.includes(p)\<close>.\<close>

fun js_includes :: "string \<Rightarrow> string \<Rightarrow> bool" where
  "js_includes p [] = (p = [])"
| "js_includes p (c # s) = (is_prefix p (c # s) \<or> js_includes p s)"

text \<open>\<open>s.split(c)\<close> for a one-character separator: always at least one part.\<close>

fun js_split :: "char \<Rightarrow> string \<Rightarrow> string list" where
  "js_split d [] = [[]]"
| "js_split d (c # s) =
     (if c = d then [] # js_split d s
      else (case js_split d s of [] \<Rightarrow> [[c]] | w # ws \<Rightarrow> (c # w) # ws))"

text \<open>\<open>parts.join(sep)\<close>.\<close>

fun js_join :: "string \<Rightarrow> string list \<Rightarrow> string" where
  "js_join sep [] = []"
| "js_join sep [w] = w"
| "js_join sep (w # v # ws) = w @ sep @ js_join sep (v # ws)"

definition is_space :: "char \<Rightarrow> bool" where
  "is_space c = (c = CHR '' '' \<or> c = CHR 0x09 \<or> c = CHR 0x0A \<or> c = CHR 0x0B \<or> c = CHR 0x0C
    \<or> c = CHR 0x0D)"

text \<open>\<open>s.trim()\<close>.\<close>

definition js_trim :: "string \<Rightarrow> string" where
  "js_trim s = rev (dropWhile is_space (rev (dropWhile is_space s)))"

text \<open>\<open>s.replace(/a/g, b)\<close> for single characters.\<close>

definition js_replace_char :: "char \<Rightarrow> char \<Rightarrow> string \<Rightarrow> string" where
  "js_replace_char a b s = map (\<lambda>c. if c = a then b else c) s"

definition is_digit :: "char \<Rightarrow> bool" where
  "is_digit c = (CHR ''0'' \<le> c \<and> c \<le> CHR ''9'')"

definition is_upper :: "char \<Rightarrow> bool" where
  "is_upper c = (CHR ''A'' \<le> c \<and> c \<le> CHR ''Z'')"

definition is_lower :: "char \<Rightarrow> bool" where
  "is_lower c = (CHR ''a'' \<le> c \<and> c \<le> CHR ''z'')"

text \<open>\<open>\w\<close> of a regular expression.\<close>

definition is_word_char :: "char \<Rightarrow> bool" where
  "is_word_char c = (is_digit c \<or> is_upper c \<or> is_lower c \<or> c = CHR ''_'')"

definition to_lower_char :: "char \<Rightarrow> char" where
  "to_lower_char c = (if is_upper c then char_of (of_char c + 32 :: nat) else c)"

definition to_upper_char :: "char \<Rightarrow> char" where
  "to_upper_char c = (if is_lower c then char_of (of_char c - 32 :: nat) else c)"

definition js_to_lower :: "string \<Rightarrow> string" where
  "js_to_lower s = map to_lower_char s"

definition js_to_upper :: "string \<Rightarrow> string" where
  "js_to_upper s = map to_upper_char s"

text \<open>\<open>s.padStart(n, c)\<close>.\<close>

definition js_pad_start :: "nat \<Rightarrow> char \<Rightarrow> string \<Rightarrow> string" where
  "js_pad_start n c s = replicate (n - length s) c @ s"

text \<open>\<open>String(n)\<close> of a non-negative integer, and \<open>Number(s)\<close> of a string of digits.\<close>

definition digit_char :: "nat \<Rightarrow> char" where
  "digit_char d = char_of (48 + d)"

definition char_digit :: "char \<Rightarrow> nat" where
  "char_digit c = of_char c - 48"

fun show_nat :: "nat \<Rightarrow> string" where
  "show_nat n = (if n < 10 then [digit_char n] else show_nat (n div 10) @ [digit_char (n mod 10)])"

declare show_nat.simps [simp del]

definition digits_val :: "string \<Rightarrow> nat" where
  "digits_val s = foldl (\<lambda>a c. 10 * a + char_digit c) 0 s"

text \<open>A value between the single quotes of a message.\<close>

definition quoted :: "string \<Rightarrow> string" where
  "quoted s = [CHR 0x27] @ s @ [CHR 0x27]"

text \<open>\<open>a < b\<close> on strings: lexicographic by code unit.\<close>

fun str_less :: "string \<Rightarrow> string \<Rightarrow> bool" where
  "str_less [] [] = False"
| "str_less [] (b # bs) = True"
| "str_less (a # as) [] = False"
| "str_less (a # as) (b # bs) = (a < b \<or> (a = b \<and> str_less as bs))"

section \<open>Generic lemmas\<close>

named_theorems result_simps \<open>equations that evaluate the result type\<close>

lemma is_ok_simps [simp, result_simps]: "is_ok (Inr x)" "\<not> is_ok (Inl e)"
  by (simp_all add: is_ok_def)

lemma is_ok_conv: "is_ok r \<longleftrightarrow> (\<exists>x. r = Inr x)"
  by (cases r) (auto simp: is_ok_def)

lemma every_r_True: "every_r f xs = Inr True \<longleftrightarrow> (\<forall>x \<in> set xs. f x = Inr True)"
  by (induction xs) (auto split: sum.splits)

lemma every_r_False: "every_r f xs = Inr False \<Longrightarrow> \<exists>x \<in> set xs. f x = Inr False"
  by (induction xs) (auto split: sum.splits if_splits)

lemma some_r_False: "some_r f xs = Inr False \<longleftrightarrow> (\<forall>x \<in> set xs. f x = Inr False)"
  by (induction xs) (auto split: sum.splits)

lemma some_r_True: "some_r f xs = Inr True \<Longrightarrow> \<exists>x \<in> set xs. f x = Inr True"
  by (induction xs) (auto split: sum.splits if_splits)

lemma every_r_pure: "(\<And>x. x \<in> set xs \<Longrightarrow> f x = Inr (g x)) \<Longrightarrow> every_r f xs = Inr (\<forall>x \<in> set xs. g x)"
  by (induction xs) auto

lemma some_r_pure: "(\<And>x. x \<in> set xs \<Longrightarrow> f x = Inr (g x)) \<Longrightarrow> some_r f xs = Inr (\<exists>x \<in> set xs. g x)"
  by (induction xs) auto

lemma set_js_set [simp]: "set (js_set xs) = set xs"
  by (simp add: js_set_def)

lemma distinct_js_set [simp]: "distinct (js_set xs)"
  by (simp add: js_set_def)

lemma js_set_Nil [simp]: "js_set [] = []"
  by (simp add: js_set_def)

lemma js_set_eq_Nil [simp]: "js_set xs = [] \<longleftrightarrow> xs = []"
  by (simp add: js_set_def)

lemma js_set_distinct: "distinct xs \<Longrightarrow> js_set xs = xs"
  by (simp add: js_set_def distinct_remdups_id)

lemma js_map_get_Some:
  "js_map_get ps k = Some v \<Longrightarrow> (k, v) \<in> set ps"
  by (auto simp: js_map_get_def dest: map_of_SomeD)

lemma js_map_get_None: "js_map_get ps k = None \<longleftrightarrow> k \<notin> fst ` set ps"
  by (simp add: js_map_get_def map_of_eq_None_iff)

lemma js_map_get_distinct:
  assumes "distinct (map fst ps)" and "(k, v) \<in> set ps"
  shows "js_map_get ps k = Some v"
proof -
  have "distinct (map fst (rev ps))" using assms(1) by (simp add: rev_map [symmetric])
  then show ?thesis using assms(2) by (simp add: js_map_get_def)
qed

lemma is_prefix_append [simp]: "is_prefix xs (xs @ ys)"
  by (induction xs) auto

lemma is_prefix_conv: "is_prefix xs ys \<longleftrightarrow> (\<exists>zs. ys = xs @ zs)"
  by (induction xs ys rule: is_prefix.induct) auto

lemma js_split_nonempty [simp]: "js_split d s \<noteq> []"
  by (induction s) (auto split: list.split)

lemma js_split_no_sep: "d \<notin> set s \<Longrightarrow> js_split d s = [s]"
  by (induction s) (auto)

lemma js_join_split: "js_join [d] (js_split d s) = s"
proof (induction s)
  case Nil
  then show ?case by simp
next
  case (Cons c s)
  obtain w ws where sp: "js_split d s = w # ws"
    by (cases "js_split d s") auto
  show ?case using Cons sp by (cases ws) auto
qed

lemma js_split_append: "js_split d (a @ d # b) = js_split d a @ js_split d b"
proof (induction a)
  case Nil
  then show ?case by simp
next
  case (Cons c a)
  obtain w ws where sp: "js_split d a = w # ws"
    by (cases "js_split d a") auto
  show ?case using Cons sp by auto
qed

lemma str_less_irrefl [simp]: "\<not> str_less s s"
  by (induction s) auto

lemma str_less_trans: "str_less a b \<Longrightarrow> str_less b c \<Longrightarrow> str_less a c"
proof (induction a b arbitrary: c rule: str_less.induct)
  case (4 a as b bs)
  then show ?case by (cases c) auto
next
  case (2 b bs)
  then show ?case by (cases c) auto
qed auto

lemma str_less_linear: "str_less a b \<or> a = b \<or> str_less b a"
  by (induction a b rule: str_less.induct) auto

lemma str_less_asym: "str_less a b \<Longrightarrow> \<not> str_less b a"
  using str_less_trans str_less_irrefl by blast

lemma filter_length_mono:
  "(\<And>x. x \<in> set xs \<Longrightarrow> P x \<Longrightarrow> Q x) \<Longrightarrow> length (filter P xs) \<le> length (filter Q xs)"
  by (induction xs) auto

lemma map_filter_key: "map f (filter (\<lambda>x. P (f x)) xs) = filter P (map f xs)"
  by (induction xs) auto

text \<open>Tables: the row with a given key is unique when the keys are distinct.\<close>

lemma distinct_map_eqI:
  "distinct (map f xs) \<Longrightarrow> x \<in> set xs \<Longrightarrow> y \<in> set xs \<Longrightarrow> f x = f y \<Longrightarrow> x = y"
  by (auto simp: distinct_map dest: inj_onD)

lemma find_Some_iff_mem:
  "List.find P xs = Some x \<Longrightarrow> x \<in> set xs \<and> P x"
  by (auto simp: find_Some_iff)

lemma find_None_iff_all: "List.find P xs = None \<longleftrightarrow> (\<forall>x \<in> set xs. \<not> P x)"
  by (auto simp: find_None_iff)

lemma find_distinct_key:
  assumes "distinct (map f xs)" and "x \<in> set xs"
  shows "List.find (\<lambda>y. f y = f x) xs = Some x"
proof -
  obtain y where y: "List.find (\<lambda>y. f y = f x) xs = Some y"
    using assms(2) by (cases "List.find (\<lambda>y. f y = f x) xs") (auto simp: find_None_iff)
  then have "y \<in> set xs" "f y = f x" by (auto dest: find_Some_iff_mem)
  then show ?thesis using assms y by (metis distinct_map_eqI)
qed

text \<open>Decimal numerals read back.\<close>

lemma char_digit_char [simp]: "d < 10 \<Longrightarrow> char_digit (digit_char d) = d"
  by (simp add: char_digit_def digit_char_def)

lemma is_digit_of_char: "is_digit c \<longleftrightarrow> 48 \<le> (of_char c :: nat) \<and> (of_char c :: nat) \<le> 57"
  by (simp add: is_digit_def less_eq_char_def)

lemma is_digit_digit_char [simp]: "d < 10 \<Longrightarrow> is_digit (digit_char d)"
  by (simp add: is_digit_of_char digit_char_def)

lemma digits_val_snoc [simp]: "digits_val (s @ [c]) = 10 * digits_val s + char_digit c"
  by (simp add: digits_val_def)

lemma digits_val_Nil [simp]: "digits_val [] = 0"
  by (simp add: digits_val_def)

lemma digits_val_show_nat [simp]: "digits_val (show_nat n) = n"
proof (induction n rule: show_nat.induct)
  case (1 n)
  show ?case
  proof (cases "n < 10")
    case True
    then have "show_nat n = [] @ [digit_char n]" by (simp add: show_nat.simps [of n])
    then show ?thesis using True by (simp only: digits_val_snoc) simp
  next
    case False
    then have "show_nat n = show_nat (n div 10) @ [digit_char (n mod 10)]" by (simp add: show_nat.simps [of n])
    then show ?thesis using 1 False by simp
  qed
qed

lemma show_nat_inject [simp]: "show_nat m = show_nat n \<longleftrightarrow> m = n"
  by (metis digits_val_show_nat)

lemma show_nat_digits [simp]: "list_all is_digit (show_nat n)"
proof (induction n rule: show_nat.induct)
  case (1 n)
  then show ?case by (cases "n < 10") (simp_all add: show_nat.simps [of n])
qed

lemma show_nat_nonempty [simp]: "show_nat n \<noteq> []"
  by (simp add: show_nat.simps [of n])

lemma is_digit_not_space: "is_digit c \<Longrightarrow> \<not> is_space c"
  by (auto simp: is_digit_def is_space_def less_eq_char_def)

lemma trim_padded:
  assumes "s \<noteq> []" and "\<not> is_space (hd s)" and "\<not> is_space (last s)"
    and "list_all is_space a" and "list_all is_space b"
  shows "js_trim (a @ s @ b) = s"
proof -
  have drop: "dropWhile is_space (w @ x) = dropWhile is_space x" if "list_all is_space w" for w x
    using that by (induction w) auto
  have hd: "dropWhile is_space (s @ b) = s @ b" using assms(1,2) by (cases s) auto
  have "dropWhile is_space (rev b @ rev s) = rev s"
    using assms(1,3,5) drop [of "rev b" "rev s"] by (cases "rev s") (auto simp: list_all_rev last_rev hd_rev [symmetric])
  then show ?thesis by (simp add: js_trim_def drop [OF assms(4)] hd)
qed

end
