(* ===== verification/Base_Service.thy ===== *)
theory Base_Service
  imports Prelude
begin

text \<open>
  \<open>libs/common/src/utils/base-operations/base-service-operations.util.ts\<close>, the generic CRUD
  service every module extends, over the entity columns of
  \<open>libs/common/src/abstracts/base-entity.abstract.ts\<close>. A Postgres table is the list of its rows.
  The \<open>select\<close> queries of TypeORM skip the rows whose \<open>@DeleteDateColumn\<close> is set, while
  \<open>update\<close> and \<open>delete\<close> statements see every row. What the database's own constraints reject is
  a parameter (\<open>chk\<close>): it gives the driver error of storing a row in a table, if any.
  \<open>created_at\<close>/\<open>updated_at\<close> are filled in by the database and read by no service, so they are
  left out.
\<close>

section \<open>Entities and tables\<close>

record base_entity =
  eid :: string
  created_by :: "string option"
  updated_by :: "string option"
  is_deleted :: bool
  deleted_reason :: "string option"
  deleted_at :: "nat option"
  deleted_by :: "string option"

type_synonym 'm entity = "'m base_entity_scheme"
type_synonym 'm table = "'m base_entity_scheme list"
type_synonym 'm constraint = "'m base_entity_scheme list \<Rightarrow> 'm base_entity_scheme \<Rightarrow> driver_error option"

text \<open>The optional acting user: absent, a user id, or a session (whose id may be null).\<close>

datatype actor = NoActor | ActorId string | ActorSession "string option"

text \<open>The repository calls.\<close>

definition visible :: "'m entity \<Rightarrow> bool" where
  "visible r \<longleftrightarrow> deleted_at r = None"

definition repo_find :: "('m entity \<Rightarrow> bool) \<Rightarrow> 'm table \<Rightarrow> 'm table" where
  "repo_find p t = filter (\<lambda>r. visible r \<and> p r) t"

definition repo_findOne :: "('m entity \<Rightarrow> bool) \<Rightarrow> 'm table \<Rightarrow> 'm entity option" where
  "repo_findOne p t = List.find (\<lambda>r. visible r \<and> p r) t"

definition repo_count :: "('m entity \<Rightarrow> bool) \<Rightarrow> 'm table \<Rightarrow> nat" where
  "repo_count p t = length (repo_find p t)"

text \<open>\<open>save\<close>: insert a row with a new id, or overwrite the row with that id.\<close>

definition put_row :: "'m entity \<Rightarrow> 'm table \<Rightarrow> 'm table" where
  "put_row r t =
     (if eid r \<in> eid ` set t then map (\<lambda>x. if eid x = eid r then r else x) t else t @ [r])"

definition repo_save :: "'m constraint \<Rightarrow> 'm entity \<Rightarrow> 'm table \<Rightarrow> 'm table result" where
  "repo_save chk r t =
     (case chk t r of Some e \<Rightarrow> Inl (QueryFailedError e) | None \<Rightarrow> Inr (put_row r t))"

fun repo_save_all :: "'m constraint \<Rightarrow> 'm entity list \<Rightarrow> 'm table \<Rightarrow> 'm table result" where
  "repo_save_all chk [] t = Inr t"
| "repo_save_all chk (r # rs) t =
     (case repo_save chk r t of Inl e \<Rightarrow> Inl e | Inr t' \<Rightarrow> repo_save_all chk rs t')"

text \<open>\<open>update(criteria, partial)\<close> and \<open>delete(criteria)\<close>, with the number of affected rows.\<close>

definition repo_update ::
    "('m entity \<Rightarrow> bool) \<Rightarrow> ('m entity \<Rightarrow> 'm entity) \<Rightarrow> 'm table \<Rightarrow> 'm table \<times> nat" where
  "repo_update p f t = (map (\<lambda>r. if p r then f r else r) t, length (filter p t))"

definition repo_delete :: "('m entity \<Rightarrow> bool) \<Rightarrow> 'm table \<Rightarrow> 'm table \<times> nat" where
  "repo_delete p t = (filter (\<lambda>r. \<not> p r) t, length (filter p t))"

section \<open>The private database helpers\<close>

text \<open>\<open>softDeleteFilter\<close>.\<close>

definition softDeleteFilter :: "'m entity \<Rightarrow> bool" where
  "softDeleteFilter r \<longleftrightarrow> \<not> is_deleted r \<and> deleted_at r = None"

text \<open>\<open>_extractUserId\<close>: \<open>None\<close> is undefined.\<close>

fun extractUserId :: "actor \<Rightarrow> string option" where
  "extractUserId NoActor = None"
| "extractUserId (ActorId u) = Some u"
| "extractUserId (ActorSession i) = i"

text \<open>Stamping the audit columns; with a session whose id is null the columns become null.\<close>

fun stamp_created :: "actor \<Rightarrow> 'm entity \<Rightarrow> 'm entity" where
  "stamp_created NoActor r = r"
| "stamp_created (ActorId u) r = r\<lparr>created_by := Some u, updated_by := Some u\<rparr>"
| "stamp_created (ActorSession i) r = r\<lparr>created_by := i, updated_by := i\<rparr>"

fun stamp_updated :: "actor \<Rightarrow> 'm entity \<Rightarrow> 'm entity" where
  "stamp_updated NoActor r = r"
| "stamp_updated (ActorId u) r = r\<lparr>updated_by := Some u\<rparr>"
| "stamp_updated (ActorSession i) r = r\<lparr>updated_by := i\<rparr>"

fun stamp_deleted_by :: "actor \<Rightarrow> 'm entity \<Rightarrow> 'm entity" where
  "stamp_deleted_by NoActor r = r"
| "stamp_deleted_by (ActorId u) r = r\<lparr>deleted_by := Some u\<rparr>"
| "stamp_deleted_by (ActorSession i) r = r\<lparr>deleted_by := i\<rparr>"

text \<open>\<open>_createEntity\<close>: \<open>data\<close> is the entity \<open>repository.create(data)\<close> builds and \<open>new_id\<close> the
  generated key.\<close>

definition createEntity ::
    "'m constraint \<Rightarrow> string \<Rightarrow> 'm entity \<Rightarrow> actor \<Rightarrow> 'm table \<Rightarrow> ('m table \<times> 'm entity) result" where
  "createEntity chk new_id data user t =
     (let entity = stamp_created user (data\<lparr>eid := new_id\<rparr>)
      in case repo_save chk entity t of Inl e \<Rightarrow> Inl e | Inr t' \<Rightarrow> Inr (t', entity))"

definition findEntityById :: "string \<Rightarrow> 'm table \<Rightarrow> 'm entity option" where
  "findEntityById i t = repo_findOne (\<lambda>r. eid r = i \<and> softDeleteFilter r) t"

text \<open>\<open>preload\<close>: loads the row by key and merges the partial onto it, without saving.\<close>

definition preload ::
    "string \<Rightarrow> ('m entity \<Rightarrow> 'm entity) \<Rightarrow> actor \<Rightarrow> 'm table \<Rightarrow> 'm entity option" where
  "preload i patch user t =
     map_option (\<lambda>r. stamp_updated user ((patch r)\<lparr>eid := i\<rparr>)) (repo_findOne (\<lambda>r. eid r = i) t)"

definition soft_deleted :: "nat \<Rightarrow> actor \<Rightarrow> 'm entity \<Rightarrow> 'm entity" where
  "soft_deleted now user r = stamp_deleted_by user (r\<lparr>is_deleted := True, deleted_at := Some now\<rparr>)"

definition deleteEntity ::
    "nat \<Rightarrow> string \<Rightarrow> bool \<Rightarrow> actor \<Rightarrow> 'm table \<Rightarrow> 'm table \<times> nat" where
  "deleteEntity now i softDelete user t =
     (if softDelete then repo_update (\<lambda>r. eid r = i) (soft_deleted now user) t
      else repo_delete (\<lambda>r. eid r = i) t)"

definition createBulkEntities ::
    "'m constraint \<Rightarrow> (string \<times> 'm entity) list \<Rightarrow> actor \<Rightarrow> 'm table \<Rightarrow> 'm table result" where
  "createBulkEntities chk dataArray user t =
     repo_save_all chk (map (\<lambda>(i, d). stamp_created user (d\<lparr>eid := i\<rparr>)) dataArray) t"

text \<open>\<open>_deleteBulkEntities\<close>: only rows that are still active are stamped.\<close>

definition deleteBulkEntities ::
    "nat \<Rightarrow> string list \<Rightarrow> bool \<Rightarrow> actor \<Rightarrow> string option \<Rightarrow> 'm table \<Rightarrow> 'm table \<times> nat" where
  "deleteBulkEntities now ids softDelete user reason t =
     (if softDelete
      then repo_update (\<lambda>r. eid r \<in> set ids \<and> softDeleteFilter r)
             (\<lambda>r. let r' = soft_deleted now user r
                  in case reason of None \<Rightarrow> r' | Some s \<Rightarrow> r'\<lparr>deleted_reason := Some s\<rparr>) t
      else repo_delete (\<lambda>r. eid r \<in> set ids) t)"

subsection \<open>Bulk reconciliation\<close>

text \<open>An incoming item of \<open>updateBulk\<close>: with an id it is a patch of that row, without one it is
  a new entity (the \<open>string\<close> is the key the database will generate for it).\<close>

datatype 'm bulk_item = BulkUpdate string "'m entity \<Rightarrow> 'm entity" | BulkCreate string "'m entity"

fun categorizeIncomingData :: "'m bulk_item list \<Rightarrow>
    (string \<times> 'm entity) list \<times> (string \<times> ('m entity \<Rightarrow> 'm entity)) list \<times> string list" where
  "categorizeIncomingData [] = ([], [], [])"
| "categorizeIncomingData (item # items) =
     (let (toCreate, toUpdate, incomingIds) = categorizeIncomingData items
      in case item of
           BulkUpdate i f \<Rightarrow> (toCreate, (i, f) # toUpdate, i # incomingIds)
         | BulkCreate i d \<Rightarrow> ((i, d) # toCreate, toUpdate, incomingIds))"

text \<open>\<open>scope\<close> writes the columns of the \<open>filter\<close> argument onto a new entity.\<close>

definition created_entity ::
    "('m entity \<Rightarrow> 'm entity) \<Rightarrow> string option \<Rightarrow> string \<Rightarrow> 'm entity \<Rightarrow> 'm entity" where
  "created_entity scope userId i d =
     (let e = (scope d)\<lparr>eid := i\<rparr>
      in case userId of None \<Rightarrow> e | Some u \<Rightarrow> e\<lparr>created_by := Some u, updated_by := Some u\<rparr>)"

definition processCreates ::
    "(string \<times> 'm entity) list \<Rightarrow> ('m entity \<Rightarrow> 'm entity) \<Rightarrow> string option \<Rightarrow> 'm entity list" where
  "processCreates toCreate scope userId = map (\<lambda>(i, d). created_entity scope userId i d) toCreate"

definition processUpdates ::
    "(string \<times> ('m entity \<Rightarrow> 'm entity)) list \<Rightarrow> string option \<Rightarrow> 'm table \<Rightarrow> 'm entity list" where
  "processUpdates toUpdate userId t =
     List.map_filter (\<lambda>(i, f). preload i f (case userId of None \<Rightarrow> NoActor | Some u \<Rightarrow> ActorId u) t) toUpdate"

definition processDeletes ::
    "nat \<Rightarrow> string list \<Rightarrow> actor \<Rightarrow> string option \<Rightarrow> 'm table \<Rightarrow> 'm table" where
  "processDeletes now idsToDelete user reason t =
     (if idsToDelete = [] then t else fst (deleteBulkEntities now idsToDelete True user reason t))"

text \<open>\<open>_updateBulkEntities\<close>, one transaction: \<open>in_scope\<close> is the \<open>filter\<close> as a predicate and
  \<open>scope\<close> the same filter as an assignment. A failing save rolls everything back.\<close>

definition updateBulkEntities ::
    "'m constraint \<Rightarrow> nat \<Rightarrow> 'm bulk_item list \<Rightarrow> ('m entity \<Rightarrow> bool) \<Rightarrow> ('m entity \<Rightarrow> 'm entity)
      \<Rightarrow> actor \<Rightarrow> bool \<Rightarrow> 'm table \<Rightarrow> ('m table \<times> 'm entity list) result" where
  "updateBulkEntities chk now dataArray in_scope scope user skipDelete t =
     (if dataArray = [] then Inr (t, [])
      else
        let userId = extractUserId user;
            existingEntities = (if skipDelete then [] else repo_find (\<lambda>r. softDeleteFilter r \<and> in_scope r) t);
            (toCreate, toUpdate, incomingIds) = categorizeIncomingData dataArray;
            idsToDelete = (if skipDelete then []
                           else map eid (filter (\<lambda>r. eid r \<notin> set incomingIds) existingEntities));
            createdEntities = processCreates toCreate scope userId;
            updatedEntities = processUpdates toUpdate userId t;
            t1 = processDeletes now idsToDelete user (Some ''delete with bulk reconcile'') t;
            entitiesToSave = createdEntities @ updatedEntities
        in if entitiesToSave = [] then Inr (t1, [])
           else case repo_save_all chk entitiesToSave t1 of
                  Inl e \<Rightarrow> Inl e
                | Inr t2 \<Rightarrow> Inr (t2, entitiesToSave))"

subsection \<open>Relations of \<open>update\<close>\<close>

text \<open>\<open>syncOne\<close> of \<open>_syncManyToManyRelations\<close>: the ids to add and to remove. \<open>rawItems\<close> are the
  related rows as (id, is_deleted); empty ids of the payload are dropped.\<close>

definition syncOne :: "bool \<Rightarrow> (string \<times> bool) list \<Rightarrow> string list \<Rightarrow> string list \<times> string list" where
  "syncOne hasSoftDelete rawItems newItems =
     (let currentIds = (if hasSoftDelete then map fst (filter (\<lambda>(i, d). \<not> d) rawItems)
                        else map fst rawItems);
          newIds = filter (\<lambda>i. i \<noteq> []) newItems
      in (filter (\<lambda>i. i \<notin> set currentIds) newIds, filter (\<lambda>i. i \<notin> set newIds) currentIds))"

text \<open>\<open>addAndRemove\<close> on the ids linked to one row of a junction table.\<close>

definition addAndRemove :: "string list \<times> string list \<Rightarrow> string set \<Rightarrow> string set" where
  "addAndRemove d linked = (linked \<union> set (fst d)) - set (snd d)"

record update_options =
  hardDeleteOneToMany :: bool
  softDeleteOneToMany :: bool

text \<open>The defaults of \<open>IUpdateOptions\<close>.\<close>

definition default_update_options :: update_options where
  "default_update_options = \<lparr>hardDeleteOneToMany = False, softDeleteOneToMany = True\<rparr>"

text \<open>Step 6a of \<open>update\<close>: the children of \<open>parent\<close> (\<open>fk r\<close> is their foreign key) that the
  payload does not name. \<open>incoming\<close> holds the ids the payload children have after they were
  saved.\<close>

definition orphan_handling ::
    "nat \<Rightarrow> actor \<Rightarrow> update_options \<Rightarrow> ('m entity \<Rightarrow> string) \<Rightarrow> string \<Rightarrow> string list
      \<Rightarrow> 'm table \<Rightarrow> 'm table" where
  "orphan_handling now user opts fk parent incoming t =
     (if hardDeleteOneToMany opts \<or> softDeleteOneToMany opts
      then let existingChildren = repo_find (\<lambda>r. fk r = parent \<and> \<not> is_deleted r) t;
               orphanIds = filter (\<lambda>i. i \<notin> set incoming) (map eid existingChildren)
           in if orphanIds = [] then t
              else if hardDeleteOneToMany opts then fst (repo_delete (\<lambda>r. eid r \<in> set orphanIds) t)
              else fst (repo_update (\<lambda>r. eid r \<in> set orphanIds)
                     (\<lambda>r. (soft_deleted now user r)\<lparr>deleted_reason := Some ''delete with cascade''\<rparr>) t)
      else t)"

section \<open>The error boundary\<close>

text \<open>\<open>/Key \(([^)]+)\)=/\<close> on the detail of a unique violation: the first capture.\<close>

fun match_key_columns :: "string \<Rightarrow> string option" where
  "match_key_columns [] = None"
| "match_key_columns (c # s) =
     (let body = drop 5 (c # s); cols = takeWhile (\<lambda>x. x \<noteq> CHR '')'') body;
          after = dropWhile (\<lambda>x. x \<noteq> CHR '')'') body
      in if is_prefix ''Key ('' (c # s) \<and> cols \<noteq> [] \<and> is_prefix '')='' after then Some cols
         else match_key_columns s)"

text \<open>\<open>/is still referenced from table "(\w+)"/\<close>.\<close>

fun match_referenced_table :: "string \<Rightarrow> string option" where
  "match_referenced_table [] = None"
| "match_referenced_table (c # s) =
     (let pre = ''is still referenced from table '' @ [CHR 0x22];
          body = drop (length pre) (c # s); tab = takeWhile is_word_char body;
          after = dropWhile is_word_char body
      in if is_prefix pre (c # s) \<and> tab \<noteq> [] \<and> is_prefix [CHR 0x22] after then Some tab
         else match_referenced_table s)"

definition underscores_to_spaces :: "string \<Rightarrow> string" where
  "underscores_to_spaces = js_replace_char (CHR ''_'') (CHR '' '')"

text \<open>\<open>name.replace(/^fk_.*?_/, '')\<close>.\<close>

definition strip_fk_prefix :: "string \<Rightarrow> string" where
  "strip_fk_prefix s =
     (let body = drop 3 s; after = dropWhile (\<lambda>x. x \<noteq> CHR ''_'' \<and> x \<noteq> CHR 0x0A \<and> x \<noteq> CHR 0x0D) body
      in if is_prefix ''fk_'' s \<and> is_prefix ''_'' after then drop 1 after else s)"

definition unique_violation_message :: "string option \<Rightarrow> string" where
  "unique_violation_message detail =
     (case Option.bind detail match_key_columns of
        Some cols \<Rightarrow> ''A record with this ''
          @ js_join '' and '' (map (\<lambda>c. underscores_to_spaces (js_trim c)) (js_split (CHR '','') cols))
          @ '' already exists.''
      | None \<Rightarrow> ''A record with the provided details already exists.'')"

text \<open>The \<open>switch\<close> on the SQLSTATE code.\<close>

definition map_driver_error :: "string \<Rightarrow> driver_error \<Rightarrow> js_error" where
  "map_driver_error tableName e =
     (if de_code e = Some ''23505''
      then HttpException Conflict (Some ''23505'') (unique_violation_message (de_detail e))
      else if de_code e = Some ''23503'' then
        (let fkDetail = (case de_detail e of None \<Rightarrow> [] | Some d \<Rightarrow> d);
             fkTable = (case de_table e of None \<Rightarrow> tableName | Some t \<Rightarrow> t)
         in if js_includes ''is still referenced from table'' fkDetail
            then HttpException Conflict (Some ''23503'')
                   (''Cannot delete this '' @ underscores_to_spaces fkTable
                     @ '' because it is still referenced by ''
                     @ (case match_referenced_table fkDetail of
                          Some t \<Rightarrow> underscores_to_spaces t | None \<Rightarrow> ''another record'') @ ''.'')
            else HttpException BadRequest (Some ''23503'')
                   (case de_constraint e of
                      Some c \<Rightarrow> ''Invalid reference for '' @ quoted (underscores_to_spaces (strip_fk_prefix c))
                        @ ''. The referenced record does not exist.''
                    | None \<Rightarrow> ''Invalid reference to another record. Please check your input.''))
      else if de_code e = Some ''23502''
      then HttpException BadRequest (Some ''23502'')
             (case de_column e of
                Some c \<Rightarrow> ''Required field '' @ quoted c @ '' cannot be empty.''
              | None \<Rightarrow> ''A required field was left empty. Please check your input.'')
      else if de_code e = Some ''22P02''
      then HttpException BadRequest (Some ''22P02'') ''Invalid format for a field. Please check your input.''
      else if de_code e = Some ''22001''
      then HttpException BadRequest (Some ''22001'')
             ''The value provided for a field is too long. Please shorten the input.''
      else HttpException InternalServerError
             (Some (case de_code e of None \<Rightarrow> ''DATABASE_ERROR'' | Some c \<Rightarrow> c))
             (''Database error ('' @ (case de_code e of None \<Rightarrow> ''UNKNOWN'' | Some c \<Rightarrow> c)
               @ '') on table '' @ tableName @ '': ''
               @ (case de_message e of None \<Rightarrow> ''Unknown error'' | Some m \<Rightarrow> m)))"

definition executeDbOperation :: "string \<Rightarrow> 'a result \<Rightarrow> 'a result" where
  "executeDbOperation tableName r =
     (case r of
        Inr x \<Rightarrow> Inr x
      | Inl (HttpException k c m) \<Rightarrow> Inl (HttpException k c m)
      | Inl (EntityPropertyNotFoundError m) \<Rightarrow> Inl (HttpException BadRequest (Some ''INVALID_PROPERTY'') m)
      | Inl OptimisticLockVersionMismatchError \<Rightarrow>
          Inl (HttpException Conflict (Some ''OPTIMISTIC_LOCK_CONFLICT'')
            (''The record was modified by another user. Please refresh and try again. Conflicting table: ''
              @ tableName))
      | Inl (QueryFailedError e) \<Rightarrow> Inl (map_driver_error tableName e)
      | Inl (PlainError m) \<Rightarrow> Inl (PlainError m))"

section \<open>The public operations\<close>

definition base_create ::
    "string \<Rightarrow> 'm constraint \<Rightarrow> string \<Rightarrow> 'm entity \<Rightarrow> actor \<Rightarrow> 'm table
      \<Rightarrow> ('m table \<times> 'm entity) result" where
  "base_create tableName chk new_id data user t =
     executeDbOperation tableName (createEntity chk new_id data user t)"

definition not_found_message :: "string \<Rightarrow> string \<Rightarrow> string" where
  "not_found_message tableName i = tableName @ '' with ID '' @ quoted i @ '' not found.''"

definition base_findById :: "string \<Rightarrow> string \<Rightarrow> 'm table \<Rightarrow> 'm entity result" where
  "base_findById tableName i t =
     (case findEntityById i t of
        None \<Rightarrow> Inl (NotFoundException (not_found_message tableName i))
      | Some r \<Rightarrow> Inr r)"

text \<open>\<open>update\<close> of the scalar columns (steps 4 and 5).\<close>

definition base_update ::
    "string \<Rightarrow> 'm constraint \<Rightarrow> string \<Rightarrow> ('m entity \<Rightarrow> 'm entity) \<Rightarrow> actor \<Rightarrow> 'm table
      \<Rightarrow> ('m table \<times> 'm entity) result" where
  "base_update tableName chk i patch user t =
     executeDbOperation tableName
       (case preload i patch user t of
          None \<Rightarrow> Inl (NotFoundException (not_found_message tableName i))
        | Some e \<Rightarrow> (case repo_save chk e t of Inl x \<Rightarrow> Inl x | Inr t' \<Rightarrow> Inr (t', e)))"

text \<open>The whole of \<open>update\<close> for an entity with one one-to-many and one many-to-many relation: the
  state is the parent table, the child table and the ids linked to the row \<open>i\<close>. A payload that
  omits a relation is \<open>None\<close>. A child of the payload is its id (given or generated), the entity it
  becomes when new, and the merge of its columns when it exists; \<open>set_fk\<close> writes the foreign key.
  \<open>related\<close> gives the linked rows as (id, is_deleted).\<close>

definition saved_children ::
    "(string \<Rightarrow> 'c entity \<Rightarrow> 'c entity) \<Rightarrow> string \<Rightarrow> (string \<times> 'c entity \<times> ('c entity \<Rightarrow> 'c entity)) list
      \<Rightarrow> 'c table \<Rightarrow> 'c entity list" where
  "saved_children set_fk i children c =
     map (\<lambda>(k, fresh, merge). (set_fk i (case List.find (\<lambda>r. eid r = k) c of None \<Rightarrow> fresh | Some r \<Rightarrow> merge r))\<lparr>eid := k\<rparr>)
       children"

definition base_update_relations ::
    "string \<Rightarrow> 'm constraint \<Rightarrow> 'c constraint \<Rightarrow> nat \<Rightarrow> (string \<Rightarrow> 'c entity \<Rightarrow> 'c entity) \<Rightarrow> ('c entity \<Rightarrow> string)
      \<Rightarrow> (string \<Rightarrow> (string \<times> bool) list) \<Rightarrow> bool \<Rightarrow> string \<Rightarrow> ('m entity \<Rightarrow> 'm entity)
      \<Rightarrow> (string \<times> 'c entity \<times> ('c entity \<Rightarrow> 'c entity)) list option \<Rightarrow> string list option
      \<Rightarrow> actor \<Rightarrow> update_options \<Rightarrow> 'm table \<times> 'c table \<times> string set
      \<Rightarrow> ('m table \<times> 'c table \<times> string set) result" where
  "base_update_relations tableName chk chkc now set_fk fk related hasSoftDelete i patch children m2m user opts s =
     (case s of (t, c, links) \<Rightarrow> executeDbOperation tableName
       (case preload i patch user t of
          None \<Rightarrow> Inl (NotFoundException (not_found_message tableName i))
        | Some e \<Rightarrow>
        case repo_save chk e t of
          Inl x \<Rightarrow> Inl x
        | Inr t' \<Rightarrow>
        case (case children of
                None \<Rightarrow> Inr c
              | Some cs \<Rightarrow>
                  (case repo_save_all chkc (saved_children set_fk i cs c) c of
                     Inl x \<Rightarrow> Inl x
                   | Inr c' \<Rightarrow> Inr (orphan_handling now user opts fk i (map fst cs) c'))) of
          Inl x \<Rightarrow> Inl x
        | Inr c' \<Rightarrow>
          Inr (t', c', case m2m of None \<Rightarrow> links
                       | Some new \<Rightarrow> addAndRemove (syncOne hasSoftDelete (related i) new) links)))"

definition base_createBulk ::
    "string \<Rightarrow> 'm constraint \<Rightarrow> (string \<times> 'm entity) list \<Rightarrow> actor \<Rightarrow> 'm table \<Rightarrow> 'm table result" where
  "base_createBulk tableName chk dataArray user t =
     (if dataArray = [] then Inr t
      else executeDbOperation tableName (createBulkEntities chk dataArray user t))"

definition base_updateBulk ::
    "string \<Rightarrow> 'm constraint \<Rightarrow> nat \<Rightarrow> 'm bulk_item list \<Rightarrow> ('m entity \<Rightarrow> bool)
      \<Rightarrow> ('m entity \<Rightarrow> 'm entity) \<Rightarrow> actor \<Rightarrow> bool \<Rightarrow> 'm table \<Rightarrow> ('m table \<times> 'm entity list) result" where
  "base_updateBulk tableName chk now updates in_scope scope user skipDelete t =
     (if updates = [] then Inr (t, [])
      else executeDbOperation tableName
             (updateBulkEntities chk now updates in_scope scope user skipDelete t))"

definition base_delete ::
    "string \<Rightarrow> nat \<Rightarrow> string \<Rightarrow> bool \<Rightarrow> actor \<Rightarrow> 'm table \<Rightarrow> 'm table result" where
  "base_delete tableName now i softDelete user t =
     (let (t', affected) = deleteEntity now i softDelete user t
      in if affected = 0 then Inl (NotFoundException (not_found_message tableName i)) else Inr t')"

definition base_deleteBulk ::
    "nat \<Rightarrow> string list \<Rightarrow> bool \<Rightarrow> actor \<Rightarrow> 'm table \<Rightarrow> 'm table \<times> nat" where
  "base_deleteBulk now ids softDelete user t =
     (if ids = [] then (t, 0) else deleteBulkEntities now ids softDelete user None t)"

section \<open>Tables with distinct keys\<close>

definition keys_ok :: "'m table \<Rightarrow> bool" where
  "keys_ok t \<longleftrightarrow> distinct (map eid t)"

text \<open>The raw row with a key, whatever its delete columns say.\<close>

definition row :: "'m table \<Rightarrow> string \<Rightarrow> 'm entity option" where
  "row t i = List.find (\<lambda>r. eid r = i) t"

lemma row_key: "row t i = Some r \<Longrightarrow> eid r = i"
  by (auto simp: row_def dest: find_Some_iff_mem)

lemma row_mem: "row t i = Some r \<Longrightarrow> r \<in> set t"
  by (auto simp: row_def dest: find_Some_iff_mem)

lemma row_None: "row t i = None \<longleftrightarrow> i \<notin> eid ` set t"
  by (auto simp: row_def find_None_iff)

lemma row_of_mem: "keys_ok t \<Longrightarrow> r \<in> set t \<Longrightarrow> row t (eid r) = Some r"
  unfolding row_def keys_ok_def by (rule find_distinct_key)

lemma keys_eq: "keys_ok t \<Longrightarrow> x \<in> set t \<Longrightarrow> y \<in> set t \<Longrightarrow> eid x = eid y \<Longrightarrow> x = y"
  unfolding keys_ok_def by (rule distinct_map_eqI)

lemma keys_image_iff:
  assumes "keys_ok t" and "r \<in> set t"
  shows "eid r \<in> eid ` {x \<in> set t. P x} \<longleftrightarrow> P r"
proof
  assume "eid r \<in> eid ` {x \<in> set t. P x}"
  then obtain x where "x \<in> set t" "P x" "eid x = eid r" by auto
  moreover from this have "x = r" using keys_eq [OF assms(1)] assms(2) by metis
  ultimately show "P r" by simp
qed (use assms(2) in auto)

lemma row_iff: "keys_ok t \<Longrightarrow> row t i = Some r \<longleftrightarrow> r \<in> set t \<and> eid r = i"
  by (auto dest: row_key row_mem intro: row_of_mem)

lemma findOne_row:
  assumes "keys_ok t"
  shows "repo_findOne (\<lambda>r. eid r = i \<and> p r) t =
    (case row t i of None \<Rightarrow> None | Some r \<Rightarrow> if visible r \<and> p r then Some r else None)"
proof (cases "repo_findOne (\<lambda>r. eid r = i \<and> p r) t")
  case None
  then have "\<not> (visible r \<and> p r)" if "row t i = Some r" for r
    using that row_key row_mem by (fastforce simp: repo_findOne_def find_None_iff)
  then show ?thesis using None by (auto split: option.splits)
next
  case (Some r)
  then have "r \<in> set t" "eid r = i" "visible r" "p r"
    by (auto simp: repo_findOne_def dest: find_Some_iff_mem)
  then show ?thesis using Some row_of_mem [OF assms] by fastforce
qed

lemma put_row_set: "set (put_row r t) \<subseteq> insert r {x \<in> set t. eid x \<noteq> eid r}"
  by (auto simp: put_row_def image_iff)

lemma save_set: "repo_save chk r t = Inr t' \<Longrightarrow> set t' \<subseteq> insert r (set t)"
  using put_row_set by (fastforce simp: repo_save_def split: option.splits)

lemma keys_put_row [simp]: "keys_ok t \<Longrightarrow> keys_ok (put_row r t)"
proof (cases "eid r \<in> eid ` set t")
  case True
  assume "keys_ok t"
  have "map eid (map (\<lambda>x. if eid x = eid r then r else x) t) = map eid t" by auto
  then show ?thesis using True \<open>keys_ok t\<close> by (simp add: put_row_def keys_ok_def del: map_map)
qed (simp add: put_row_def keys_ok_def)

lemma row_map_same_keys:
  assumes "\<And>x. eid (f x) = eid x"
  shows "row (map f t) i = map_option f (row t i)"
  using assms by (induction t) (auto simp: row_def)

lemma row_append: "row (t @ u) i = (case row t i of None \<Rightarrow> row u i | Some r \<Rightarrow> Some r)"
  by (induction t) (auto simp: row_def)

lemma row_Nil [simp]: "row [] i = None"
  by (simp add: row_def)

lemma row_single: "row [r] i = (if eid r = i then Some r else None)"
  by (simp add: row_def)

lemma row_put_row: "row (put_row r t) = (row t)(eid r \<mapsto> r)"
proof
  fix i
  show "row (put_row r t) i = ((row t)(eid r \<mapsto> r)) i"
  proof (cases "eid r \<in> eid ` set t")
    case True
    have "row (put_row r t) i = map_option (\<lambda>x. if eid x = eid r then r else x) (row t i)"
      using True by (simp add: put_row_def row_map_same_keys)
    then show ?thesis using True row_None [of t i] row_key [of t i] by (cases "row t i") auto
  next
    case False
    then show ?thesis
      using row_None [of t "eid r"] by (auto simp: put_row_def row_append row_single split: option.splits)
  qed
qed

lemma stamp_keeps [simp]:
  "eid (stamp_created u r) = eid r" "eid (stamp_updated u r) = eid r" "eid (stamp_deleted_by u r) = eid r"
  "is_deleted (stamp_created u r) = is_deleted r" "deleted_at (stamp_created u r) = deleted_at r"
  "is_deleted (stamp_updated u r) = is_deleted r" "deleted_at (stamp_updated u r) = deleted_at r"
  "is_deleted (stamp_deleted_by u r) = is_deleted r" "deleted_at (stamp_deleted_by u r) = deleted_at r"
  by (cases u; simp)+

lemma soft_deleted_simps [simp]:
  "eid (soft_deleted now u r) = eid r" "is_deleted (soft_deleted now u r)"
  "deleted_at (soft_deleted now u r) = Some now"
  by (simp_all add: soft_deleted_def)

lemma soft_deleted_not_live [simp]: "\<not> softDeleteFilter (soft_deleted now u r)"
  by (simp add: softDeleteFilter_def)

lemma findEntityById_row:
  "keys_ok t \<Longrightarrow> findEntityById i t =
    (case row t i of None \<Rightarrow> None | Some r \<Rightarrow> if softDeleteFilter r then Some r else None)"
  by (simp add: findEntityById_def findOne_row softDeleteFilter_def visible_def split: option.splits)

lemma preload_row:
  "keys_ok t \<Longrightarrow> preload i f u t =
    (case row t i of None \<Rightarrow> None
     | Some r \<Rightarrow> if visible r then Some (stamp_updated u ((f r)\<lparr>eid := i\<rparr>)) else None)"
  using findOne_row [of t i "\<lambda>_. True"] by (simp add: preload_def split: option.splits)

lemma update_row:
  assumes "\<And>r. eid (f r) = eid r"
  shows "row (fst (repo_update p f t)) i = map_option (\<lambda>r. if p r then f r else r) (row t i)"
  using assms by (simp add: repo_update_def row_map_same_keys)

lemma update_keys [simp]:
  assumes "\<And>r. eid (f r) = eid r"
  shows "keys_ok (fst (repo_update p f t)) \<longleftrightarrow> keys_ok t"
proof -
  have "map eid (fst (repo_update p f t)) = map eid t" using assms by (simp add: repo_update_def)
  then show ?thesis by (simp add: keys_ok_def)
qed

lemma delete_keys [simp]: "keys_ok t \<Longrightarrow> keys_ok (fst (repo_delete p t))"
  by (auto simp: repo_delete_def keys_ok_def distinct_map intro: inj_on_subset)

lemma delete_row:
  assumes "keys_ok t"
  shows "row (fst (repo_delete p t)) i =
    (case row t i of None \<Rightarrow> None | Some r \<Rightarrow> if p r then None else Some r)"
proof (cases "row t i")
  case None
  then have "row (fst (repo_delete p t)) i = None" by (auto simp: row_None repo_delete_def)
  then show ?thesis using None by simp
next
  case (Some r)
  then have r: "r \<in> set t" "eid r = i" by (auto dest: row_mem row_key)
  show ?thesis
  proof (cases "p r")
    case True
    have "x = r" if "x \<in> set t" "eid x = i" for x
      using row_of_mem [OF assms that(1)] that(2) Some by simp
    then have "row (fst (repo_delete p t)) i = None"
      unfolding row_None repo_delete_def using True by auto
    then show ?thesis using Some True by simp
  next
    case False
    then have "row (fst (repo_delete p t)) i = Some r"
      using r by (subst row_iff [OF delete_keys [OF assms]]) (simp add: repo_delete_def)
    then show ?thesis using Some False by simp
  qed
qed

section \<open>The service as an abstract store\<close>

text \<open>What a client of the service relies on: a finite map from keys to live entities.\<close>

locale entity_store =
  fixes inv :: "'t \<Rightarrow> bool"
    and lookup :: "'t \<Rightarrow> string \<Rightarrow> 'e option"
    and store :: "'e \<Rightarrow> 't \<Rightarrow> 't"
    and remove :: "string \<Rightarrow> 't \<Rightarrow> 't"
    and key :: "'e \<Rightarrow> string"
    and live :: "'e \<Rightarrow> bool"
  assumes lookup_store: "inv t \<Longrightarrow> live e \<Longrightarrow> lookup (store e t) = (lookup t)(key e \<mapsto> e)"
    and lookup_remove: "inv t \<Longrightarrow> lookup (remove i t) = (lookup t)(i := None)"
    and inv_store: "inv t \<Longrightarrow> inv (store e t)"
    and inv_remove: "inv t \<Longrightarrow> inv (remove i t)"
begin

lemma store_remove_other:
  "inv t \<Longrightarrow> live e \<Longrightarrow> key e \<noteq> i \<Longrightarrow>
    lookup (remove i (store e t)) = lookup (store e (remove i t))"
  by (simp add: lookup_store lookup_remove inv_store inv_remove fun_upd_twist)

lemma store_then_remove:
  "inv t \<Longrightarrow> live e \<Longrightarrow> lookup (remove (key e) (store e t)) = (lookup t)(key e := None)"
  by (simp add: lookup_store lookup_remove inv_store)

lemma remove_idem: "inv t \<Longrightarrow> lookup (remove i (remove i t)) = lookup (remove i t)"
  by (simp add: lookup_remove inv_remove)

end

abbreviation live_rows :: "'m table \<Rightarrow> string \<Rightarrow> 'm entity option" where
  "live_rows t i \<equiv> findEntityById i t"

lemma live_rows_put:
  "keys_ok t \<Longrightarrow> softDeleteFilter e \<Longrightarrow> live_rows (put_row e t) = (live_rows t)(eid e \<mapsto> e)"
  by (rule ext) (simp add: findEntityById_row row_put_row)

lemma live_rows_delete:
  "keys_ok t \<Longrightarrow> live_rows (fst (deleteEntity now i soft u t)) = (live_rows t)(i := None)"
  by (rule ext) (auto simp: deleteEntity_def findEntityById_row update_row delete_row row_key
      split: option.splits)

lemma deleteEntity_keys: "keys_ok t \<Longrightarrow> keys_ok (fst (deleteEntity now i soft u t))"
  by (simp add: deleteEntity_def)

interpretation soft_store: entity_store keys_ok live_rows put_row
    "\<lambda>i t. fst (deleteEntity now i True u t)" eid softDeleteFilter
  for now u
  by unfold_locales (simp_all add: live_rows_put live_rows_delete deleteEntity_keys)

interpretation hard_store: entity_store keys_ok live_rows put_row
    "\<lambda>i t. fst (deleteEntity now i False u t)" eid softDeleteFilter
  for now u
  by unfold_locales (simp_all add: live_rows_put live_rows_delete deleteEntity_keys)

section \<open>Lemmas on bulk reconciliation\<close>

lemma base_findById_Inr: "base_findById tn i t = Inr r \<longleftrightarrow> findEntityById i t = Some r"
  by (simp add: base_findById_def split: option.splits)

lemma findEntityById_Some:
  assumes "findEntityById i t = Some r"
  shows "r \<in> set t" and "eid r = i" and "softDeleteFilter r"
  using assms by (auto simp: findEntityById_def repo_findOne_def dest: find_Some_iff_mem)

lemma executeDbOperation_Inr: "executeDbOperation tn r = Inr x \<longleftrightarrow> r = Inr x"
  by (cases r) (auto simp: executeDbOperation_def split: js_error.splits)

lemma save_all_row:
  assumes "repo_save_all chk rs t = Inr t'" and "distinct (map eid rs)"
  shows "row t' i = (case row rs i of None \<Rightarrow> row t i | Some r \<Rightarrow> Some r)"
  using assms
proof (induction rs arbitrary: t)
  case Nil
  then show ?case by (simp add: row_def)
next
  case (Cons r rs)
  then have "repo_save_all chk rs (put_row r t) = Inr t'"
    by (auto simp: repo_save_def split: option.splits sum.splits)
  then have "row t' i = (case row rs i of None \<Rightarrow> row (put_row r t) i | Some x \<Rightarrow> Some x)"
    using Cons by simp
  moreover have "row rs (eid r) = None" using Cons.prems(2) by (simp add: row_None)
  ultimately show ?case by (auto simp: row_put_row row_def split: option.splits)
qed

lemma categorize_ids:
  "categorizeIncomingData items = (cs, us, ids) \<Longrightarrow> ids = map fst us"
  by (induction items arbitrary: cs us ids)
    (auto split: prod.splits bulk_item.splits)

lemma created_entity_key [simp]: "eid (created_entity scope uid i d) = i"
  by (simp add: created_entity_def Let_def split: option.splits)

lemma processCreates_keys [simp]: "map eid (processCreates cs scope uid) = map fst cs"
  by (auto simp: processCreates_def)

lemma processUpdates_keys: "eid ` set (processUpdates us uid t) \<subseteq> fst ` set us"
  by (induction us) (auto simp: processUpdates_def map_filter_simps preload_def split: option.splits)

lemma processUpdates_distinct:
  "distinct (map fst us) \<Longrightarrow> distinct (map eid (processUpdates us uid t))"
proof (induction us)
  case (Cons x us)
  then show ?case
    using processUpdates_keys [of us uid t]
    by (cases x) (auto simp: processUpdates_def map_filter_simps preload_def split: option.splits)
qed (simp add: processUpdates_def map_filter_simps)

lemma preload_key: "preload i f u t = Some r \<Longrightarrow> eid r = i"
  by (auto simp: preload_def)

lemma processUpdates_Cons:
  "processUpdates ((i, f) # us) uid t =
    (case preload i f (case uid of None \<Rightarrow> NoActor | Some u \<Rightarrow> ActorId u) t of
       None \<Rightarrow> processUpdates us uid t | Some r \<Rightarrow> r # processUpdates us uid t)"
  by (simp add: processUpdates_def map_filter_simps split: option.splits)

lemma processUpdates_row:
  "distinct (map fst us) \<Longrightarrow> (i, f) \<in> set us \<Longrightarrow>
    row (processUpdates us uid t) i
      = preload i f (case uid of None \<Rightarrow> NoActor | Some u \<Rightarrow> ActorId u) t"
proof (induction us)
  case (Cons x us)
  obtain j g where x: "x = (j, g)" by (cases x)
  have none: "row (processUpdates us uid t) j = None"
    using Cons.prems(1) x processUpdates_keys [of us uid t] by (auto simp: row_None)
  show ?case
  proof (cases "i = j")
    case True
    then have "f = g" using Cons.prems x by (auto dest: in_set_zipE simp: image_iff)
    then show ?thesis using True none x
      by (auto simp: processUpdates_Cons row_def dest: preload_key split: option.split)
  next
    case False
    then have "row (processUpdates us uid t) i
        = preload i f (case uid of None \<Rightarrow> NoActor | Some u \<Rightarrow> ActorId u) t"
      using Cons x by simp
    then show ?thesis using False x
      by (auto simp: processUpdates_Cons row_def dest: preload_key split: option.split)
  qed
qed simp

lemma processDeletes_row:
  "row (processDeletes now ids u (Some why) t) i =
     map_option (\<lambda>r. if eid r \<in> set ids \<and> softDeleteFilter r
                     then (soft_deleted now u r)\<lparr>deleted_reason := Some why\<rparr> else r) (row t i)"
  by (auto simp: processDeletes_def deleteBulkEntities_def update_row option.map_ident_strong)

text \<open>The effect of a reconciling bulk update on each row.\<close>

lemma updateBulk_row:
  assumes ok: "updateBulkEntities chk now items in_scope scope u False t = Inr (t2, saved)"
    and cat: "categorizeIncomingData items = (cs, us, ids)" and "items \<noteq> []"
    and keys: "keys_ok t" and d: "distinct (map fst cs @ ids)"
  shows "row t2 i =
    (case row (processCreates cs scope (extractUserId u) @ processUpdates us (extractUserId u) t) i of
       Some r \<Rightarrow> Some r
     | None \<Rightarrow> map_option (\<lambda>r. if softDeleteFilter r \<and> in_scope r \<and> eid r \<notin> set ids
                  then (soft_deleted now u r)\<lparr>deleted_reason := Some ''delete with bulk reconcile''\<rparr>
                  else r) (row t i))"
proof -
  let ?gone = "map eid (filter (\<lambda>r. eid r \<notin> set ids) (repo_find (\<lambda>r. softDeleteFilter r \<and> in_scope r) t))"
  let ?t1 = "processDeletes now ?gone u (Some ''delete with bulk reconcile'') t"
  let ?es = "processCreates cs scope (extractUserId u) @ processUpdates us (extractUserId u) t"
  have ids: "ids = map fst us" using cat by (rule categorize_ids)
  have des: "distinct (map eid ?es)"
    using d ids processUpdates_distinct [of us "extractUserId u" t]
      processUpdates_keys [of us "extractUserId u" t] by auto
  have t1: "row ?t1 i = map_option (\<lambda>r. if softDeleteFilter r \<and> in_scope r \<and> eid r \<notin> set ids
      then (soft_deleted now u r)\<lparr>deleted_reason := Some ''delete with bulk reconcile''\<rparr> else r) (row t i)"
  proof (cases "row t i")
    case (Some r)
    have "eid r \<in> set ?gone \<longleftrightarrow> softDeleteFilter r \<and> in_scope r \<and> eid r \<notin> set ids"
    proof -
      note keys_image_iff [OF keys row_mem [OF Some]]
      moreover have "set ?gone = eid ` {x \<in> set t. softDeleteFilter x \<and> in_scope x \<and> eid x \<notin> set ids}"
        by (auto simp: repo_find_def visible_def softDeleteFilter_def)
      ultimately show ?thesis by (simp only:)
    qed
    then show ?thesis using Some by (auto simp: processDeletes_row)
  qed (simp add: processDeletes_row)
  have "?es = [] \<and> t2 = ?t1 \<or> repo_save_all chk ?es ?t1 = Inr t2"
    using ok cat assms(3) by (auto simp: updateBulkEntities_def Let_def split: if_splits sum.splits)
  then have "row t2 i = (case row ?es i of None \<Rightarrow> row ?t1 i | Some r \<Rightarrow> Some r)"
  proof (elim disjE conjE)
    assume "?es = []" and "t2 = ?t1"
    then show ?thesis by simp
  next
    assume "repo_save_all chk ?es ?t1 = Inr t2"
    then show ?thesis using des by (rule save_all_row)
  qed
  then show ?thesis unfolding t1 by (cases "row ?es i") simp_all
qed

section \<open>Properties\<close>


definition example_row :: "string \<Rightarrow> base_entity" where
  "example_row i = \<lparr>eid = i, created_by = None, updated_by = None, is_deleted = False,
     deleted_reason = None, deleted_at = None, deleted_by = None\<rparr>"

lemma example_row_simps [simp]:
  "eid (example_row i) = i" "\<not> is_deleted (example_row i)" "deleted_at (example_row i) = None"
  by (simp_all add: example_row_def)

lemma example_keys: "keys_ok [example_row ''a'', example_row ''b'']"
  by (simp add: keys_ok_def)


text \<open>C13: a bulk update is a desired-state reconcile. When it succeeds, every created item is
  stored under its key, every named row that was visible holds its patched value, every live row
  in the scope that the payload does not name is soft-deleted with the reconcile reason, and any
  other row is exactly as before.\<close>

theorem updateBulk_reconciles:
  assumes "keys_ok t" and "items \<noteq> []"
    and "base_updateBulk tn chk now items in_scope scope u False t = Inr (t2, saved)"
    and "categorizeIncomingData items = (cs, us, ids)" and "distinct (map fst cs @ ids)"
  shows "(\<forall>(i, d) \<in> set cs. row t2 i = Some (created_entity scope (extractUserId u) i d))
    \<and> (\<forall>(i, f) \<in> set us. \<forall>r. row t i = Some r \<and> visible r \<longrightarrow> row t2 i = preload i f
          (case extractUserId u of None \<Rightarrow> NoActor | Some v \<Rightarrow> ActorId v) t)
    \<and> (\<forall>r. row t (eid r) = Some r \<and> softDeleteFilter r \<and> in_scope r \<and> eid r \<notin> set ids
          \<and> eid r \<notin> fst ` set cs \<longrightarrow> row t2 (eid r)
            = Some ((soft_deleted now u r)\<lparr>deleted_reason := Some ''delete with bulk reconcile''\<rparr>))
    \<and> (\<forall>i. i \<notin> set ids \<and> i \<notin> fst ` set cs
          \<and> (\<forall>r. row t i = Some r \<longrightarrow> \<not> (softDeleteFilter r \<and> in_scope r)) \<longrightarrow> row t2 i = row t i)"
proof -
  let ?uid = "extractUserId u"
  have ids: "ids = map fst us" using assms(4) by (rule categorize_ids)
  have upd: "updateBulkEntities chk now items in_scope scope u False t = Inr (t2, saved)"
    using assms(2,3) by (simp add: base_updateBulk_def executeDbOperation_Inr)
  note t2 = updateBulk_row [OF upd assms(4,2,1,5)]
  have dc: "distinct (map fst cs)" and du: "distinct (map fst us)"
    and disj: "fst ` set cs \<inter> fst ` set us = {}"
    using assms(5) ids by auto
  have pu: "i \<notin> fst ` set us \<Longrightarrow> row (processUpdates us ?uid t) i = None" for i
    using processUpdates_keys [of us ?uid t] by (auto simp: row_None)
  have keys: "eid ` set (processCreates cs scope ?uid) = fst ` set cs"
    using processCreates_keys [of cs scope ?uid] by (metis list.set_map)
  have pc: "i \<notin> fst ` set cs \<Longrightarrow> row (processCreates cs scope ?uid) i = None" for i
    using keys by (simp add: row_None)
  have created: "row (processCreates cs scope ?uid) i = Some (created_entity scope ?uid i d)"
    if "(i, d) \<in> set cs" for i d
  proof (subst row_iff)
    show "keys_ok (processCreates cs scope ?uid)" using dc by (simp add: keys_ok_def)
    show "created_entity scope ?uid i d \<in> set (processCreates cs scope ?uid)
        \<and> eid (created_entity scope ?uid i d) = i"
      using that by (force simp: processCreates_def)
  qed
  have nc: "(i, f) \<in> set us \<Longrightarrow> row (processCreates cs scope ?uid) i = None" for i f
    using disj by (intro pc) force
  show ?thesis
  proof (intro conjI)
    show "\<forall>(i, d) \<in> set cs. row t2 i = Some (created_entity scope ?uid i d)"
      using created by (auto simp: t2 row_append)
    show "\<forall>(i, f) \<in> set us. \<forall>r. row t i = Some r \<and> visible r \<longrightarrow>
        row t2 i = preload i f (case ?uid of None \<Rightarrow> NoActor | Some v \<Rightarrow> ActorId v) t"
      using nc processUpdates_row [OF du, of _ _ ?uid t]
      by (auto simp: t2 row_append preload_row [OF assms(1)])
    show "\<forall>r. row t (eid r) = Some r \<and> softDeleteFilter r \<and> in_scope r \<and> eid r \<notin> set ids
          \<and> eid r \<notin> fst ` set cs \<longrightarrow> row t2 (eid r)
            = Some ((soft_deleted now u r)\<lparr>deleted_reason := Some ''delete with bulk reconcile''\<rparr>)"
      using pc pu ids by (simp add: t2 row_append)
    show "\<forall>i. i \<notin> set ids \<and> i \<notin> fst ` set cs
          \<and> (\<forall>r. row t i = Some r \<longrightarrow> \<not> (softDeleteFilter r \<and> in_scope r)) \<longrightarrow> row t2 i = row t i"
    proof (intro allI impI)
      fix i
      assume "i \<notin> set ids \<and> i \<notin> fst ` set cs
          \<and> (\<forall>r. row t i = Some r \<longrightarrow> \<not> (softDeleteFilter r \<and> in_scope r))"
      then show "row t2 i = row t i"
        using pc pu ids by (cases "row t i") (auto simp: t2 row_append)
    qed
  qed
qed

lemma save_all_unchecked: "repo_save_all (\<lambda>_ _. None) rs t \<noteq> Inl e"
  by (induction rs arbitrary: t) (simp_all add: repo_save_def)

lemma updateBulk_unchecked:
  "\<exists>t2 saved. base_updateBulk tn (\<lambda>_ _. None) now items p f u b t = Inr (t2, saved)"
  using save_all_unchecked
  by (auto simp: base_updateBulk_def updateBulkEntities_def executeDbOperation_Inr Let_def
      split: sum.splits prod.splits)

theorem updateBulk_reconciles_witness:
  "\<exists>t2 saved. base_updateBulk ''t'' (\<lambda>_ _. None) 9 [BulkUpdate ''a'' id, BulkCreate ''n'' (example_row [])]
       (\<lambda>_. True) id NoActor False [example_row ''a'', example_row ''b''] = Inr (t2, saved)
     \<and> row t2 ''n'' = Some (example_row ''n'')
     \<and> row t2 ''b'' = Some ((soft_deleted 9 NoActor (example_row ''b''))
          \<lparr>deleted_reason := Some ''delete with bulk reconcile''\<rparr>)"
proof -
  let ?t = "[example_row ''a'', example_row ''b'']"
  let ?items = "[BulkUpdate ''a'' id, BulkCreate ''n'' (example_row [])]"
  have keys: "keys_ok ?t" by (simp add: keys_ok_def)
  obtain t2 saved where ok: "base_updateBulk ''t'' (\<lambda>_ _. None) 9 ?items (\<lambda>_. True) id NoActor False ?t
      = Inr (t2, saved)"
    using updateBulk_unchecked by blast
  have cat: "categorizeIncomingData ?items = ([(''n'', example_row [])], [(''a'', id)], [''a''])" by simp
  have new: "created_entity id None ''n'' (example_row []) = example_row ''n''"
    by (simp add: created_entity_def example_row_def)
  have r: "row ?t ''b'' = Some (example_row ''b'')" by (simp add: row_def)
  have "distinct (map fst [(''n'', example_row [])] @ [''a''])" by simp
  note R = updateBulk_reconciles [OF keys _ ok cat this]
  have "row t2 ''n'' = Some (example_row ''n'')"
    using R [THEN conjunct1] new by simp
  moreover have "row t2 ''b'' = Some ((soft_deleted 9 NoActor (example_row ''b''))
      \<lparr>deleted_reason := Some ''delete with bulk reconcile''\<rparr>)"
    using R [THEN conjunct2, THEN conjunct2, THEN conjunct1, rule_format, of "example_row ''b''"] r
    by (simp add: softDeleteFilter_def)
  ultimately show ?thesis using ok by blast
qed

text \<open>no database error escapes a service as such. Whatever an operation throws, the boundary
  turns a driver error into an HTTP exception whose status is 409 for a unique violation and for
  a blocked delete, 400 for bad references, missing or malformed input, and 500 otherwise, and it
  never invents a failure or hides one.\<close>

theorem executeDbOperation_boundary:
  "is_ok (executeDbOperation tn r) = is_ok r
   \<and> (\<forall>e. executeDbOperation tn r = Inl e \<longrightarrow>
        (\<exists>k c m. e = HttpException k c m) \<or> (\<exists>m. e = PlainError m \<and> r = Inl e))
   \<and> (\<forall>d k c m. r = Inl (QueryFailedError d) \<and> executeDbOperation tn r = Inl (HttpException k c m) \<longrightarrow>
        k = (if de_code d = Some ''23505'' then Conflict
             else if de_code d = Some ''23503''
               \<and> js_includes ''is still referenced from table'' (case de_detail d of None \<Rightarrow> [] | Some x \<Rightarrow> x)
             then Conflict
             else if de_code d \<in> {Some ''23503'', Some ''23502'', Some ''22P02'', Some ''22001''} then BadRequest
             else InternalServerError))"
  by (cases r) (auto simp: executeDbOperation_def map_driver_error_def Let_def split: js_error.splits)

theorem executeDbOperation_boundary_witness:
  "\<exists>k c m. executeDbOperation ''t'' (Inl (QueryFailedError \<lparr>de_code = Some ''23505'', de_constraint = None,
      de_detail = None, de_table = None, de_column = None, de_message = None\<rparr>) :: unit result) = Inl (HttpException k c m)
    \<and> k = Conflict"
proof -
  let ?d = "\<lparr>de_code = Some ''23505'', de_constraint = None, de_detail = None, de_table = None, de_column = None, de_message = None\<rparr>"
  obtain k c m where e: "executeDbOperation ''t'' (Inl (QueryFailedError ?d) :: unit result) = Inl (HttpException k c m)"
    by (simp add: executeDbOperation_def map_driver_error_def)
  then have "k = Conflict"
    using executeDbOperation_boundary [of "''t''" "Inl (QueryFailedError ?d) :: unit result"] by auto
  then show ?thesis using e by blast
qed

lemma saved_children_keys [simp]: "map eid (saved_children set_fk i cs c) = map fst cs"
  by (auto simp: saved_children_def)

lemma repo_save_fresh: "repo_save chk r t = Inr t' \<Longrightarrow> eid r \<notin> eid ` set t \<Longrightarrow> t' = t @ [r]"
  by (auto simp: repo_save_def put_row_def split: option.splits)

lemma repo_save_all_fresh:
  "repo_save_all chk rs t = Inr t' \<Longrightarrow> distinct (map eid rs) \<Longrightarrow> eid ` set rs \<inter> eid ` set t = {} \<Longrightarrow> t' = t @ rs"
proof (induction rs arbitrary: t)
  case (Cons r rs)
  obtain t1 where t1: "repo_save chk r t = Inr t1" "repo_save_all chk rs t1 = Inr t'"
    using Cons.prems(1) by (auto split: sum.splits)
  have "t1 = t @ [r]" using repo_save_fresh [OF t1(1)] Cons.prems(3) by auto
  then show ?case using Cons.IH [OF t1(2)] Cons.prems(2,3) by auto
qed simp

lemma save_all_keys: "repo_save_all chk rs t = Inr t' \<Longrightarrow> keys_ok t \<Longrightarrow> keys_ok t'"
  by (induction rs arbitrary: t) (auto simp: repo_save_def split: sum.splits option.splits)

lemma saved_children_find:
  assumes "distinct (map fst cs)" and "(k, fresh, merge) \<in> set cs"
  shows "row (saved_children set_fk i cs c) k =
    Some ((set_fk i (case row c k of None \<Rightarrow> fresh | Some r \<Rightarrow> merge r))\<lparr>eid := k\<rparr>)"
proof -
  have "keys_ok (saved_children set_fk i cs c)" using assms(1) by (simp add: keys_ok_def)
  then show ?thesis using assms(2) by (subst row_iff) (force simp: saved_children_def row_def)+
qed

lemma orphans_row:
  assumes "keys_ok t"
  shows "row (orphan_handling now u default_update_options fk i inc t) k =
    (case row t k of None \<Rightarrow> None
     | Some r \<Rightarrow> Some (if fk r = i \<and> \<not> is_deleted r \<and> visible r \<and> k \<notin> set inc
         then (soft_deleted now u r)\<lparr>deleted_reason := Some ''delete with cascade''\<rparr> else r))"
proof -
  let ?ids = "filter (\<lambda>j. j \<notin> set inc) (map eid (repo_find (\<lambda>r. fk r = i \<and> \<not> is_deleted r) t))"
  have mem: "k \<in> set ?ids \<longleftrightarrow> fk r = i \<and> \<not> is_deleted r \<and> visible r \<and> k \<notin> set inc" if "row t k = Some r" for r
    using keys_image_iff [OF assms row_mem [OF that], of "\<lambda>r. visible r \<and> fk r = i \<and> \<not> is_deleted r"] row_key [OF that]
    by (auto simp: repo_find_def)
  have "row (orphan_handling now u default_update_options fk i inc t) k =
      map_option (\<lambda>r. if eid r \<in> set ?ids then (soft_deleted now u r)\<lparr>deleted_reason := Some ''delete with cascade''\<rparr> else r) (row t k)"
  proof (cases "?ids = []")
    case True
    then show ?thesis by (auto simp: orphan_handling_def default_update_options_def Let_def option.map_ident)
  next
    case False
    then show ?thesis
      by (simp add: orphan_handling_def default_update_options_def Let_def update_row del: filter_empty_conv)
  qed
  then show ?thesis using mem by (auto simp: row_key split: option.splits)
qed

text \<open>after an update that sends the children of a row, with the default options, the live
  children of the row are exactly the live ones of the payload: those sent are stored under the
  row, those left out are soft-deleted, and the children of other rows stay as they were.\<close>

theorem update_children_exact:
  assumes "base_update_relations tn chk chkc now set_fk fk related soft i patch (Some cs) m2m user
             default_update_options (t, c, links) = Inr (t', c', links')"
    and "keys_ok c" and "distinct (map fst cs)"
    and "\<And>e. fk (set_fk i e) = i \<and> softDeleteFilter (set_fk i e) = softDeleteFilter e"
    and "\<And>e k. fk (e\<lparr>eid := k\<rparr>) = fk e"
    and "\<And>k fresh merge r. (k, fresh, merge) \<in> set cs \<Longrightarrow> softDeleteFilter fresh \<and> softDeleteFilter (merge r)"
  shows "{k. \<exists>r. live_rows c' k = Some r \<and> fk r = i} = fst ` set cs
    \<and> (\<forall>k r. k \<notin> fst ` set cs \<and> row c k = Some r \<and> fk r \<noteq> i \<longrightarrow> row c' k = Some r)"
proof -
  obtain c1 where c1: "repo_save_all chkc (saved_children set_fk i cs c) c = Inr c1"
      and c': "c' = orphan_handling now user default_update_options fk i (map fst cs) c1"
    using assms(1) unfolding base_update_relations_def prod.case executeDbOperation_Inr
    by (auto split: option.splits sum.splits)
  have k1: "keys_ok c1" by (rule save_all_keys [OF c1 assms(2)])
  have row1: "row c1 k = (case row (saved_children set_fk i cs c) k of None \<Rightarrow> row c k | Some r \<Rightarrow> Some r)" for k
    using c1 assms(3) by (intro save_all_row) simp_all
  have k': "keys_ok c'"
    unfolding c' orphan_handling_def default_update_options_def using k1 by (auto simp: Let_def)
  have not_sent: "row c1 k = row c k" if "k \<notin> fst ` set cs" for k
  proof -
    have "row (saved_children set_fk i cs c) k = None"
      using that unfolding row_None list.set_map [symmetric] saved_children_keys by simp
    then show ?thesis by (simp add: row1)
  qed
  have live: "live_rows c' k = Some r \<and> fk r = i \<longleftrightarrow> row c' k = Some r \<and> softDeleteFilter r \<and> fk r = i" for k r
    by (auto simp: findEntityById_row [OF k'] split: option.splits)
  have sent: "\<exists>r. row c' k = Some r \<and> softDeleteFilter r \<and> fk r = i" if k: "k \<in> fst ` set cs" for k
  proof -
    obtain fresh merge where m: "(k, fresh, merge) \<in> set cs" using k by force
    let ?e = "case row c k of None \<Rightarrow> fresh | Some r \<Rightarrow> merge r"
    have "softDeleteFilter ?e" using assms(6) [OF m] by (auto split: option.splits)
    then have "softDeleteFilter ((set_fk i ?e)\<lparr>eid := k\<rparr>)" using assms(4) by (simp add: softDeleteFilter_def)
    moreover have "fk ((set_fk i ?e)\<lparr>eid := k\<rparr>) = i" using assms(4,5) by simp
    moreover have "row c' k = Some ((set_fk i ?e)\<lparr>eid := k\<rparr>)"
      using k saved_children_find [OF assms(3) m, of set_fk i c] by (simp add: c' orphans_row [OF k1] row1)
    ultimately show ?thesis by blast
  qed
  have gone: "\<not> (row c' k = Some r \<and> softDeleteFilter r \<and> fk r = i)" if "k \<notin> fst ` set cs" for k r
    using that by (auto simp: c' orphans_row [OF k1] softDeleteFilter_def visible_def soft_deleted_simps
        split: option.splits if_splits)
  have other: "row c' k = Some r" if "k \<notin> fst ` set cs" "row c k = Some r" "fk r \<noteq> i" for k r
    using that not_sent [OF that(1)] by (simp add: c' orphans_row [OF k1])
  have "{k. \<exists>r. live_rows c' k = Some r \<and> fk r = i} = fst ` set cs"
    unfolding live using sent gone by blast
  then show ?thesis using other by blast
qed

record example_line = base_entity +
  order_id :: string

definition example_child :: "string \<Rightarrow> string \<Rightarrow> example_line" where
  "example_child k o_id = \<lparr>eid = k, created_by = None, updated_by = None, is_deleted = False, deleted_reason = None,
     deleted_at = None, deleted_by = None, order_id = o_id\<rparr>"

theorem update_children_exact_witness:
  "\<exists>t' c' l'. base_update_relations ''orders'' (\<lambda>_ _. None) (\<lambda>_ _. None) 9 (\<lambda>i e. e\<lparr>order_id := i\<rparr>) order_id (\<lambda>_. []) True
      ''a'' id (Some [(''y'', example_child ''y'' [], \<lambda>r. example_child ''y'' [])]) None NoActor default_update_options
      ([example_row ''a''], [example_child ''x'' ''a''], {}) = Inr (t', c', l')
    \<and> {k. \<exists>r. live_rows c' k = Some r \<and> order_id r = ''a''} = {''y''}"
proof -
  let ?u = "base_update_relations ''orders'' (\<lambda>_ _. None) (\<lambda>_ _. None) 9 (\<lambda>i e. e\<lparr>order_id := i\<rparr>) order_id (\<lambda>_. []) True
      ''a'' id (Some [(''y'', example_child ''y'' [], \<lambda>r. example_child ''y'' [])]) None NoActor default_update_options
      ([example_row ''a''], [example_child ''x'' ''a''], {})"
  have "\<exists>t' c' l'. ?u = Inr (t', c', l')"
    by (simp add: base_update_relations_def executeDbOperation_Inr preload_def repo_findOne_def visible_def
        repo_save_def saved_children_def example_row_def)
  then obtain t' c' l' where u: "?u = Inr (t', c', l')" by blast
  have "keys_ok [example_child ''x'' ''a'']" by (simp add: keys_ok_def)
  from update_children_exact [OF u this] u show ?thesis
    by (auto simp: softDeleteFilter_def example_child_def)
qed

text \<open>synchronising a many-to-many relation links exactly the requested ids. When the linked
  rows are all live (or the relation has no soft delete), \<open>addAndRemove\<close> applied to the computed
  difference leaves precisely the non-empty ids of the payload, and a payload equal to the current
  links writes nothing.\<close>

theorem syncOne_links_exactly:
  assumes "\<forall>(i, d) \<in> set raw. \<not> soft \<or> \<not> d"
  shows "addAndRemove (syncOne soft raw new) (fst ` set raw) = {i \<in> set new. i \<noteq> []}
    \<and> (fst ` set raw = {i \<in> set new. i \<noteq> []} \<longrightarrow> syncOne soft raw new = ([], []))"
proof -
  have "filter (\<lambda>(i, d). \<not> d) raw = raw" if soft
    using assms that by (auto intro: filter_True)
  then have "set (if soft then map fst (filter (\<lambda>(i, d). \<not> d) raw) else map fst raw) = fst ` set raw"
    by simp
  then show ?thesis
    by (auto simp: addAndRemove_def syncOne_def Let_def filter_empty_conv)
qed

theorem syncOne_links_exactly_witness:
  "addAndRemove (syncOne True [(''p'', False), (''q'', False)] [''q'', [], ''r'']) {''p'', ''q''} = {''q'', ''r''}"
  using syncOne_links_exactly [of "[(''p'', False), (''q'', False)]" True "[''q'', [], ''r'']"]
  by (auto simp: insert_commute)

end
