(* ===== verification/Nested_Set.thy ===== *)
theory Nested_Set
  imports Prelude
begin

text \<open>
  \<open>libs/common/src/utils/nested-set/rebuild-nested-set.util.ts\<close>: the pre-order walk that
  recomputes the \<open>lft\<close>/\<open>rgt\<close> bounds of a whole tree. The nodes are objects mutated in place,
  so the model keeps them in one array and names an object by its index; \<open>byParent\<close> is the
  list of the indices with a given parent, in array order. The inner \<open>visit\<close> is a recursion
  that need not stop on arbitrary input (two rows with one id can make it loop), so it is a
  partial function whose value \<open>None\<close> is "does not return"; that it returns on tables with
  distinct ids is proved. The specification is a forest numbered by an Euler walk.
\<close>

section \<open>The code\<close>

record nested_set_node =
  ns_id :: string
  ns_parentId :: "string option"
  ns_lft :: nat
  ns_rgt :: nat

text \<open>\<open>byParent.get(parentId) ?? []\<close>.\<close>

definition byParent :: "nested_set_node list \<Rightarrow> string option \<Rightarrow> nat list" where
  "byParent nodes p = filter (\<lambda>i. ns_parentId (nodes ! i) = p) [0..<length nodes]"

record walk =
  wk_counter :: nat
  wk_visited :: "string set"
  wk_nodes :: "nested_set_node list"

text \<open>The three statements of the loop body around the recursive call.\<close>

definition enter_child :: "nat \<Rightarrow> walk \<Rightarrow> walk" where
  "enter_child i w =
     w\<lparr>wk_visited := insert (ns_id (wk_nodes w ! i)) (wk_visited w),
       wk_nodes := (wk_nodes w)[i := (wk_nodes w ! i)\<lparr>ns_lft := wk_counter w\<rparr>],
       wk_counter := wk_counter w + 1\<rparr>"

definition leave_child :: "nat \<Rightarrow> walk \<Rightarrow> walk" where
  "leave_child i w =
     w\<lparr>wk_nodes := (wk_nodes w)[i := (wk_nodes w ! i)\<lparr>ns_rgt := wk_counter w\<rparr>],
       wk_counter := wk_counter w + 1\<rparr>"

text \<open>\<open>visit\<close>, over the remaining children of the current loop. \<open>kids\<close> maps the index of a
  node to the children its id has in \<open>byParent\<close>.\<close>

partial_function (option) visit :: "(nat \<Rightarrow> nat list) \<Rightarrow> nat list \<Rightarrow> walk \<Rightarrow> walk option" where
  "visit kids cs w =
     (case cs of
        [] \<Rightarrow> Some w
      | i # rest \<Rightarrow>
          Option.bind (visit kids (kids i) (enter_child i w))
            (\<lambda>w'. visit kids rest (leave_child i w')))"

text \<open>The message lists how many rows are unreachable and which.\<close>

definition orphan_message :: "string list \<Rightarrow> string" where
  "orphan_message os =
     ''rebuildNestedSet: detected '' @ show_nat (length os)
       @ '' orphan/cyclic node(s) not reachable from a root: '' @ js_join '', '' os"

definition children_of :: "nested_set_node list \<Rightarrow> nat \<Rightarrow> nat list" where
  "children_of nodes i =
     (if i < length nodes then byParent nodes (Some (ns_id (nodes ! i))) else [])"

definition rebuildNestedSet ::
    "nested_set_node list \<Rightarrow> nested_set_node list result option" where
  "rebuildNestedSet nodes =
     (case visit (children_of nodes) (byParent nodes None)
             \<lparr>wk_counter = 1, wk_visited = {}, wk_nodes = nodes\<rparr> of
        None \<Rightarrow> None
      | Some w \<Rightarrow>
          (let orphans = filter (\<lambda>n. ns_id n \<notin> wk_visited w) (wk_nodes w)
           in if orphans \<noteq> [] then Some (Inl (PlainError (orphan_message (map ns_id orphans))))
              else Some (Inr (wk_nodes w))))"

text \<open>\<open>rebuildNestedSetFor\<close>: mirrors, rebuilds, and writes the bounds back by id (the last
  mirror with an id is the one its \<open>Map\<close> keeps).\<close>

definition mirror_of :: "('e \<Rightarrow> string) \<Rightarrow> ('e \<Rightarrow> string option) \<Rightarrow> ('e \<Rightarrow> nat) \<Rightarrow> ('e \<Rightarrow> nat)
    \<Rightarrow> 'e \<Rightarrow> nested_set_node" where
  "mirror_of gid gparent glft grgt e =
     \<lparr>ns_id = gid e, ns_parentId = gparent e, ns_lft = glft e, ns_rgt = grgt e\<rparr>"

definition write_back :: "('e \<Rightarrow> string) \<Rightarrow> (nat \<Rightarrow> nat \<Rightarrow> 'e \<Rightarrow> 'e) \<Rightarrow> nested_set_node list
    \<Rightarrow> 'e \<Rightarrow> 'e" where
  "write_back gid setb ms e =
     (case js_map_get (map (\<lambda>m. (ns_id m, m)) ms) (gid e) of
        None \<Rightarrow> e
      | Some m \<Rightarrow> setb (ns_lft m) (ns_rgt m) e)"

definition rebuildNestedSetFor ::
    "('e \<Rightarrow> string) \<Rightarrow> ('e \<Rightarrow> string option) \<Rightarrow> ('e \<Rightarrow> nat) \<Rightarrow> ('e \<Rightarrow> nat)
      \<Rightarrow> (nat \<Rightarrow> nat \<Rightarrow> 'e \<Rightarrow> 'e) \<Rightarrow> 'e list \<Rightarrow> 'e list result option" where
  "rebuildNestedSetFor gid gparent glft grgt setb es =
     (case rebuildNestedSet (map (mirror_of gid gparent glft grgt) es) of
        None \<Rightarrow> None
      | Some (Inl e) \<Rightarrow> Some (Inl e)
      | Some (Inr ms) \<Rightarrow> Some (Inr (map (write_back gid setb ms) es)))"

section \<open>The specification: a numbered forest\<close>

datatype tree = Tree nat "tree list"

text \<open>The nodes of a forest, in pre-order.\<close>

fun preorder :: "tree list \<Rightarrow> nat list" where
  "preorder [] = []"
| "preorder (Tree i ts # us) = i # preorder ts @ preorder us"

text \<open>The Euler walk: node, left bound, right bound.\<close>

fun euler :: "nat \<Rightarrow> tree list \<Rightarrow> (nat \<times> nat \<times> nat) list" where
  "euler c [] = []"
| "euler c (Tree i ts # us) =
     (i, c, c + 1 + 2 * length (preorder ts)) # euler (c + 1) ts
       @ euler (c + 2 + 2 * length (preorder ts)) us"

text \<open>\<open>below f i j\<close>: node \<open>j\<close> is a proper descendant of node \<open>i\<close> in the forest.\<close>

fun below :: "tree list \<Rightarrow> nat \<Rightarrow> nat \<Rightarrow> bool" where
  "below [] i j = False"
| "below (Tree k ts # us) i j =
     ((k = i \<and> j \<in> set (preorder ts)) \<or> below ts i j \<or> below us i j)"

text \<open>\<open>unfolds kids cs f\<close>: the forest \<open>f\<close> is what following \<open>kids\<close> from \<open>cs\<close> unrolls to.\<close>

inductive unfolds :: "(nat \<Rightarrow> nat list) \<Rightarrow> nat list \<Rightarrow> tree list \<Rightarrow> bool"
  for kids :: "nat \<Rightarrow> nat list" where
  unfolds_Nil: "unfolds kids [] []"
| unfolds_Cons: "unfolds kids (kids i) ts \<Longrightarrow> unfolds kids cs us
    \<Longrightarrow> unfolds kids (i # cs) (Tree i ts # us)"

inductive_cases unfolds_NilE: "unfolds kids [] f"
inductive_cases unfolds_ConsE: "unfolds kids (i # cs) f"

text \<open>The parent relation of a table and its closure.\<close>

definition parent_of :: "nested_set_node list \<Rightarrow> nat \<Rightarrow> nat \<Rightarrow> bool" where
  "parent_of nodes i j \<longleftrightarrow> i < length nodes \<and> j < length nodes
     \<and> ns_parentId (nodes ! j) = Some (ns_id (nodes ! i))"

definition descendant_of :: "nested_set_node list \<Rightarrow> nat \<Rightarrow> nat \<Rightarrow> bool" where
  "descendant_of nodes i j \<longleftrightarrow> (parent_of nodes)\<^sup>+\<^sup>+ i j"

definition rooted :: "nested_set_node list \<Rightarrow> nat \<Rightarrow> bool" where
  "rooted nodes j \<longleftrightarrow> j < length nodes
     \<and> (\<exists>r. r < length nodes \<and> ns_parentId (nodes ! r) = None \<and> (parent_of nodes)\<^sup>*\<^sup>* r j)"

section \<open>The walk computes the Euler numbering\<close>

lemma visit_Nil [simp]: "visit kids [] w = Some w"
  by (simp add: visit.simps)

lemma visit_Cons [simp]:
  "visit kids (i # rest) w =
     Option.bind (visit kids (kids i) (enter_child i w))
       (\<lambda>w'. visit kids rest (leave_child i w'))"
  by (simp add: visit.simps [of kids "i # rest"])

text \<open>What a walk never touches: ids, parents and the number of nodes.\<close>

definition same_nodes :: "nested_set_node list \<Rightarrow> nested_set_node list \<Rightarrow> bool" where
  "same_nodes ns ns' \<longleftrightarrow> map ns_id ns' = map ns_id ns \<and> map ns_parentId ns' = map ns_parentId ns"

lemma same_nodes_refl [simp]: "same_nodes ns ns"
  by (simp add: same_nodes_def)

lemma same_nodes_trans: "same_nodes a b \<Longrightarrow> same_nodes b c \<Longrightarrow> same_nodes a c"
  by (simp add: same_nodes_def)

lemma same_nodes_length: "same_nodes ns ns' \<Longrightarrow> length ns' = length ns"
  unfolding same_nodes_def by (metis length_map)

lemma same_nodes_nth:
  "same_nodes ns ns' \<Longrightarrow> i < length ns
    \<Longrightarrow> ns_id (ns' ! i) = ns_id (ns ! i) \<and> ns_parentId (ns' ! i) = ns_parentId (ns ! i)"
  unfolding same_nodes_def by (metis length_map nth_map)

lemma same_nodes_update:
  assumes "ns_id n = ns_id (ns ! i)" "ns_parentId n = ns_parentId (ns ! i)"
  shows "same_nodes ns (ns[i := n])"
proof (cases "i < length ns")
  case True
  then show ?thesis
    using assms by (simp add: same_nodes_def map_update list_update_same_conv)
next
  case False
  then show ?thesis by (simp add: list_update_beyond)
qed

lemma enter_child_simps [simp]:
  "wk_counter (enter_child i w) = Suc (wk_counter w)"
  "wk_visited (enter_child i w) = insert (ns_id (wk_nodes w ! i)) (wk_visited w)"
  "wk_nodes (enter_child i w) = (wk_nodes w)[i := (wk_nodes w ! i)\<lparr>ns_lft := wk_counter w\<rparr>]"
  by (simp_all add: enter_child_def)

lemma leave_child_simps [simp]:
  "wk_counter (leave_child i w) = Suc (wk_counter w)"
  "wk_visited (leave_child i w) = wk_visited w"
  "wk_nodes (leave_child i w) = (wk_nodes w)[i := (wk_nodes w ! i)\<lparr>ns_rgt := wk_counter w\<rparr>]"
  by (simp_all add: leave_child_def)

text \<open>The result of a walk over a forest whose nodes are all in range.\<close>

definition walked :: "tree list \<Rightarrow> walk \<Rightarrow> walk \<Rightarrow> bool" where
  "walked f w w' \<longleftrightarrow>
     wk_counter w' = wk_counter w + 2 * length (preorder f)
   \<and> wk_visited w' = wk_visited w \<union> (\<lambda>i. ns_id (wk_nodes w ! i)) ` set (preorder f)
   \<and> same_nodes (wk_nodes w) (wk_nodes w')
   \<and> (\<forall>i. i \<notin> set (preorder f) \<longrightarrow> wk_nodes w' ! i = wk_nodes w ! i)
   \<and> (distinct (preorder f) \<longrightarrow> (\<forall>(i, l, r) \<in> set (euler (wk_counter w) f).
        ns_lft (wk_nodes w' ! i) = l \<and> ns_rgt (wk_nodes w' ! i) = r))"

lemma map_fst_euler [simp]: "map fst (euler c f) = preorder f"
  by (induction c f rule: euler.induct) auto

lemma euler_node: "(i, l, r) \<in> set (euler c f) \<Longrightarrow> i \<in> set (preorder f)"
  by (metis fst_conv image_eqI image_set map_fst_euler)

lemma walked_same:
  "walked f w w' \<Longrightarrow> wk_nodes w = ns \<Longrightarrow> same_nodes ns (wk_nodes w')"
  by (simp add: walked_def)

lemma walked_visited:
  "walked f w w' \<Longrightarrow>
    wk_visited w' = wk_visited w \<union> (\<lambda>i. ns_id (wk_nodes w ! i)) ` set (preorder f)"
  by (simp add: walked_def)

lemma walked_Cons:
  assumes ts: "walked ts (enter_child i w) w1" and us: "walked us (leave_child i w1) w2"
    and rng: "i < length (wk_nodes w)" "\<forall>j \<in> set (preorder ts) \<union> set (preorder us). j < length (wk_nodes w)"
  shows "walked (Tree i ts # us) w w2"
proof -
  let ?n = "wk_nodes w" and ?n1 = "wk_nodes w1" and ?n2 = "wk_nodes w2"
  have s1: "same_nodes ?n ?n1"
    by (rule same_nodes_trans [OF _ walked_same [OF ts refl]]) (simp add: same_nodes_update)
  have s2: "same_nodes ?n1 ?n2"
    by (rule same_nodes_trans [OF _ walked_same [OF us refl]]) (simp add: same_nodes_update)
  have len: "length ?n1 = length ?n" using s1 by (rule same_nodes_length)
  have c1: "wk_counter w1 = wk_counter w + 1 + 2 * length (preorder ts)"
    using ts by (simp add: walked_def)
  have keep1: "j \<notin> set (preorder ts) \<Longrightarrow> ?n1 ! j = ?n[i := (?n ! i)\<lparr>ns_lft := wk_counter w\<rparr>] ! j" for j
    using ts by (simp add: walked_def)
  have keep2: "j \<notin> set (preorder us) \<Longrightarrow> ?n2 ! j = ?n1[i := (?n1 ! i)\<lparr>ns_rgt := wk_counter w1\<rparr>] ! j" for j
    using us by (simp add: walked_def)
  have ids: "(\<lambda>j. ns_id (?n1 ! j)) ` set (preorder us) = (\<lambda>j. ns_id (?n ! j)) ` set (preorder us)"
    using rng(2) same_nodes_nth [OF s1] by (intro image_cong) auto
  have nid: "ns_id (?n[i := (?n ! i)\<lparr>ns_lft := wk_counter w\<rparr>] ! j) = ns_id (?n ! j)" for j
    by (cases "i = j"; cases "j < length ?n") (simp_all add: list_update_beyond)
  have nid1: "ns_id (?n1[i := (?n1 ! i)\<lparr>ns_rgt := wk_counter w1\<rparr>] ! j) = ns_id (?n1 ! j)" for j
    by (cases "i = j"; cases "j < length ?n1") (simp_all add: list_update_beyond)
  have vis: "wk_visited w2 = wk_visited w \<union> (\<lambda>j. ns_id (?n ! j)) ` set (preorder (Tree i ts # us))"
  proof -
    have "wk_visited w1 = insert (ns_id (?n ! i)) (wk_visited w) \<union> (\<lambda>j. ns_id (?n ! j)) ` set (preorder ts)"
      using walked_visited [OF ts] by (simp add: nid)
    moreover have "wk_visited w2 = wk_visited w1 \<union> (\<lambda>j. ns_id (?n ! j)) ` set (preorder us)"
      using walked_visited [OF us] by (simp add: nid1 ids)
    ultimately show ?thesis by auto
  qed
  have bounds: "ns_lft (?n2 ! j) = l \<and> ns_rgt (?n2 ! j) = r"
    if d: "distinct (preorder (Tree i ts # us))"
      and m: "(j, l, r) \<in> set (euler (wk_counter w) (Tree i ts # us))" for j l r
  proof -
    have dist: "i \<notin> set (preorder ts)" "i \<notin> set (preorder us)" "distinct (preorder ts)"
      "distinct (preorder us)" "set (preorder ts) \<inter> set (preorder us) = {}"
      using d by auto
    consider "j = i" "l = wk_counter w" "r = wk_counter w1"
      | "(j, l, r) \<in> set (euler (Suc (wk_counter w)) ts)"
      | "(j, l, r) \<in> set (euler (Suc (wk_counter w1)) us)"
      using m c1 by auto
    then show ?thesis
    proof cases
      case 1
      then show ?thesis using keep1 [OF dist(1)] keep2 [OF dist(2)] rng(1) len by simp
    next
      case 2
      then have jt: "j \<in> set (preorder ts)" by (rule euler_node)
      with dist have ju: "j \<notin> set (preorder us)" "j \<noteq> i" by auto
      have "ns_lft (?n1 ! j) = l \<and> ns_rgt (?n1 ! j) = r"
        using ts 2 dist(3) by (auto simp: walked_def)
      then show ?thesis using keep2 [OF ju(1)] ju(2) by simp
    next
      case 3
      then show ?thesis using us dist(4) by (auto simp: walked_def)
    qed
  qed
  have "j \<notin> set (preorder (Tree i ts # us)) \<Longrightarrow> ?n2 ! j = ?n ! j" for j
    using keep1 [of j] keep2 [of j] by auto
  moreover have "wk_counter w2 = wk_counter w + 2 * length (preorder (Tree i ts # us))"
    using us c1 by (simp add: walked_def)
  ultimately show ?thesis
    unfolding walked_def using vis same_nodes_trans [OF s1 s2] bounds by blast
qed

lemma visit_walked:
  "unfolds kids cs f \<Longrightarrow> \<forall>j \<in> set (preorder f). j < length (wk_nodes w)
    \<Longrightarrow> \<exists>w'. visit kids cs w = Some w' \<and> walked f w w'"
proof (induction arbitrary: w rule: unfolds.induct)
  case unfolds_Nil
  then show ?case by (simp add: walked_def)
next
  case (unfolds_Cons i ts cs us)
  have "\<forall>j \<in> set (preorder ts). j < length (wk_nodes (enter_child i w))"
    using unfolds_Cons.prems by simp
  then obtain w1 where w1: "visit kids (kids i) (enter_child i w) = Some w1"
      and t1: "walked ts (enter_child i w) w1"
    using unfolds_Cons.IH(1) by blast
  have "length (wk_nodes w1) = length (wk_nodes w)"
    using same_nodes_length [OF walked_same [OF t1 refl]] by simp
  then have "\<forall>j \<in> set (preorder us). j < length (wk_nodes (leave_child i w1))"
    using unfolds_Cons.prems by simp
  then obtain w2 where w2: "visit kids cs (leave_child i w1) = Some w2"
      and t2: "walked us (leave_child i w1) w2"
    using unfolds_Cons.IH(2) by blast
  have "walked (Tree i ts # us) w w2"
    using t1 t2 unfolds_Cons.prems by (intro walked_Cons) auto
  then show ?case using w1 w2 by auto
qed

section \<open>The numbering is a nested set\<close>

lemma euler_bounds:
  "(i, l, r) \<in> set (euler c f) \<Longrightarrow> c \<le> l \<and> l < r \<and> r < c + 2 * length (preorder f)"
  by (induction c f rule: euler.induct) fastforce+

definition ends :: "(nat \<times> nat \<times> nat) list \<Rightarrow> nat set" where
  "ends xs = (\<Union>(i, l, r) \<in> set xs. {l, r})"

lemma ends_simps [simp]:
  "ends [] = {}" "ends ((i, l, r) # xs) = {l, r} \<union> ends xs" "ends (xs @ ys) = ends xs \<union> ends ys"
  by (auto simp: ends_def)

lemma euler_ends: "ends (euler c f) = {c..<c + 2 * length (preorder f)}"
  by (induction c f rule: euler.induct) (simp_all, auto)

lemma below_preorder: "below f i j \<Longrightarrow> i \<in> set (preorder f) \<and> j \<in> set (preorder f)"
  by (induction f i j rule: below.induct) auto

text \<open>Containment of the intervals is exactly the descendant relation of the forest.\<close>

lemma euler_nested:
  "distinct (preorder f) \<Longrightarrow> (i, l, r) \<in> set (euler c f) \<Longrightarrow> (j, l', r') \<in> set (euler c f)
    \<Longrightarrow> below f i j \<longleftrightarrow> l < l' \<and> r' < r"
proof (induction c f arbitrary: i l r j l' r' rule: euler.induct)
  case (1 c)
  then show ?case by simp
next
  case (2 c k ts us)
  let ?d = "c + 2 + 2 * length (preorder ts)"
  have dist: "distinct (preorder ts)" "distinct (preorder us)" "k \<notin> set (preorder ts)"
    "k \<notin> set (preorder us)" "set (preorder ts) \<inter> set (preorder us) = {}"
    using "2.prems"(1) by auto
  have ts: "(x, a, b) \<in> set (euler (c + 1) ts) \<Longrightarrow>
      x \<in> set (preorder ts) \<and> c < a \<and> a < b \<and> b < ?d - 1" for x a b
    using euler_bounds [of x a b "c + 1" ts] euler_node [of x a b "c + 1" ts] by auto
  have us: "(x, a, b) \<in> set (euler ?d us) \<Longrightarrow> x \<in> set (preorder us) \<and> ?d \<le> a \<and> a < b" for x a b
    using euler_bounds [of x a b ?d us] euler_node [of x a b ?d us] by auto
  have root: "(x, a, b) = (k, c, ?d - 1) \<or> (x, a, b) \<in> set (euler (c + 1) ts) \<or> (x, a, b) \<in> set (euler ?d us)"
    if "(x, a, b) \<in> set (euler c (Tree k ts # us))" for x a b
    using that by auto
  from root [OF "2.prems"(2)] root [OF "2.prems"(3)] show ?case
    using dist "2.IH"(1) [OF dist(1), of i l r j l' r'] "2.IH"(2) [OF dist(2), of i l r j l' r']
      ts [of i l r] ts [of j l' r'] us [of i l r] us [of j l' r']
      below_preorder [of ts i j] below_preorder [of us i j]
    by (elim disjE) (auto)
qed

lemma euler_width:
  "distinct (preorder f) \<Longrightarrow> (i, l, r) \<in> set (euler c f) \<Longrightarrow> r = l + 2 * card {j. below f i j} + 1"
proof (induction c f rule: euler.induct)
  case (1 c)
  then show ?case by simp
next
  case (2 c k ts us)
  have dist: "distinct (preorder ts)" "distinct (preorder us)" "k \<notin> set (preorder ts)"
    "k \<notin> set (preorder us)" "set (preorder ts) \<inter> set (preorder us) = {}"
    using "2.prems"(1) by auto
  consider (root) "i = k" "l = c" "r = c + 1 + 2 * length (preorder ts)"
    | (left) "(i, l, r) \<in> set (euler (c + 1) ts)"
    | (right) "(i, l, r) \<in> set (euler (c + 2 + 2 * length (preorder ts)) us)"
    using "2.prems"(2) by auto
  then show ?case
  proof cases
    case root
    then have "{j. below (Tree k ts # us) i j} = set (preorder ts)"
      using dist below_preorder by auto
    then show ?thesis using root distinct_card [OF dist(1)] by simp
  next
    case left
    then have "i \<in> set (preorder ts)" by (rule euler_node)
    then have "{j. below (Tree k ts # us) i j} = {j. below ts i j}"
      using dist below_preorder by auto
    then show ?thesis using "2.IH"(1) [OF dist(1) left] by simp
  next
    case right
    then have "i \<in> set (preorder us)" by (rule euler_node)
    then have "{j. below (Tree k ts # us) i j} = {j. below us i j}"
      using dist below_preorder by auto
    then show ?thesis using "2.IH"(2) [OF dist(2) right] by simp
  qed
qed

section \<open>Unrolling the parent relation\<close>

abbreviation edge :: "(nat \<Rightarrow> nat list) \<Rightarrow> nat \<Rightarrow> nat \<Rightarrow> bool" where
  "edge kids i j \<equiv> j \<in> set (kids i)"

lemma unfolds_preorder:
  "unfolds kids cs f \<Longrightarrow> set (preorder f) = {j. \<exists>r \<in> set cs. (edge kids)\<^sup>*\<^sup>* r j}"
proof (induction rule: unfolds.induct)
  case (unfolds_Cons i ts cs us)
  have "{j. (edge kids)\<^sup>*\<^sup>* i j} = insert i {j. \<exists>r \<in> set (kids i). (edge kids)\<^sup>*\<^sup>* r j}"
    by (auto intro: converse_rtranclp_into_rtranclp elim: converse_rtranclpE)
  then show ?case using unfolds_Cons.IH by auto
qed simp

lemma unfolds_below:
  "unfolds kids cs f \<Longrightarrow> below f a b \<longleftrightarrow> a \<in> set (preorder f) \<and> (edge kids)\<^sup>+\<^sup>+ a b"
proof (induction rule: unfolds.induct)
  case (unfolds_Cons i ts cs us)
  have "b \<in> set (preorder ts) \<longleftrightarrow> (edge kids)\<^sup>+\<^sup>+ i b"
    unfolding unfolds_preorder [OF unfolds_Cons.hyps(1)] by (auto simp: tranclp_unfold_left OO_def)
  then show ?case using unfolds_Cons.IH by auto
qed simp

lemma unfolds_acyclic:
  "unfolds kids cs f \<Longrightarrow> j \<in> set (preorder f) \<Longrightarrow> \<not> (edge kids)\<^sup>+\<^sup>+ j j"
proof (induction arbitrary: j rule: unfolds.induct)
  case (unfolds_Cons i ts cs us)
  have "(edge kids)\<^sup>+\<^sup>+ i i \<Longrightarrow> i \<in> set (preorder ts)"
    unfolding unfolds_preorder [OF unfolds_Cons.hyps(1)] by (auto simp: tranclp_unfold_left OO_def)
  then show ?case using unfolds_Cons by auto
qed simp

text \<open>A table with distinct ids gives every node at most one parent.\<close>

definition one_parent :: "(nat \<Rightarrow> nat list) \<Rightarrow> bool" where
  "one_parent kids \<longleftrightarrow> (\<forall>i. distinct (kids i)) \<and> (\<forall>i j k. edge kids i k \<longrightarrow> edge kids j k \<longrightarrow> i = j)"

lemma one_parent_chain:
  assumes "one_parent kids" and "(edge kids)\<^sup>*\<^sup>* a x" and "(edge kids)\<^sup>*\<^sup>* b x"
  shows "(edge kids)\<^sup>*\<^sup>* a b \<or> (edge kids)\<^sup>*\<^sup>* b a"
  using assms(2,3)
proof (induction rule: rtranclp_induct)
  case (step y z)
  then show ?case
  proof (cases "b = z")
    case True
    then show ?thesis using step.hyps by (meson rtranclp.rtrancl_into_rtrancl)
  next
    case False
    then obtain p where "(edge kids)\<^sup>*\<^sup>* b p" "edge kids p z"
      using step.prems by (metis (no_types, lifting) rtranclp.cases)
    then have "(edge kids)\<^sup>*\<^sup>* b y"
      using step.hyps(2) assms(1) unfolding one_parent_def by blast
    then show ?thesis by (rule step.IH)
  qed
qed simp

lemma one_parent_siblings:
  assumes "one_parent kids" "edge kids i a" "edge kids i b" "(edge kids)\<^sup>+\<^sup>+ a b"
  shows "(edge kids)\<^sup>+\<^sup>+ i i"
proof -
  have "\<exists>p. (edge kids)\<^sup>*\<^sup>* a p \<and> edge kids p b"
    using assms(4) by cases (auto intro: tranclp_into_rtranclp)
  then have "(edge kids)\<^sup>*\<^sup>* a i" using assms(1,3) unfolding one_parent_def by blast
  then show ?thesis using assms(2) by (rule rtranclp_into_tranclp2 [rotated])
qed

lemma unfolds_distinct:
  assumes "unfolds kids cs f" and "one_parent kids"
    and "distinct cs" and "\<forall>a \<in> set cs. \<forall>b \<in> set cs. \<not> (edge kids)\<^sup>+\<^sup>+ a b"
  shows "distinct (preorder f)"
  using assms(1,3,4)
proof (induction rule: unfolds.induct)
  case (unfolds_Cons i ts cs us)
  have un: "unfolds kids (i # cs) (Tree i ts # us)"
    using unfolds_Cons.hyps by (rule unfolds.intros)
  then have acyc: "\<not> (edge kids)\<^sup>+\<^sup>+ i i" by (rule unfolds_acyclic) simp
  have ts: "set (preorder ts) = {j. (edge kids)\<^sup>+\<^sup>+ i j}"
    unfolding unfolds_preorder [OF unfolds_Cons.hyps(1)] by (auto simp: tranclp_unfold_left OO_def)
  have us: "set (preorder us) = {j. \<exists>r \<in> set cs. (edge kids)\<^sup>*\<^sup>* r j}"
    using unfolds_Cons.hyps(2) by (rule unfolds_preorder)
  have "distinct (preorder ts)"
    using unfolds_Cons.IH(1) one_parent_siblings [OF assms(2)] acyc assms(2)
    by (auto simp: one_parent_def)
  moreover have "distinct (preorder us)"
    using unfolds_Cons.IH(2) unfolds_Cons.prems by simp
  moreover have "x \<notin> set (preorder us)" if "(edge kids)\<^sup>*\<^sup>* i x" for x
  proof
    assume "x \<in> set (preorder us)"
    then obtain r where r: "r \<in> set cs" "(edge kids)\<^sup>*\<^sup>* r x" using us by auto
    then have "(edge kids)\<^sup>*\<^sup>* i r \<or> (edge kids)\<^sup>*\<^sup>* r i"
      using one_parent_chain [OF assms(2) that] by blast
    then have "i = r" using unfolds_Cons.prems(2) r(1) by (auto dest: rtranclpD)
    then show False using unfolds_Cons.prems(1) r(1) by simp
  qed
  ultimately show ?case using ts acyc by (auto dest: tranclp_into_rtranclp)
qed simp

section \<open>Tables with distinct ids\<close>

lemma byParent_iff: "j \<in> set (byParent nodes p) \<longleftrightarrow> j < length nodes \<and> ns_parentId (nodes ! j) = p"
  by (auto simp: byParent_def)

lemma edge_children_of [simp]: "j \<in> set (children_of nodes i) \<longleftrightarrow> parent_of nodes i j"
  by (auto simp: children_of_def parent_of_def byParent_iff)

lemma edge_eq_parent_of: "edge (children_of nodes) = parent_of nodes"
  by (intro ext) simp

lemma one_parent_children_of:
  assumes "distinct (map ns_id nodes)"
  shows "one_parent (children_of nodes)"
proof -
  have "i = j" if "parent_of nodes i k" "parent_of nodes j k" for i j k
    using that nth_eq_iff_index_eq [OF assms, of i j] by (auto simp: parent_of_def)
  moreover have "distinct (children_of nodes i)" for i
    by (simp add: children_of_def byParent_def)
  ultimately show ?thesis unfolding one_parent_def edge_children_of by blast
qed

lemma root_no_parent: "ns_parentId (nodes ! r) = None \<Longrightarrow> \<not> parent_of nodes i r"
  by (simp add: parent_of_def)

lemma root_not_below: "ns_parentId (nodes ! r) = None \<Longrightarrow> \<not> (parent_of nodes)\<^sup>+\<^sup>+ i r"
  by (auto dest: root_no_parent elim: tranclp.cases)

lemma rooted_acyclic:
  assumes "distinct (map ns_id nodes)" and "rooted nodes j"
  shows "\<not> (parent_of nodes)\<^sup>+\<^sup>+ j j"
proof -
  obtain r where r: "ns_parentId (nodes ! r) = None" "(parent_of nodes)\<^sup>*\<^sup>* r j"
    using assms(2) by (auto simp: rooted_def)
  from r(2) show ?thesis
  proof (induction rule: rtranclp_induct)
    case base
    then show ?case using r(1) by (rule root_not_below)
  next
    case (step y z)
    show ?case
    proof
      assume "(parent_of nodes)\<^sup>+\<^sup>+ z z"
      then have "\<exists>p. (parent_of nodes)\<^sup>*\<^sup>* z p \<and> parent_of nodes p z"
        by cases (auto intro: tranclp_into_rtranclp)
      then have "(parent_of nodes)\<^sup>*\<^sup>* z y"
        using step.hyps(2) one_parent_children_of [OF assms(1)] unfolding one_parent_def by auto
      then show False using step.IH step.hyps(2) by (metis rtranclp_into_tranclp2)
    qed
  qed
qed

lemma rooted_child: "rooted nodes i \<Longrightarrow> parent_of nodes i j \<Longrightarrow> rooted nodes j"
  unfolding rooted_def parent_of_def [of nodes i j]
  by (metis (no_types, lifting) parent_of_def rtranclp.rtrancl_into_rtrancl)

lemma unfolds_list:
  "\<forall>c \<in> set cs. \<exists>ts. unfolds kids (kids c) ts \<Longrightarrow> \<exists>f. unfolds kids cs f"
  by (induction cs) (auto intro: unfolds.intros)

lemma rooted_unfolds:
  assumes d: "distinct (map ns_id nodes)" and "rooted nodes i"
  shows "\<exists>ts. unfolds (children_of nodes) (children_of nodes i) ts"
proof -
  define E where "E = {(i, j). parent_of nodes i j \<and> rooted nodes i}"
  have "E \<subseteq> {..<length nodes} \<times> {..<length nodes}" by (auto simp: E_def parent_of_def)
  then have "finite E" by (rule finite_subset) simp
  moreover have E: "(a, b) \<in> E\<^sup>+ \<Longrightarrow> (parent_of nodes)\<^sup>+\<^sup>+ a b \<and> rooted nodes a" for a b
    by (induction rule: trancl_induct) (auto simp: E_def intro: tranclp.trancl_into_trancl)
  then have "acyclic E" using rooted_acyclic [OF d] by (auto simp: acyclic_def)
  ultimately have "wf (E\<inverse>)" by (rule finite_acyclic_wf_converse)
  then show ?thesis using assms(2)
  proof (induction i rule: wf_induct_rule)
    case (less i)
    have "\<exists>ts. unfolds (children_of nodes) (children_of nodes c) ts" if "c \<in> set (children_of nodes i)" for c
      using that less.prems rooted_child by (intro less.IH) (auto simp: E_def)
    then show ?case by (intro unfolds_list) blast
  qed
qed

lemma table_forest:
  assumes d: "distinct (map ns_id nodes)"
  obtains f where "unfolds (children_of nodes) (byParent nodes None) f"
    and "distinct (preorder f)" and "set (preorder f) = {j. rooted nodes j}"
    and "\<And>i j. below f i j \<longleftrightarrow> rooted nodes i \<and> descendant_of nodes i j"
proof -
  have "rooted nodes r" if "r \<in> set (byParent nodes None)" for r
    using that unfolding rooted_def byParent_iff by blast
  then obtain f where f: "unfolds (children_of nodes) (byParent nodes None) f"
    using unfolds_list [of "byParent nodes None" "children_of nodes"] rooted_unfolds [OF d] by blast
  have "\<forall>a \<in> set (byParent nodes None). \<forall>b \<in> set (byParent nodes None). \<not> (parent_of nodes)\<^sup>+\<^sup>+ a b"
    using root_not_below by (auto simp: byParent_iff)
  then have dp: "distinct (preorder f)"
    using f one_parent_children_of [OF d]
    by (intro unfolds_distinct) (auto simp: edge_eq_parent_of byParent_def)
  have in_range: "(parent_of nodes)\<^sup>*\<^sup>* r j \<Longrightarrow> r < length nodes \<Longrightarrow> j < length nodes" for r j
    by (induction rule: rtranclp_induct) (auto simp: parent_of_def)
  have pre: "set (preorder f) = {j. rooted nodes j}"
    unfolding unfolds_preorder [OF f] edge_eq_parent_of
    by (auto simp: rooted_def byParent_iff intro: in_range)
  show thesis
    using that [OF f dp pre] unfolds_below [OF f] pre
    by (simp add: descendant_of_def edge_eq_parent_of)
qed

text \<open>The walk of a table with distinct ids, as the Euler numbering of its forest.\<close>

lemma table_walk:
  assumes "distinct (map ns_id nodes)"
  obtains f w where "visit (children_of nodes) (byParent nodes None)
      \<lparr>wk_counter = 1, wk_visited = {}, wk_nodes = nodes\<rparr> = Some w"
    and "distinct (preorder f)" and "set (preorder f) = {j. rooted nodes j}"
    and "\<And>i j. below f i j \<longleftrightarrow> rooted nodes i \<and> descendant_of nodes i j"
    and "same_nodes nodes (wk_nodes w)"
    and "wk_visited w = (\<lambda>i. ns_id (nodes ! i)) ` {j. rooted nodes j}"
    and "\<And>i l r. (i, l, r) \<in> set (euler 1 f) \<Longrightarrow>
          ns_lft (wk_nodes w ! i) = l \<and> ns_rgt (wk_nodes w ! i) = r"
proof -
  let ?w0 = "\<lparr>wk_counter = 1, wk_visited = {}, wk_nodes = nodes\<rparr>"
  obtain f where f: "unfolds (children_of nodes) (byParent nodes None) f"
      "distinct (preorder f)" "set (preorder f) = {j. rooted nodes j}"
      "\<And>i j. below f i j \<longleftrightarrow> rooted nodes i \<and> descendant_of nodes i j"
    by (rule table_forest [OF assms]) (rule that)
  have "\<forall>j \<in> set (preorder f). j < length (wk_nodes ?w0)"
    using f(3) by (simp add: rooted_def)
  then obtain w where w: "visit (children_of nodes) (byParent nodes None) ?w0 = Some w" "walked f ?w0 w"
    using visit_walked [OF f(1)] by blast
  have "\<forall>(i, l, r) \<in> set (euler 1 f). ns_lft (wk_nodes w ! i) = l \<and> ns_rgt (wk_nodes w ! i) = r"
    using w(2) f(2) by (simp add: walked_def)
  then show thesis
    using w f walked_visited [OF w(2)] walked_same [OF w(2) refl]
    by (intro that [of w f]) auto
qed

lemma rebuild_forest:
  assumes "distinct (map ns_id nodes)" and "rebuildNestedSet nodes = Some (Inr ns')"
  obtains f where "distinct (preorder f)" and "set (preorder f) = {..<length nodes}"
    and "\<And>i j. i < length nodes \<Longrightarrow> below f i j \<longleftrightarrow> descendant_of nodes i j"
    and "same_nodes nodes ns'"
    and "\<And>i. i < length nodes \<Longrightarrow> (i, ns_lft (ns' ! i), ns_rgt (ns' ! i)) \<in> set (euler 1 f)"
proof -
  obtain f w where w: "visit (children_of nodes) (byParent nodes None)
      \<lparr>wk_counter = 1, wk_visited = {}, wk_nodes = nodes\<rparr> = Some w"
      "distinct (preorder f)" "set (preorder f) = {j. rooted nodes j}"
      "\<And>i j. below f i j \<longleftrightarrow> rooted nodes i \<and> descendant_of nodes i j"
      "same_nodes nodes (wk_nodes w)"
      "wk_visited w = (\<lambda>i. ns_id (nodes ! i)) ` {j. rooted nodes j}"
      "\<And>i l r. (i, l, r) \<in> set (euler 1 f) \<Longrightarrow>
          ns_lft (wk_nodes w ! i) = l \<and> ns_rgt (wk_nodes w ! i) = r"
    by (rule table_walk [OF assms(1)]) (rule that)
  have ns': "ns' = wk_nodes w" "\<forall>n \<in> set (wk_nodes w). ns_id n \<in> wk_visited w"
    using assms(2) w(1) by (auto simp: rebuildNestedSet_def filter_empty_conv split: if_splits)
  have rt: "rooted nodes i" if "i < length nodes" for i
  proof -
    have "ns_id (nodes ! i) \<in> wk_visited w"
      using ns'(2) that same_nodes_nth [OF w(5) that] same_nodes_length [OF w(5)] by (metis nth_mem)
    then obtain j where j: "rooted nodes j" "ns_id (nodes ! i) = ns_id (nodes ! j)" using w(6) by auto
    then have "i = j" using nth_eq_iff_index_eq [OF assms(1)] that by (simp add: rooted_def)
    then show ?thesis using j by simp
  qed
  have pre: "set (preorder f) = {..<length nodes}" using w(3) rt by (auto simp: rooted_def)
  have "(i, ns_lft (ns' ! i), ns_rgt (ns' ! i)) \<in> set (euler 1 f)" if "i < length nodes" for i
  proof -
    have "i \<in> fst ` set (euler 1 f)" using pre that by (metis lessThan_iff list.set_map map_fst_euler)
    then show ?thesis using w(7) ns'(1) by fastforce
  qed
  then show thesis using that [of f] w(2,4,5) pre rt ns'(1) by blast
qed

text \<open>The facts about a successful rebuild that the callers use.\<close>

lemma rebuild_same_nodes:
  assumes "distinct (map ns_id nodes)" and "rebuildNestedSet nodes = Some (Inr ns')"
  shows "same_nodes nodes ns'"
  by (rule rebuild_forest [OF assms])

lemma nested_set_intervals:
  assumes "distinct (map ns_id nodes)" and "rebuildNestedSet nodes = Some (Inr ns')"
    and "i < length nodes" and "j < length nodes"
  shows "descendant_of nodes i j
     \<longleftrightarrow> ns_lft (ns' ! i) < ns_lft (ns' ! j) \<and> ns_rgt (ns' ! j) < ns_rgt (ns' ! i)"
proof -
  obtain f where f: "distinct (preorder f)"
      "\<And>i j. i < length nodes \<Longrightarrow> below f i j \<longleftrightarrow> descendant_of nodes i j"
      "\<And>i. i < length nodes \<Longrightarrow> (i, ns_lft (ns' ! i), ns_rgt (ns' ! i)) \<in> set (euler 1 f)"
    by (rule rebuild_forest [OF assms(1,2)]) (rule that)
  show ?thesis
    using euler_nested [OF f(1) f(3) f(3), of i j] f(2) assms(3,4) by simp
qed

text \<open>The walk returns, and what it reports.\<close>

lemma rebuild_cases:
  assumes "distinct (map ns_id nodes)"
  defines "lost \<equiv> filter (\<lambda>i. \<not> rooted nodes i) [0..<length nodes]"
  shows "if lost = [] then \<exists>ns'. rebuildNestedSet nodes = Some (Inr ns')
         else rebuildNestedSet nodes
                = Some (Inl (PlainError (orphan_message (map (\<lambda>i. ns_id (nodes ! i)) lost))))"
proof -
  obtain f w where w: "visit (children_of nodes) (byParent nodes None)
      \<lparr>wk_counter = 1, wk_visited = {}, wk_nodes = nodes\<rparr> = Some w"
      "same_nodes nodes (wk_nodes w)"
      "wk_visited w = (\<lambda>i. ns_id (nodes ! i)) ` {j. rooted nodes j}"
    by (rule table_walk [OF assms(1)]) (rule that)
  have vis: "ns_id (nodes ! i) \<in> wk_visited w \<longleftrightarrow> rooted nodes i" if "i < length nodes" for i
    using nth_eq_iff_index_eq [OF assms(1)] that w(3) by (auto simp: rooted_def)
  have "map ns_id (filter (\<lambda>n. ns_id n \<notin> wk_visited w) (wk_nodes w))
      = filter (\<lambda>x. x \<notin> wk_visited w) (map ns_id nodes)"
    using w(2) map_filter_key [of ns_id "\<lambda>x. x \<notin> wk_visited w" "wk_nodes w"]
    by (simp add: same_nodes_def)
  also have "\<dots> = filter (\<lambda>x. x \<notin> wk_visited w) (map (\<lambda>i. ns_id (nodes ! i)) [0..<length nodes])"
    using arg_cong [OF map_nth [of nodes], of "map ns_id"] by (simp add: comp_def)
  also have "\<dots> = map (\<lambda>i. ns_id (nodes ! i)) lost"
    unfolding lost_def filter_map comp_def using vis
    by (intro arg_cong [where f = "map _"] filter_cong) auto
  finally have lost: "map ns_id (filter (\<lambda>n. ns_id n \<notin> wk_visited w) (wk_nodes w))
      = map (\<lambda>i. ns_id (nodes ! i)) lost" .
  then have "filter (\<lambda>n. ns_id n \<notin> wk_visited w) (wk_nodes w) = [] \<longleftrightarrow> lost = []"
    by (metis map_is_Nil_conv)
  then show ?thesis using w(1) lost by (auto simp: rebuildNestedSet_def Let_def)
qed

lemma rebuild_returns_ok:
  assumes "distinct (map ns_id nodes)" and "rebuildNestedSet nodes = Some (Inr ns')"
    and "i < length nodes"
  shows "rooted nodes i"
  using rebuild_cases [OF assms(1)] assms(2,3) by (auto simp: filter_empty_conv split: if_splits)

lemma rebuild_not_None: "distinct (map ns_id nodes) \<Longrightarrow> rebuildNestedSet nodes \<noteq> None"
  using rebuild_cases [of nodes] by (auto split: if_splits)

section \<open>Properties\<close>

text \<open>C11: after a successful rebuild of a table with distinct ids, the interval of node \<open>j\<close>
  lies strictly inside the interval of node \<open>i\<close> exactly when \<open>j\<close> is a descendant of \<open>i\<close> along
  the parent column, so a subtree query by \<open>lft\<close>/\<open>rgt\<close> returns the subtree and nothing else.\<close>

theorem nested_set_descendants:
  assumes "distinct (map ns_id nodes)" and "rebuildNestedSet nodes = Some (Inr ns')"
    and "i < length nodes" and "j < length nodes"
  shows "descendant_of nodes i j
     \<longleftrightarrow> ns_lft (ns' ! i) < ns_lft (ns' ! j) \<and> ns_rgt (ns' ! j) < ns_rgt (ns' ! i)"
  using assms by (rule nested_set_intervals)

definition example_nodes :: "nested_set_node list" where
  "example_nodes =
     [\<lparr>ns_id = ''a'', ns_parentId = None, ns_lft = 0, ns_rgt = 0\<rparr>,
      \<lparr>ns_id = ''b'', ns_parentId = Some ''c'', ns_lft = 7, ns_rgt = 9\<rparr>,
      \<lparr>ns_id = ''c'', ns_parentId = Some ''a'', ns_lft = 0, ns_rgt = 0\<rparr>]"

lemma example_nodes_rebuilt:
  "rebuildNestedSet example_nodes = Some (Inr
     [\<lparr>ns_id = ''a'', ns_parentId = None, ns_lft = 1, ns_rgt = 6\<rparr>,
      \<lparr>ns_id = ''b'', ns_parentId = Some ''c'', ns_lft = 3, ns_rgt = 4\<rparr>,
      \<lparr>ns_id = ''c'', ns_parentId = Some ''a'', ns_lft = 2, ns_rgt = 5\<rparr>])"
  by (simp add: example_nodes_def rebuildNestedSet_def children_of_def byParent_def
      enter_child_def leave_child_def)

lemma example_nodes_distinct: "distinct (map ns_id example_nodes)" "length example_nodes = 3"
  by (simp_all add: example_nodes_def)

theorem nested_set_descendants_witness: "descendant_of example_nodes 0 1"
  using nested_set_descendants [OF example_nodes_distinct(1) example_nodes_rebuilt, of 0 1]
  by (simp add: example_nodes_distinct(2))

text \<open>C38: on a table with distinct ids the walk always returns; it succeeds exactly when every
  row is reachable from a root, and otherwise the error lists exactly the unreachable rows
  (orphans and cycles), in table order.\<close>

theorem rebuild_returns:
  assumes "distinct (map ns_id nodes)"
  defines "lost \<equiv> filter (\<lambda>i. \<not> rooted nodes i) [0..<length nodes]"
  shows "if lost = [] then \<exists>ns'. rebuildNestedSet nodes = Some (Inr ns')
         else rebuildNestedSet nodes
                = Some (Inl (PlainError (orphan_message (map (\<lambda>i. ns_id (nodes ! i)) lost))))"
  unfolding lost_def using assms(1) by (rule rebuild_cases)

theorem rebuild_returns_witness:
  "rebuildNestedSet [\<lparr>ns_id = ''a'', ns_parentId = Some ''a'', ns_lft = 0, ns_rgt = 0\<rparr>]
     = Some (Inl (PlainError (orphan_message [''a''])))"
proof -
  let ?ns = "[\<lparr>ns_id = ''a'', ns_parentId = Some ''a'', ns_lft = 0, ns_rgt = 0\<rparr>]"
  have "\<not> rooted ?ns 0" by (auto simp: rooted_def)
  then show ?thesis using rebuild_returns [of ?ns] by simp
qed

text \<open>a successful rebuild changes nothing but the bounds, uses exactly the numbers
  \<open>1..2n\<close> as bounds, and gives every node the width of its subtree:
  \<open>rgt = lft + 2 * descendants + 1\<close>.\<close>

theorem nested_set_bounds:
  assumes "distinct (map ns_id nodes)" and "rebuildNestedSet nodes = Some (Inr ns')"
  shows "map ns_id ns' = map ns_id nodes \<and> map ns_parentId ns' = map ns_parentId nodes
    \<and> (\<Union>i<length nodes. {ns_lft (ns' ! i), ns_rgt (ns' ! i)}) = {1..2 * length nodes}
    \<and> (\<forall>i<length nodes.
          ns_rgt (ns' ! i) = ns_lft (ns' ! i) + 2 * card {j. descendant_of nodes i j} + 1)"
proof -
  obtain f where f: "distinct (preorder f)" "set (preorder f) = {..<length nodes}"
      "\<And>i j. i < length nodes \<Longrightarrow> below f i j \<longleftrightarrow> descendant_of nodes i j"
      "same_nodes nodes ns'"
      "\<And>i. i < length nodes \<Longrightarrow> (i, ns_lft (ns' ! i), ns_rgt (ns' ! i)) \<in> set (euler 1 f)"
    by (rule rebuild_forest [OF assms]) (rule that)
  have len: "length (preorder f) = length nodes"
    using distinct_card [OF f(1)] f(2) by simp
  have set_eq: "set (euler 1 f) = (\<lambda>i. (i, ns_lft (ns' ! i), ns_rgt (ns' ! i))) ` {..<length nodes}"
  proof (rule card_subset_eq [symmetric])
    show "(\<lambda>i. (i, ns_lft (ns' ! i), ns_rgt (ns' ! i))) ` {..<length nodes} \<subseteq> set (euler 1 f)"
      using f(5) by auto
    have "distinct (euler 1 f)" by (metis distinct_map f(1) map_fst_euler)
    then have "card (set (euler 1 f)) = length nodes"
      using len by (metis distinct_card length_map map_fst_euler)
    then show "card ((\<lambda>i. (i, ns_lft (ns' ! i), ns_rgt (ns' ! i))) ` {..<length nodes}) = card (set (euler 1 f))"
      by (subst card_image) (auto simp: inj_on_def)
  qed simp
  have "(\<Union>i<length nodes. {ns_lft (ns' ! i), ns_rgt (ns' ! i)}) = ends (euler 1 f)"
    unfolding ends_def set_eq by auto
  also have "\<dots> = {1..2 * length nodes}" by (auto simp: euler_ends len)
  finally show ?thesis
    using f(3,4) euler_width [OF f(1) f(5)] by (simp add: same_nodes_def)
qed

theorem nested_set_bounds_witness:
  "card {j. descendant_of example_nodes 0 j} = 2"
  using nested_set_bounds [OF example_nodes_distinct(1) example_nodes_rebuilt]
  by (simp add: example_nodes_distinct(2) All_less_Suc numeral_3_eq_3)

section \<open>Rebuilding a table of entities\<close>

text \<open>What the callers of \<open>rebuildNestedSetFor\<close> rely on: with distinct ids, entity \<open>k\<close> gets the
  bounds of mirror \<open>k\<close>.\<close>

lemma rebuildNestedSetFor_Inr:
  assumes "rebuildNestedSetFor gid gparent glft grgt setb es = Some (Inr es')"
    and "distinct (map gid es)"
  obtains ms where "rebuildNestedSet (map (mirror_of gid gparent glft grgt) es) = Some (Inr ms)"
    and "length ms = length es" and "length es' = length es"
    and "\<And>k. k < length es \<Longrightarrow> es' ! k = setb (ns_lft (ms ! k)) (ns_rgt (ms ! k)) (es ! k)"
proof -
  let ?ms = "map (mirror_of gid gparent glft grgt) es"
  obtain ms where ms: "rebuildNestedSet ?ms = Some (Inr ms)"
      and es': "es' = map (write_back gid setb ms) es"
    using assms(1) by (auto simp: rebuildNestedSetFor_def split: option.splits sum.splits)
  have "same_nodes ?ms ms"
    by (rule rebuild_same_nodes [OF _ ms]) (use assms(2) in \<open>simp add: mirror_of_def comp_def\<close>)
  then have ids: "map ns_id ms = map gid es"
    by (simp add: same_nodes_def mirror_of_def comp_def)
  then have len: "length ms = length es" by (metis length_map)
  have "write_back gid setb ms (es ! k) = setb (ns_lft (ms ! k)) (ns_rgt (ms ! k)) (es ! k)"
    if k: "k < length es" for k
  proof -
    have "gid (es ! k) = ns_id (ms ! k)" using ids k len by (metis nth_map)
    then have "(gid (es ! k), ms ! k) \<in> set (map (\<lambda>m. (ns_id m, m)) ms)"
      using k len by auto
    moreover have "distinct (map fst (map (\<lambda>m. (ns_id m, m)) ms))"
      using assms(2) ids by (simp add: comp_def)
    ultimately have "js_map_get (map (\<lambda>m. (ns_id m, m)) ms) (gid (es ! k)) = Some (ms ! k)"
      by (rule js_map_get_distinct [rotated])
    then show ?thesis by (simp add: write_back_def)
  qed
  then show thesis using that [OF ms len] es' by simp
qed

lemma rebuildNestedSetFor_not_None:
  assumes "distinct (map gid es)"
  shows "rebuildNestedSetFor gid gparent glft grgt setb es \<noteq> None"
  using rebuild_not_None [of "map (mirror_of gid gparent glft grgt) es"] assms
  by (auto simp: rebuildNestedSetFor_def mirror_of_def comp_def split: option.splits sum.splits)

end
