(* ===== verification/Tree_Service.thy ===== *)
theory Tree_Service
  imports Base_Service Nested_Set
begin

text \<open>
  The two nested-set trees of the inventory context:
  \<open>apps/inventory-bc/src/modules/item-group/services/item-groups.service.ts\<close> and
  \<open>apps/inventory-bc/src/modules/warehouse/services/warehouses.service.ts\<close>. The two services are
  the same code over two entities, so the operations are defined once over the columns the
  entities share and instantiated with the wording of each service. Every operation runs in one
  transaction: an error value means the table is unchanged. The outer \<open>option\<close> is the possible
  non-termination of the tree walk.
\<close>

section \<open>Entities\<close>

record tree_entity = base_entity +
  name_th :: string
  name_en :: string
  is_group :: bool
  parent_id :: "string option"
  lft :: nat
  rgt :: nat

type_synonym item_group = tree_entity

datatype warehouse_type = STOCK | TRANSIT | REJECT

record warehouse = tree_entity +
  warehouse_type :: warehouse_type

type_synonym 'm tree_table = "'m tree_entity_scheme list"

text \<open>What differs between the services: the table name and the wording of the messages.\<close>

record tree_texts =
  tx_table :: string
  tx_entity :: string
  tx_parent_not_found :: "string \<Rightarrow> string"
  tx_leaf_parent :: string
  tx_own_parent :: string
  tx_has_children :: string

section \<open>Operations\<close>

definition assertValidParent :: "tree_texts \<Rightarrow> string \<Rightarrow> 'm tree_table \<Rightarrow> unit result" where
  "assertValidParent tx parentId t =
     (case repo_findOne (\<lambda>r. eid r = parentId \<and> \<not> is_deleted r) t of
        None \<Rightarrow> Inl (BadRequestException (tx_parent_not_found tx parentId))
      | Some parent \<Rightarrow>
          if \<not> is_group parent then Inl (BadRequestException (tx_leaf_parent tx)) else Inr ())"

definition set_bounds :: "nat \<Rightarrow> nat \<Rightarrow> 'm tree_entity_scheme \<Rightarrow> 'm tree_entity_scheme" where
  "set_bounds l r e = e\<lparr>lft := l, rgt := r\<rparr>"

definition rebuildTree ::
    "'m tree_entity_ext constraint \<Rightarrow> 'm tree_table \<Rightarrow> 'm tree_table result option" where
  "rebuildTree chk t =
     (case rebuildNestedSetFor eid parent_id lft rgt set_bounds (repo_find (\<lambda>r. \<not> is_deleted r) t) of
        None \<Rightarrow> None
      | Some (Inl e) \<Rightarrow> Some (Inl e)
      | Some (Inr nodes) \<Rightarrow> Some (repo_save_all chk nodes t))"

text \<open>\<open>if (data.parent_item_group_id)\<close>: neither null nor the empty string.\<close>

definition truthy_id :: "string option \<Rightarrow> bool" where
  "truthy_id p = (case p of None \<Rightarrow> False | Some s \<Rightarrow> s \<noteq> [])"

definition tree_tx :: "tree_texts \<Rightarrow> 'a result option \<Rightarrow> 'a result option" where
  "tree_tx tx r = map_option (executeDbOperation (tx_table tx)) r"

definition tree_create ::
    "tree_texts \<Rightarrow> 'm tree_entity_ext constraint \<Rightarrow> string \<Rightarrow> 'm tree_entity_scheme \<Rightarrow> actor
      \<Rightarrow> 'm tree_table \<Rightarrow> 'm tree_table result option" where
  "tree_create tx chk new_id data user t = tree_tx tx
     (case (if truthy_id (parent_id data) then assertValidParent tx (the (parent_id data)) t else Inr ()) of
        Inl e \<Rightarrow> Some (Inl e)
      | Inr _ \<Rightarrow>
          (let entity = stamp_created user (data\<lparr>eid := new_id, lft := 0, rgt := 0\<rparr>)
           in case repo_save chk entity t of
                Inl e \<Rightarrow> Some (Inl e)
              | Inr t1 \<Rightarrow> rebuildTree chk t1))"

text \<open>An update payload: the parent column (undefined, null or a value) and the merge of the
  other columns.\<close>

definition tree_update ::
    "tree_texts \<Rightarrow> 'm tree_entity_ext constraint \<Rightarrow> string \<Rightarrow> string option option
      \<Rightarrow> ('m tree_entity_scheme \<Rightarrow> 'm tree_entity_scheme) \<Rightarrow> actor
      \<Rightarrow> 'm tree_table \<Rightarrow> 'm tree_table result option" where
  "tree_update tx chk i parent patch user t = tree_tx tx
     (case (case parent of
              Some (Some p) \<Rightarrow>
                if p = i then Inl (BadRequestException (tx_own_parent tx)) else assertValidParent tx p t
            | _ \<Rightarrow> Inr ()) of
        Inl e \<Rightarrow> Some (Inl e)
      | Inr _ \<Rightarrow>
          (case preload i (\<lambda>r. case parent of None \<Rightarrow> patch r | Some p \<Rightarrow> (patch r)\<lparr>parent_id := p\<rparr>) user t of
             None \<Rightarrow> Some (Inl (NotFoundException (not_found_message (tx_entity tx) i)))
           | Some entity \<Rightarrow>
               (case repo_save chk entity t of
                  Inl e \<Rightarrow> Some (Inl e)
                | Inr t1 \<Rightarrow> rebuildTree chk t1)))"

definition tree_delete ::
    "tree_texts \<Rightarrow> 'm tree_entity_ext constraint \<Rightarrow> nat \<Rightarrow> string \<Rightarrow> bool \<Rightarrow> actor
      \<Rightarrow> 'm tree_table \<Rightarrow> 'm tree_table result option" where
  "tree_delete tx chk now i softDelete user t = tree_tx tx
     (if repo_count (\<lambda>r. parent_id r = Some i \<and> \<not> is_deleted r) t > 0
      then Some (Inl (BadRequestException (tx_has_children tx)))
      else let (t1, affected) = deleteEntity now i softDelete user t
           in if affected = 0 then Some (Inl (NotFoundException (not_found_message (tx_entity tx) i)))
              else rebuildTree chk t1)"

subsection \<open>The two services\<close>

definition item_group_texts :: tree_texts where
  "item_group_texts =
     \<lparr>tx_table = ''item_groups'', tx_entity = ''ItemGroup'',
      tx_parent_not_found = (\<lambda>p. ''Parent item group '' @ quoted p @ '' not found.''),
      tx_leaf_parent = ''Cannot attach a child item group to a leaf (is_group=false) parent.'',
      tx_own_parent = ''An item group cannot be its own parent.'',
      tx_has_children = ''Cannot delete an item group that still has child item groups.''\<rparr>"

definition warehouse_texts :: tree_texts where
  "warehouse_texts =
     \<lparr>tx_table = ''warehouses'', tx_entity = ''Warehouse'',
      tx_parent_not_found = (\<lambda>p. ''Parent warehouse '' @ quoted p @ '' not found.''),
      tx_leaf_parent = ''Cannot attach a child warehouse to a leaf (is_group=false) parent.'',
      tx_own_parent = ''A warehouse cannot be its own parent.'',
      tx_has_children = ''Cannot delete a warehouse that still has child warehouses.''\<rparr>"

definition itemGroups_create where "itemGroups_create = tree_create item_group_texts"
definition itemGroups_update where "itemGroups_update = tree_update item_group_texts"
definition itemGroups_delete where "itemGroups_delete = tree_delete item_group_texts"
definition warehouses_create where "warehouses_create = tree_create warehouse_texts"
definition warehouses_update where "warehouses_update = tree_update warehouse_texts"
definition warehouses_delete where "warehouses_delete = tree_delete warehouse_texts"

text \<open>One request to a tree service, and the table after a sequence of them: a failed request
  leaves the table as it was.\<close>

datatype 'm tree_request =
    CreateNode string "'m tree_entity_scheme" actor
  | UpdateNode string "string option option" "'m tree_entity_scheme \<Rightarrow> 'm tree_entity_scheme" actor
  | DeleteNode nat string bool actor

fun run_request :: "tree_texts \<Rightarrow> 'm tree_entity_ext constraint \<Rightarrow> 'm tree_request \<Rightarrow> 'm tree_table
    \<Rightarrow> 'm tree_table result option" where
  "run_request tx chk (CreateNode i d u) t = tree_create tx chk i d u t"
| "run_request tx chk (UpdateNode i p f u) t = tree_update tx chk i p f u t"
| "run_request tx chk (DeleteNode now i s u) t = tree_delete tx chk now i s u t"

fun tree_run :: "tree_texts \<Rightarrow> 'm tree_entity_ext constraint \<Rightarrow> 'm tree_request list \<Rightarrow> 'm tree_table
    \<Rightarrow> 'm tree_table" where
  "tree_run tx chk [] t = t"
| "tree_run tx chk (q # qs) t =
     (case run_request tx chk q t of Some (Inr t') \<Rightarrow> tree_run tx chk qs t' | _ \<Rightarrow> tree_run tx chk qs t)"

section \<open>The invariant\<close>

definition live_nodes :: "'m tree_table \<Rightarrow> 'm tree_table" where
  "live_nodes t = repo_find (\<lambda>r. \<not> is_deleted r) t"

text \<open>Row \<open>j\<close> of the live rows is a descendant of row \<open>i\<close> along the parent column.\<close>

definition live_mirror :: "'m tree_table \<Rightarrow> nested_set_node list" where
  "live_mirror t = map (mirror_of eid parent_id lft rgt) (live_nodes t)"

text \<open>Every live row hangs from a root, and the bounds of the live rows nest exactly as the
  parent column says.\<close>

definition tree_ok :: "'m tree_table \<Rightarrow> bool" where
  "tree_ok t \<longleftrightarrow> keys_ok t
     \<and> (\<forall>i < length (live_nodes t). rooted (live_mirror t) i)
     \<and> (\<forall>i < length (live_nodes t). \<forall>j < length (live_nodes t).
          descendant_of (live_mirror t) i j
            \<longleftrightarrow> lft (live_nodes t ! i) < lft (live_nodes t ! j) \<and> rgt (live_nodes t ! j) < rgt (live_nodes t ! i))"

section \<open>The rebuild re-establishes the invariant\<close>

lemma parent_of_same: "same_nodes a b \<Longrightarrow> parent_of b = parent_of a"
  using same_nodes_nth [of a b] by (intro ext) (auto simp: parent_of_def same_nodes_length)

lemma descendant_of_same: "same_nodes a b \<Longrightarrow> descendant_of b = descendant_of a"
  by (intro ext) (simp add: descendant_of_def parent_of_same)

lemma rooted_same: "same_nodes a b \<Longrightarrow> rooted b i = rooted a i"
  using same_nodes_nth [of a b] by (auto simp: rooted_def parent_of_same same_nodes_length)

lemma save_all_in_place:
  assumes "repo_save_all chk rs t = Inr t'" and "distinct (map eid rs)" and "eid ` set rs \<subseteq> eid ` set t"
  shows "t' = map (\<lambda>x. case row rs (eid x) of None \<Rightarrow> x | Some r \<Rightarrow> r) t"
  using assms
proof (induction rs arbitrary: t)
  case Nil
  then show ?case by simp
next
  case (Cons r rs)
  let ?t = "map (\<lambda>x. if eid x = eid r then r else x) t"
  have "repo_save_all chk rs ?t = Inr t'"
    using Cons.prems(1,3) by (auto simp: repo_save_def put_row_def split: option.splits sum.splits)
  moreover have "eid ` set ?t = eid ` set t"
    unfolding list.set_map [symmetric] by (rule arg_cong [of _ _ set]) simp
  ultimately have t': "t' = map (\<lambda>x. case row rs (eid x) of None \<Rightarrow> x | Some r \<Rightarrow> r) ?t"
    using Cons.IH [of ?t] Cons.prems(2,3) by simp
  have "row rs (eid r) = None" using Cons.prems(2) by (simp add: row_None)
  then show ?case unfolding t' by (auto simp: row_def)
qed

lemma live_nodes_mem: "r \<in> set (live_nodes t) \<longleftrightarrow> r \<in> set t \<and> visible r \<and> \<not> is_deleted r"
  by (auto simp: live_nodes_def repo_find_def)

lemma live_nodes_keys: "keys_ok t \<Longrightarrow> distinct (map eid (live_nodes t))"
  by (auto simp: live_nodes_def repo_find_def keys_ok_def distinct_map intro: inj_on_subset)

lemma set_bounds_simps [simp]:
  "eid (set_bounds l r e) = eid e" "is_deleted (set_bounds l r e) = is_deleted e"
  "deleted_at (set_bounds l r e) = deleted_at e" "parent_id (set_bounds l r e) = parent_id e"
  "lft (set_bounds l r e) = l" "rgt (set_bounds l r e) = r"
  by (simp_all add: set_bounds_def)

text \<open>After a rebuild the live rows are the old live rows, in order, with the new bounds.\<close>

lemma rebuildTree_live:
  assumes "rebuildTree chk t = Some (Inr t')" and keys: "keys_ok t"
  obtains ms where "rebuildNestedSet (live_mirror t) = Some (Inr ms)"
    and "length ms = length (live_nodes t)" and "length (live_nodes t') = length (live_nodes t)"
    and "\<And>k. k < length (live_nodes t) \<Longrightarrow>
          live_nodes t' ! k = set_bounds (ns_lft (ms ! k)) (ns_rgt (ms ! k)) (live_nodes t ! k)"
    and "keys_ok t'"
proof -
  let ?L = "live_nodes t"
  obtain ns where ns: "rebuildNestedSetFor eid parent_id lft rgt set_bounds ?L = Some (Inr ns)"
      and save: "repo_save_all chk ns t = Inr t'"
    using assms(1) by (auto simp: rebuildTree_def live_nodes_def split: option.splits sum.splits)
  obtain ms where ms: "rebuildNestedSet (map (mirror_of eid parent_id lft rgt) ?L) = Some (Inr ms)"
      "length ms = length ?L" "length ns = length ?L"
      "\<And>k. k < length ?L \<Longrightarrow> ns ! k = set_bounds (ns_lft (ms ! k)) (ns_rgt (ms ! k)) (?L ! k)"
    by (rule rebuildNestedSetFor_Inr [OF ns live_nodes_keys [OF keys]]) (rule that)
  have ids: "map eid ns = map eid ?L"
    using ms(3,4) by (intro nth_equalityI) auto
  then have "eid ` set ns \<subseteq> eid ` set t"
    using live_nodes_mem [of _ t] by (metis (no_types, lifting) image_mono list.set_map subsetI)
  moreover have dn: "distinct (map eid ns)" using ids live_nodes_keys [OF keys] by simp
  ultimately have t': "t' = map (\<lambda>x. case row ns (eid x) of None \<Rightarrow> x | Some r \<Rightarrow> r) t"
    using save by (intro save_all_in_place)
  define up where "up x = (case row ns (eid x) of None \<Rightarrow> x | Some r \<Rightarrow> r)" for x
  have upk: "up (?L ! k) = ns ! k" if "k < length ?L" for k
  proof -
    have "row ns (eid (?L ! k)) = Some (ns ! k)"
      using that ms(3) ms(4) [OF that] dn nth_mem [of k ns] by (subst row_iff) (simp_all add: keys_ok_def)
    then show ?thesis by (simp add: up_def)
  qed
  have L': "live_nodes t' = map up ?L"
  proof -
    have "(visible (up x) \<and> \<not> is_deleted (up x)) \<longleftrightarrow> (visible x \<and> \<not> is_deleted x)" if "x \<in> set t" for x
    proof (cases "x \<in> set ?L")
      case True
      then obtain k where "k < length ?L" "x = ?L ! k" by (metis in_set_conv_nth)
      then show ?thesis using upk ms(4) by (simp add: visible_def)
    next
      case False
      have "eid x \<notin> eid ` set ?L"
        using False that keys_eq [OF keys] live_nodes_mem [of _ t] by (metis imageE)
      then have "row ns (eid x) = None" using ids unfolding row_None by (metis list.set_map)
      then show ?thesis by (simp add: up_def)
    qed
    then show ?thesis
      unfolding live_nodes_def repo_find_def t' up_def [abs_def, symmetric] filter_map comp_def
      by (metis (mono_tags, lifting) filter_cong)
  qed
  have "map eid t' = map eid t"
    unfolding t' by (auto dest: row_key split: option.splits)
  then have "keys_ok t'" using keys by (simp add: keys_ok_def)
  then show thesis using that [of ms] ms upk L' by (simp add: live_mirror_def)
qed

lemma rebuildTree_ok:
  assumes "rebuildTree chk t = Some (Inr t')" and "keys_ok t"
  shows "tree_ok t'"
proof -
  obtain ms where ms: "rebuildNestedSet (live_mirror t) = Some (Inr ms)"
      "length ms = length (live_nodes t)" "length (live_nodes t') = length (live_nodes t)"
      "\<And>k. k < length (live_nodes t) \<Longrightarrow>
          live_nodes t' ! k = set_bounds (ns_lft (ms ! k)) (ns_rgt (ms ! k)) (live_nodes t ! k)"
      "keys_ok t'"
    by (rule rebuildTree_live [OF assms]) (rule that)
  have d: "distinct (map ns_id (live_mirror t))"
    using live_nodes_keys [OF assms(2)] by (simp add: live_mirror_def mirror_of_def comp_def)
  have len: "length (live_mirror t) = length (live_nodes t)" by (simp add: live_mirror_def)
  have "map eid (live_nodes t') = map eid (live_nodes t)"
    "map parent_id (live_nodes t') = map parent_id (live_nodes t)"
    using ms(3,4) by (auto intro!: nth_equalityI)
  then have same: "same_nodes (live_mirror t) (live_mirror t')"
    by (simp add: same_nodes_def live_mirror_def mirror_of_def comp_def)
  have "rooted (live_mirror t) i" if "i < length (live_nodes t)" for i
    using rebuild_returns_ok [OF d ms(1)] that len by simp
  then show ?thesis
    using ms nested_set_intervals [OF d ms(1)] same len
    by (simp add: tree_ok_def rooted_same descendant_of_same)
qed

section \<open>Every operation keeps the invariant\<close>

lemma repo_save_keys: "repo_save chk r t = Inr t' \<Longrightarrow> keys_ok t \<Longrightarrow> keys_ok t'"
  by (auto simp: repo_save_def split: option.splits)

lemma tree_tx_Some [simp]: "tree_tx tx r = Some (Inr t') \<longleftrightarrow> r = Some (Inr t')"
  by (auto simp: tree_tx_def executeDbOperation_Inr)

lemma tree_tx_None [simp]: "tree_tx tx r = None \<longleftrightarrow> r = None"
  by (simp add: tree_tx_def)

lemma rebuildTree_returns: "keys_ok t \<Longrightarrow> \<exists>y. rebuildTree chk t = Some y"
  using rebuildNestedSetFor_not_None [OF live_nodes_keys]
  by (force simp: rebuildTree_def live_nodes_def split: option.splits sum.splits)

lemma tree_create_ok: "tree_create tx chk i d u t = Some (Inr t') \<Longrightarrow> keys_ok t \<Longrightarrow> tree_ok t'"
  unfolding tree_create_def Let_def
  by (auto split: sum.splits if_splits dest: repo_save_keys rebuildTree_ok)

lemma tree_update_ok: "tree_update tx chk i p f u t = Some (Inr t') \<Longrightarrow> keys_ok t \<Longrightarrow> tree_ok t'"
  unfolding tree_update_def Let_def
  by (auto split: sum.splits option.splits if_splits dest: repo_save_keys rebuildTree_ok)

lemma tree_delete_ok: "tree_delete tx chk now i s u t = Some (Inr t') \<Longrightarrow> keys_ok t \<Longrightarrow> tree_ok t'"
  using deleteEntity_keys [of t now i s u] unfolding tree_delete_def Let_def
  by (auto split: prod.splits if_splits dest: rebuildTree_ok)

lemma tree_create_not_None: "keys_ok t \<Longrightarrow> tree_create tx chk i d u t \<noteq> None"
  unfolding tree_create_def Let_def
  by (auto split: sum.splits if_splits intro: rebuildTree_returns repo_save_keys)

lemma tree_update_not_None: "keys_ok t \<Longrightarrow> tree_update tx chk i p f u t \<noteq> None"
  unfolding tree_update_def Let_def
  by (auto split: sum.splits option.splits if_splits intro: rebuildTree_returns repo_save_keys)

lemma tree_delete_not_None: "keys_ok t \<Longrightarrow> tree_delete tx chk now i s u t \<noteq> None"
  using deleteEntity_keys [of t now i s u] unfolding tree_delete_def Let_def
  by (auto split: prod.splits if_splits intro: rebuildTree_returns)

lemma run_request_ok: "run_request tx chk q t = Some (Inr t') \<Longrightarrow> keys_ok t \<Longrightarrow> tree_ok t'"
  by (cases q) (auto dest: tree_create_ok tree_update_ok tree_delete_ok)

lemma run_request_not_None: "keys_ok t \<Longrightarrow> run_request tx chk q t \<noteq> None"
  by (cases q) (simp_all add: tree_create_not_None tree_update_not_None tree_delete_not_None)

lemma tree_ok_keys: "tree_ok t \<Longrightarrow> keys_ok t"
  by (simp add: tree_ok_def)

lemma tree_run_ok: "tree_ok t \<Longrightarrow> tree_ok (tree_run tx chk qs t)"
proof (induction qs arbitrary: t)
  case (Cons q qs)
  then show ?case
    by (auto split: option.splits sum.splits dest: run_request_ok [OF _ tree_ok_keys])
qed simp

section \<open>Re-parenting\<close>

lemma tree_ok_acyclic: "tree_ok t \<Longrightarrow> \<not> descendant_of (live_mirror t) i i"
proof
  assume ok: "tree_ok t" and d: "descendant_of (live_mirror t) i i"
  have "i < length (live_nodes t)"
    using d unfolding descendant_of_def by (rule tranclp.cases) (auto simp: parent_of_def live_mirror_def)
  then show False using ok d unfolding tree_ok_def by blast
qed

lemma live_mirror_nth: "k < length (live_nodes t) \<Longrightarrow>
  live_mirror t ! k = mirror_of eid parent_id lft rgt (live_nodes t ! k)"
  by (simp add: live_mirror_def)

lemma parent_of_live: "parent_of (live_mirror t) a b \<longleftrightarrow> a < length (live_nodes t) \<and> b < length (live_nodes t)
   \<and> parent_id (live_nodes t ! b) = Some (eid (live_nodes t ! a))"
  by (auto simp: parent_of_def live_mirror_def mirror_of_def)

lemma live_nodes_put:
  assumes "keys_ok t" and "eid r \<in> eid ` set (live_nodes t)" and "visible r" and "\<not> is_deleted r"
  shows "live_nodes (put_row r t) = map (\<lambda>x. if eid x = eid r then r else x) (live_nodes t)"
proof -
  have live: "visible x \<and> \<not> is_deleted x" if "x \<in> set t" "eid x = eid r" for x
  proof -
    obtain y where "y \<in> set t" "eid y = eid r" "visible y" "\<not> is_deleted y"
      using assms(2) by (metis imageE live_nodes_mem)
    then show ?thesis using keys_eq [OF assms(1)] that by metis
  qed
  have "eid r \<in> eid ` set t" using assms(2) by (metis imageE image_eqI live_nodes_mem)
  moreover have "filter (\<lambda>x. visible (if eid x = eid r then r else x) \<and> \<not> is_deleted (if eid x = eid r then r else x)) t
      = filter (\<lambda>x. visible x \<and> \<not> is_deleted x) t"
    using assms(3,4) live by (intro filter_cong) auto
  ultimately show ?thesis by (simp add: live_nodes_def repo_find_def put_row_def filter_map comp_def)
qed

lemma tranclp_redirect:
  assumes "R\<^sup>+\<^sup>+ i p" and "\<not> R\<^sup>+\<^sup>+ i i" and "\<And>a b. R a b \<Longrightarrow> b \<noteq> i \<Longrightarrow> S a b"
  shows "S\<^sup>+\<^sup>+ i p"
  using assms(1)
proof (induction rule: tranclp_induct)
  case (base y)
  then show ?case using assms(2,3) by blast
next
  case (step y z)
  then have "z \<noteq> i" using assms(2) by (meson tranclp.trancl_into_trancl)
  then show ?case using step assms(3) by (meson tranclp.trancl_into_trancl)
qed

text \<open>Hanging a row below one of its own descendants closes a cycle, which the rebuild finds.\<close>

lemma cyclic_rebuild_fails:
  assumes ok: "tree_ok t" and i: "i < length (live_nodes t)" and p: "descendant_of (live_mirror t) i p"
    and r: "eid r = eid (live_nodes t ! i)" "visible r" "\<not> is_deleted r"
    and par: "parent_id r = Some (eid (live_nodes t ! p))"
  shows "rebuildTree chk (put_row r t) \<noteq> Some (Inr t')"
proof
  assume rb: "rebuildTree chk (put_row r t) = Some (Inr t')"
  let ?L = "live_nodes t" and ?t1 = "put_row r t"
  have k: "keys_ok t" and k1: "keys_ok ?t1" using ok by (simp_all add: tree_ok_keys)
  have L1: "live_nodes ?t1 = map (\<lambda>x. if eid x = eid r then r else x) ?L"
    by (rule live_nodes_put [OF k]) (use r i in auto)
  have L1i: "live_nodes ?t1 ! k = (if k = i then r else ?L ! k)" if "k < length ?L" for k
    using nth_eq_iff_index_eq [OF live_nodes_keys [OF k], of k i] that i r(1) by (simp add: L1)
  obtain ms where ms: "rebuildNestedSet (live_mirror ?t1) = Some (Inr ms)"
      "length (live_nodes t') = length (live_nodes ?t1)"
      "\<And>k. k < length (live_nodes ?t1) \<Longrightarrow>
          live_nodes t' ! k = set_bounds (ns_lft (ms ! k)) (ns_rgt (ms ! k)) (live_nodes ?t1 ! k)"
    by (rule rebuildTree_live [OF rb k1]) (rule that)
  have node: "eid (live_nodes t' ! k) = eid (?L ! k)"
      "parent_id (live_nodes t' ! k) = (if k = i then parent_id r else parent_id (?L ! k))"
    if "k < length ?L" for k
    using ms(3) [of k] that L1i [OF that] r(1) by (simp_all add: L1)
  have len: "length (live_nodes t') = length ?L" using ms(2) by (simp add: L1)
  have pl: "p < length ?L"
    using p unfolding descendant_of_def by (rule tranclp.cases) (auto simp: parent_of_live)
  have "parent_of (live_mirror t') a b" if "parent_of (live_mirror t) a b" "b \<noteq> i" for a b
    using that len node by (simp add: parent_of_live)
  then have "(parent_of (live_mirror t'))\<^sup>+\<^sup>+ i p"
    using p tree_ok_acyclic [OF ok] unfolding descendant_of_def by (rule tranclp_redirect [rotated 2])
  moreover have "parent_of (live_mirror t') p i"
    using len node i pl par by (simp add: parent_of_live)
  ultimately have "descendant_of (live_mirror t') i i"
    unfolding descendant_of_def by (rule tranclp.trancl_into_trancl)
  then show False using tree_ok_acyclic [OF rebuildTree_ok [OF rb k1]] by simp
qed

lemma live_ids_rebuild:
  assumes "rebuildTree chk t = Some (Inr t')" and "keys_ok t"
  shows "map eid (live_nodes t') = map eid (live_nodes t)"
proof -
  obtain ms where "rebuildNestedSet (live_mirror t) = Some (Inr ms)"
      "length (live_nodes t') = length (live_nodes t)"
      "\<And>k. k < length (live_nodes t) \<Longrightarrow>
          live_nodes t' ! k = set_bounds (ns_lft (ms ! k)) (ns_rgt (ms ! k)) (live_nodes t ! k)"
    by (rule rebuildTree_live [OF assms]) (rule that)
  then show ?thesis by (auto intro!: nth_equalityI)
qed

lemma live_ids_dom:
  assumes "keys_ok t"
  shows "eid ` set (live_nodes t) = dom (live_rows t)"
proof (rule set_eqI)
  fix i
  have "(\<exists>r. row t i = Some r \<and> softDeleteFilter r) \<longleftrightarrow> i \<in> dom (live_rows t)"
    by (auto simp: findEntityById_row [OF assms] dom_def split: option.splits)
  then show "i \<in> eid ` set (live_nodes t) \<longleftrightarrow> i \<in> dom (live_rows t)"
    by (auto simp: row_iff [OF assms] image_iff live_nodes_mem softDeleteFilter_def visible_def)
qed

lemma live_ids_delete:
  assumes "keys_ok t"
  shows "eid ` set (live_nodes (fst (deleteEntity now i s u t))) = eid ` set (live_nodes t) - {i}"
  unfolding live_ids_dom [OF assms] live_ids_dom [OF deleteEntity_keys [OF assms]]
    live_rows_delete [OF assms] by auto

lemma live_ids_put:
  assumes "keys_ok t" and "softDeleteFilter r"
  shows "eid ` set (live_nodes (put_row r t)) = insert (eid r) (eid ` set (live_nodes t))"
  unfolding live_ids_dom [OF assms(1)] live_ids_dom [OF keys_put_row [OF assms(1)]]
    live_rows_put [OF assms] by auto

section \<open>Properties\<close>

text \<open>C10: starting from a well-formed tree, any sequence of create, update and delete requests,
  failing ones included, leaves a well-formed tree: every live row hangs from a root and the
  bounds nest exactly as the parent column says. And every further request returns.\<close>

theorem tree_service_invariant:
  assumes "tree_ok t"
  shows "tree_ok (tree_run tx chk qs t) \<and> run_request tx chk q (tree_run tx chk qs t) \<noteq> None"
  using tree_run_ok [OF assms] run_request_not_None tree_ok_keys by blast

lemma tree_ok_empty: "tree_ok []"
  by (simp add: tree_ok_def keys_ok_def live_nodes_def repo_find_def)

theorem tree_service_invariant_witness:
  "tree_ok (tree_run item_group_texts (\<lambda>_ _. None)
     [DeleteNode 5 ''a'' True NoActor, UpdateNode ''a'' None id (ActorId ''u'')] ([] :: item_group list))"
  using tree_service_invariant [OF tree_ok_empty] by blast

text \<open>a request that hangs a row below one of its own descendants is rejected, so no sequence
  of re-parentings can build a cycle.\<close>

theorem reparent_cycle_rejected:
  assumes "tree_ok t" and "i < length (live_nodes t)" and "descendant_of (live_mirror t) i p"
    and "\<And>r. is_deleted (f r) = is_deleted r \<and> deleted_at (f r) = deleted_at r"
  shows "\<exists>e. tree_update tx chk (eid (live_nodes t ! i)) (Some (Some (eid (live_nodes t ! p)))) f u t
           = Some (Inl e)"
proof -
  let ?i = "eid (live_nodes t ! i)" and ?p = "eid (live_nodes t ! p)"
  let ?f = "\<lambda>r. (f r)\<lparr>parent_id := Some ?p\<rparr>"
  have keys: "keys_ok t" using assms(1) by (rule tree_ok_keys)
  have li: "row t ?i = Some (live_nodes t ! i)" "visible (live_nodes t ! i)" "\<not> is_deleted (live_nodes t ! i)"
    using nth_mem [OF assms(2)] keys by (auto simp: live_nodes_mem row_iff)
  define r where "r = stamp_updated u ((?f (live_nodes t ! i))\<lparr>eid := ?i\<rparr>)"
  have pre: "preload ?i ?f u t = Some r" using li keys by (simp add: preload_row r_def)
  have r: "eid r = ?i" "visible r" "\<not> is_deleted r" "parent_id r = Some ?p"
    using li(2,3) assms(4) by (cases u; simp add: r_def visible_def)+
  have "rebuildTree chk (put_row r t) \<noteq> Some (Inr t')" for t'
    using cyclic_rebuild_fails [OF assms(1-3)] r by simp
  then have "tree_update tx chk ?i (Some (Some ?p)) f u t \<noteq> Some (Inr t')" for t'
    using pre by (auto simp: tree_update_def repo_save_def split: sum.splits option.splits if_splits)
  then show ?thesis using tree_update_not_None [OF keys] by (metis not_Some_eq old.sum.exhaust)
qed

text \<open>a delete is refused while a live row names the node as its parent; when a delete
  succeeds the live rows are the previous ones without the node, whether it is a soft or a hard
  delete, and the tree is well-formed.\<close>

theorem tree_delete_exact:
  assumes "keys_ok t"
  shows "((\<exists>r \<in> set (live_nodes t). parent_id r = Some i) \<longrightarrow>
            tree_delete tx chk now i s u t = Some (Inl (BadRequestException (tx_has_children tx))))
       \<and> (\<forall>t'. tree_delete tx chk now i s u t = Some (Inr t') \<longrightarrow>
            tree_ok t' \<and> eid ` set (live_nodes t') = eid ` set (live_nodes t) - {i})"
proof (intro conjI impI allI)
  assume "\<exists>r \<in> set (live_nodes t). parent_id r = Some i"
  then have "repo_count (\<lambda>r. parent_id r = Some i \<and> \<not> is_deleted r) t > 0"
    by (auto simp: repo_count_def repo_find_def live_nodes_mem length_greater_0_conv filter_empty_conv)
  then show "tree_delete tx chk now i s u t = Some (Inl (BadRequestException (tx_has_children tx)))"
    by (simp add: tree_delete_def tree_tx_def executeDbOperation_def)
next
  fix t'
  assume del: "tree_delete tx chk now i s u t = Some (Inr t')"
  then show "tree_ok t'" using assms by (rule tree_delete_ok)
  have "rebuildTree chk (fst (deleteEntity now i s u t)) = Some (Inr t')"
    using del by (auto simp: tree_delete_def split: if_splits prod.splits)
  then have "map eid (live_nodes t') = map eid (live_nodes (fst (deleteEntity now i s u t)))"
    by (rule live_ids_rebuild) (rule deleteEntity_keys [OF assms])
  then show "eid ` set (live_nodes t') = eid ` set (live_nodes t) - {i}"
    using live_ids_delete [OF assms] by (metis list.set_map)
qed

text \<open>a create succeeds only under a live group row (or as a root); the live rows afterwards
  are the previous ones and the new one.\<close>

theorem tree_create_exact:
  assumes "keys_ok t" and "softDeleteFilter d" and "tree_create tx chk i d u t = Some (Inr t')"
  shows "tree_ok t' \<and> eid ` set (live_nodes t') = insert i (eid ` set (live_nodes t))
     \<and> (\<forall>p. parent_id d = Some p \<and> p \<noteq> [] \<longrightarrow> (\<exists>r \<in> set (live_nodes t). eid r = p \<and> is_group r))"
proof (intro conjI allI impI)
  show "tree_ok t'" using assms(3,1) by (rule tree_create_ok)
  let ?e = "stamp_created u (d\<lparr>eid := i, lft := 0, rgt := 0\<rparr>)"
  have rb: "rebuildTree chk (put_row ?e t) = Some (Inr t')"
    using assms(3) by (auto simp: tree_create_def repo_save_def Let_def split: sum.splits option.splits)
  have "softDeleteFilter ?e" using assms(2) by (simp add: softDeleteFilter_def)
  then have "eid ` set (live_nodes (put_row ?e t)) = insert i (eid ` set (live_nodes t))"
    using live_ids_put [OF assms(1), of ?e] by simp
  then show "eid ` set (live_nodes t') = insert i (eid ` set (live_nodes t))"
    using live_ids_rebuild [OF rb] assms(1) by (metis keys_put_row list.set_map)
next
  fix p
  assume p: "parent_id d = Some p \<and> p \<noteq> []"
  then have "assertValidParent tx p t = Inr ()"
    using assms(3) by (auto simp: tree_create_def truthy_id_def split: sum.splits)
  then obtain r where "repo_findOne (\<lambda>r. eid r = p \<and> \<not> is_deleted r) t = Some r" "is_group r"
    by (auto simp: assertValidParent_def split: option.splits if_splits)
  then show "\<exists>r \<in> set (live_nodes t). eid r = p \<and> is_group r"
    using live_nodes_mem [of r t] by (auto simp: repo_findOne_def dest!: find_Some_iff_mem)
qed

section \<open>A concrete tree\<close>

definition example_group :: "string \<Rightarrow> string option \<Rightarrow> nat \<Rightarrow> nat \<Rightarrow> item_group" where
  "example_group i p l r =
     \<lparr>eid = i, created_by = None, updated_by = None, is_deleted = False, deleted_reason = None,
      deleted_at = None, deleted_by = None, name_th = i, name_en = i, is_group = True,
      parent_id = p, lft = l, rgt = r\<rparr>"

definition example_tree :: "item_group list" where
  "example_tree = [example_group ''a'' None 1 4, example_group ''b'' (Some ''a'') 2 3]"

lemmas tree_eval = example_tree_def example_group_def rebuildTree_def repo_find_def visible_def
  rebuildNestedSetFor_def mirror_of_def rebuildNestedSet_def children_of_def byParent_def
  enter_child_def leave_child_def write_back_def js_map_get_def set_bounds_def repo_save_def put_row_def

lemma example_tree_rebuilt: "rebuildTree (\<lambda>_ _. None) example_tree = Some (Inr example_tree)"
  by (simp add: tree_eval)

lemma example_tree_keys: "keys_ok example_tree"
  by (simp add: example_tree_def example_group_def keys_ok_def)

lemma example_tree_ok: "tree_ok example_tree"
  by (rule rebuildTree_ok [OF example_tree_rebuilt example_tree_keys])

lemma example_tree_live: "live_nodes example_tree = example_tree"
  by (simp add: live_nodes_def repo_find_def visible_def example_tree_def example_group_def)

theorem reparent_cycle_rejected_witness:
  "\<exists>e. itemGroups_update (\<lambda>_ _. None) ''a'' (Some (Some ''b'')) (\<lambda>r. r\<lparr>name_th := ''x''\<rparr>) NoActor example_tree
     = Some (Inl e)"
proof -
  have "parent_of (live_mirror example_tree) 0 1"
    by (simp add: parent_of_live example_tree_live) (simp add: example_tree_def example_group_def)
  then have "descendant_of (live_mirror example_tree) 0 1" by (auto simp: descendant_of_def)
  then show ?thesis
    using reparent_cycle_rejected [OF example_tree_ok, of 0 1 "\<lambda>r. r\<lparr>name_th := ''x''\<rparr>"
        item_group_texts "\<lambda>_ _. None" NoActor]
    by (simp add: example_tree_live itemGroups_update_def) (simp add: example_tree_def example_group_def)
qed

theorem tree_delete_exact_witness:
  "itemGroups_delete (\<lambda>_ _. None) 9 ''a'' True NoActor example_tree
     = Some (Inl (BadRequestException ''Cannot delete an item group that still has child item groups.''))"
  using tree_delete_exact [OF example_tree_keys, of "''a''" item_group_texts "\<lambda>_ _. None" 9 True NoActor]
  by (simp add: example_tree_live itemGroups_delete_def item_group_texts_def)
     (simp add: example_tree_def example_group_def)

theorem tree_create_exact_witness:
  "\<exists>t'. itemGroups_create (\<lambda>_ _. None) ''c'' (example_group [] (Some ''b'') 0 0) NoActor example_tree = Some (Inr t')
      \<and> tree_ok t' \<and> eid ` set (live_nodes t') = {''c'', ''a'', ''b''}"
proof -
  have "\<exists>t'. itemGroups_create (\<lambda>_ _. None) ''c'' (example_group [] (Some ''b'') 0 0) NoActor example_tree = Some (Inr t')"
    by (simp add: itemGroups_create_def tree_create_def truthy_id_def assertValidParent_def repo_findOne_def
        tree_eval)
  then obtain t' where t': "tree_create item_group_texts (\<lambda>_ _. None) ''c''
      (example_group [] (Some ''b'') 0 0) NoActor example_tree = Some (Inr t')"
    by (auto simp: itemGroups_create_def)
  have "softDeleteFilter (example_group [] (Some ''b'') 0 0)"
    by (simp add: softDeleteFilter_def example_group_def)
  then have "tree_ok t'" and "eid ` set (live_nodes t') = insert ''c'' (eid ` set example_tree)"
    using tree_create_exact [OF example_tree_keys _ t'] by (simp_all add: example_tree_live)
  moreover have "eid ` set example_tree = {''a'', ''b''}"
    by (simp add: example_tree_def example_group_def)
  ultimately have "tree_ok t' \<and> eid ` set (live_nodes t') = {''c'', ''a'', ''b''}" by simp
  then show ?thesis using t' unfolding itemGroups_create_def by blast
qed

end
