(* ===== verification/Iam_Data.thy ===== *)
theory Iam_Data
  imports Base_Service
begin

text \<open>
  The entities of the identity context (\<open>apps/iam/src/modules/*/entities\<close>) and its database.
  A many-to-many relation is the list of pairs of its join table; a \<open>date\<close> column is the
  \<open>YYYY-MM-DD\<close> string that \<open>toDateOnly\<close> reads from it. Columns that no modelled operation reads
  (display names, descriptions) are left out.
\<close>

datatype user_status = ActiveStatus | PendingStatus | SuspendedStatus

record user = base_entity +
  username :: string
  full_name :: string
  email :: "string option"
  department :: "string option"
  status :: user_status
  expired_at :: "string option"

record role = base_entity +
  role_code :: string

record policy = base_entity +
  policy_code :: string
  is_active :: bool
  valid_from :: "string option"
  valid_until :: "string option"

datatype statement_effect = Allow | Deny

datatype plane = UiPlane | ApiPlane

record policy_statement = base_entity +
  policy_id :: string
  effect :: statement_effect
  stmt_plane :: plane

record statement_action = base_entity +
  act_statement_id :: string
  permission_id :: string

datatype condition_operator =
    StringEquals | StringLike | NumericEquals | NumericGreaterThan | NumericLessThan
  | DateGreaterThan | DateLessThan | IpAddress | UnknownOperator

record statement_condition = base_entity +
  cond_statement_id :: string
  operator :: condition_operator
  condition_key :: string
  condition_value :: string

record statement_target = base_entity +
  tgt_statement_id :: string
  tgt_service :: string
  tgt_resource :: string

record permission = base_entity +
  perm_service :: string
  permission_string :: string
  perm_resource :: string
  perm_action :: string
  perm_plane :: plane
  permission_name_th :: string
  permission_name_en :: string
  is_manual :: bool

record iam_db =
  users_table :: "user list"
  roles_table :: "role list"
  policies_table :: "policy list"
  statements_table :: "policy_statement list"
  targets_table :: "statement_target list"
  actions_table :: "statement_action list"
  conditions_table :: "statement_condition list"
  permissions_table :: "permission list"
  users_roles :: "(string \<times> string) list"
  roles_policies :: "(string \<times> string) list"

text \<open>Loading a many-to-many relation: the visible rows whose id is linked.\<close>

definition load_relation :: "(string \<times> string) list \<Rightarrow> string \<Rightarrow> 'm table \<Rightarrow> 'm table" where
  "load_relation links owner t = repo_find (\<lambda>r. (owner, eid r) \<in> set links) t"

lemma mem_load_relation:
  "r \<in> set (load_relation links owner t) \<longleftrightarrow> r \<in> set t \<and> visible r \<and> (owner, eid r) \<in> set links"
  by (auto simp: load_relation_def repo_find_def)

lemma mem_repo_find: "r \<in> set (repo_find p t) \<longleftrightarrow> r \<in> set t \<and> visible r \<and> p r"
  by (auto simp: repo_find_def)

end
