(* ===== verification/Permission_Resolver.thy ===== *)
theory Permission_Resolver
  imports Iam_Data
begin

text \<open>
  \<open>apps/iam/src/modules/access/services/permission-resolver.service.ts\<close> and the RPC entry points of
  \<open>access-events.controller.ts\<close>: how roles, policies and statements become a net permission set,
  and how the conditional permissions are decided at request time. \<open>Number\<close>, \<open>Date.parse\<close> and
  the regular-expression engine are the fields of a \<open>js_lib\<close>; a value that compares false with
  everything (NaN) is \<open>None\<close>, a pattern the engine refuses (a thrown \<open>SyntaxError\<close>) is an error.
\<close>

section \<open>Definitions\<close>

record 'n js_lib =
  js_Number :: "string \<Rightarrow> 'n option"
  Date_parse :: "string \<Rightarrow> int option"
  RegExp_test :: "string \<Rightarrow> string \<Rightarrow> bool result"

record resolved_statement =
  rs_effect :: statement_effect
  rs_permissions :: "string list"
  rs_hasConditions :: bool
  rs_targets :: "(string \<times> string) list"
  rs_conditions :: "statement_condition list"

record permission_resolution =
  res_roles :: "string list"
  res_permissions :: "string list"
  res_conditional :: "string list"

definition isPolicyValidNow :: "string \<Rightarrow> policy \<Rightarrow> bool" where
  "isPolicyValidNow today p =
     (if (case valid_from p of None \<Rightarrow> False | Some d \<Rightarrow> str_less today d) then False
      else if (case valid_until p of None \<Rightarrow> False | Some d \<Rightarrow> str_less d today) then False
      else True)"

definition resolve_statement ::
    "(string \<times> string) list \<Rightarrow> statement_target list \<Rightarrow> statement_action list
      \<Rightarrow> statement_condition list \<Rightarrow> policy_statement \<Rightarrow> resolved_statement" where
  "resolve_statement permissionById targets actions conditions s =
     \<lparr>rs_effect = effect s,
      rs_permissions =
        List.map_filter (\<lambda>a. js_map_get permissionById (permission_id a))
          (filter (\<lambda>a. act_statement_id a = eid s) actions),
      rs_hasConditions = list_ex (\<lambda>c. cond_statement_id c = eid s) conditions,
      rs_targets =
        map (\<lambda>t. (tgt_service t, tgt_resource t)) (filter (\<lambda>t. tgt_statement_id t = eid s) targets),
      rs_conditions = filter (\<lambda>c. cond_statement_id c = eid s) conditions\<rparr>"

definition resolveStatements ::
    "iam_db \<Rightarrow> string list \<Rightarrow> string option \<Rightarrow> resolved_statement list" where
  "resolveStatements db policyIds flt =
     (if policyIds = [] then []
      else let statements = repo_find (\<lambda>s. policy_id s \<in> set policyIds) (statements_table db)
      in if statements = [] then []
      else let statementIds = map eid statements;
               targets = repo_find (\<lambda>t. tgt_statement_id t \<in> set statementIds) (targets_table db);
               actions = repo_find (\<lambda>a. act_statement_id a \<in> set statementIds) (actions_table db);
               conditions = repo_find (\<lambda>c. cond_statement_id c \<in> set statementIds) (conditions_table db);
               permissionIds = js_set (map permission_id actions);
               permissions = (if permissionIds \<noteq> []
                 then repo_find (\<lambda>p. eid p \<in> set permissionIds) (permissions_table db) else []);
               permissionById = map (\<lambda>p. (eid p, permission_string p)) permissions
      in filter (\<lambda>s. case flt of None \<Rightarrow> True | Some perm \<Rightarrow> perm \<in> set (rs_permissions s))
           (map (resolve_statement permissionById targets actions conditions) statements))"

text \<open>The three JavaScript sets after the statement loop.\<close>

record tally = t_allow :: "string list" t_deny :: "string list" t_conditional :: "string list"

definition set_add :: "string \<Rightarrow> string list \<Rightarrow> string list" where
  "set_add x s = (if x \<in> set s then s else s @ [x])"

definition tally_permission :: "resolved_statement \<Rightarrow> string \<Rightarrow> tally \<Rightarrow> tally" where
  "tally_permission s p a =
     (if rs_hasConditions s then a\<lparr>t_conditional := set_add p (t_conditional a)\<rparr>
      else if rs_effect s = Allow then a\<lparr>t_allow := set_add p (t_allow a)\<rparr>
      else a\<lparr>t_deny := set_add p (t_deny a)\<rparr>)"

definition tally_statement :: "resolved_statement \<Rightarrow> tally \<Rightarrow> tally" where
  "tally_statement s a = fold (tally_permission s) (rs_permissions s) a"

definition computeAllowDenyConditional :: "resolved_statement list \<Rightarrow> string list \<times> string list" where
  "computeAllowDenyConditional statements =
     (let a = fold tally_statement statements \<lparr>t_allow = [], t_deny = [], t_conditional = []\<rparr>
      in (filter (\<lambda>p. p \<notin> set (t_deny a) \<and> p \<notin> set (t_conditional a)) (t_allow a), t_conditional a))"

definition activePolicies :: "iam_db \<Rightarrow> string \<Rightarrow> string list \<Rightarrow> policy list" where
  "activePolicies db today policyIds =
     filter (isPolicyValidNow today)
       (repo_find (\<lambda>p. eid p \<in> set policyIds \<and> is_active p) (policies_table db))"

definition user_roleIds :: "iam_db \<Rightarrow> string \<Rightarrow> string list" where
  "user_roleIds db userId =
     (case repo_findOne (\<lambda>u. eid u = userId) (users_table db) of
        None \<Rightarrow> []
      | Some user \<Rightarrow> js_set (map eid (load_relation (users_roles db) (eid user) (roles_table db))))"

definition roles_policyIds :: "iam_db \<Rightarrow> role list \<Rightarrow> string list" where
  "roles_policyIds db roles =
     js_set (concat (map (\<lambda>r. map eid (load_relation (roles_policies db) (eid r) (policies_table db))) roles))"

definition resolveForUser :: "iam_db \<Rightarrow> string \<Rightarrow> string \<Rightarrow> permission_resolution" where
  "resolveForUser db today userId =
     (let roleIds = user_roleIds db userId
      in if roleIds = [] then \<lparr>res_roles = [], res_permissions = [], res_conditional = []\<rparr>
      else let roles = repo_find (\<lambda>r. eid r \<in> set roleIds) (roles_table db);
               policyIds = roles_policyIds db roles
      in if policyIds = []
         then \<lparr>res_roles = map role_code roles, res_permissions = [], res_conditional = []\<rparr>
      else let statements = resolveStatements db (map eid (activePolicies db today policyIds)) None;
               (permissions, conditional) = computeAllowDenyConditional statements
      in \<lparr>res_roles = map role_code roles, res_permissions = permissions, res_conditional = conditional\<rparr>)"

definition resolveForPolicyIds :: "iam_db \<Rightarrow> string \<Rightarrow> string list \<Rightarrow> string list \<times> string list" where
  "resolveForPolicyIds db today policyIds =
     (if policyIds = [] then ([], [])
      else let active = activePolicies db today policyIds
      in if active = [] then ([], [])
      else computeAllowDenyConditional (resolveStatements db (map eid active) None))"

subsection \<open>Conditions\<close>

text \<open>\<open>s.replace(pattern, replacement)\<close> with a string pattern: the first occurrence, with the
  replacement patterns of the language expanded.\<close>

fun expand_replacement :: "string \<Rightarrow> string \<Rightarrow> string \<Rightarrow> string \<Rightarrow> string" where
  "expand_replacement m pre post (d # c # cs) =
     (if d = CHR ''$'' \<and> c = CHR ''$'' then CHR ''$'' # expand_replacement m pre post cs
      else if d = CHR ''$'' \<and> c = CHR ''&'' then m @ expand_replacement m pre post cs
      else if d = CHR ''$'' \<and> c = CHR 0x60 then pre @ expand_replacement m pre post cs
      else if d = CHR ''$'' \<and> c = CHR 0x27 then post @ expand_replacement m pre post cs
      else d # expand_replacement m pre post (c # cs))"
| "expand_replacement m pre post cs = cs"

fun replace_first :: "string \<Rightarrow> string \<Rightarrow> string \<Rightarrow> string \<Rightarrow> string" where
  "replace_first pat rep pre s =
     (if is_prefix pat s
      then expand_replacement pat pre (drop (length pat) s) rep @ drop (length pat) s
      else case s of [] \<Rightarrow> [] | c # cs \<Rightarrow> c # replace_first pat rep (pre @ [c]) cs)"

declare replace_first.simps [simp del]

text \<open>\<open>expected.replace(/\<star>/g, '.\<star>')\<close>.\<close>

definition star_pattern :: "string \<Rightarrow> string" where
  "star_pattern s = concat (map (\<lambda>c. if c = CHR ''*'' then ''.*'' else [c]) s)"

definition num_less :: "'n::linorder option \<Rightarrow> 'n option \<Rightarrow> bool" where
  "num_less a b = (case (a, b) of (Some x, Some y) \<Rightarrow> x < y | _ \<Rightarrow> False)"

definition num_equal :: "'n::linorder option \<Rightarrow> 'n option \<Rightarrow> bool" where
  "num_equal a b = (case (a, b) of (Some x, Some y) \<Rightarrow> x = y | _ \<Rightarrow> False)"

definition evaluateCondition ::
    "'n::linorder js_lib \<Rightarrow> statement_condition \<Rightarrow> string \<Rightarrow> (string \<Rightarrow> string option) \<Rightarrow> bool result" where
  "evaluateCondition lib c userId ctx =
     (let expected = replace_first ''${user.id}'' userId [] (condition_value c)
      in case ctx (condition_key c) of
           None \<Rightarrow> Inr False
         | Some actual \<Rightarrow>
             (case operator c of
                StringEquals \<Rightarrow> Inr (actual = expected)
              | StringLike \<Rightarrow> RegExp_test lib (''^'' @ star_pattern expected @ ''$'') actual
              | NumericEquals \<Rightarrow> Inr (num_equal (js_Number lib actual) (js_Number lib expected))
              | NumericGreaterThan \<Rightarrow> Inr (num_less (js_Number lib expected) (js_Number lib actual))
              | NumericLessThan \<Rightarrow> Inr (num_less (js_Number lib actual) (js_Number lib expected))
              | DateGreaterThan \<Rightarrow>
                  Inr (num_less (Date_parse lib expected) (Date_parse lib actual) \<or> str_less expected actual)
              | DateLessThan \<Rightarrow>
                  Inr (num_less (Date_parse lib actual) (Date_parse lib expected) \<or> str_less actual expected)
              | IpAddress \<Rightarrow> Inr (actual = expected)
              | UnknownOperator \<Rightarrow> Inr False))"

definition conditionsHold ::
    "'n::linorder js_lib \<Rightarrow> statement_condition list \<Rightarrow> string \<Rightarrow> (string \<Rightarrow> string option) \<Rightarrow> bool result" where
  "conditionsHold lib conditions userId ctx =
     (if conditions = [] then Inr True
      else every_r (\<lambda>c. evaluateCondition lib c userId ctx) conditions)"

text \<open>The \<open>service\<close> argument is accepted and not used.\<close>

definition evaluate ::
    "'n::linorder js_lib \<Rightarrow> iam_db \<Rightarrow> string \<Rightarrow> string \<Rightarrow> string \<Rightarrow> string \<Rightarrow> (string \<Rightarrow> string option)
      \<Rightarrow> bool result" where
  "evaluate lib db today userId service permission ctx =
     (let roleIds = user_roleIds db userId
      in if roleIds = [] then Inr False
      else let policyIds = roles_policyIds db (repo_find (\<lambda>r. eid r \<in> set roleIds) (roles_table db))
      in if policyIds = [] then Inr False
      else let statements = resolveStatements db (map eid (activePolicies db today policyIds)) (Some permission);
               matches = filter (\<lambda>s. permission \<in> set (rs_permissions s));
               denyStatements = matches (filter (\<lambda>s. rs_effect s = Deny) statements);
               allowStatements = matches (filter (\<lambda>s. rs_effect s = Allow) statements);
               holds = (\<lambda>s. conditionsHold lib (rs_conditions s) userId ctx)
      in case some_r holds denyStatements of
           Inl e \<Rightarrow> Inl e
         | Inr True \<Rightarrow> Inr False
         | Inr False \<Rightarrow> some_r holds allowStatements)"

subsection \<open>The RPC entry points\<close>

record iam_user =
  iu_id :: string
  iu_username :: string
  iu_email :: "string option"
  iu_full_name :: string
  iu_department :: "string option"
  iu_status :: user_status
  iu_expired_at :: "string option"

definition events_findById :: "iam_db \<Rightarrow> string \<Rightarrow> iam_user result" where
  "events_findById db user_id =
     (case repo_findOne (\<lambda>u. eid u = user_id \<and> \<not> is_deleted u) (users_table db) of
        None \<Rightarrow> Inl (NotFoundException (''User '' @ quoted user_id @ '' not found.''))
      | Some u \<Rightarrow> Inr \<lparr>iu_id = eid u, iu_username = username u, iu_email = email u,
          iu_full_name = full_name u, iu_department = department u, iu_status = status u,
          iu_expired_at = expired_at u\<rparr>)"

definition events_resolvePermissions :: "iam_db \<Rightarrow> string \<Rightarrow> string \<Rightarrow> permission_resolution" where
  "events_resolvePermissions db today user_id = resolveForUser db today user_id"

definition evaluateConditions ::
    "'n::linorder js_lib \<Rightarrow> iam_db \<Rightarrow> string \<Rightarrow> string \<Rightarrow> string \<Rightarrow> string \<Rightarrow> string
      \<Rightarrow> (string \<Rightarrow> string option) \<Rightarrow> bool result" where
  "evaluateConditions lib db today user_id service resource action ctx =
     evaluate lib db today user_id service (resource @ '':'' @ action) ctx"

section \<open>The declarative reading of the tables\<close>

text \<open>A policy is in effect for a user when it is active, within its dates and linked to a live
  role of a live user.\<close>

definition effective_policy :: "iam_db \<Rightarrow> string \<Rightarrow> string \<Rightarrow> policy \<Rightarrow> bool" where
  "effective_policy db today u p \<longleftrightarrow>
     p \<in> set (policies_table db) \<and> visible p \<and> is_active p \<and> isPolicyValidNow today p
     \<and> (\<exists>us \<in> set (users_table db). visible us \<and> eid us = u)
     \<and> (\<exists>r \<in> set (roles_table db). visible r \<and> (u, eid r) \<in> set (users_roles db)
          \<and> (eid r, eid p) \<in> set (roles_policies db))"

definition names_permission :: "iam_db \<Rightarrow> policy_statement \<Rightarrow> string \<Rightarrow> bool" where
  "names_permission db s perm \<longleftrightarrow>
     (\<exists>a \<in> set (actions_table db). visible a \<and> act_statement_id a = eid s \<and>
       (\<exists>q \<in> set (permissions_table db). visible q \<and> eid q = permission_id a \<and> permission_string q = perm))"

text \<open>The statements of the user's effective policies that name a permission.\<close>

definition applicable :: "iam_db \<Rightarrow> string \<Rightarrow> string \<Rightarrow> string \<Rightarrow> policy_statement \<Rightarrow> bool" where
  "applicable db today u perm s \<longleftrightarrow>
     s \<in> set (statements_table db) \<and> visible s \<and> names_permission db s perm
     \<and> (\<exists>p. effective_policy db today u p \<and> eid p = policy_id s)"

definition stmt_conditions :: "iam_db \<Rightarrow> policy_statement \<Rightarrow> statement_condition list" where
  "stmt_conditions db s = filter (\<lambda>c. visible c \<and> cond_statement_id c = eid s) (conditions_table db)"

definition satisfied ::
    "'n::linorder js_lib \<Rightarrow> iam_db \<Rightarrow> string \<Rightarrow> (string \<Rightarrow> string option) \<Rightarrow> policy_statement \<Rightarrow> bool" where
  "satisfied lib db u ctx s \<longleftrightarrow> (\<forall>c \<in> set (stmt_conditions db s). evaluateCondition lib c u ctx = Inr True)"

section \<open>The batched queries compute the per-statement view\<close>

definition full_view :: "iam_db \<Rightarrow> policy_statement \<Rightarrow> resolved_statement" where
  "full_view db = resolve_statement
     (map (\<lambda>p. (eid p, permission_string p)) (filter visible (permissions_table db)))
     (filter visible (targets_table db)) (filter visible (actions_table db))
     (filter visible (conditions_table db))"

lemma mem_map_filter: "y \<in> set (List.map_filter f xs) \<longleftrightarrow> (\<exists>x \<in> set xs. f x = Some y)"
  by (induction xs) (auto simp: map_filter_simps split: option.splits)

lemma map_filter_cong: "xs = ys \<Longrightarrow> (\<And>x. x \<in> set ys \<Longrightarrow> f x = g x) \<Longrightarrow> List.map_filter f xs = List.map_filter g ys"
  by (simp add: map_filter_def cong: map_cong filter_cong)

lemma js_map_get_filter:
  assumes "P k"
  shows "js_map_get (map (\<lambda>p. (f p, g p)) (filter (\<lambda>p. V p \<and> P (f p)) t)) k
    = js_map_get (map (\<lambda>p. (f p, g p)) (filter V t)) k"
proof -
  have "map_of (map (\<lambda>p. (f p, g p)) (filter (\<lambda>p. V p \<and> P (f p)) xs)) k
      = map_of (map (\<lambda>p. (f p, g p)) (filter V xs)) k" for xs
    using assms by (induction xs) auto
  from this [of "rev t"] show ?thesis by (simp add: js_map_get_def rev_map rev_filter)
qed

lemma resolve_statement_batch:
  assumes "eid s \<in> S" and "P = permission_id ` {a \<in> set (actions_table db). visible a \<and> act_statement_id a \<in> S}"
  shows "resolve_statement
     (map (\<lambda>p. (eid p, permission_string p)) (filter (\<lambda>p. visible p \<and> eid p \<in> P) (permissions_table db)))
     (filter (\<lambda>t. visible t \<and> tgt_statement_id t \<in> S) (targets_table db))
     (filter (\<lambda>a. visible a \<and> act_statement_id a \<in> S) (actions_table db))
     (filter (\<lambda>c. visible c \<and> cond_statement_id c \<in> S) (conditions_table db)) s = full_view db s"
proof -
  have actions: "filter (\<lambda>a. act_statement_id a = eid s) (filter (\<lambda>a. visible a \<and> act_statement_id a \<in> S) (actions_table db))
      = filter (\<lambda>a. act_statement_id a = eid s) (filter visible (actions_table db))"
    and targets: "filter (\<lambda>a. tgt_statement_id a = eid s) (filter (\<lambda>a. visible a \<and> tgt_statement_id a \<in> S) (targets_table db))
      = filter (\<lambda>a. tgt_statement_id a = eid s) (filter visible (targets_table db))"
    and conds: "filter (\<lambda>a. cond_statement_id a = eid s) (filter (\<lambda>a. visible a \<and> cond_statement_id a \<in> S) (conditions_table db))
      = filter (\<lambda>a. cond_statement_id a = eid s) (filter visible (conditions_table db))"
    using assms(1) by (auto intro!: filter_cong)
  have ex: "list_ex (\<lambda>c. cond_statement_id c = eid s) (filter (\<lambda>c. visible c \<and> cond_statement_id c \<in> S) (conditions_table db))
      = list_ex (\<lambda>c. cond_statement_id c = eid s) (filter visible (conditions_table db))"
    using assms(1) by (auto simp: list_ex_iff)
  have perms: "js_map_get (map (\<lambda>p. (eid p, permission_string p)) (filter (\<lambda>p. visible p \<and> eid p \<in> P) (permissions_table db))) (permission_id a)
      = js_map_get (map (\<lambda>p. (eid p, permission_string p)) (filter visible (permissions_table db))) (permission_id a)"
    if "a \<in> set (filter (\<lambda>a. act_statement_id a = eid s) (filter visible (actions_table db)))" for a
    using that assms by (intro js_map_get_filter) auto
  show ?thesis
    unfolding full_view_def resolve_statement_def actions targets conds ex
    by (simp only: map_filter_cong [OF refl perms])
qed

lemma resolveStatements_view:
  "resolveStatements db ids flt =
     filter (\<lambda>s. case flt of None \<Rightarrow> True | Some perm \<Rightarrow> perm \<in> set (rs_permissions s))
       (map (full_view db) (repo_find (\<lambda>s. policy_id s \<in> set ids) (statements_table db)))"
proof (cases "ids = [] \<or> repo_find (\<lambda>s. policy_id s \<in> set ids) (statements_table db) = []")
  case True
  then show ?thesis by (auto simp: resolveStatements_def repo_find_def)
next
  case False
  define L where "L = repo_find (\<lambda>s. policy_id s \<in> set ids) (statements_table db)"
  define P where "P = permission_id ` {a \<in> set (actions_table db). visible a \<and> act_statement_id a \<in> eid ` set L}"
  have P: "set (js_set (map permission_id (repo_find (\<lambda>a. act_statement_id a \<in> set (map eid L)) (actions_table db)))) = P"
    by (auto simp: repo_find_def P_def)
  have empty: "(if js_set (map permission_id (repo_find (\<lambda>a. act_statement_id a \<in> set (map eid L)) (actions_table db))) \<noteq> []
        then repo_find (\<lambda>p. eid p \<in> P) (permissions_table db) else [])
      = filter (\<lambda>p. visible p \<and> eid p \<in> P) (permissions_table db)"
  proof (cases "js_set (map permission_id (repo_find (\<lambda>a. act_statement_id a \<in> set (map eid L)) (actions_table db))) = []")
    case True
    then have "P = {}" using P by simp
    then show ?thesis unfolding True by simp
  qed (simp add: repo_find_def)
  show ?thesis
    using False unfolding resolveStatements_def Let_def L_def [symmetric] P empty
    using resolve_statement_batch [OF _ P_def]
    by (simp add: repo_find_def cong: map_cong)
qed

section \<open>The three sets\<close>

lemma set_set_add [simp]: "set (set_add x s) = insert x (set s)"
  by (auto simp: set_add_def)

lemma distinct_set_add [simp]: "distinct s \<Longrightarrow> distinct (set_add x s)"
  by (auto simp: set_add_def)

definition tally_sets :: "resolved_statement list \<Rightarrow> tally \<Rightarrow> bool" where
  "tally_sets ss a \<longleftrightarrow>
     set (t_allow a) = {p. \<exists>s \<in> set ss. p \<in> set (rs_permissions s) \<and> \<not> rs_hasConditions s \<and> rs_effect s = Allow}
   \<and> set (t_deny a) = {p. \<exists>s \<in> set ss. p \<in> set (rs_permissions s) \<and> \<not> rs_hasConditions s \<and> rs_effect s = Deny}
   \<and> set (t_conditional a) = {p. \<exists>s \<in> set ss. p \<in> set (rs_permissions s) \<and> rs_hasConditions s}
   \<and> distinct (t_allow a) \<and> distinct (t_conditional a)"

lemma tally_permission_view:
  "t_allow (tally_permission s p a) =
     (if \<not> rs_hasConditions s \<and> rs_effect s = Allow then set_add p (t_allow a) else t_allow a)"
  "t_deny (tally_permission s p a) =
     (if \<not> rs_hasConditions s \<and> rs_effect s = Deny then set_add p (t_deny a) else t_deny a)"
  "t_conditional (tally_permission s p a) =
     (if rs_hasConditions s then set_add p (t_conditional a) else t_conditional a)"
  by (cases "rs_effect s"; simp add: tally_permission_def)+

lemma tally_permissions:
  "set (t_allow (fold (tally_permission s) ps a)) = set (t_allow a) \<union> (if \<not> rs_hasConditions s \<and> rs_effect s = Allow then set ps else {})"
  "set (t_deny (fold (tally_permission s) ps a)) = set (t_deny a) \<union> (if \<not> rs_hasConditions s \<and> rs_effect s = Deny then set ps else {})"
  "set (t_conditional (fold (tally_permission s) ps a)) = set (t_conditional a) \<union> (if rs_hasConditions s then set ps else {})"
  "distinct (t_allow a) \<Longrightarrow> distinct (t_allow (fold (tally_permission s) ps a))"
  "distinct (t_conditional a) \<Longrightarrow> distinct (t_conditional (fold (tally_permission s) ps a))"
  by (induction ps arbitrary: a) (simp_all add: tally_permission_view)

lemma tally_sets_step: "tally_sets ss a \<Longrightarrow> tally_sets (ss @ [s]) (tally_statement s a)"
  by (cases "rs_effect s"; cases "rs_hasConditions s")
     (auto simp: tally_sets_def tally_statement_def tally_permissions)

lemma tally_sets_fold: "tally_sets ss a \<Longrightarrow> tally_sets (ss @ us) (fold tally_statement us a)"
proof (induction us arbitrary: ss a)
  case (Cons u us)
  then show ?case using Cons.IH [OF tally_sets_step [OF Cons.prems, of u]] by simp
qed simp

lemma effect_not_Deny: "e \<noteq> Deny \<longleftrightarrow> e = Allow"
  by (cases e) auto

lemma compute_sets:
  "p \<in> set (fst (computeAllowDenyConditional ss)) \<longleftrightarrow>
     (\<exists>s \<in> set ss. p \<in> set (rs_permissions s) \<and> \<not> rs_hasConditions s \<and> rs_effect s = Allow)
     \<and> (\<forall>s \<in> set ss. p \<in> set (rs_permissions s) \<longrightarrow> \<not> rs_hasConditions s \<and> rs_effect s = Allow)"
  "p \<in> set (snd (computeAllowDenyConditional ss)) \<longleftrightarrow>
     (\<exists>s \<in> set ss. p \<in> set (rs_permissions s) \<and> rs_hasConditions s)"
  "distinct (fst (computeAllowDenyConditional ss))" "distinct (snd (computeAllowDenyConditional ss))"
proof -
  let ?a = "fold tally_statement ss \<lparr>t_allow = [], t_deny = [], t_conditional = []\<rparr>"
  have "tally_sets ss ?a" using tally_sets_fold [of "[]" _ ss] by (simp add: tally_sets_def)
  then have t: "tally_sets ss ?a" .
  show "p \<in> set (fst (computeAllowDenyConditional ss)) \<longleftrightarrow>
     (\<exists>s \<in> set ss. p \<in> set (rs_permissions s) \<and> \<not> rs_hasConditions s \<and> rs_effect s = Allow)
     \<and> (\<forall>s \<in> set ss. p \<in> set (rs_permissions s) \<longrightarrow> \<not> rs_hasConditions s \<and> rs_effect s = Allow)"
  proof -
    have "p \<in> set (fst (computeAllowDenyConditional ss)) \<longleftrightarrow>
        p \<in> set (t_allow ?a) \<and> p \<notin> set (t_deny ?a) \<and> p \<notin> set (t_conditional ?a)"
      by (auto simp: computeAllowDenyConditional_def Let_def)
    also have "\<dots> \<longleftrightarrow> (\<exists>s \<in> set ss. p \<in> set (rs_permissions s) \<and> \<not> rs_hasConditions s \<and> rs_effect s = Allow)
        \<and> (\<forall>s \<in> set ss. p \<in> set (rs_permissions s) \<longrightarrow> \<not> rs_hasConditions s \<and> rs_effect s \<noteq> Deny)"
      using t unfolding tally_sets_def by blast
    finally show ?thesis by (simp add: effect_not_Deny)
  qed
  show "p \<in> set (snd (computeAllowDenyConditional ss)) \<longleftrightarrow>
     (\<exists>s \<in> set ss. p \<in> set (rs_permissions s) \<and> rs_hasConditions s)"
    "distinct (fst (computeAllowDenyConditional ss))" "distinct (snd (computeAllowDenyConditional ss))"
    using t by (auto simp: computeAllowDenyConditional_def Let_def tally_sets_def)
qed

section \<open>The statements of a user\<close>

definition user_policyIds :: "iam_db \<Rightarrow> string \<Rightarrow> string list" where
  "user_policyIds db u =
     roles_policyIds db (repo_find (\<lambda>r. eid r \<in> set (user_roleIds db u)) (roles_table db))"

definition user_statements :: "iam_db \<Rightarrow> string \<Rightarrow> string \<Rightarrow> resolved_statement list" where
  "user_statements db today u =
     map (full_view db) (repo_find (\<lambda>s. policy_id s \<in> eid ` set (activePolicies db today (user_policyIds db u)))
       (statements_table db))"

lemma user_policyIds_Nil: "user_roleIds db u = [] \<Longrightarrow> user_policyIds db u = []"
  by (simp add: user_policyIds_def roles_policyIds_def repo_find_def)

lemma activePolicies_Nil [simp]: "activePolicies db today [] = []"
  by (simp add: activePolicies_def repo_find_def)

lemma repo_find_none [simp]: "repo_find (\<lambda>_. False) t = []"
  by (simp add: repo_find_def)

lemma filter_twice: "filter P (filter Q (filter P xs)) = filter Q (filter P xs)"
  by (induction xs) auto

lemma user_statements_Nil: "user_policyIds db u = [] \<Longrightarrow> user_statements db today u = []"
  by (simp add: user_statements_def repo_find_def)

lemma compute_Nil [simp]: "computeAllowDenyConditional [] = ([], [])"
  by (simp add: computeAllowDenyConditional_def)

lemma resolveForUser_statements:
  "res_permissions (resolveForUser db today u) = fst (computeAllowDenyConditional (user_statements db today u))"
  "res_conditional (resolveForUser db today u) = snd (computeAllowDenyConditional (user_statements db today u))"
  by (auto simp: resolveForUser_def Let_def user_policyIds_def [symmetric] user_statements_Nil user_policyIds_Nil
      resolveStatements_view user_statements_def split: prod.splits)

lemma evaluate_statements:
  "evaluate lib db today u svc perm ctx =
     (let ss = filter (\<lambda>s. perm \<in> set (rs_permissions s)) (user_statements db today u);
          holds = (\<lambda>s. conditionsHold lib (rs_conditions s) u ctx)
      in case some_r holds (filter (\<lambda>s. rs_effect s = Deny) ss) of
           Inl e \<Rightarrow> Inl e
         | Inr True \<Rightarrow> Inr False
         | Inr False \<Rightarrow> some_r holds (filter (\<lambda>s. rs_effect s = Allow) ss))"
proof (cases "user_policyIds db u = []")
  case True
  then show ?thesis
    by (simp add: evaluate_def Let_def user_policyIds_def [symmetric] user_statements_Nil)
next
  case False
  then have "user_roleIds db u \<noteq> []" using user_policyIds_Nil by blast
  moreover have "resolveStatements db (map eid (activePolicies db today (user_policyIds db u))) (Some perm)
      = filter (\<lambda>s. perm \<in> set (rs_permissions s)) (user_statements db today u)"
    by (simp add: resolveStatements_view user_statements_def)
  ultimately show ?thesis using False
    by (simp add: evaluate_def Let_def user_policyIds_def [symmetric] filter_twice del: filter_filter
        cong: sum.case_cong bool.case_cong)
qed

lemma full_view_permissions:
  assumes "keys_ok (permissions_table db)"
  shows "perm \<in> set (rs_permissions (full_view db s)) \<longleftrightarrow> names_permission db s perm"
proof -
  have get: "js_map_get (map (\<lambda>p. (eid p, permission_string p)) (filter visible (permissions_table db))) i = Some perm
      \<longleftrightarrow> (\<exists>q \<in> set (permissions_table db). visible q \<and> eid q = i \<and> permission_string q = perm)" for i
  proof
    assume "\<exists>q \<in> set (permissions_table db). visible q \<and> eid q = i \<and> permission_string q = perm"
    moreover have "distinct (map eid (filter visible (permissions_table db)))"
      using assms by (simp add: keys_ok_def distinct_map_filter)
    ultimately show "js_map_get (map (\<lambda>p. (eid p, permission_string p)) (filter visible (permissions_table db))) i = Some perm"
      by (intro js_map_get_distinct) (auto simp: comp_def)
  qed (auto dest!: js_map_get_Some)
  show ?thesis
    by (auto simp: full_view_def resolve_statement_def names_permission_def mem_map_filter get)
qed

lemma full_view_simps [simp]:
  "rs_effect (full_view db s) = effect s"
  "rs_conditions (full_view db s) = stmt_conditions db s"
  "rs_hasConditions (full_view db s) \<longleftrightarrow> stmt_conditions db s \<noteq> []"
  by (auto simp: full_view_def resolve_statement_def stmt_conditions_def filter_empty_conv list_ex_iff
      intro!: filter_cong)

lemma mem_user_roleIds:
  "i \<in> set (user_roleIds db u) \<longleftrightarrow>
     (\<exists>us \<in> set (users_table db). visible us \<and> eid us = u)
     \<and> (\<exists>r \<in> set (roles_table db). visible r \<and> eid r = i \<and> (u, i) \<in> set (users_roles db))"
proof (cases "repo_findOne (\<lambda>us. eid us = u) (users_table db)")
  case None
  then have "user_roleIds db u = []" by (simp add: user_roleIds_def)
  moreover have "\<not> (\<exists>us \<in> set (users_table db). visible us \<and> eid us = u)"
    using None by (auto simp: repo_findOne_def find_None_iff_all)
  ultimately show ?thesis by simp
next
  case (Some us)
  then have "us \<in> set (users_table db)" "visible us" "eid us = u"
    by (auto simp: repo_findOne_def dest: find_Some_iff_mem)
  then show ?thesis using Some by (auto simp: user_roleIds_def mem_load_relation image_iff Bex_def)
qed

lemma mem_user_policyIds:
  "i \<in> set (user_policyIds db u) \<longleftrightarrow>
     (\<exists>r. r \<in> set (roles_table db) \<and> visible r \<and> eid r \<in> set (user_roleIds db u)
       \<and> (\<exists>p. p \<in> set (policies_table db) \<and> visible p \<and> eid p = i \<and> (eid r, i) \<in> set (roles_policies db)))"
proof -
  have "i \<in> eid ` set (load_relation (roles_policies db) (eid r) (policies_table db)) \<longleftrightarrow>
      (\<exists>p. p \<in> set (policies_table db) \<and> visible p \<and> eid p = i \<and> (eid r, i) \<in> set (roles_policies db))" for r :: role
    by (auto simp: image_iff mem_load_relation Bex_def)
  then show ?thesis by (auto simp: user_policyIds_def roles_policyIds_def mem_repo_find)
qed

lemma activePolicies_effective:
  "p \<in> set (activePolicies db today (user_policyIds db u)) \<longleftrightarrow> effective_policy db today u p"
  unfolding activePolicies_def set_filter mem_Collect_eq mem_repo_find mem_user_policyIds mem_user_roleIds
    effective_policy_def Bex_def by metis

lemma user_statements_set:
  "v \<in> set (user_statements db today u) \<longleftrightarrow>
     (\<exists>s \<in> set (statements_table db). visible s \<and> v = full_view db s
        \<and> (\<exists>p. effective_policy db today u p \<and> eid p = policy_id s))"
proof -
  have "policy_id s \<in> eid ` set (activePolicies db today (user_policyIds db u))
      \<longleftrightarrow> (\<exists>p. effective_policy db today u p \<and> eid p = policy_id s)" for s :: policy_statement
    unfolding activePolicies_effective [symmetric] by force
  then show ?thesis by (auto simp: user_statements_def mem_repo_find image_iff Bex_def)
qed

lemma user_statements_mem:
  assumes "keys_ok (permissions_table db)"
  shows "(\<exists>v \<in> set (user_statements db today u). perm \<in> set (rs_permissions v) \<and> P v)
     \<longleftrightarrow> (\<exists>s. applicable db today u perm s \<and> P (full_view db s))"
  unfolding Bex_def user_statements_set applicable_def
  using full_view_permissions [OF assms] by blast

lemma user_statements_all:
  assumes "keys_ok (permissions_table db)"
  shows "(\<forall>v \<in> set (user_statements db today u). perm \<in> set (rs_permissions v) \<longrightarrow> P v)
     \<longleftrightarrow> (\<forall>s. applicable db today u perm s \<longrightarrow> P (full_view db s))"
  using user_statements_mem [OF assms, of today u perm "\<lambda>v. \<not> P v"] by blast

lemma resolve_sets:
  assumes "keys_ok (permissions_table db)"
  shows "perm \<in> set (res_permissions (resolveForUser db today u)) \<longleftrightarrow>
            (\<exists>s. applicable db today u perm s)
            \<and> (\<forall>s. applicable db today u perm s \<longrightarrow> effect s = Allow \<and> stmt_conditions db s = [])"
    and "perm \<in> set (res_conditional (resolveForUser db today u)) \<longleftrightarrow>
            (\<exists>s. applicable db today u perm s \<and> stmt_conditions db s \<noteq> [])"
  unfolding resolveForUser_statements compute_sets user_statements_mem [OF assms] user_statements_all [OF assms]
  by auto

section \<open>Properties\<close>

text \<open>C7: the net permission set of a user is deny-overrides over the tables: a permission is
  granted outright exactly when some unconditional allow statement of an effective policy names it
  and no deny statement and no conditional statement of an effective policy does; it is
  conditional exactly when some conditional statement names it. The two sets are disjoint.\<close>

theorem resolveForUser_deny_overrides:
  assumes "keys_ok (permissions_table db)"
  shows "(perm \<in> set (res_permissions (resolveForUser db today u)) \<longleftrightarrow>
            (\<exists>s. applicable db today u perm s)
            \<and> (\<forall>s. applicable db today u perm s \<longrightarrow> effect s = Allow \<and> stmt_conditions db s = []))
       \<and> (perm \<in> set (res_conditional (resolveForUser db today u)) \<longleftrightarrow>
            (\<exists>s. applicable db today u perm s \<and> stmt_conditions db s \<noteq> []))"
  using resolve_sets [OF assms] by blast

lemma conditionsHold_True:
  "conditionsHold lib (stmt_conditions db s) u ctx = Inr True \<longleftrightarrow> satisfied lib db u ctx s"
  by (auto simp: conditionsHold_def satisfied_def every_r_True)

lemma evaluateCondition_pure:
  assumes "\<And>pat s. is_ok (RegExp_test lib pat s)"
  shows "is_ok (evaluateCondition lib c u ctx)"
  using assms by (auto simp: evaluateCondition_def Let_def split: option.splits condition_operator.splits)

lemma conditionsHold_pure:
  assumes "\<And>pat s. is_ok (RegExp_test lib pat s)"
  shows "conditionsHold lib cs u ctx = Inr (\<forall>c \<in> set cs. evaluateCondition lib c u ctx = Inr True)"
proof -
  have "evaluateCondition lib c u ctx = Inr (evaluateCondition lib c u ctx = Inr True)" for c
    using evaluateCondition_pure [OF assms, of c u ctx] by (auto simp: is_ok_conv)
  then show ?thesis unfolding conditionsHold_def by (auto simp: every_r_pure)
qed

lemma evaluate_True:
  assumes keys: "keys_ok (permissions_table db)" and "evaluate lib db today u svc perm ctx = Inr True"
  shows "(\<exists>s. applicable db today u perm s \<and> effect s = Allow \<and> satisfied lib db u ctx s)
       \<and> (\<forall>s. applicable db today u perm s \<longrightarrow> effect s = Deny \<longrightarrow> \<not> satisfied lib db u ctx s)"
proof
  let ?h = "\<lambda>v. conditionsHold lib (rs_conditions v) u ctx"
  let ?ss = "filter (\<lambda>s. perm \<in> set (rs_permissions s)) (user_statements db today u)"
  have deny: "some_r ?h (filter (\<lambda>s. rs_effect s = Deny) ?ss) = Inr False"
    and allow: "some_r ?h (filter (\<lambda>s. rs_effect s = Allow) ?ss) = Inr True"
    using assms(2) by (auto simp: evaluate_statements Let_def split: sum.splits bool.splits)
  from some_r_True [OF allow] have "\<exists>v \<in> set (user_statements db today u).
      perm \<in> set (rs_permissions v) \<and> rs_effect v = Allow \<and> ?h v = Inr True" by auto
  then show "\<exists>s. applicable db today u perm s \<and> effect s = Allow \<and> satisfied lib db u ctx s"
    unfolding user_statements_mem [OF keys] by (auto simp: conditionsHold_True)
  from deny have "\<forall>v \<in> set (user_statements db today u). perm \<in> set (rs_permissions v) \<longrightarrow>
      rs_effect v = Deny \<longrightarrow> ?h v = Inr False" by (auto simp: some_r_False)
  then show "\<forall>s. applicable db today u perm s \<longrightarrow> effect s = Deny \<longrightarrow> \<not> satisfied lib db u ctx s"
    unfolding user_statements_all [OF keys] by (auto simp: conditionsHold_True [symmetric])
qed

lemma evaluate_total:
  assumes keys: "keys_ok (permissions_table db)" and re: "\<And>pat s. is_ok (RegExp_test lib pat s)"
  shows "evaluate lib db today u svc perm ctx = Inr
     ((\<exists>s. applicable db today u perm s \<and> effect s = Allow \<and> satisfied lib db u ctx s)
      \<and> (\<forall>s. applicable db today u perm s \<longrightarrow> effect s = Deny \<longrightarrow> \<not> satisfied lib db u ctx s))"
proof -
  let ?g = "\<lambda>v. \<forall>c \<in> set (rs_conditions v). evaluateCondition lib c u ctx = Inr True"
  have h: "(\<lambda>v. conditionsHold lib (rs_conditions v) u ctx) = (\<lambda>v. Inr (?g v))"
    using conditionsHold_pure [OF re] by blast
  have some: "some_r (\<lambda>v. Inr (?g v)) (filter (\<lambda>s. rs_effect s = e) (filter (\<lambda>s. perm \<in> set (rs_permissions s)) (user_statements db today u)))
      = Inr (\<exists>s. applicable db today u perm s \<and> effect s = e \<and> satisfied lib db u ctx s)" for e
    using user_statements_mem [OF keys, of today u perm "\<lambda>v. rs_effect v = e \<and> ?g v"]
    by (subst some_r_pure [of _ _ ?g]) (auto simp: satisfied_def)
  show ?thesis
    unfolding evaluate_statements Let_def h some by (auto split: bool.splits)
qed

definition granted_now ::
    "'n::linorder js_lib \<Rightarrow> iam_db \<Rightarrow> string \<Rightarrow> string \<Rightarrow> string \<Rightarrow> (string \<Rightarrow> string option) \<Rightarrow> bool" where
  "granted_now lib db today u perm ctx \<longleftrightarrow>
     (\<exists>s. applicable db today u perm s \<and> effect s = Allow \<and> satisfied lib db u ctx s)
     \<and> (\<forall>s. applicable db today u perm s \<longrightarrow> effect s = Deny \<longrightarrow> \<not> satisfied lib db u ctx s)"


text \<open>the permission set cached at login and the request-time decision agree: an outright
  permission is granted in every context, and a permission that is neither outright nor
  conditional is refused in every context, so only the conditional ones need the second step.\<close>

theorem static_dynamic_agree:
  shows "(perm \<in> set (res_permissions (resolveForUser db today u))
            \<longrightarrow> evaluate lib db today u svc perm ctx = Inr True)
       \<and> (perm \<notin> set (res_permissions (resolveForUser db today u))
            \<and> perm \<notin> set (res_conditional (resolveForUser db today u))
            \<longrightarrow> evaluate lib db today u svc perm ctx = Inr False)"
proof -
  let ?ss = "filter (\<lambda>s. perm \<in> set (rs_permissions s)) (user_statements db today u)"
  let ?h = "\<lambda>v. conditionsHold lib (rs_conditions v) u ctx"
  have hold: "?h v = Inr True" if "v \<in> set ?ss" "perm \<notin> set (res_conditional (resolveForUser db today u))" for v
    using that by (auto simp: resolveForUser_statements compute_sets conditionsHold_def user_statements_def)
  have some: "some_r ?h (filter (\<lambda>s. rs_effect s = e) ?ss) = Inr (\<exists>v \<in> set ?ss. rs_effect v = e)"
    if "perm \<notin> set (res_conditional (resolveForUser db today u))" for e
    using hold [OF _ that] by (subst some_r_pure [of _ _ "\<lambda>_. True"]) auto
  have ev: "evaluate lib db today u svc perm ctx =
      Inr ((\<exists>v \<in> set ?ss. rs_effect v = Allow) \<and> \<not> (\<exists>v \<in> set ?ss. rs_effect v = Deny))"
    if "perm \<notin> set (res_conditional (resolveForUser db today u))"
    unfolding evaluate_statements Let_def some [OF that] by (auto split: bool.splits)
  have granted: "perm \<in> set (res_permissions (resolveForUser db today u)) \<longleftrightarrow>
      perm \<notin> set (res_conditional (resolveForUser db today u))
      \<and> (\<exists>v \<in> set ?ss. rs_effect v = Allow) \<and> \<not> (\<exists>v \<in> set ?ss. rs_effect v = Deny)"
    unfolding resolveForUser_statements compute_sets effect_not_Deny [symmetric] by auto
  show ?thesis using ev granted by auto
qed

text \<open>access keys, which carry policies without roles, get the same semantics: resolving
  the policy ids of a user's roles gives the user's own permission sets.\<close>

theorem policyIds_agree:
  "resolveForPolicyIds db today (user_policyIds db u)
     = (res_permissions (resolveForUser db today u), res_conditional (resolveForUser db today u))"
  unfolding resolveForUser_statements resolveForPolicyIds_def
  by (auto simp: user_statements_def resolveStatements_view repo_find_def Let_def)

section \<open>A concrete database\<close>

definition example_base :: "string \<Rightarrow> base_entity" where
  "example_base i = \<lparr>eid = i, created_by = None, updated_by = None, is_deleted = False,
     deleted_reason = None, deleted_at = None, deleted_by = None\<rparr>"

definition example_iam :: iam_db where
  "example_iam =
     \<lparr>users_table = [base_entity.extend (example_base ''u'') (user.fields ''somchai'' ''Somchai'' None None ActiveStatus None)],
      roles_table = [base_entity.extend (example_base ''r'') (role.fields ''ROLE_CLERK'')],
      policies_table = [base_entity.extend (example_base ''p'')
        (policy.fields ''POL_DOC'' True (Some ''2024-01-01'') None)],
      statements_table = [base_entity.extend (example_base ''s1'') (policy_statement.fields ''p'' Allow ApiPlane),
        base_entity.extend (example_base ''s2'') (policy_statement.fields ''p'' Deny ApiPlane)],
      targets_table = [],
      actions_table = [base_entity.extend (example_base ''a1'') (statement_action.fields ''s1'' ''q1''),
        base_entity.extend (example_base ''a2'') (statement_action.fields ''s1'' ''q2''),
        base_entity.extend (example_base ''a3'') (statement_action.fields ''s2'' ''q2'')],
      conditions_table = [base_entity.extend (example_base ''c1'')
        (statement_condition.fields ''s2'' StringEquals ''owner'' ''${user.id}'')],
      permissions_table = [base_entity.extend (example_base ''q1'')
          (permission.fields ''dms'' ''doc:read'' ''doc'' ''read'' ApiPlane [] [] False),
        base_entity.extend (example_base ''q2'')
          (permission.fields ''dms'' ''doc:edit'' ''doc'' ''edit'' ApiPlane [] [] False)],
      users_roles = [(''u'', ''r'')], roles_policies = [(''r'', ''p'')]\<rparr>"

definition example_lib :: "int js_lib" where
  "example_lib = \<lparr>js_Number = (\<lambda>_. None), Date_parse = (\<lambda>_. None), RegExp_test = (\<lambda>_ _. Inr False)\<rparr>"

lemmas iam_eval = example_iam_def example_base_def base_entity.defs user.defs role.defs policy.defs
  policy_statement.defs statement_action.defs statement_condition.defs permission.defs

lemma example_iam_keys: "keys_ok (permissions_table example_iam)"
  by (simp add: keys_ok_def iam_eval)

lemma example_iam_resolved:
  "resolveForUser example_iam ''2025-01-01'' ''u'' =
     \<lparr>res_roles = [''ROLE_CLERK''], res_permissions = [''doc:read''], res_conditional = [''doc:edit'']\<rparr>"
  by code_simp

theorem resolveForUser_deny_overrides_witness:
  "\<exists>s. applicable example_iam ''2025-01-01'' ''u'' ''doc:edit'' s \<and> stmt_conditions example_iam s \<noteq> []"
  using resolveForUser_deny_overrides [OF example_iam_keys, of "''doc:edit''" "''2025-01-01''" "''u''"]
  by (simp add: example_iam_resolved)


theorem static_dynamic_agree_witness:
  "evaluate example_lib example_iam ''2025-01-01'' ''u'' ''dms'' ''doc:read'' (\<lambda>_. None) = Inr True"
  using static_dynamic_agree [of "''doc:read''" example_iam "''2025-01-01''" "''u''"]
  by (simp add: example_iam_resolved)

end
