(* ===== verification/Session_Store.thy ===== *)
theory Session_Store
  imports Permission_Resolver
begin

text \<open>
  \<open>libs/common/src/services/session-store.service.ts\<close>: the live sessions in Redis, and
  \<open>apps/iam/src/modules/access/services/session-sync.service.ts\<close>, which pushes permission changes
  into them. Redis is an explicit state: a clock in milliseconds, the string keys with their
  expiry, and the set keys. A key is alive up to and including its expiry; \<open>TTL\<close> rounds the
  remaining milliseconds to the nearest second, as the server does; \<open>SETEX\<close> with a non-positive
  lifetime is refused by the server, which a pipeline reports in a reply nobody reads. A stored
  value is either the JSON text of a session or some other text that does not parse.
\<close>

section \<open>Redis\<close>

record session_data =
  sd_user_id :: string
  sd_username :: string
  sd_fullname :: "string option"
  sd_email :: "string option"
  sd_roles :: "string list"
  sd_permissions :: "string list"
  sd_conditional_permissions :: "string list"
  sd_expired_at :: "string option"
  sd_must_change_password :: bool

datatype session_text = Json session_data | Text string

record redis =
  clock :: nat
  strings :: "string \<Rightarrow> (session_text \<times> nat) option"
  sets :: "string \<Rightarrow> string list"

definition redis_get :: "string \<Rightarrow> redis \<Rightarrow> session_text option" where
  "redis_get k r = (case strings r k of None \<Rightarrow> None | Some (v, e) \<Rightarrow> if clock r \<le> e then Some v else None)"

definition redis_ttl :: "string \<Rightarrow> redis \<Rightarrow> int" where
  "redis_ttl k r = (case strings r k of None \<Rightarrow> - 2
     | Some (v, e) \<Rightarrow> if clock r \<le> e then int ((e - clock r + 500) div 1000) else - 2)"

definition redis_setex :: "string \<Rightarrow> int \<Rightarrow> session_text \<Rightarrow> redis \<Rightarrow> redis" where
  "redis_setex k s v r =
     (if s \<le> 0 then r else r\<lparr>strings := (strings r)(k \<mapsto> (v, clock r + 1000 * nat s))\<rparr>)"

definition redis_del :: "string \<Rightarrow> redis \<Rightarrow> redis" where
  "redis_del k r = r\<lparr>strings := (strings r)(k := None), sets := (sets r)(k := [])\<rparr>"

definition redis_sadd :: "string \<Rightarrow> string \<Rightarrow> redis \<Rightarrow> redis" where
  "redis_sadd k m r =
     (if m \<in> set (sets r k) then r else r\<lparr>sets := (sets r)(k := sets r k @ [m])\<rparr>)"

definition redis_srem :: "string \<Rightarrow> string list \<Rightarrow> redis \<Rightarrow> redis" where
  "redis_srem k ms r = r\<lparr>sets := (sets r)(k := filter (\<lambda>m. m \<notin> set ms) (sets r k))\<rparr>"

definition redis_smembers :: "string \<Rightarrow> redis \<Rightarrow> string list" where
  "redis_smembers k r = sets r k"

text \<open>Time passes.\<close>

definition tick :: "nat \<Rightarrow> redis \<Rightarrow> redis" where
  "tick ms r = r\<lparr>clock := clock r + ms\<rparr>"

section \<open>The session store\<close>

definition SESSION_KEY_PREFIX :: string where "SESSION_KEY_PREFIX = ''session:''"
definition USER_SESSIONS_KEY_PREFIX :: string where "USER_SESSIONS_KEY_PREFIX = ''user_sessions:''"

definition buildKey :: "string \<Rightarrow> string" where
  "buildKey jti = SESSION_KEY_PREFIX @ jti"

definition buildUserIndexKey :: "string \<Rightarrow> string" where
  "buildUserIndexKey userId = USER_SESSIONS_KEY_PREFIX @ userId"

definition jtiFromKey :: "string \<Rightarrow> string" where
  "jtiFromKey key = drop (length SESSION_KEY_PREFIX) key"

definition session_create :: "string \<Rightarrow> session_data \<Rightarrow> int \<Rightarrow> redis \<Rightarrow> redis" where
  "session_create jti data ttlSeconds r =
     redis_sadd (buildUserIndexKey (sd_user_id data)) jti (redis_setex (buildKey jti) ttlSeconds (Json data) r)"

definition session_get :: "string \<Rightarrow> redis \<Rightarrow> session_data option" where
  "session_get jti r =
     (case redis_get (buildKey jti) r of None \<Rightarrow> None | Some (Json d) \<Rightarrow> Some d | Some (Text _) \<Rightarrow> None)"

definition session_ttl :: "string \<Rightarrow> redis \<Rightarrow> int" where
  "session_ttl jti r = redis_ttl (buildKey jti) r"

definition session_revoke :: "string \<Rightarrow> redis \<Rightarrow> redis" where
  "session_revoke jti r =
     (let session = session_get jti r;
          r1 = redis_del (buildKey jti) r
      in case session of None \<Rightarrow> r1 | Some s \<Rightarrow> redis_srem (buildUserIndexKey (sd_user_id s)) [jti] r1)"

text \<open>The keyspace scan: \<open>scan\<close> is the server's answer to one \<open>SCAN\<close> call (the next cursor and a
  batch), and the loop runs until the cursor is zero again.\<close>

partial_function (option) scan_loop ::
    "(nat \<Rightarrow> nat \<times> string list) \<Rightarrow> nat \<Rightarrow> string list \<Rightarrow> string list option" where
  "scan_loop scan cursor keys =
     (let (nextCursor, batch) = scan cursor
      in if nextCursor \<noteq> 0 then scan_loop scan nextCursor (keys @ batch) else Some (keys @ batch))"

definition scanKeys :: "(nat \<Rightarrow> nat \<times> string list) \<Rightarrow> string list option" where
  "scanKeys scan = scan_loop scan 0 []"

type_synonym active_session = "string \<times> session_data \<times> int"

definition session_entries :: "string \<Rightarrow> redis \<Rightarrow> (string \<times> session_data option \<times> int) list" where
  "session_entries userId r =
     map (\<lambda>jti. (jti, session_get jti r, session_ttl jti r)) (redis_smembers (buildUserIndexKey userId) r)"

definition listActiveSessions :: "string \<Rightarrow> redis \<Rightarrow> redis \<times> active_session list" where
  "listActiveSessions userId r =
     (let jtis = redis_smembers (buildUserIndexKey userId) r
      in if jtis = [] then (r, [])
      else let entries = session_entries userId r;
               stale = filter (\<lambda>(_, s, ttl). s = None \<or> ttl \<le> 0) entries;
               r1 = (if stale \<noteq> [] then redis_srem (buildUserIndexKey userId) (map fst stale) r else r)
      in (r1, map (\<lambda>(jti, s, ttl). (jti, the s, ttl)) (filter (\<lambda>(_, s, ttl). s \<noteq> None \<and> ttl > 0) entries)))"

definition countActiveSessions :: "string \<Rightarrow> redis \<Rightarrow> redis \<times> nat" where
  "countActiveSessions userId r = (let (r1, active) = listActiveSessions userId r in (r1, length active))"

definition invalidateAllForUser :: "string \<Rightarrow> redis \<Rightarrow> redis \<times> nat" where
  "invalidateAllForUser userId r =
     (let (r1, active) = listActiveSessions userId r
      in if active = [] then (r1, 0)
      else (redis_del (buildUserIndexKey userId)
              (fold (\<lambda>(jti, _, _). redis_del (buildKey jti)) active r1), length active))"

text \<open>The write half shared by the two in-place updates: one pipelined \<open>SETEX\<close> per session read
  before.\<close>

definition rewrite_sessions :: "(session_data \<Rightarrow> session_data) \<Rightarrow> active_session list \<Rightarrow> redis \<Rightarrow> redis" where
  "rewrite_sessions f active r =
     fold (\<lambda>(jti, s, ttl). redis_setex (buildKey jti) ttl (Json (f s))) active r"

definition rewrite_for_user :: "(session_data \<Rightarrow> session_data) \<Rightarrow> string \<Rightarrow> redis \<Rightarrow> redis \<times> nat" where
  "rewrite_for_user f userId r =
     (let (r1, active) = listActiveSessions userId r
      in if active = [] then (r1, 0) else (rewrite_sessions f active r1, length active))"

definition merge_permissions :: "permission_resolution \<Rightarrow> session_data \<Rightarrow> session_data" where
  "merge_permissions perms s = s\<lparr>sd_roles := res_roles perms, sd_permissions := res_permissions perms,
     sd_conditional_permissions := res_conditional perms\<rparr>"

definition refreshPermissionsForUser :: "string \<Rightarrow> permission_resolution \<Rightarrow> redis \<Rightarrow> redis \<times> nat" where
  "refreshPermissionsForUser userId perms = rewrite_for_user (merge_permissions perms) userId"

definition setMustChangePasswordForUser :: "string \<Rightarrow> bool \<Rightarrow> redis \<Rightarrow> redis \<times> nat" where
  "setMustChangePasswordForUser userId b =
     rewrite_for_user (\<lambda>s. s\<lparr>sd_must_change_password := b\<rparr>) userId"

section \<open>Pushing permission changes into live sessions\<close>

definition syncUser :: "iam_db \<Rightarrow> string \<Rightarrow> string \<Rightarrow> redis \<Rightarrow> redis" where
  "syncUser db today userId r = fst (refreshPermissionsForUser userId (resolveForUser db today userId) r)"

definition syncUsers :: "iam_db \<Rightarrow> string \<Rightarrow> string list \<Rightarrow> redis \<Rightarrow> redis" where
  "syncUsers db today userIds r = fold (syncUser db today) userIds r"

text \<open>\<open>find({ where: { roles: { id } } })\<close>: the visible users with a visible role among the ids.\<close>

definition users_with_role :: "iam_db \<Rightarrow> string list \<Rightarrow> user list" where
  "users_with_role db roleIds =
     repo_find (\<lambda>u. \<exists>r \<in> set (load_relation (users_roles db) (eid u) (roles_table db)). eid r \<in> set roleIds)
       (users_table db)"

definition syncUsersByRole :: "iam_db \<Rightarrow> string \<Rightarrow> string \<Rightarrow> redis \<Rightarrow> redis" where
  "syncUsersByRole db today roleId r = syncUsers db today (map eid (users_with_role db [roleId])) r"

definition syncUsersByPolicy :: "iam_db \<Rightarrow> string \<Rightarrow> string \<Rightarrow> redis \<Rightarrow> redis" where
  "syncUsersByPolicy db today policyId r =
     (let roles = repo_find (\<lambda>ro. \<exists>p \<in> set (load_relation (roles_policies db) (eid ro) (policies_table db)).
                     eid p = policyId) (roles_table db)
      in if roles = [] then r
         else syncUsers db today (js_set (map eid (users_with_role db (map eid roles)))) r)"

section \<open>Keys\<close>

lemma buildKey_inj [simp]: "buildKey a = buildKey b \<longleftrightarrow> a = b"
  by (simp add: buildKey_def)

lemma buildUserIndexKey_inj [simp]: "buildUserIndexKey a = buildUserIndexKey b \<longleftrightarrow> a = b"
  by (simp add: buildUserIndexKey_def)

lemma keys_disjoint [simp]: "buildKey a \<noteq> buildUserIndexKey b" "buildUserIndexKey b \<noteq> buildKey a"
  by (simp_all add: buildKey_def buildUserIndexKey_def SESSION_KEY_PREFIX_def USER_SESSIONS_KEY_PREFIX_def)

lemma jtiFromKey_buildKey [simp]: "jtiFromKey (buildKey jti) = jti"
  by (simp add: jtiFromKey_def buildKey_def)

section \<open>What each command does to the view of the sessions\<close>

abbreviation members :: "string \<Rightarrow> redis \<Rightarrow> string list" where
  "members u r \<equiv> redis_smembers (buildUserIndexKey u) r"

lemmas redis_view = session_get_def redis_get_def session_ttl_def redis_ttl_def redis_smembers_def

lemma setex_view:
  "session_get j (redis_setex (buildKey k) s (Json d) r) = (if 0 < s \<and> j = k then Some d else session_get j r)"
  "session_ttl j (redis_setex (buildKey k) s (Json d) r) = (if 0 < s \<and> j = k then s else session_ttl j r)"
  "members u (redis_setex k' s v r) = members u r"
  by (auto simp: redis_setex_def redis_view
      split: option.splits)

lemma sadd_view [simp]:
  "session_get j (redis_sadd k m r) = session_get j r"
  "session_ttl j (redis_sadd k m r) = session_ttl j r"
  "set (members u (redis_sadd (buildUserIndexKey v) m r)) = (if u = v then insert m (set (members u r)) else set (members u r))"
  "distinct (members u r) \<Longrightarrow> distinct (members u (redis_sadd (buildUserIndexKey v) m r))"
  by (auto simp: redis_sadd_def redis_view split: option.splits)

lemma srem_view [simp]:
  "session_get j (redis_srem k ms r) = session_get j r"
  "session_ttl j (redis_srem k ms r) = session_ttl j r"
  "members u (redis_srem (buildUserIndexKey v) ms r) =
     (if u = v then filter (\<lambda>m. m \<notin> set ms) (members u r) else members u r)"
  by (auto simp: redis_srem_def redis_view split: option.splits)

lemma del_session_view [simp]:
  "session_get j (redis_del (buildKey k) r) = (if j = k then None else session_get j r)"
  "session_ttl j (redis_del (buildKey k) r) = (if j = k then - 2 else session_ttl j r)"
  "members u (redis_del (buildKey k) r) = members u r"
  by (auto simp: redis_del_def redis_view split: option.splits)

lemma del_index_view [simp]:
  "session_get j (redis_del (buildUserIndexKey v) r) = session_get j r"
  "session_ttl j (redis_del (buildUserIndexKey v) r) = session_ttl j r"
  "members u (redis_del (buildUserIndexKey v) r) = (if u = v then [] else members u r)"
  by (auto simp: redis_del_def redis_view split: option.splits)

lemma tick_view:
  "session_get j (tick ms r) = Some d \<Longrightarrow> session_get j r = Some d"
  "0 < session_ttl j (tick ms r) \<Longrightarrow> 0 < session_ttl j r"
  "members u (tick ms r) = members u r"
  by (auto simp: tick_def redis_view
      split: option.splits if_splits session_text.splits)

lemma ttl_pos_get: "session_ttl j r > 0 \<Longrightarrow> redis_get (buildKey j) r \<noteq> None"
  by (auto simp: session_ttl_def redis_ttl_def redis_get_def split: option.splits if_splits)

subsection \<open>Listing\<close>

lemma list_view [simp]:
  "session_get j (fst (listActiveSessions u r)) = session_get j r"
  "session_ttl j (fst (listActiveSessions u r)) = session_ttl j r"
  by (simp_all add: listActiveSessions_def Let_def)

lemma list_members:
  "members v (fst (listActiveSessions u r)) =
     (if v = u then filter (\<lambda>j. session_get j r \<noteq> None \<and> 0 < session_ttl j r) (members u r) else members v r)"
  by (auto simp: listActiveSessions_def Let_def session_entries_def comp_def filter_empty_conv image_iff
      intro!: filter_cong filter_True [symmetric])

lemma mem_list:
  "(j, d, t) \<in> set (snd (listActiveSessions u r)) \<longleftrightarrow>
     j \<in> set (members u r) \<and> session_get j r = Some d \<and> session_ttl j r = t \<and> 0 < t"
  by (auto simp: listActiveSessions_def Let_def session_entries_def image_iff)

lemma list_jtis:
  "map fst (snd (listActiveSessions u r)) =
     filter (\<lambda>j. session_get j r \<noteq> None \<and> 0 < session_ttl j r) (members u r)"
proof -
  have "map fst (map (\<lambda>(jti, s, ttl). (jti, the s, ttl)) (filter (\<lambda>(_, s, ttl). s \<noteq> None \<and> ttl > 0)
      (map (\<lambda>jti. (jti, g jti, h jti)) xs))) = filter (\<lambda>j. g j \<noteq> None \<and> 0 < h j) xs"
    for g :: "string \<Rightarrow> session_data option" and h :: "string \<Rightarrow> int" and xs
    by (induction xs) auto
  then show ?thesis by (simp add: listActiveSessions_def Let_def session_entries_def del: not_None_eq)
qed

subsection \<open>Rewriting and deleting a list of sessions\<close>

lemma rewrite_view:
  assumes "distinct (map fst active)" and "\<And>j d t. (j, d, t) \<in> set active \<Longrightarrow> 0 < t"
  shows "session_get j (rewrite_sessions f active r) =
           (case map_of active j of None \<Rightarrow> session_get j r | Some (d, t) \<Rightarrow> Some (f d))"
    and "session_ttl j (rewrite_sessions f active r) =
           (case map_of active j of None \<Rightarrow> session_ttl j r | Some (d, t) \<Rightarrow> t)"
    and "members u (rewrite_sessions f active r) = members u r"
proof -
  have "session_get j (rewrite_sessions f active r) =
           (case map_of active j of None \<Rightarrow> session_get j r | Some (d, t) \<Rightarrow> Some (f d))
    \<and> session_ttl j (rewrite_sessions f active r) =
           (case map_of active j of None \<Rightarrow> session_ttl j r | Some (d, t) \<Rightarrow> t)
    \<and> members u (rewrite_sessions f active r) = members u r"
    using assms
  proof (induction active arbitrary: r)
    case Nil
    then show ?case by (simp add: rewrite_sessions_def)
  next
    case (Cons a active)
    obtain k d t where a: "a = (k, d, t)" by (cases a)
    have "map_of active k = None" using Cons.prems(1) by (simp add: a map_of_eq_None_iff)
    moreover have "0 < t" using Cons.prems(2) a by auto
    moreover have "0 < t'" if "(j', d', t') \<in> set active" for j' d' t'
      using Cons.prems(2) that by (meson list.set_intros(2))
    ultimately show ?case
      using Cons.IH [of "redis_setex (buildKey k) t (Json (f d)) r"] Cons.prems(1)
      by (auto simp: a rewrite_sessions_def setex_view split: option.splits)
  qed
  then show "session_get j (rewrite_sessions f active r) =
           (case map_of active j of None \<Rightarrow> session_get j r | Some (d, t) \<Rightarrow> Some (f d))"
    and "session_ttl j (rewrite_sessions f active r) =
           (case map_of active j of None \<Rightarrow> session_ttl j r | Some (d, t) \<Rightarrow> t)"
    and "members u (rewrite_sessions f active r) = members u r"
    by simp_all
qed

lemma fold_del_view:
  "session_get j (fold (\<lambda>(jti, _, _). redis_del (buildKey jti)) active r) =
     (if j \<in> fst ` set active then None else session_get j r)"
  "session_ttl j (fold (\<lambda>(jti, _, _). redis_del (buildKey jti)) active r) =
     (if j \<in> fst ` set active then - 2 else session_ttl j r)"
  "members u (fold (\<lambda>(jti, _, _). redis_del (buildKey jti)) active r) = members u r"
  by (induction active arbitrary: r) auto

section \<open>The invariant\<close>

text \<open>Every session with at least half a second left is in the index of its owner, and an index
  holds only sessions of its own user.\<close>

definition sessions_ok :: "redis \<Rightarrow> bool" where
  "sessions_ok r \<longleftrightarrow> (\<forall>u. distinct (members u r))
     \<and> (\<forall>j d. session_get j r = Some d \<and> 0 < session_ttl j r \<longrightarrow> j \<in> set (members (sd_user_id d) r))
     \<and> (\<forall>u j d. j \<in> set (members u r) \<and> session_get j r = Some d \<longrightarrow> sd_user_id d = u)"

lemma sessions_okI:
  assumes "\<And>u. distinct (members u r)"
    and "\<And>j d. session_get j r = Some d \<Longrightarrow> 0 < session_ttl j r \<Longrightarrow> j \<in> set (members (sd_user_id d) r)"
    and "\<And>u j d. j \<in> set (members u r) \<Longrightarrow> session_get j r = Some d \<Longrightarrow> sd_user_id d = u"
  shows "sessions_ok r"
  using assms unfolding sessions_ok_def by blast

lemma sessions_distinct [simp]: "sessions_ok r \<Longrightarrow> distinct (members u r)"
  by (simp add: sessions_ok_def)

lemma sessions_okD:
  assumes "sessions_ok r"
  shows "session_get j r = Some d \<Longrightarrow> 0 < session_ttl j r \<Longrightarrow> j \<in> set (members (sd_user_id d) r)"
    and "j \<in> set (members u r) \<Longrightarrow> session_get j r = Some d \<Longrightarrow> sd_user_id d = u"
  using assms unfolding sessions_ok_def by blast+

text \<open>A session id that was never handed out.\<close>

definition fresh_jti :: "string \<Rightarrow> redis \<Rightarrow> bool" where
  "fresh_jti j r \<longleftrightarrow> session_get j r = None \<and> (\<forall>u. j \<notin> set (members u r))"

text \<open>The active sessions of a user as a map, and the view after an in-place rewrite.\<close>

lemma map_of_list:
  assumes "distinct (members u r)"
  shows "map_of (snd (listActiveSessions u r)) j =
    (case session_get j r of None \<Rightarrow> None
     | Some d \<Rightarrow> if j \<in> set (members u r) \<and> 0 < session_ttl j r then Some (d, session_ttl j r) else None)"
proof -
  have d: "distinct (map fst (snd (listActiveSessions u r)))" using assms by (simp add: list_jtis)
  show ?thesis
  proof (cases "map_of (snd (listActiveSessions u r)) j")
    case None
    then have "(j, d, t) \<notin> set (snd (listActiveSessions u r))" for d t
      using weak_map_of_SomeI by fastforce
    then show ?thesis using None by (cases "session_get j r") (auto simp: mem_list)
  next
    case (Some p)
    obtain d t where p: "p = (d, t)" by (cases p)
    have "(j, d, t) \<in> set (snd (listActiveSessions u r))" using Some p by (auto dest: map_of_SomeD)
    then show ?thesis using Some p by (auto simp: mem_list)
  qed
qed

lemma rewrite_for_user_view:
  assumes "distinct (members u r)"
  shows "session_get j (fst (rewrite_for_user f u r)) =
           (if j \<in> set (members u r) \<and> 0 < session_ttl j r then map_option f (session_get j r) else session_get j r)"
    and "session_ttl j (fst (rewrite_for_user f u r)) = session_ttl j r"
    and "members v (fst (rewrite_for_user f u r)) = members v (fst (listActiveSessions u r))"
proof -
  let ?l = "listActiveSessions u r"
  have d: "distinct (map fst (snd ?l))" using assms by (simp add: list_jtis)
  have pos: "0 < t" if "(j, d, t) \<in> set (snd ?l)" for j d t using that by (simp add: mem_list)
  have eq: "fst (rewrite_for_user f u r) = rewrite_sessions f (snd ?l) (fst ?l)"
    by (simp add: rewrite_for_user_def rewrite_sessions_def split: prod.splits)
  note view = rewrite_view [OF d pos]
  show "session_get j (fst (rewrite_for_user f u r)) =
           (if j \<in> set (members u r) \<and> 0 < session_ttl j r then map_option f (session_get j r) else session_get j r)"
    and "session_ttl j (fst (rewrite_for_user f u r)) = session_ttl j r"
    and "members v (fst (rewrite_for_user f u r)) = members v (fst ?l)"
    by (auto simp: eq view map_of_list [OF assms] split: option.splits)
qed

subsection \<open>Every operation keeps it\<close>

lemma create_view:
  "session_get j (session_create k d ttl r) = (if 0 < ttl \<and> j = k then Some d else session_get j r)"
  "session_ttl j (session_create k d ttl r) = (if 0 < ttl \<and> j = k then ttl else session_ttl j r)"
  "set (members u (session_create k d ttl r)) =
     (if u = sd_user_id d then insert k (set (members u r)) else set (members u r))"
  "distinct (members u r) \<Longrightarrow> distinct (members u (session_create k d ttl r))"
  by (simp_all add: session_create_def setex_view)

lemma create_ok: "sessions_ok r \<Longrightarrow> fresh_jti j r \<Longrightarrow> sessions_ok (session_create j d ttl r)"
  by (rule sessions_okI) (auto simp: fresh_jti_def create_view intro: create_view(4) dest: sessions_okD split: if_splits)

lemma revoke_view:
  "session_get j (session_revoke k r) = (if j = k then None else session_get j r)"
  "session_ttl j (session_revoke k r) = (if j = k then - 2 else session_ttl j r)"
  "members u (session_revoke k r) =
     (if map_option sd_user_id (session_get k r) = Some u then filter (\<lambda>m. m \<noteq> k) (members u r) else members u r)"
  by (auto simp: session_revoke_def Let_def split: option.splits)

lemma revoke_ok: "sessions_ok r \<Longrightarrow> sessions_ok (session_revoke j r)"
  by (rule sessions_okI) (auto simp: revoke_view dest: sessions_okD split: if_splits)

lemma list_ok: "sessions_ok r \<Longrightarrow> sessions_ok (fst (listActiveSessions u r))"
  by (rule sessions_okI) (auto simp: list_members dest: sessions_okD split: if_splits)

lemma rewrite_ok:
  assumes "sessions_ok r" and f: "\<And>d. sd_user_id (f d) = sd_user_id d"
  shows "sessions_ok (fst (rewrite_for_user f u r))"
proof -
  have d [simp]: "distinct (members v r)" for v using assms(1) by simp
  show ?thesis
    by (rule sessions_okI)
       (auto simp: rewrite_for_user_view [OF d] list_members f dest: sessions_okD [OF assms(1)] split: if_splits)
qed

lemma invalidate_view:
  "session_get j (fst (invalidateAllForUser u r)) =
     (if j \<in> set (members u r) \<and> 0 < session_ttl j r then None else session_get j r)"
  "session_ttl j (fst (invalidateAllForUser u r)) =
     (if j \<in> set (members u r) \<and> session_get j r \<noteq> None \<and> 0 < session_ttl j r then - 2 else session_ttl j r)"
  "members v (fst (invalidateAllForUser u r)) =
     (if v = u then [] else members v r)"
proof -
  let ?l = "listActiveSessions u r"
  have mem: "j \<in> fst ` set (snd ?l) \<longleftrightarrow> j \<in> set (members u r) \<and> session_get j r \<noteq> None \<and> 0 < session_ttl j r"
    using arg_cong [OF list_jtis [of u r], of set] by auto
  have none: "snd ?l = [] \<Longrightarrow> filter (\<lambda>j. session_get j r \<noteq> None \<and> 0 < session_ttl j r) (members u r) = []"
    using list_jtis [of u r] by simp
  show get: "session_get j (fst (invalidateAllForUser u r)) =
     (if j \<in> set (members u r) \<and> 0 < session_ttl j r then None else session_get j r)"
    using mem by (cases "snd ?l = []") (auto simp: invalidateAllForUser_def fold_del_view case_prod_beta)
  show "session_ttl j (fst (invalidateAllForUser u r)) =
     (if j \<in> set (members u r) \<and> session_get j r \<noteq> None \<and> 0 < session_ttl j r then - 2 else session_ttl j r)"
    using mem by (cases "snd ?l = []") (auto simp: invalidateAllForUser_def fold_del_view case_prod_beta)
  show "members v (fst (invalidateAllForUser u r)) = (if v = u then [] else members v r)"
    using none by (cases "snd ?l = []") (auto simp: invalidateAllForUser_def fold_del_view list_members case_prod_beta)
qed

lemma invalidate_ok: "sessions_ok r \<Longrightarrow> sessions_ok (fst (invalidateAllForUser u r))"
  by (rule sessions_okI) (auto simp: invalidate_view dest: sessions_okD split: if_splits)

lemma tick_ok: "sessions_ok r \<Longrightarrow> sessions_ok (tick ms r)"
  by (rule sessions_okI) (auto simp: tick_view(3) dest: sessions_okD tick_view(1,2))

section \<open>The store as a directory of sessions\<close>

text \<open>What the authentication service and the request guards rely on.\<close>

locale session_directory =
  fixes get :: "string \<Rightarrow> 's \<Rightarrow> session_data option"
    and create :: "string \<Rightarrow> session_data \<Rightarrow> int \<Rightarrow> 's \<Rightarrow> 's"
    and revoke :: "string \<Rightarrow> 's \<Rightarrow> 's"
  assumes get_create: "0 < ttl \<Longrightarrow> get j (create j d ttl s) = Some d"
    and get_create_other: "k \<noteq> j \<Longrightarrow> get k (create j d ttl s) = get k s"
    and get_revoke: "get k (revoke j s) = (if k = j then None else get k s)"
begin

lemma create_revoke: "get k (revoke j (create j d ttl s)) = (if k = j then None else get k s)"
  by (simp add: get_revoke get_create_other)

lemma revoke_create: "0 < ttl \<Longrightarrow> get k (create j d ttl (revoke j s)) = (if k = j then Some d else get k s)"
  by (simp add: get_create get_create_other get_revoke)

lemma revoke_others_survive: "0 < ttl \<Longrightarrow> k \<noteq> j \<Longrightarrow> get k (revoke j (create k d ttl s)) = Some d"
  by (simp add: get_revoke get_create)

end

interpretation ss: session_directory session_get session_create session_revoke
  by unfold_locales (simp_all add: create_view revoke_view)

section \<open>Interleavings\<close>

text \<open>One call of the store, or time passing; a new session gets an id that was never used.\<close>

inductive session_step :: "redis \<Rightarrow> redis \<Rightarrow> bool" where
  step_create: "fresh_jti j r \<Longrightarrow> session_step r (session_create j d ttl r)"
| step_revoke: "session_step r (session_revoke j r)"
| step_list: "session_step r (fst (listActiveSessions u r))"
| step_invalidate: "session_step r (fst (invalidateAllForUser u r))"
| step_refresh: "session_step r (fst (refreshPermissionsForUser u perms r))"
| step_must_change: "session_step r (fst (setMustChangePasswordForUser u b r))"
| step_tick: "session_step r (tick ms r)"

definition empty_redis :: redis where
  "empty_redis = \<lparr>clock = 0, strings = (\<lambda>_. None), sets = (\<lambda>_. [])\<rparr>"

lemma session_step_ok: "session_step r r' \<Longrightarrow> sessions_ok r \<Longrightarrow> sessions_ok r'"
  by (induction rule: session_step.induct)
     (auto simp: refreshPermissionsForUser_def setMustChangePasswordForUser_def merge_permissions_def
       intro!: create_ok revoke_ok list_ok invalidate_ok rewrite_ok tick_ok)

lemma empty_redis_ok: "sessions_ok empty_redis"
  by (simp add: sessions_ok_def empty_redis_def redis_view)

lemma sessions_reachable: "session_step\<^sup>*\<^sup>* empty_redis r \<Longrightarrow> sessions_ok r"
  by (induction rule: rtranclp_induct) (auto simp: empty_redis_ok intro: session_step_ok)

subsection \<open>Synchronising many users\<close>

lemma syncUser_view:
  assumes "sessions_ok r"
  shows "session_get j (syncUser db today u r) =
      (case session_get j r of None \<Rightarrow> None
       | Some d \<Rightarrow> Some (if sd_user_id d = u \<and> 0 < session_ttl j r then merge_permissions (resolveForUser db today u) d else d))"
    and "session_ttl j (syncUser db today u r) = session_ttl j r"
    and "sessions_ok (syncUser db today u r)"
proof -
  note v = rewrite_for_user_view [OF sessions_distinct [OF assms]]
  show "session_ttl j (syncUser db today u r) = session_ttl j r"
    by (simp add: syncUser_def refreshPermissionsForUser_def v)
  show "session_get j (syncUser db today u r) =
      (case session_get j r of None \<Rightarrow> None
       | Some d \<Rightarrow> Some (if sd_user_id d = u \<and> 0 < session_ttl j r then merge_permissions (resolveForUser db today u) d else d))"
    using sessions_okD [OF assms]
    by (auto simp: syncUser_def refreshPermissionsForUser_def v split: option.splits)
  show "sessions_ok (syncUser db today u r)"
    using assms by (simp add: syncUser_def refreshPermissionsForUser_def rewrite_ok merge_permissions_def)
qed

lemma merge_permissions_idem [simp]:
  "merge_permissions p (merge_permissions q d) = merge_permissions p d"
  "sd_user_id (merge_permissions p d) = sd_user_id d"
  by (simp_all add: merge_permissions_def)

lemma syncUsers_view:
  assumes "sessions_ok r"
  shows "session_get j (syncUsers db today us r) =
      (case session_get j r of None \<Rightarrow> None
       | Some d \<Rightarrow> Some (if sd_user_id d \<in> set us \<and> 0 < session_ttl j r
                          then merge_permissions (resolveForUser db today (sd_user_id d)) d else d))"
  using assms
proof (induction us arbitrary: r)
  case Nil
  then show ?case by (simp add: syncUsers_def split: option.splits)
next
  case (Cons u us)
  show ?case
    using Cons.IH [OF syncUser_view(3) [OF Cons.prems], of db today u] syncUser_view(1,2) [OF Cons.prems, of j db today u]
    by (auto simp: syncUsers_def split: option.splits)
qed

section \<open>Properties\<close>


definition example_session :: session_data where
  "example_session = \<lparr>sd_user_id = ''u'', sd_username = ''somchai'', sd_fullname = None, sd_email = None,
     sd_roles = [], sd_permissions = [''doc:edit''], sd_conditional_permissions = [], sd_expired_at = None,
     sd_must_change_password = False\<rparr>"

lemma empty_redis_view [simp]: "session_get j empty_redis = None" "members u empty_redis = []"
  by (simp_all add: empty_redis_def redis_view)

lemma example_fresh: "fresh_jti ''j'' empty_redis"
  by (simp add: fresh_jti_def empty_redis_def redis_view)


text \<open>a session is readable from its creation for exactly its lifetime, unaffected by what
  happens to other sessions; once revoked it is not readable.\<close>

theorem session_lifetime:
  assumes "0 < ttl" and "k \<noteq> j"
  shows "session_get j (tick ms (session_create j d ttl r)) = (if int ms \<le> 1000 * ttl then Some d else None)
    \<and> session_get j (session_revoke k (session_create j d ttl r)) = Some d
    \<and> session_get j (tick ms (session_revoke j r)) = None"
proof (intro conjI)
  show "session_get j (tick ms (session_create j d ttl r)) = (if int ms \<le> 1000 * ttl then Some d else None)"
    using assms(1) by (auto simp: session_create_def tick_def redis_view redis_sadd_def redis_setex_def)
  show "session_get j (session_revoke k (session_create j d ttl r)) = Some d"
    using assms by (intro ss.revoke_others_survive) auto
  have "session_get j (tick ms (session_revoke j r)) \<noteq> Some d'" for d'
    using tick_view(1) [of j ms "session_revoke j r" d'] by (auto simp: ss.get_revoke)
  then show "session_get j (tick ms (session_revoke j r)) = None" by auto
qed

theorem session_lifetime_witness:
  "session_get ''j'' (tick 900000 (session_create ''j'' example_session 900 empty_redis)) = Some example_session
   \<and> session_get ''j'' (tick 900001 (session_create ''j'' example_session 900 empty_redis)) = None"
  using session_lifetime [of 900 "''k''" "''j''" 900000 example_session empty_redis]
    session_lifetime [of 900 "''k''" "''j''" 900001 example_session empty_redis] by simp

text \<open>forced logout. After all sessions of a user are invalidated, a session of that user
  that is still readable has less than half a second left, the sessions of every other user are
  untouched, and the returned number is the number of sessions killed.\<close>

theorem invalidateAll_exact:
  assumes "sessions_ok r"
  shows "(session_get j (fst (invalidateAllForUser u r)) = Some d \<and> sd_user_id d = u
            \<longrightarrow> session_ttl j (fst (invalidateAllForUser u r)) \<le> 0)
       \<and> (session_get j r = Some d \<and> sd_user_id d \<noteq> u \<longrightarrow> session_get j (fst (invalidateAllForUser u r)) = Some d)
       \<and> snd (invalidateAllForUser u r)
           = card {k. \<exists>e. session_get k r = Some e \<and> sd_user_id e = u \<and> 0 < session_ttl k r}"
proof -
  let ?live = "filter (\<lambda>j. session_get j r \<noteq> None \<and> 0 < session_ttl j r) (members u r)"
  have "snd (invalidateAllForUser u r) = length (snd (listActiveSessions u r))"
    by (simp add: invalidateAllForUser_def split: prod.splits)
  also have "\<dots> = length ?live" using list_jtis [of u r] by (metis length_map)
  also have "\<dots> = card (set ?live)" using assms by (simp only: distinct_card distinct_filter sessions_distinct)
  also have "set ?live = {k. \<exists>e. session_get k r = Some e \<and> sd_user_id e = u \<and> 0 < session_ttl k r}"
    using sessions_okD [OF assms] by auto
  finally show ?thesis
    using sessions_okD [OF assms, of j] by (auto simp: invalidate_view not_less split: if_splits intro: leI)
qed

theorem invalidateAll_exact_witness:
  "snd (invalidateAllForUser ''u'' (session_create ''j'' example_session 900 empty_redis)) = 1"
proof -
  let ?r = "session_create ''j'' example_session 900 empty_redis"
  have "sessions_ok ?r" by (rule create_ok [OF empty_redis_ok example_fresh])
  moreover have "{k. \<exists>e. session_get k ?r = Some e \<and> sd_user_id e = ''u'' \<and> 0 < session_ttl k ?r} = {''j''}"
    by (auto simp: create_view example_session_def split: if_splits)
  ultimately show ?thesis using invalidateAll_exact [of ?r "''j''" "''u''" example_session] by simp
qed

text \<open>after the policies of a role changed, the synchronisation gives every session (with at
  least half a second left) of every user holding that role exactly the permissions that
  resolving the tables gives; identities, lifetimes and the sessions of other users do not
  change.\<close>

theorem syncUsersByRole_exact:
  assumes "sessions_ok r" and "session_get j r = Some d" and "0 < session_ttl j r"
  shows "session_get j (syncUsersByRole db today roleId r) = Some
     (if \<exists>u \<in> set (users_with_role db [roleId]). eid u = sd_user_id d
      then d\<lparr>sd_roles := res_roles (resolveForUser db today (sd_user_id d)),
             sd_permissions := res_permissions (resolveForUser db today (sd_user_id d)),
             sd_conditional_permissions := res_conditional (resolveForUser db today (sd_user_id d))\<rparr>
      else d)"
  using assms(2,3) syncUsers_view [OF assms(1), of j db today]
  by (auto simp: syncUsersByRole_def merge_permissions_def image_iff Bex_def)

theorem syncUsersByRole_exact_witness:
  "map_option sd_permissions (session_get ''j''
     (syncUsersByRole example_iam ''2025-01-01'' ''r'' (session_create ''j'' example_session 900 empty_redis)))
   = Some [''doc:read'']"
proof -
  let ?r = "session_create ''j'' example_session 900 empty_redis"
  have ok: "sessions_ok ?r" by (rule create_ok [OF empty_redis_ok example_fresh])
  have "map eid (users_with_role example_iam [''r'']) = [''u'']" by code_simp
  then have "\<exists>u \<in> set (users_with_role example_iam [''r'']). eid u = sd_user_id example_session"
    by (auto simp: example_session_def map_eq_Cons_conv)
  moreover have "sd_user_id example_session = ''u''" by (simp add: example_session_def)
  ultimately show ?thesis
    using syncUsersByRole_exact [OF ok, of "''j''" example_session example_iam "''2025-01-01''" "''r''"]
    by (simp add: create_view example_iam_resolved)
qed

text \<open>the in-place updates are a read followed by a write. A session that is revoked between
  the two is written back and readable again for its remaining lifetime: revocation can be lost
  when it races with a permission push or a password change.\<close>

theorem revoked_session_resurrected:
  assumes "sessions_ok r" and "session_get j r = Some d" and "0 < session_ttl j r" and "sd_user_id d = u"
  shows "session_get j (session_revoke j (fst (listActiveSessions u r))) = None
    \<and> session_get j (rewrite_sessions f (snd (listActiveSessions u r)) (session_revoke j (fst (listActiveSessions u r))))
        = Some (f d)"
proof
  show "session_get j (session_revoke j (fst (listActiveSessions u r))) = None" by (simp add: ss.get_revoke)
  have "j \<in> set (members u r)" using sessions_okD(1) [OF assms(1-3)] assms(4) by simp
  then have m: "map_of (snd (listActiveSessions u r)) j = Some (d, session_ttl j r)"
    using assms by (simp add: map_of_list)
  have d: "distinct (map fst (snd (listActiveSessions u r)))" using assms(1) by (simp add: list_jtis)
  show "session_get j (rewrite_sessions f (snd (listActiveSessions u r))
      (session_revoke j (fst (listActiveSessions u r)))) = Some (f d)"
    using rewrite_view(1) [OF d, of j f] by (simp only: mem_list m option.case prod.case)
qed

theorem revoked_session_resurrected_witness:
  "let r = session_create ''j'' example_session 900 empty_redis; l = listActiveSessions ''u'' r
   in session_get ''j'' (rewrite_sessions id (snd l) (session_revoke ''j'' (fst l))) = Some example_session"
proof -
  let ?r = "session_create ''j'' example_session 900 empty_redis"
  have "sessions_ok ?r" by (rule create_ok [OF empty_redis_ok example_fresh])
  moreover have "session_get ''j'' ?r = Some example_session" "0 < session_ttl ''j'' ?r"
    by (simp_all add: create_view)
  moreover have "sd_user_id example_session = ''u''" by (simp add: example_session_def)
  ultimately show ?thesis using revoked_session_resurrected [of ?r "''j''" example_session "''u''" id] by simp
qed

text \<open>the keyspace scan returns when the server's cursor comes back to zero, with exactly the
  batches of the walk in order.\<close>

theorem scanKeys_returns:
  assumes "cs \<noteq> []" and "hd cs = 0" and "\<forall>i < length cs. fst (scan (cs ! i)) = (cs @ [0]) ! Suc i"
    and "\<forall>c \<in> set (tl cs). c \<noteq> 0"
  shows "scanKeys scan = Some (concat (map (snd \<circ> scan) cs))"
proof -
  have "scan_loop scan (hd cs) keys = Some (keys @ concat (map (snd \<circ> scan) cs))"
    if "cs \<noteq> []" "\<forall>i < length cs. fst (scan (cs ! i)) = (cs @ [0]) ! Suc i" "\<forall>c \<in> set (tl cs). c \<noteq> 0" for cs keys
    using that
  proof (induction cs arbitrary: keys)
    case (Cons c cs)
    have next_c: "fst (scan c) = (cs @ [0]) ! 0" using Cons.prems(2) by (metis append_Cons length_greater_0_conv list.discI nth_Cons_0 nth_Cons_Suc)
    show ?case
    proof (cases cs)
      case Nil
      then show ?thesis using next_c by (simp add: scan_loop.simps case_prod_beta)
    next
      case (Cons c' cs')
      have "\<forall>i < length cs. fst (scan (cs ! i)) = (cs @ [0]) ! Suc i"
        using Cons.prems(2) by (metis Suc_less_eq append_Cons length_Cons nth_Cons_Suc)
      moreover have "\<forall>c \<in> set (tl cs). c \<noteq> 0" using Cons.prems(3) by (cases cs) auto
      ultimately show ?thesis
        using Cons next_c Cons.IH Cons.prems(3) by (simp add: scan_loop.simps [of scan c] case_prod_beta)
    qed
  qed simp
  from this [of cs "[]"] assms show ?thesis by (simp add: scanKeys_def)
qed

theorem scanKeys_returns_witness:
  "scanKeys (\<lambda>c. if c = 0 then (7, [''session:a'']) else (0, [''session:b''])) = Some [''session:a'', ''session:b'']"
  using scanKeys_returns [of "[0, 7]" "\<lambda>c. if c = 0 then (7, [''session:a'']) else (0, [''session:b''])"]
  by (simp add: All_less_Suc numeral_2_eq_2)

end
