(* ===== verification/Auth_Service.thy ===== *)
theory Auth_Service
  imports Session_Store
begin

text \<open>
  \<open>apps/auth/src/modules/auth/services/auth.service.ts\<close>, \<open>sessions.service.ts\<close> and
  \<open>utils/duration.util.ts\<close>: login with lockout, refresh-token rotation, logout, the credential
  flows, and the administration of live sessions. The state is the auth database and Redis;
  Redis' clock is also \<open>Date.now()\<close>. An operation that throws keeps the writes it made before, so
  it returns the pair of its result and the state. bcrypt, SHA-256, JWT signing, the random
  generators and the answers of the identity service are parameters (\<open>auth_env\<close>, \<open>randoms\<close>);
  \<open>sendWithContext\<close> never throws, so an answer is an option. The rows of \<open>refresh_tokens\<close>,
  \<open>login_histories\<close>, \<open>blocked_users\<close> and \<open>security_logs\<close> are never deleted and their audit
  columns never read, so only their own columns are kept.
\<close>

section \<open>State and environment\<close>

record credential = base_entity +
  cr_user_id :: string
  cr_username :: string
  password_hash :: string
  cr_is_active :: bool
  must_change_password :: bool

record refresh_token =
  rt_id :: string
  rt_user_id :: string
  token_hash :: string
  expires_at :: nat
  revoked_at :: "nat option"

record login_history =
  lh_user_id :: "string option"
  lh_username :: string
  lh_ip_address :: "string option"
  lh_user_agent :: "string option"
  is_success :: bool
  logged_in_at :: nat

record blocked_user =
  bu_user_id :: string
  bu_reason :: string
  blocked_until :: "nat option"
  blocked_by :: "string option"

record security_log =
  event_type :: string
  sl_user_id :: "string option"
  sl_ip_address :: "string option"
  sl_detail :: "string option"

record auth_state =
  credentials :: "credential list"
  refresh_tokens :: "refresh_token list"
  login_histories :: "login_history list"
  blocked_users :: "blocked_user list"
  security_logs :: "security_log list"
  store :: redis

record auth_env =
  bcrypt_compare :: "string \<Rightarrow> string \<Rightarrow> bool"
  bcrypt_hash :: "string \<Rightarrow> string"
  sha256 :: "string \<Rightarrow> string"
  jwt_sign :: "iam_user \<Rightarrow> string \<Rightarrow> int \<Rightarrow> string"
  JWT_ACCESS_EXPIRES_IN :: "string option"
  JWT_REFRESH_EXPIRES_IN :: "string option"
  iam_findById :: "string \<Rightarrow> iam_user option"
  iam_resolvePermissions :: "string \<Rightarrow> permission_resolution option"
  credential_constraint :: "unit credential_ext constraint"

record randoms =
  rnd_id :: string
  rnd_jti :: string
  rnd_refresh :: string
  rnd_csrf :: string

record login_result =
  access_token :: string
  refresh_token_raw :: string
  csrf_token :: string
  expires_in :: int
  lr_must_change_password :: bool

abbreviation now_ms :: "auth_state \<Rightarrow> nat" where
  "now_ms s \<equiv> clock (store s)"

definition MAX_FAILED_ATTEMPTS :: nat where "MAX_FAILED_ATTEMPTS = 5"
definition FAILED_ATTEMPTS_WINDOW_MINUTES :: nat where "FAILED_ATTEMPTS_WINDOW_MINUTES = 15"
definition AUTO_LOCK_MINUTES :: nat where "AUTO_LOCK_MINUTES = 30"

section \<open>Durations\<close>

definition unit_seconds :: "char \<Rightarrow> nat option" where
  "unit_seconds c =
     (if c = CHR ''s'' then Some 1 else if c = CHR ''m'' then Some 60
      else if c = CHR ''h'' then Some (60 * 60) else if c = CHR ''d'' then Some (24 * 60 * 60) else None)"

text \<open>\<open>/^(\d+)([smhd])$/\<close> on the trimmed text.\<close>

definition parseDurationToSeconds :: "string \<Rightarrow> nat result" where
  "parseDurationToSeconds duration =
     (let t = js_trim duration; value = butlast t
      in if t \<noteq> [] \<and> value \<noteq> [] \<and> list_all is_digit value \<and> unit_seconds (last t) \<noteq> None
         then Inr (digits_val value * the (unit_seconds (last t)))
         else Inl (PlainError (''Invalid duration format: '' @ quoted duration
                @ '' (expected e.g. '' @ quoted ''15m'' @ '', '' @ quoted ''7d'' @ '')'')))"

section \<open>Helpers of the service\<close>

definition writeSecurityLog ::
    "string \<Rightarrow> string option \<Rightarrow> string option \<Rightarrow> string option \<Rightarrow> auth_state \<Rightarrow> auth_state" where
  "writeSecurityLog ev user ip detail s =
     s\<lparr>security_logs := security_logs s @
        [\<lparr>event_type = ev, sl_user_id = user, sl_ip_address = ip, sl_detail = detail\<rparr>]\<rparr>"

definition recordLoginAttempt ::
    "string option \<Rightarrow> string \<Rightarrow> string option \<Rightarrow> string option \<Rightarrow> bool \<Rightarrow> auth_state \<Rightarrow> auth_state" where
  "recordLoginAttempt userId uname ip agent isSuccess s =
     (let s1 = s\<lparr>login_histories := login_histories s @
            [\<lparr>lh_user_id = userId, lh_username = uname, lh_ip_address = ip, lh_user_agent = agent,
              is_success = isSuccess, logged_in_at = now_ms s\<rparr>]\<rparr>
      in if \<not> isSuccess then writeSecurityLog ''login_failed'' userId ip (Some (''username='' @ uname)) s1 else s1)"

definition active_block :: "nat \<Rightarrow> string \<Rightarrow> blocked_user \<Rightarrow> bool" where
  "active_block t userId b \<longleftrightarrow> bu_user_id b = userId \<and>
     (case blocked_until b of None \<Rightarrow> True | Some u \<Rightarrow> u > t)"

definition assertNotBlocked :: "string \<Rightarrow> auth_state \<Rightarrow> unit result" where
  "assertNotBlocked userId s =
     (if list_ex (active_block (now_ms s) userId) (blocked_users s)
      then Inl (ForbiddenException ''This account is currently blocked.'') else Inr ())"

definition lockAfterTooManyFailures :: "string \<Rightarrow> auth_state \<Rightarrow> auth_state" where
  "lockAfterTooManyFailures userId s =
     (let since = int (now_ms s) - int (FAILED_ATTEMPTS_WINDOW_MINUTES * 60 * 1000);
          failed = filter (\<lambda>h. lh_user_id h = Some userId \<and> \<not> is_success h) (login_histories s)
      in if length failed < MAX_FAILED_ATTEMPTS then s
         else if length (filter (\<lambda>h. int (logged_in_at h) > since) failed) < MAX_FAILED_ATTEMPTS then s
         else writeSecurityLog ''account_blocked'' (Some userId) None (Some ''Too many failed login attempts'')
           (s\<lparr>blocked_users := blocked_users s @
               [\<lparr>bu_user_id = userId, bu_reason = ''Too many failed login attempts'',
                 blocked_until = Some (now_ms s + AUTO_LOCK_MINUTES * 60 * 1000), blocked_by = None\<rparr>]\<rparr>))"

text \<open>\<open>isExpired\<close>: an empty string counts as no expiry.\<close>

definition isExpired :: "string \<Rightarrow> string option \<Rightarrow> bool" where
  "isExpired today expiredAt =
     (case expiredAt of None \<Rightarrow> False | Some d \<Rightarrow> if d = [] then False else str_less d today)"

definition hashToken :: "auth_env \<Rightarrow> string \<Rightarrow> string" where
  "hashToken env raw = sha256 env raw"

definition no_permissions :: permission_resolution where
  "no_permissions = \<lparr>res_roles = [], res_permissions = [], res_conditional = []\<rparr>"

definition session_of :: "iam_user \<Rightarrow> permission_resolution \<Rightarrow> bool \<Rightarrow> session_data" where
  "session_of u resolved mustChange =
     \<lparr>sd_user_id = iu_id u, sd_username = iu_username u, sd_fullname = Some (iu_full_name u),
      sd_email = iu_email u, sd_roles = res_roles resolved, sd_permissions = res_permissions resolved,
      sd_conditional_permissions = res_conditional resolved, sd_expired_at = iu_expired_at u,
      sd_must_change_password = mustChange\<rparr>"

definition issueTokens ::
    "auth_env \<Rightarrow> randoms \<Rightarrow> iam_user \<Rightarrow> permission_resolution \<Rightarrow> bool \<Rightarrow> auth_state
      \<Rightarrow> login_result result \<times> auth_state" where
  "issueTokens env rnd u resolved mustChange s =
     (case parseDurationToSeconds (case JWT_ACCESS_EXPIRES_IN env of None \<Rightarrow> ''15m'' | Some d \<Rightarrow> d) of
        Inl e \<Rightarrow> (Inl e, s)
      | Inr accessTtl \<Rightarrow>
      case parseDurationToSeconds (case JWT_REFRESH_EXPIRES_IN env of None \<Rightarrow> ''7d'' | Some d \<Rightarrow> d) of
        Inl e \<Rightarrow> (Inl e, s)
      | Inr refreshTtl \<Rightarrow>
      let token = \<lparr>rt_id = rnd_id rnd, rt_user_id = iu_id u, token_hash = hashToken env (rnd_refresh rnd),
                   expires_at = now_ms s + refreshTtl * 1000, revoked_at = None\<rparr>;
          s1 = s\<lparr>refresh_tokens := refresh_tokens s @ [token]\<rparr>;
          s2 = s1\<lparr>store := session_create (rnd_jti rnd) (session_of u resolved mustChange) (int accessTtl) (store s1)\<rparr>
      in (Inr \<lparr>access_token = jwt_sign env u (rnd_jti rnd) (int accessTtl), refresh_token_raw = rnd_refresh rnd,
               csrf_token = rnd_csrf rnd, expires_in = int accessTtl, lr_must_change_password = mustChange\<rparr>, s2))"

section \<open>Login, refresh and logout\<close>

definition login ::
    "auth_env \<Rightarrow> randoms \<Rightarrow> string \<Rightarrow> string \<Rightarrow> string \<Rightarrow> string option \<Rightarrow> string option \<Rightarrow> auth_state
      \<Rightarrow> login_result result \<times> auth_state" where
  "login env rnd today uname password ip agent s =
     (case repo_findOne (\<lambda>c. cr_username c = uname \<and> \<not> is_deleted c) (credentials s) of
        None \<Rightarrow> (Inl (UnauthorizedException ''Invalid username or password.''),
                 recordLoginAttempt None uname ip agent False s)
      | Some c \<Rightarrow>
          let failed = recordLoginAttempt (Some (cr_user_id c)) uname ip agent False s
          in case assertNotBlocked (cr_user_id c) s of
               Inl e \<Rightarrow> (Inl e, s)
             | Inr _ \<Rightarrow>
               if \<not> cr_is_active c then (Inl (ForbiddenException ''This account has been disabled.''), failed)
               else if \<not> bcrypt_compare env password (password_hash c)
               then (Inl (UnauthorizedException ''Invalid username or password.''),
                     lockAfterTooManyFailures (cr_user_id c) failed)
               else case iam_findById env (cr_user_id c) of
                 None \<Rightarrow> (Inl (ForbiddenException ''This user account is not active.''), failed)
               | Some u \<Rightarrow>
                 if iu_status u \<noteq> ActiveStatus
                 then (Inl (ForbiddenException ''This user account is not active.''), failed)
                 else if isExpired today (iu_expired_at u)
                 then (Inl (ForbiddenException ''This user account has expired.''), failed)
                 else let resolved = (case iam_resolvePermissions env (cr_user_id c) of
                                        None \<Rightarrow> no_permissions | Some p \<Rightarrow> p)
                 in case issueTokens env rnd u resolved (must_change_password c) s of
                      (Inl e, s1) \<Rightarrow> (Inl e, s1)
                    | (Inr result, s1) \<Rightarrow>
                        (Inr result,
                         writeSecurityLog ''login_success'' (Some (cr_user_id c)) ip None
                           (recordLoginAttempt (Some (cr_user_id c)) uname ip agent True s1)))"

text \<open>The lookup and the write that revokes the presented token are two statements.\<close>

definition usable_token :: "nat \<Rightarrow> string \<Rightarrow> refresh_token \<Rightarrow> bool" where
  "usable_token t h r \<longleftrightarrow> token_hash r = h \<and> revoked_at r = None \<and> expires_at r > t"

definition find_refresh :: "auth_env \<Rightarrow> string \<Rightarrow> auth_state \<Rightarrow> refresh_token option" where
  "find_refresh env raw s = List.find (usable_token (now_ms s) (hashToken env raw)) (refresh_tokens s)"

definition revoke_row :: "refresh_token \<Rightarrow> auth_state \<Rightarrow> auth_state" where
  "revoke_row tok s =
     s\<lparr>refresh_tokens := map (\<lambda>r. if rt_id r = rt_id tok then tok\<lparr>revoked_at := Some (now_ms s)\<rparr> else r) (refresh_tokens s)\<rparr>"

definition refresh_after_revoke ::
    "auth_env \<Rightarrow> randoms \<Rightarrow> string \<Rightarrow> refresh_token \<Rightarrow> auth_state \<Rightarrow> login_result result \<times> auth_state" where
  "refresh_after_revoke env rnd today tok s =
     (case repo_findOne (\<lambda>c. cr_user_id c = rt_user_id tok) (credentials s) of
        None \<Rightarrow> (Inl (UnauthorizedException ''Refresh token is invalid or expired.''), s)
      | Some c \<Rightarrow>
          if \<not> cr_is_active c then (Inl (UnauthorizedException ''Refresh token is invalid or expired.''), s)
          else case assertNotBlocked (rt_user_id tok) s of
            Inl e \<Rightarrow> (Inl e, s)
          | Inr _ \<Rightarrow>
            (case iam_findById env (rt_user_id tok) of
               None \<Rightarrow> (Inl (ForbiddenException ''This user account is not active.''), s)
             | Some u \<Rightarrow>
                 if iu_status u \<noteq> ActiveStatus
                 then (Inl (ForbiddenException ''This user account is not active.''), s)
                 else if isExpired today (iu_expired_at u)
                 then (Inl (ForbiddenException ''This user account has expired.''), s)
                 else issueTokens env rnd u
                        (case iam_resolvePermissions env (rt_user_id tok) of None \<Rightarrow> no_permissions | Some p \<Rightarrow> p)
                        (must_change_password c) s))"

definition refresh ::
    "auth_env \<Rightarrow> randoms \<Rightarrow> string \<Rightarrow> string \<Rightarrow> auth_state \<Rightarrow> login_result result \<times> auth_state" where
  "refresh env rnd today raw s =
     (case find_refresh env raw s of
        None \<Rightarrow> (Inl (UnauthorizedException ''Refresh token is invalid or expired.''), s)
      | Some tok \<Rightarrow> refresh_after_revoke env rnd today tok (revoke_row tok s))"

definition logout :: "auth_env \<Rightarrow> string option \<Rightarrow> string option \<Rightarrow> string option \<Rightarrow> auth_state \<Rightarrow> auth_state" where
  "logout env jti userId raw s =
     (let s1 = (case jti of None \<Rightarrow> s
                | Some j \<Rightarrow> if j = [] then s else s\<lparr>store := session_revoke j (store s)\<rparr>);
          s2 = (case raw of None \<Rightarrow> s1
                | Some t \<Rightarrow> if t = [] then s1
                    else s1\<lparr>refresh_tokens := map (\<lambda>r. if token_hash r = hashToken env t \<and> revoked_at r = None
                             then r\<lparr>revoked_at := Some (now_ms s1)\<rparr> else r) (refresh_tokens s1)\<rparr>)
      in writeSecurityLog ''logout'' userId None None s2)"

section \<open>Credentials\<close>

definition save_credential :: "auth_env \<Rightarrow> credential \<Rightarrow> auth_state \<Rightarrow> auth_state result" where
  "save_credential env c s =
     (case repo_save (credential_constraint env) c (credentials s) of
        Inl e \<Rightarrow> Inl e | Inr cs \<Rightarrow> Inr (s\<lparr>credentials := cs\<rparr>))"

definition new_credential ::
    "string \<Rightarrow> string \<Rightarrow> string \<Rightarrow> string \<Rightarrow> bool \<Rightarrow> string option \<Rightarrow> credential" where
  "new_credential i user uname hash mustChange by =
     \<lparr>eid = i, created_by = by, updated_by = by, is_deleted = False, deleted_reason = None,
      deleted_at = None, deleted_by = None, cr_user_id = user, cr_username = uname,
      password_hash = hash, cr_is_active = True, must_change_password = mustChange\<rparr>"

definition or_system :: "string option \<Rightarrow> string" where
  "or_system by = (case by of None \<Rightarrow> ''system'' | Some u \<Rightarrow> u)"

definition setCredential ::
    "auth_env \<Rightarrow> randoms \<Rightarrow> string \<Rightarrow> string \<Rightarrow> string \<Rightarrow> string option \<Rightarrow> auth_state \<Rightarrow> auth_state result" where
  "setCredential env rnd user uname password by s =
     (let c = (case repo_findOne (\<lambda>c. cr_user_id c = user) (credentials s) of
                 Some c \<Rightarrow> c\<lparr>cr_username := uname, password_hash := bcrypt_hash env password,
                            cr_is_active := True, updated_by := by\<rparr>
               | None \<Rightarrow> new_credential (rnd_id rnd) user uname (bcrypt_hash env password) False by)
      in case save_credential env c s of
           Inl e \<Rightarrow> Inl e
         | Inr s1 \<Rightarrow> Inr (writeSecurityLog ''password_set'' (Some user) None (Some (''by '' @ or_system by)) s1))"

definition createInitialCredential ::
    "auth_env \<Rightarrow> randoms \<Rightarrow> string \<Rightarrow> string \<Rightarrow> string \<Rightarrow> string option \<Rightarrow> auth_state \<Rightarrow> auth_state result" where
  "createInitialCredential env rnd user uname password by s =
     (case save_credential env (new_credential (rnd_id rnd) user uname (bcrypt_hash env password) True by) s of
        Inl e \<Rightarrow> Inl e
      | Inr s1 \<Rightarrow> Inr (writeSecurityLog ''password_set'' (Some user) None
                    (Some (''initial password set by '' @ or_system by)) s1))"

definition resetPassword ::
    "auth_env \<Rightarrow> randoms \<Rightarrow> string \<Rightarrow> string \<Rightarrow> string \<Rightarrow> string option \<Rightarrow> auth_state \<Rightarrow> auth_state result" where
  "resetPassword env rnd user uname password by s =
     (let c = (case repo_findOne (\<lambda>c. cr_user_id c = user) (credentials s) of
                 Some c \<Rightarrow> c\<lparr>cr_username := uname, password_hash := bcrypt_hash env password,
                            cr_is_active := True, must_change_password := True, updated_by := by\<rparr>
               | None \<Rightarrow> new_credential (rnd_id rnd) user uname (bcrypt_hash env password) True by)
      in case save_credential env c s of
           Inl e \<Rightarrow> Inl e
         | Inr s1 \<Rightarrow>
             let s2 = s1\<lparr>store := fst (setMustChangePasswordForUser user True (store s1))\<rparr>
             in Inr (writeSecurityLog ''password_set'' (Some user) None
                    (Some (''password reset by '' @ or_system by)) s2))"

definition changePassword ::
    "auth_env \<Rightarrow> string \<Rightarrow> string \<Rightarrow> string \<Rightarrow> string \<Rightarrow> auth_state \<Rightarrow> auth_state result" where
  "changePassword env userId current_password new_password confirm_password s =
     (if new_password \<noteq> confirm_password
      then Inl (BadRequestException ''New password and confirmation do not match.'')
      else case repo_findOne (\<lambda>c. cr_user_id c = userId \<and> \<not> is_deleted c) (credentials s) of
        None \<Rightarrow> Inl (UnauthorizedException ''Credential not found.'')
      | Some c \<Rightarrow>
          if \<not> bcrypt_compare env current_password (password_hash c)
          then Inl (UnauthorizedException ''Current password is incorrect.'')
          else case save_credential env (c\<lparr>password_hash := bcrypt_hash env new_password,
                       must_change_password := False, updated_by := Some userId\<rparr>) s of
                 Inl e \<Rightarrow> Inl e
               | Inr s1 \<Rightarrow>
                   let s2 = s1\<lparr>store := fst (setMustChangePasswordForUser userId False (store s1))\<rparr>
                   in Inr (writeSecurityLog ''password_changed'' (Some userId) None None s2))"

section \<open>Session administration\<close>

record session_view =
  sv_jti :: string
  sv_user_id :: string
  sv_username :: "string option"
  sv_ttl_seconds :: int
  sv_expires_at :: int

record page_info =
  pg_page :: int
  pg_page_size :: int
  pg_total :: int
  pg_total_pages :: int

text \<open>\<open>Math.ceil(a / b)\<close> of two integers.\<close>

definition ceil_div :: "int \<Rightarrow> int \<Rightarrow> int" where
  "ceil_div a b = (a + b - 1) div b"

definition js_slice :: "int \<Rightarrow> int \<Rightarrow> 'a list \<Rightarrow> 'a list" where
  "js_slice a b xs = take (nat (b - a)) (drop (nat a) xs)"

definition findActive ::
    "string list \<Rightarrow> int \<Rightarrow> int \<Rightarrow> auth_state \<Rightarrow> session_view list \<times> page_info" where
  "findActive keys page limit s =
     (let total = int (length keys);
          safeLimit = max 1 limit;
          safePage = max 1 page;
          pageKeys = js_slice ((safePage - 1) * safeLimit) (safePage * safeLimit) keys;
          entries = map (\<lambda>k. let jti = jtiFromKey k in (jti, session_get jti (store s), session_ttl jti (store s))) pageKeys;
          userIds = js_set (List.map_filter (\<lambda>(_, d, _). case d of None \<Rightarrow> None
                       | Some d \<Rightarrow> if sd_user_id d = [] then None else Some (sd_user_id d)) entries);
          creds = (if userIds \<noteq> [] then repo_find (\<lambda>c. cr_user_id c \<in> set userIds) (credentials s) else []);
          usernameByUserId = map (\<lambda>c. (cr_user_id c, cr_username c)) creds
      in (map (\<lambda>(jti, d, ttl). \<lparr>sv_jti = jti, sv_user_id = sd_user_id (the d),
                sv_username = js_map_get usernameByUserId (sd_user_id (the d)), sv_ttl_seconds = ttl,
                sv_expires_at = int (now_ms s) + ttl * 1000\<rparr>)
            (filter (\<lambda>(_, d, ttl). d \<noteq> None \<and> ttl > 0) entries),
          \<lparr>pg_page = safePage, pg_page_size = safeLimit, pg_total = total,
           pg_total_pages = max 1 (ceil_div total safeLimit)\<rparr>))"

definition findActiveForUser :: "string \<Rightarrow> auth_state \<Rightarrow> (nat \<times> (string \<times> int \<times> int) list) \<times> auth_state" where
  "findActiveForUser userId s =
     (let (r, active) = listActiveSessions userId (store s)
      in ((length active, map (\<lambda>(jti, _, ttl). (jti, ttl, int (now_ms s) + ttl * 1000)) active), s\<lparr>store := r\<rparr>))"

definition admin_revoke :: "string \<Rightarrow> string option \<Rightarrow> auth_state \<Rightarrow> auth_state result" where
  "admin_revoke jti revokedBy s =
     (case session_get jti (store s) of
        None \<Rightarrow> Inl (NotFoundException (''Session '' @ quoted jti @ '' not found or already expired.''))
      | Some d \<Rightarrow>
          let s1 = s\<lparr>store := session_revoke jti (store s)\<rparr>;
              s2 = s1\<lparr>refresh_tokens := map (\<lambda>r. if rt_user_id r = sd_user_id d \<and> revoked_at r = None
                       then r\<lparr>revoked_at := Some (now_ms s)\<rparr> else r) (refresh_tokens s1)\<rparr>
          in Inr (writeSecurityLog ''session_revoked_by_admin'' (Some (sd_user_id d)) None
               (Some (''session '' @ jti @ '' revoked by ''
                  @ (case revokedBy of None \<Rightarrow> ''unknown admin'' | Some a \<Rightarrow> a))) s2))"

section \<open>Frame conditions\<close>

lemma log_frame [simp]:
  "credentials (writeSecurityLog ev u ip d s) = credentials s"
  "refresh_tokens (writeSecurityLog ev u ip d s) = refresh_tokens s"
  "login_histories (writeSecurityLog ev u ip d s) = login_histories s"
  "blocked_users (writeSecurityLog ev u ip d s) = blocked_users s"
  "store (writeSecurityLog ev u ip d s) = store s"
  by (simp_all add: writeSecurityLog_def)

lemma record_frame [simp]:
  "credentials (recordLoginAttempt u n ip a b s) = credentials s"
  "refresh_tokens (recordLoginAttempt u n ip a b s) = refresh_tokens s"
  "blocked_users (recordLoginAttempt u n ip a b s) = blocked_users s"
  "store (recordLoginAttempt u n ip a b s) = store s"
  "login_histories (recordLoginAttempt u n ip a b s) = login_histories s @
     [\<lparr>lh_user_id = u, lh_username = n, lh_ip_address = ip, lh_user_agent = a, is_success = b, logged_in_at = now_ms s\<rparr>]"
  by (simp_all add: recordLoginAttempt_def Let_def)

lemma lock_frame [simp]:
  "credentials (lockAfterTooManyFailures u s) = credentials s"
  "refresh_tokens (lockAfterTooManyFailures u s) = refresh_tokens s"
  "login_histories (lockAfterTooManyFailures u s) = login_histories s"
  "store (lockAfterTooManyFailures u s) = store s"
  by (simp_all add: lockAfterTooManyFailures_def Let_def)

lemma clock_frame [simp]:
  "clock (session_create j d ttl r) = clock r" "clock (session_revoke j r) = clock r"
  "clock (tick ms r) = clock r + ms"
  by (simp_all add: session_create_def redis_sadd_def redis_setex_def session_revoke_def redis_del_def
      redis_srem_def tick_def Let_def split: option.splits)

lemma assertNotBlocked_ok: "assertNotBlocked u s = Inr () \<longleftrightarrow> (\<forall>b \<in> set (blocked_users s). \<not> active_block (now_ms s) u b)"
  by (auto simp: assertNotBlocked_def list_ex_iff)

lemma assertNotBlocked_cong: "blocked_users s' = blocked_users s \<Longrightarrow> now_ms s' = now_ms s \<Longrightarrow>
  assertNotBlocked u s' = assertNotBlocked u s"
  by (simp add: assertNotBlocked_def)

section \<open>Token issue\<close>

definition access_ttl :: "auth_env \<Rightarrow> nat result" where
  "access_ttl env = parseDurationToSeconds (case JWT_ACCESS_EXPIRES_IN env of None \<Rightarrow> ''15m'' | Some d \<Rightarrow> d)"

definition refresh_ttl :: "auth_env \<Rightarrow> nat result" where
  "refresh_ttl env = parseDurationToSeconds (case JWT_REFRESH_EXPIRES_IN env of None \<Rightarrow> ''7d'' | Some d \<Rightarrow> d)"

definition issued :: "auth_env \<Rightarrow> randoms \<Rightarrow> iam_user \<Rightarrow> session_data \<Rightarrow> nat \<Rightarrow> nat \<Rightarrow> auth_state \<Rightarrow> auth_state" where
  "issued env rnd u d a b s =
     s\<lparr>refresh_tokens := refresh_tokens s @ [\<lparr>rt_id = rnd_id rnd, rt_user_id = iu_id u,
          token_hash = hashToken env (rnd_refresh rnd), expires_at = now_ms s + b * 1000, revoked_at = None\<rparr>],
       store := session_create (rnd_jti rnd) d (int a) (store s)\<rparr>"

lemma issueTokens_cases:
  "issueTokens env rnd u p m s =
     (case access_ttl env of Inl e \<Rightarrow> (Inl e, s) | Inr a \<Rightarrow>
      case refresh_ttl env of Inl e \<Rightarrow> (Inl e, s) | Inr b \<Rightarrow>
        (Inr \<lparr>access_token = jwt_sign env u (rnd_jti rnd) (int a), refresh_token_raw = rnd_refresh rnd,
              csrf_token = rnd_csrf rnd, expires_in = int a, lr_must_change_password = m\<rparr>,
         issued env rnd u (session_of u p m) a b s))"
  by (simp add: issueTokens_def access_ttl_def refresh_ttl_def issued_def Let_def split: sum.splits)

lemma issued_frame [simp]:
  "credentials (issued env rnd u d a b s) = credentials s"
  "login_histories (issued env rnd u d a b s) = login_histories s"
  "blocked_users (issued env rnd u d a b s) = blocked_users s"
  "store (issued env rnd u d a b s) = session_create (rnd_jti rnd) d (int a) (store s)"
  by (simp_all add: issued_def)

section \<open>Login\<close>

text \<open>What the service requires before it hands out tokens.\<close>

definition may_enter :: "auth_env \<Rightarrow> string \<Rightarrow> credential \<Rightarrow> iam_user \<Rightarrow> auth_state \<Rightarrow> bool" where
  "may_enter env today c u s \<longleftrightarrow>
     cr_is_active c \<and> (\<forall>b \<in> set (blocked_users s). \<not> active_block (now_ms s) (cr_user_id c) b)
     \<and> iam_findById env (cr_user_id c) = Some u \<and> iu_status u = ActiveStatus
     \<and> \<not> isExpired today (iu_expired_at u)"

definition resolved_for :: "auth_env \<Rightarrow> string \<Rightarrow> permission_resolution" where
  "resolved_for env user = (case iam_resolvePermissions env user of None \<Rightarrow> no_permissions | Some p \<Rightarrow> p)"

definition login_credential :: "string \<Rightarrow> auth_state \<Rightarrow> credential option" where
  "login_credential uname s = repo_findOne (\<lambda>c. cr_username c = uname \<and> \<not> is_deleted c) (credentials s)"

lemma login_Inr:
  "fst (login env rnd today uname pw ip agent s) = Inr res \<longleftrightarrow>
     (\<exists>c u a b. login_credential uname s = Some c \<and> may_enter env today c u s
        \<and> bcrypt_compare env pw (password_hash c) \<and> access_ttl env = Inr a \<and> refresh_ttl env = Inr b
        \<and> res = \<lparr>access_token = jwt_sign env u (rnd_jti rnd) (int a), refresh_token_raw = rnd_refresh rnd,
                csrf_token = rnd_csrf rnd, expires_in = int a, lr_must_change_password = must_change_password c\<rparr>)"
  unfolding login_credential_def may_enter_def assertNotBlocked_ok [symmetric]
  by (cases "repo_findOne (\<lambda>c. cr_username c = uname \<and> \<not> is_deleted c) (credentials s)")
     (auto simp: login_def Let_def issueTokens_cases resolved_for_def [symmetric] split: sum.splits option.splits)

lemma login_Inr_state:
  assumes "fst (login env rnd today uname pw ip agent s) = Inr res"
  obtains c u a b where "login_credential uname s = Some c" "may_enter env today c u s"
    "access_ttl env = Inr a" "refresh_ttl env = Inr b"
    "refresh_tokens (snd (login env rnd today uname pw ip agent s)) =
       refresh_tokens (issued env rnd u (session_of u (resolved_for env (cr_user_id c)) (must_change_password c)) a b s)"
    "store (snd (login env rnd today uname pw ip agent s)) =
       session_create (rnd_jti rnd) (session_of u (resolved_for env (cr_user_id c)) (must_change_password c)) (int a) (store s)"
proof -
  obtain c u a b where c: "login_credential uname s = Some c" "may_enter env today c u s"
      "bcrypt_compare env pw (password_hash c)" "access_ttl env = Inr a" "refresh_ttl env = Inr b"
    using assms unfolding login_Inr by blast
  then have "assertNotBlocked (cr_user_id c) s = Inr ()" by (simp add: may_enter_def assertNotBlocked_ok)
  then show thesis
    using c that [OF c(1,2,4,5)]
    by (simp add: login_def login_credential_def may_enter_def Let_def issueTokens_cases resolved_for_def)
qed

lemma login_Inl_frame:
  assumes "fst (login env rnd today uname pw ip agent s) = Inl e"
  shows "store (snd (login env rnd today uname pw ip agent s)) = store s
    \<and> refresh_tokens (snd (login env rnd today uname pw ip agent s)) = refresh_tokens s
    \<and> credentials (snd (login env rnd today uname pw ip agent s)) = credentials s"
  using assms by (auto simp: login_def Let_def issueTokens_cases split: option.splits sum.splits if_splits)

section \<open>Lockout\<close>

definition wait :: "nat \<Rightarrow> auth_state \<Rightarrow> auth_state" where
  "wait ms s = s\<lparr>store := tick ms (store s)\<rparr>"

lemma wait_frame [simp]:
  "credentials (wait ms s) = credentials s" "refresh_tokens (wait ms s) = refresh_tokens s"
  "login_histories (wait ms s) = login_histories s" "blocked_users (wait ms s) = blocked_users s"
  "now_ms (wait ms s) = now_ms s + ms"
  by (simp_all add: wait_def)

text \<open>A sequence of login attempts on one account, each after a delay.\<close>

fun attempts ::
    "auth_env \<Rightarrow> randoms \<Rightarrow> string \<Rightarrow> string \<Rightarrow> (nat \<times> string) list \<Rightarrow> auth_state \<Rightarrow> auth_state" where
  "attempts env rnd today uname [] s = s"
| "attempts env rnd today uname ((d, pw) # as) s =
     attempts env rnd today uname as (snd (login env rnd today uname pw None None (wait d s)))"

text \<open>Failures of a user since \<open>t\<close>, and a block that lasts beyond \<open>t\<close>.\<close>

definition failures_since :: "nat \<Rightarrow> string \<Rightarrow> auth_state \<Rightarrow> nat" where
  "failures_since t u s =
     length (filter (\<lambda>h. lh_user_id h = Some u \<and> \<not> is_success h \<and> t \<le> logged_in_at h) (login_histories s))"

definition blocked_beyond :: "nat \<Rightarrow> string \<Rightarrow> auth_state \<Rightarrow> bool" where
  "blocked_beyond t u s \<longleftrightarrow>
     (\<exists>b \<in> set (blocked_users s). bu_user_id b = u \<and> (case blocked_until b of None \<Rightarrow> True | Some e \<Rightarrow> t \<le> e))"

lemma blocked_login:
  assumes "login_credential uname s = Some c" and "blocked_beyond t (cr_user_id c) s" and "now_ms s < t"
  shows "login env rnd today uname pw ip agent s
     = (Inl (ForbiddenException ''This account is currently blocked.''), s)"
proof -
  have "list_ex (active_block (now_ms s) (cr_user_id c)) (blocked_users s)"
    using assms(2,3) by (auto simp: blocked_beyond_def active_block_def list_ex_iff split: option.splits)
  then show ?thesis using assms(1) by (simp add: login_def login_credential_def assertNotBlocked_def Let_def)
qed

lemma wrong_password:
  assumes "login_credential uname s = Some c" and "cr_is_active c" and "assertNotBlocked (cr_user_id c) s = Inr ()"
    and "\<not> bcrypt_compare env pw (password_hash c)"
  shows "snd (login env rnd today uname pw ip agent s)
     = lockAfterTooManyFailures (cr_user_id c) (recordLoginAttempt (Some (cr_user_id c)) uname ip agent False s)"
  using assms by (simp add: login_def login_credential_def Let_def)

lemma lock_blocks:
  assumes "5 \<le> failures_since t u s" and "now_ms s < t + 900000"
  shows "blocked_users (lockAfterTooManyFailures u s) = blocked_users s @
     [\<lparr>bu_user_id = u, bu_reason = ''Too many failed login attempts'',
       blocked_until = Some (now_ms s + 1800000), blocked_by = None\<rparr>]"
proof -
  let ?failed = "filter (\<lambda>h. lh_user_id h = Some u \<and> \<not> is_success h) (login_histories s)"
  let ?since = "int (now_ms s) - 900000"
  have "failures_since t u s = length (filter (\<lambda>h. t \<le> logged_in_at h) ?failed)"
    by (simp add: failures_since_def conj_commute conj_left_commute)
  also have "\<dots> \<le> length (filter (\<lambda>h. int (logged_in_at h) > ?since) ?failed)"
    using assms(2) by (intro filter_length_mono) auto
  finally have w: "5 \<le> length (filter (\<lambda>h. int (logged_in_at h) > ?since) ?failed)" using assms(1) by simp
  also have "\<dots> \<le> length ?failed" by (rule length_filter_le)
  finally show ?thesis
    using w by (simp add: lockAfterTooManyFailures_def Let_def MAX_FAILED_ATTEMPTS_def
        FAILED_ATTEMPTS_WINDOW_MINUTES_def AUTO_LOCK_MINUTES_def)
qed

lemma lock_cases:
  "blocked_users (lockAfterTooManyFailures u s) = blocked_users s
   \<or> blocked_users (lockAfterTooManyFailures u s) = blocked_users s @
     [\<lparr>bu_user_id = u, bu_reason = ''Too many failed login attempts'',
       blocked_until = Some (now_ms s + 1800000), blocked_by = None\<rparr>]"
  by (simp add: lockAfterTooManyFailures_def Let_def AUTO_LOCK_MINUTES_def)

text \<open>The state after some wrong attempts since \<open>t\<close>: already blocked for half an hour from \<open>t\<close>, or
  not blocked with all the failures on record.\<close>

definition under_attack :: "nat \<Rightarrow> nat \<Rightarrow> string \<Rightarrow> auth_state \<Rightarrow> bool" where
  "under_attack t n u s \<longleftrightarrow> t \<le> now_ms s \<and>
     (blocked_beyond (t + 1800000) u s
      \<or> n < 5 \<and> assertNotBlocked u s = Inr () \<and> n \<le> failures_since t u s)"

lemma under_attack_wait: "under_attack t n u s \<Longrightarrow> under_attack t n u (wait d s)"
  by (auto simp: under_attack_def blocked_beyond_def assertNotBlocked_ok failures_since_def active_block_def
      split: option.splits)

lemma under_attack_step:
  assumes u: "under_attack t n (cr_user_id c) s" and c: "login_credential uname s = Some c" "cr_is_active c"
    and pw: "\<not> bcrypt_compare env pw (password_hash c)" and win: "now_ms s < t + 900000"
  shows "under_attack t (Suc n) (cr_user_id c) (snd (login env rnd today uname pw ip agent s))"
proof (cases "blocked_beyond (t + 1800000) (cr_user_id c) s")
  case True
  then show ?thesis using blocked_login [OF c(1) True] win u by (simp add: under_attack_def)
next
  case False
  let ?u = "cr_user_id c"
  let ?f = "recordLoginAttempt (Some ?u) uname ip agent False s"
  have free: "assertNotBlocked ?u s = Inr ()" and n: "n \<le> failures_since t ?u s" and t: "t \<le> now_ms s"
    using u False by (auto simp: under_attack_def)
  have s': "snd (login env rnd today uname pw ip agent s) = lockAfterTooManyFailures ?u ?f"
    using wrong_password [OF c free pw] .
  have n': "Suc n \<le> failures_since t ?u ?f" using n t by (simp add: failures_since_def)
  have n'': "Suc n \<le> failures_since t ?u (lockAfterTooManyFailures ?u ?f)" using n' by (simp add: failures_since_def)
  have beyond: "blocked_beyond (t + 1800000) ?u (lockAfterTooManyFailures ?u ?f)"
    if "blocked_users (lockAfterTooManyFailures ?u ?f) = blocked_users ?f @
     [\<lparr>bu_user_id = ?u, bu_reason = ''Too many failed login attempts'',
       blocked_until = Some (now_ms ?f + 1800000), blocked_by = None\<rparr>]"
    using that t by (simp add: blocked_beyond_def)
  from lock_cases [of ?u ?f] show ?thesis
  proof
    assume eq: "blocked_users (lockAfterTooManyFailures ?u ?f) = blocked_users ?f"
    have "Suc n < 5"
    proof (rule ccontr)
      assume "\<not> Suc n < 5"
      then have "5 \<le> failures_since t ?u ?f" using n' by linarith
      from lock_blocks [OF this] eq win show False by simp
    qed
    moreover have "assertNotBlocked ?u (lockAfterTooManyFailures ?u ?f) = Inr ()"
      using free eq by (simp add: assertNotBlocked_def)
    ultimately show ?thesis using t n'' by (simp add: under_attack_def s')
  qed (use beyond t in \<open>simp add: under_attack_def s'\<close>)
qed

lemma login_credential_step:
  assumes "login_credential uname s = Some c" and "\<not> bcrypt_compare env pw (password_hash c)"
  shows "login_credential uname (snd (login env rnd today uname pw ip agent s)) = Some c"
    and "now_ms (snd (login env rnd today uname pw ip agent s)) = now_ms s"
proof -
  have "fst (login env rnd today uname pw ip agent s) \<noteq> Inr res" for res
    using assms unfolding login_Inr by auto
  then obtain e where "fst (login env rnd today uname pw ip agent s) = Inl e"
    by (metis old.sum.exhaust)
  from login_Inl_frame [OF this] assms(1)
  show "login_credential uname (snd (login env rnd today uname pw ip agent s)) = Some c"
    and "now_ms (snd (login env rnd today uname pw ip agent s)) = now_ms s"
    by (simp_all add: login_credential_def)
qed

lemma attempts_under_attack:
  assumes "under_attack t n (cr_user_id c) s" and "login_credential uname s = Some c" and "cr_is_active c"
    and "\<forall>(d, pw) \<in> set as. \<not> bcrypt_compare env pw (password_hash c)"
    and "now_ms s + sum_list (map fst as) < t + 900000"
  shows "under_attack t (n + length as) (cr_user_id c) (attempts env rnd today uname as s)
     \<and> login_credential uname (attempts env rnd today uname as s) = Some c
     \<and> now_ms (attempts env rnd today uname as s) = now_ms s + sum_list (map fst as)"
  using assms
proof (induction as arbitrary: n s)
  case (Cons a as)
  obtain d pw where a: "a = (d, pw)" by (cases a)
  let ?s = "snd (login env rnd today uname pw None None (wait d s))"
  have c: "login_credential uname (wait d s) = Some c" using Cons.prems(2) by (simp add: login_credential_def)
  have pw: "\<not> bcrypt_compare env pw (password_hash c)" using Cons.prems(4) a by simp
  have "under_attack t (Suc n) (cr_user_id c) ?s"
    using under_attack_step [OF under_attack_wait [OF Cons.prems(1)] c Cons.prems(3) pw] Cons.prems(5)
    by (simp add: a)
  moreover note login_credential_step [OF c pw]
  ultimately show ?case
    using Cons.IH [of "Suc n" ?s] Cons.prems(3,4,5) by (simp add: a)
qed simp

section \<open>Refresh tokens\<close>

text \<open>The unique constraints of the table.\<close>

definition tokens_ok :: "auth_state \<Rightarrow> bool" where
  "tokens_ok s \<longleftrightarrow> distinct (map rt_id (refresh_tokens s)) \<and> distinct (map token_hash (refresh_tokens s))"

definition burnt :: "auth_env \<Rightarrow> string \<Rightarrow> auth_state \<Rightarrow> bool" where
  "burnt env raw s \<longleftrightarrow> (\<forall>r \<in> set (refresh_tokens s). token_hash r = hashToken env raw \<longrightarrow> revoked_at r \<noteq> None)"

lemma burnt_refresh:
  "burnt env raw s \<Longrightarrow> refresh env rnd today raw s
     = (Inl (UnauthorizedException ''Refresh token is invalid or expired.''), s)"
proof -
  assume "burnt env raw s"
  then have "find_refresh env raw s = None"
    by (auto simp: find_refresh_def find_None_iff_all burnt_def usable_token_def)
  then show ?thesis by (simp add: refresh_def)
qed

lemma revoke_row_burns:
  assumes "tokens_ok s" and "find_refresh env raw s = Some tok"
  shows "burnt env raw (revoke_row tok s)"
proof -
  have tok: "tok \<in> set (refresh_tokens s)" "token_hash tok = hashToken env raw"
    using assms(2) by (auto simp: find_refresh_def usable_token_def dest: find_Some_iff_mem)
  have "rt_id r = rt_id tok" if "r \<in> set (refresh_tokens s)" "token_hash r = hashToken env raw" for r
    using assms(1) tok that distinct_map_eqI [of token_hash "refresh_tokens s" r tok] by (simp add: tokens_ok_def)
  then show ?thesis by (auto simp: burnt_def revoke_row_def)
qed

lemma revoke_row_frame [simp]:
  "credentials (revoke_row tok s) = credentials s" "blocked_users (revoke_row tok s) = blocked_users s"
  "store (revoke_row tok s) = store s"
  by (simp_all add: revoke_row_def)

lemma issue_burnt:
  assumes "burnt env raw s" and "hashToken env (rnd_refresh rnd) \<noteq> hashToken env raw"
  shows "burnt env raw (snd (issueTokens env rnd u p m s))"
  using assms by (auto simp: issueTokens_cases issued_def burnt_def split: sum.splits)

lemma refresh_burns:
  assumes "tokens_ok s" and "hashToken env (rnd_refresh rnd) \<noteq> hashToken env raw"
    and "find_refresh env raw s \<noteq> None"
  shows "burnt env raw (snd (refresh env rnd today raw s))"
proof -
  obtain tok where tok: "find_refresh env raw s = Some tok" using assms(3) by auto
  note b = revoke_row_burns [OF assms(1) tok]
  show ?thesis
    using b issue_burnt [OF b assms(2)] tok
    by (simp add: refresh_def refresh_after_revoke_def split: option.splits sum.splits)
qed

section \<open>Forced password change\<close>

lemma setMustChange_view:
  assumes "sessions_ok r"
  shows "session_get j (fst (setMustChangePasswordForUser u b r)) =
      (case session_get j r of None \<Rightarrow> None
       | Some d \<Rightarrow> Some (if sd_user_id d = u \<and> 0 < session_ttl j r then d\<lparr>sd_must_change_password := b\<rparr> else d))"
  using sessions_okD [OF assms, of j] rewrite_for_user_view(1) [OF sessions_distinct [OF assms]]
  by (auto simp: setMustChangePasswordForUser_def split: option.splits)

section \<open>Properties\<close>

text \<open>login hands out tokens exactly when a live credential with that name exists, is active
  and not blocked, the password matches, and the identity service reports an active, unexpired
  user (and the configured lifetimes parse). In every other case no session, refresh token or
  credential changes.\<close>

theorem login_exact:
  "(is_ok (fst (login env rnd today uname pw ip agent s)) \<longleftrightarrow>
      (\<exists>c u. login_credential uname s = Some c \<and> may_enter env today c u s
         \<and> bcrypt_compare env pw (password_hash c) \<and> is_ok (access_ttl env) \<and> is_ok (refresh_ttl env)))
   \<and> (\<not> is_ok (fst (login env rnd today uname pw ip agent s)) \<longrightarrow>
      store (snd (login env rnd today uname pw ip agent s)) = store s
      \<and> refresh_tokens (snd (login env rnd today uname pw ip agent s)) = refresh_tokens s
      \<and> credentials (snd (login env rnd today uname pw ip agent s)) = credentials s)"
proof
  show "is_ok (fst (login env rnd today uname pw ip agent s)) \<longleftrightarrow>
      (\<exists>c u. login_credential uname s = Some c \<and> may_enter env today c u s
         \<and> bcrypt_compare env pw (password_hash c) \<and> is_ok (access_ttl env) \<and> is_ok (refresh_ttl env))"
    unfolding is_ok_conv login_Inr by blast
  show "\<not> is_ok (fst (login env rnd today uname pw ip agent s)) \<longrightarrow>
      store (snd (login env rnd today uname pw ip agent s)) = store s
      \<and> refresh_tokens (snd (login env rnd today uname pw ip agent s)) = refresh_tokens s
      \<and> credentials (snd (login env rnd today uname pw ip agent s)) = credentials s"
    using login_Inl_frame by (metis is_ok_simps(1) old.sum.exhaust)
qed

text \<open>a successful login stores a session that is that of the user the identity service
  reported, with the permissions it resolved and the must-change flag of the credential, and puts
  an unrevoked refresh token of that user on record.\<close>

theorem login_issues_session:
  assumes "is_ok (fst (login env rnd today uname pw ip agent s))" and "access_ttl env = Inr a" and "0 < a"
  shows "\<exists>c u. login_credential uname s = Some c \<and> may_enter env today c u s
     \<and> session_get (rnd_jti rnd) (store (snd (login env rnd today uname pw ip agent s)))
         = Some (session_of u (resolved_for env (cr_user_id c)) (must_change_password c))
     \<and> (\<exists>r \<in> set (refresh_tokens (snd (login env rnd today uname pw ip agent s))).
           rt_user_id r = iu_id u \<and> token_hash r = hashToken env (rnd_refresh rnd) \<and> revoked_at r = None)"
proof -
  obtain res where "fst (login env rnd today uname pw ip agent s) = Inr res" using assms(1) by (auto simp: is_ok_conv)
  then show ?thesis
  proof (rule login_Inr_state)
    fix c u a' b
    assume c: "login_credential uname s = Some c" "may_enter env today c u s" "access_ttl env = Inr a'"
      "refresh_tokens (snd (login env rnd today uname pw ip agent s)) =
         refresh_tokens (issued env rnd u (session_of u (resolved_for env (cr_user_id c)) (must_change_password c)) a' b s)"
      "store (snd (login env rnd today uname pw ip agent s)) =
         session_create (rnd_jti rnd) (session_of u (resolved_for env (cr_user_id c)) (must_change_password c)) (int a') (store s)"
    have "0 < int a'" using assms(2,3) c(3) by simp
    then show ?thesis
      using c by (auto intro!: exI [of _ c] exI [of _ u] simp: ss.get_create issued_def)
  qed
qed

text \<open>C15: five wrong passwords within fifteen minutes lock an account that was not blocked: from
  then on every login on it, the right password included, is refused until half an hour after
  the first of them, and changes nothing.\<close>

theorem lockout:
  assumes "login_credential uname s = Some c" and "cr_is_active c" and "assertNotBlocked (cr_user_id c) s = Inr ()"
    and "length as = 5" and "\<forall>(d, pw) \<in> set as. \<not> bcrypt_compare env pw (password_hash c)"
    and "sum_list (map fst as) < 15 * 60 * 1000"
    and "sum_list (map fst as) + later < 30 * 60 * 1000"
  shows "login env rnd today uname pw ip agent (wait later (attempts env rnd0 today0 uname as s))
     = (Inl (ForbiddenException ''This account is currently blocked.''), wait later (attempts env rnd0 today0 uname as s))"
proof -
  let ?s = "attempts env rnd0 today0 uname as s"
  have "under_attack (now_ms s) 0 (cr_user_id c) s"
    using assms(3) by (simp add: under_attack_def)
  from attempts_under_attack [OF this assms(1,2,5)] assms(4,6)
  have "under_attack (now_ms s) 5 (cr_user_id c) ?s" "login_credential uname ?s = Some c"
      "now_ms ?s = now_ms s + sum_list (map fst as)" by simp_all
  then have "blocked_beyond (now_ms s + 1800000) (cr_user_id c) (wait later ?s)"
      "login_credential uname (wait later ?s) = Some c" "now_ms (wait later ?s) < now_ms s + 1800000"
    using assms(7) by (auto simp: under_attack_def blocked_beyond_def login_credential_def)
  then show ?thesis by (intro blocked_login)
qed

text \<open>C14: refresh tokens rotate. Presenting a token burns it whatever the outcome, and presenting
  it again later is refused.\<close>

theorem refresh_single_use:
  assumes "tokens_ok s" and "hashToken env (rnd_refresh rnd) \<noteq> hashToken env raw"
  shows "fst (refresh env rnd' today' raw (wait later (snd (refresh env rnd today raw s))))
     = Inl (UnauthorizedException ''Refresh token is invalid or expired.'')"
proof (cases "find_refresh env raw s = None")
  case True
  then have "find_refresh env raw (wait later s) = None"
    by (fastforce simp: find_refresh_def find_None_iff_all usable_token_def)
  then show ?thesis using True by (simp add: refresh_def)
next
  case False
  then have "burnt env raw (snd (refresh env rnd today raw s))" using refresh_burns assms by blast
  then have "burnt env raw (wait later (snd (refresh env rnd today raw s)))" by (simp add: burnt_def)
  then show ?thesis by (simp add: burnt_refresh)
qed

text \<open>the lookup and the revocation of a refresh token are two separate statements: a second
  request that looked the token up before the first one revoked it goes on to mint its own
  tokens, so one refresh token can be redeemed twice.\<close>

theorem refresh_race:
  assumes "find_refresh env raw s = Some tok" and "is_ok (fst (refresh env rnd today raw s))"
  shows "is_ok (fst (refresh_after_revoke env rnd' today tok (revoke_row tok (snd (refresh env rnd today raw s)))))"
proof -
  let ?s = "snd (refresh env rnd today raw s)"
  have frame: "credentials ?s = credentials s" "blocked_users ?s = blocked_users s" "now_ms ?s = now_ms s"
    using assms by (auto simp: refresh_def refresh_after_revoke_def issueTokens_cases split: option.splits sum.splits)
  have "is_ok (fst (refresh_after_revoke env rnd today tok (revoke_row tok s)))"
    using assms by (simp add: refresh_def)
  then show ?thesis
    using assertNotBlocked_cong [of "revoke_row tok s" "revoke_row tok ?s" "rt_user_id tok"] frame
    by (auto simp: refresh_after_revoke_def issueTokens_cases split: option.splits sum.splits if_splits)
qed

text \<open>an administrative password reset marks the credential and every session of the user
  with at least half a second left, so the old knowledge cannot be used for anything but setting
  a new password; sessions of other users do not change.\<close>

theorem resetPassword_flags:
  assumes "sessions_ok (store s)"
    and "resetPassword env rnd user uname pw by s = Inr s'"
  shows "(\<exists>c \<in> set (credentials s'). cr_user_id c = user \<and> must_change_password c \<and> cr_is_active c
            \<and> password_hash c = bcrypt_hash env pw)
     \<and> (session_get j (store s) = Some d \<and> 0 < session_ttl j (store s) \<longrightarrow>
          session_get j (store s') = Some (if sd_user_id d = user then d\<lparr>sd_must_change_password := True\<rparr> else d))"
proof -
  define c where "c = (case repo_findOne (\<lambda>c. cr_user_id c = user) (credentials s) of
       Some c \<Rightarrow> c\<lparr>cr_username := uname, password_hash := bcrypt_hash env pw,
                  cr_is_active := True, must_change_password := True, updated_by := by\<rparr>
     | None \<Rightarrow> new_credential (rnd_id rnd) user uname (bcrypt_hash env pw) True by)"
  have c: "cr_user_id c = user" "must_change_password c" "cr_is_active c" "password_hash c = bcrypt_hash env pw"
    by (auto simp: c_def new_credential_def repo_findOne_def split: option.splits dest: find_Some_iff_mem)
  have s': "credentials s' = put_row c (credentials s)"
      "store s' = fst (setMustChangePasswordForUser user True (store s))"
    using assms(2) unfolding resetPassword_def c_def [symmetric]
    by (auto simp: save_credential_def repo_save_def Let_def split: option.splits)
  have "c \<in> set (credentials s')" by (auto simp: s' put_row_def image_iff)
  then show ?thesis
    using c s'(2) setMustChange_view [OF assms(1), of j user True] by (auto simp: s'(2))
qed

text \<open>an administrator's revocation of a session makes the session unreadable and leaves no
  unrevoked refresh token of its owner, so the client cannot mint a new session from one.\<close>

theorem admin_revoke_exact:
  assumes "admin_revoke jti by s = Inr s'" and "session_get jti (store s) = Some d"
  shows "session_get jti (store s') = None
     \<and> (\<forall>r \<in> set (refresh_tokens s'). rt_user_id r = sd_user_id d \<longrightarrow> revoked_at r \<noteq> None)
     \<and> (\<forall>k. k \<noteq> jti \<longrightarrow> session_get k (store s') = session_get k (store s))"
  using assms by (auto simp: admin_revoke_def Let_def ss.get_revoke)

text \<open>every duration written as a number and a unit, with blanks around it, is read as that
  many seconds.\<close>

theorem parseDuration_roundtrip:
  assumes "unit_seconds u = Some k" and "list_all is_space a" and "list_all is_space b"
  shows "parseDurationToSeconds (a @ show_nat n @ [u] @ b) = Inr (n * k)"
proof -
  have "\<not> is_space u" using assms(1) by (auto simp: unit_seconds_def is_space_def split: if_splits)
  moreover have "\<not> is_space (hd (show_nat n))"
    using show_nat_digits [of n] by (cases "show_nat n") (auto simp: is_digit_not_space)
  ultimately have "js_trim (a @ (show_nat n @ [u]) @ b) = show_nat n @ [u]"
    using assms(2,3) by (intro trim_padded) auto
  then show ?thesis using assms(1) by (simp add: parseDurationToSeconds_def Let_def)
qed

theorem parseDuration_roundtrip_witness:
  "parseDurationToSeconds ('' '' @ show_nat 15 @ ''m'') = Inr 900"
  using parseDuration_roundtrip [of "CHR ''m''" 60 "'' ''" "[]" 15] by (simp add: unit_seconds_def is_space_def)

section \<open>A concrete service\<close>

definition example_env :: auth_env where
  "example_env = \<lparr>bcrypt_compare = (=), bcrypt_hash = (\<lambda>p. p), sha256 = (\<lambda>t. t), jwt_sign = (\<lambda>_ j _. j),
     JWT_ACCESS_EXPIRES_IN = Some ''15m'', JWT_REFRESH_EXPIRES_IN = None,
     iam_findById = (\<lambda>u. Some \<lparr>iu_id = u, iu_username = ''somchai'', iu_email = None, iu_full_name = ''Somchai'',
        iu_department = None, iu_status = ActiveStatus, iu_expired_at = None\<rparr>),
     iam_resolvePermissions = (\<lambda>_. None), credential_constraint = (\<lambda>_ _. None)\<rparr>"

definition example_rnd :: randoms where
  "example_rnd = \<lparr>rnd_id = ''t1'', rnd_jti = ''j'', rnd_refresh = ''fresh'', rnd_csrf = ''x''\<rparr>"

definition example_auth :: auth_state where
  "example_auth = \<lparr>credentials = [new_credential ''c'' ''u'' ''somchai'' ''secret'' True None],
     refresh_tokens = [\<lparr>rt_id = ''t0'', rt_user_id = ''u'', token_hash = ''old'', expires_at = 1000, revoked_at = None\<rparr>],
     login_histories = [], blocked_users = [], security_logs = [], store = empty_redis\<rparr>"

lemma example_env_simps [simp]:
  "bcrypt_compare example_env = (=)" "sha256 example_env t = t" "iam_resolvePermissions example_env u = None"
  "iam_findById example_env u = Some \<lparr>iu_id = u, iu_username = ''somchai'', iu_email = None, iu_full_name = ''Somchai'',
        iu_department = None, iu_status = ActiveStatus, iu_expired_at = None\<rparr>"
  by (simp_all add: example_env_def)

lemma example_ttl: "access_ttl example_env = Inr 900" "refresh_ttl example_env = Inr 604800"
  by (simp_all add: access_ttl_def refresh_ttl_def parseDurationToSeconds_def js_trim_def is_space_def is_digit_of_char
      digits_val_def char_digit_def unit_seconds_def example_env_def Let_def)

lemma example_credential:
  "login_credential ''somchai'' example_auth = Some (new_credential ''c'' ''u'' ''somchai'' ''secret'' True None)"
  by (simp add: login_credential_def repo_findOne_def visible_def example_auth_def new_credential_def)

lemma example_login_ok: "is_ok (fst (login example_env example_rnd ''2025-01-01'' ''somchai'' ''secret'' None None example_auth))"
  unfolding is_ok_conv login_Inr
  by (simp add: example_credential example_ttl) (simp add: may_enter_def isExpired_def example_auth_def new_credential_def)

theorem login_exact_witness:
  "credentials (snd (login example_env example_rnd ''2025-01-01'' ''somchai'' ''guess'' None None example_auth))
     = credentials example_auth"
proof -
  have "\<not> is_ok (fst (login example_env example_rnd ''2025-01-01'' ''somchai'' ''guess'' None None example_auth))"
    by (simp add: login_def repo_findOne_def visible_def assertNotBlocked_def example_auth_def new_credential_def Let_def)
  then show ?thesis using login_exact by blast
qed

theorem login_issues_session_witness:
  "\<exists>d. session_get ''j'' (store (snd (login example_env example_rnd ''2025-01-01'' ''somchai'' ''secret'' None None example_auth)))
     = Some d \<and> sd_must_change_password d"
  using login_issues_session [OF example_login_ok example_ttl(1)]
  by (auto simp: example_credential session_of_def example_rnd_def new_credential_def)

theorem lockout_witness:
  "login example_env example_rnd ''2025-01-01'' ''somchai'' ''secret'' None None
     (wait 1000 (attempts example_env example_rnd ''2025-01-01'' ''somchai'' [(0, ''a''), (2000, ''b''), (2000, ''c''), (2000, ''d''), (2000, ''e'')] example_auth))
   = (Inl (ForbiddenException ''This account is currently blocked.''),
      wait 1000 (attempts example_env example_rnd ''2025-01-01'' ''somchai'' [(0, ''a''), (2000, ''b''), (2000, ''c''), (2000, ''d''), (2000, ''e'')] example_auth))"
  by (rule lockout [OF example_credential])
     (simp_all add: assertNotBlocked_def example_auth_def new_credential_def)

theorem refresh_single_use_witness:
  "fst (refresh example_env example_rnd ''2025-01-01'' ''old'' (wait 1 (snd (refresh example_env example_rnd ''2025-01-01'' ''old'' example_auth))))
     = Inl (UnauthorizedException ''Refresh token is invalid or expired.'')"
  by (rule refresh_single_use) (simp_all add: tokens_ok_def hashToken_def example_auth_def example_rnd_def)

lemma example_refresh:
  "find_refresh example_env ''old'' example_auth = Some \<lparr>rt_id = ''t0'', rt_user_id = ''u'', token_hash = ''old'', expires_at = 1000, revoked_at = None\<rparr>"
  by (simp add: find_refresh_def usable_token_def hashToken_def example_auth_def empty_redis_def)

lemma example_refresh_ok: "is_ok (fst (refresh example_env example_rnd ''2025-01-01'' ''old'' example_auth))"
  by (simp add: refresh_def example_refresh refresh_after_revoke_def issueTokens_cases example_ttl isExpired_def)
     (simp add: repo_findOne_def visible_def assertNotBlocked_def example_auth_def new_credential_def isExpired_def
       issueTokens_cases example_ttl)

theorem refresh_race_witness:
  "is_ok (fst (refresh_after_revoke example_env example_rnd ''2025-01-01''
     \<lparr>rt_id = ''t0'', rt_user_id = ''u'', token_hash = ''old'', expires_at = 1000, revoked_at = None\<rparr>
     (revoke_row \<lparr>rt_id = ''t0'', rt_user_id = ''u'', token_hash = ''old'', expires_at = 1000, revoked_at = None\<rparr>
       (snd (refresh example_env example_rnd ''2025-01-01'' ''old'' example_auth)))))"
  by (rule refresh_race [OF example_refresh example_refresh_ok])

definition example_auth2 :: auth_state where
  "example_auth2 = example_auth\<lparr>store := session_create ''j'' example_session 900 empty_redis\<rparr>"

lemma example_auth2_view:
  "sessions_ok (store example_auth2)" "session_get ''j'' (store example_auth2) = Some example_session"
  "0 < session_ttl ''j'' (store example_auth2)"
  using create_ok [OF empty_redis_ok example_fresh] by (simp_all add: example_auth2_def create_view)

theorem resetPassword_flags_witness:
  "\<exists>s'. resetPassword example_env example_rnd ''u'' ''somchai'' ''n3w'' None example_auth2 = Inr s'
     \<and> session_get ''j'' (store s') = Some (example_session\<lparr>sd_must_change_password := True\<rparr>)"
proof -
  obtain s' where s': "resetPassword example_env example_rnd ''u'' ''somchai'' ''n3w'' None example_auth2 = Inr s'"
    by (simp add: resetPassword_def save_credential_def repo_save_def Let_def example_env_def)
  moreover have "sd_user_id example_session = ''u''" by (simp add: example_session_def)
  ultimately show ?thesis
    using resetPassword_flags [OF example_auth2_view(1) s', of "''j''" example_session] example_auth2_view by simp
qed

theorem admin_revoke_exact_witness:
  "\<exists>s'. admin_revoke ''j'' None example_auth2 = Inr s' \<and> session_get ''j'' (store s') = None"
proof -
  obtain s' where s': "admin_revoke ''j'' None example_auth2 = Inr s'"
    by (simp add: admin_revoke_def Let_def example_auth2_view)
  then show ?thesis using admin_revoke_exact [OF s' example_auth2_view(2)] by blast
qed

end
