(* ===== verification/Query_Where.thy ===== *)
theory Query_Where
  imports Prelude
begin

text \<open>
  The where objects of \<open>libs/common/src/utils/base-operations/typeorm-query-builder.util.ts\<close> and the
  functions that combine them: \<open>deepMerge\<close>, \<open>combineAndOrConditions\<close>, \<open>transformNullValues\<close>,
  \<open>setNestedValue\<close>. A JavaScript object is the list of its entries. A value of a where object is a
  plain value, a TypeORM operator, or the nested object of a relation. What an operator says of
  one column of a row is a parameter of the semantics (\<open>sat\<close>); that the entries of an object and
  the operands of \<open>And\<close> are conjunctions, an array a disjunction, a plain value an equality and an
  undefined one no condition, is TypeORM's reading of them.
\<close>

section \<open>Values\<close>

text \<open>JSON values; a number carries its printed form.\<close>

datatype jval = VUndef | VNull | VBool bool | VNum string | VStr string | VArr "jval list"
  | VObj "(string \<times> jval) list"

text \<open>A raw SQL fragment on a JSON column: the column, the array expression of the path, the rest; or
  a constant.\<close>

datatype raw_sql = RawJsonb string string string | RawConst string

datatype wval = Plain jval | Operator find_operator | Nested "(string \<times> wval) list"
and find_operator = IsNull | Equal wval | Not wval | MoreThan jval | MoreThanOrEqual jval
  | LessThan jval | LessThanOrEqual jval | ILike string | In "jval list" | Between jval jval
  | And "find_operator list" | Raw raw_sql "(string \<times> string) list"

type_synonym wobj = "(string \<times> wval) list"

text \<open>\<open>find.where\<close>: one object, or an array of alternatives.\<close>

datatype where_clause = WhereObject wobj | WhereArray "wobj list"

section \<open>Objects\<close>

definition obj_get :: "(string \<times> 'v) list \<Rightarrow> string \<Rightarrow> 'v option" where
  "obj_get ob k = map_of ob k"

fun obj_set :: "string \<Rightarrow> 'v \<Rightarrow> (string \<times> 'v) list \<Rightarrow> (string \<times> 'v) list" where
  "obj_set k v [] = [(k, v)]"
| "obj_set k v ((j, w) # ob) = (if j = k then (k, v) # ob else (j, w) # obj_set k v ob)"

text \<open>\<open>{ ...a, ...b }\<close>.\<close>

definition obj_spread :: "(string \<times> 'v) list \<Rightarrow> (string \<times> 'v) list \<Rightarrow> (string \<times> 'v) list" where
  "obj_spread a b = fold (\<lambda>(k, v). obj_set k v) b a"

section \<open>Merging conditions\<close>

definition ensureFindOperator :: "wval \<Rightarrow> find_operator" where
  "ensureFindOperator v = (case v of Operator op \<Rightarrow> op | _ \<Rightarrow> Equal v)"

fun deepMerge :: "wobj \<Rightarrow> wobj \<Rightarrow> wobj"
and mergeValue :: "wval option \<Rightarrow> wval \<Rightarrow> wval" where
  "deepMerge target [] = target"
| "deepMerge target ((key, sourceValue) # source) =
     deepMerge (obj_set key (mergeValue (obj_get target key) sourceValue) target) source"
| "mergeValue None sourceValue = sourceValue"
| "mergeValue (Some (Plain VUndef)) sourceValue = sourceValue"
| "mergeValue (Some (Nested t)) (Nested s) = Nested (deepMerge t s)"
| "mergeValue (Some targetValue) sourceValue =
     Operator (And [ensureFindOperator targetValue, ensureFindOperator sourceValue])"

definition combineAndOrConditions :: "wobj \<Rightarrow> wobj list \<Rightarrow> where_clause" where
  "combineAndOrConditions andConditions orConditions =
     (if andConditions = [] \<and> orConditions = [] then WhereObject []
      else if orConditions = [] then WhereObject andConditions
      else if andConditions = [] then WhereArray orConditions
      else WhereArray (map (deepMerge andConditions) orConditions))"

definition isNullishLiteral :: "string \<Rightarrow> bool" where
  "isNullishLiteral value =
     (let normalized = js_to_lower (js_trim value) in normalized = ''null'' \<or> normalized = ''undefined'')"

fun transformNullValues :: "wobj \<Rightarrow> wobj" where
  "transformNullValues [] = []"
| "transformNullValues ((key, value) # rest) =
     (key, (case value of
              Plain VUndef \<Rightarrow> Operator IsNull
            | Plain (VStr s) \<Rightarrow> if s = [] \<or> isNullishLiteral s then Operator IsNull else value
            | Nested ob \<Rightarrow> Nested (transformNullValues ob)
            | _ \<Rightarrow> value)) # transformNullValues rest"

text \<open>\<open>setNestedValue\<close>: an operator on the way is an object, so the path continues inside it, where it
  changes nothing the database sees.\<close>

fun setNestedValue :: "string list \<Rightarrow> wval \<Rightarrow> wobj \<Rightarrow> wobj" where
  "setNestedValue [] value obj = obj"
| "setNestedValue [lastPart] value obj = obj_set lastPart value obj"
| "setNestedValue (part # rest) value obj =
     (case obj_get obj part of
        Some (Nested ob) \<Rightarrow> obj_set part (Nested (setNestedValue rest value ob)) obj
      | Some (Operator _) \<Rightarrow> obj
      | _ \<Rightarrow> obj_set part (Nested (setNestedValue rest value [])) obj)"

section \<open>Meaning\<close>

text \<open>The conditions an object puts on the columns of a row, by path.\<close>

fun holds_value :: "(string list \<Rightarrow> find_operator \<Rightarrow> bool) \<Rightarrow> string list \<Rightarrow> wval \<Rightarrow> bool"
and holds_op :: "(string list \<Rightarrow> find_operator \<Rightarrow> bool) \<Rightarrow> string list \<Rightarrow> find_operator \<Rightarrow> bool" where
  "holds_value sat path (Plain VUndef) = True"
| "holds_value sat path (Nested ob) = (\<forall>(k, v) \<in> set ob. holds_value sat (path @ [k]) v)"
| "holds_value sat path (Operator op) = holds_op sat path op"
| "holds_value sat path v = sat path (Equal v)"
| "holds_op sat path (And ops) = (\<forall>op \<in> set ops. holds_op sat path op)"
| "holds_op sat path op = sat path op"

abbreviation holds :: "(string list \<Rightarrow> find_operator \<Rightarrow> bool) \<Rightarrow> wobj \<Rightarrow> bool" where
  "holds sat ob \<equiv> holds_value sat [] (Nested ob)"

definition where_holds :: "(string list \<Rightarrow> find_operator \<Rightarrow> bool) \<Rightarrow> where_clause \<Rightarrow> bool" where
  "where_holds sat w = (case w of WhereObject ob \<Rightarrow> holds sat ob | WhereArray obs \<Rightarrow> \<exists>ob \<in> set obs. holds sat ob)"

text \<open>Objects over one shape: \<open>rel\<close> says which paths are relations; keys are distinct.\<close>

fun shaped :: "(string list \<Rightarrow> bool) \<Rightarrow> string list \<Rightarrow> wval \<Rightarrow> bool" where
  "shaped rel path (Nested ob) = (rel path \<and> distinct (map fst ob) \<and> (\<forall>(k, v) \<in> set ob. shaped rel (path @ [k]) v))"
| "shaped rel path v = (\<not> rel path)"

abbreviation shaped_object :: "(string list \<Rightarrow> bool) \<Rightarrow> string list \<Rightarrow> wobj \<Rightarrow> bool" where
  "shaped_object rel path ob \<equiv> shaped rel path (Nested ob)"

text \<open>No undefined value anywhere.\<close>

fun defined :: "wval \<Rightarrow> bool" where
  "defined (Nested ob) = (\<forall>(k, v) \<in> set ob. defined v)"
| "defined (Plain VUndef) = False"
| "defined v = True"

section \<open>Objects as maps\<close>

lemma obj_get_set [simp]: "obj_get (obj_set k v ob) j = (if j = k then Some v else obj_get ob j)"
  by (induction ob) (auto simp: obj_get_def)

lemma obj_set_keys: "set (map fst (obj_set k v ob)) = insert k (set (map fst ob))"
  by (induction ob rule: obj_set.induct) auto

lemma obj_set_subset: "set (obj_set k v ob) \<subseteq> insert (k, v) (set ob)"
  by (induction ob rule: obj_set.induct) auto

lemma obj_set_distinct: "distinct (map fst ob) \<Longrightarrow> distinct (map fst (obj_set k v ob))"
proof (induction ob)
  case (Cons e ob)
  then show ?case using obj_set_keys [of k v ob] by (cases e) auto
qed simp

lemma obj_ball:
  "distinct (map fst ob) \<Longrightarrow> (\<forall>(k, v) \<in> set ob. P k v) \<longleftrightarrow> (\<forall>k v. obj_get ob k = Some v \<longrightarrow> P k v)"
  by (auto simp: obj_get_def)

lemma obj_ball_set:
  assumes "distinct (map fst ob)"
  shows "(\<forall>(j, w) \<in> set (obj_set k v ob). P j w) \<longleftrightarrow> P k v \<and> (\<forall>j w. j \<noteq> k \<longrightarrow> obj_get ob j = Some w \<longrightarrow> P j w)"
  unfolding obj_ball [OF obj_set_distinct [OF assms]] by auto

lemma obj_ball_get:
  assumes "distinct (map fst ob)"
  shows "(\<forall>(j, w) \<in> set ob. P j w) \<longleftrightarrow> (\<forall>v. obj_get ob k = Some v \<longrightarrow> P k v) \<and> (\<forall>j w. j \<noteq> k \<longrightarrow> obj_get ob j = Some w \<longrightarrow> P j w)"
  unfolding obj_ball [OF assms] by auto

lemma obj_get_None: "obj_get ob k = None \<longleftrightarrow> k \<notin> set (map fst ob)"
  by (simp add: obj_get_def map_of_eq_None_iff)

section \<open>Merging is conjunction\<close>

lemma holds_ensure:
  assumes "\<And>ob. v \<noteq> Nested ob" and "v \<noteq> Plain VUndef"
  shows "holds_op sat path (ensureFindOperator v) = holds_value sat path v"
proof (cases v)
  case (Plain j)
  then show ?thesis using assms(2) by (cases j) (simp_all add: ensureFindOperator_def)
qed (use assms in \<open>simp_all add: ensureFindOperator_def\<close>)

lemma ensureFindOperator_simps [simp]:
  "ensureFindOperator (Plain j) = Equal (Plain j)" "ensureFindOperator (Operator op) = op"
  by (simp_all add: ensureFindOperator_def)

lemma holds_ensure_shaped:
  "\<not> rel path \<Longrightarrow> shaped rel path v \<Longrightarrow> defined v \<Longrightarrow> holds_op sat path (ensureFindOperator v) = holds_value sat path v"
  by (rule holds_ensure) auto

lemma shaped_Nested_rel: "shaped_object rel path ob \<Longrightarrow> rel path"
  by simp

lemma holds_Nil [simp]: "holds_value sat path (Nested [])"
  by simp

text \<open>Both halves at once: merging two objects of one shape gives an object of that shape that holds
  exactly when both do.\<close>

lemma merge_shaped_holds:
  "shaped_object rel path t \<Longrightarrow> shaped_object rel path s \<Longrightarrow> defined (Nested s) \<Longrightarrow>
     shaped_object rel path (deepMerge t s)
     \<and> (holds_value sat path (Nested (deepMerge t s)) \<longleftrightarrow> holds_value sat path (Nested t) \<and> holds_value sat path (Nested s))"
  "(\<And>v. tv = Some v \<Longrightarrow> shaped rel path v) \<Longrightarrow> shaped rel path sv \<Longrightarrow> defined sv \<Longrightarrow>
     shaped rel path (mergeValue tv sv)
     \<and> (holds_value sat path (mergeValue tv sv) \<longleftrightarrow> (\<forall>v. tv = Some v \<longrightarrow> holds_value sat path v) \<and> holds_value sat path sv)"
proof (induction t s and tv sv arbitrary: path and path rule: deepMerge_mergeValue.induct)
  case (2 target key sv source)
  let ?p = "path @ [key]" and ?t = "obj_set key (mergeValue (obj_get target key) sv) target"
  have dt: "distinct (map fst target)" and sv: "shaped rel ?p sv" "defined sv"
    using "2.prems" by auto
  have "shaped rel ?p v" if "obj_get target key = Some v" for v
    using "2.prems"(1) dt that by (auto simp: obj_ball)
  from "2.IH"(1) [OF this sv] have mv: "shaped rel ?p (mergeValue (obj_get target key) sv)"
    "holds_value sat ?p (mergeValue (obj_get target key) sv) \<longleftrightarrow>
       (\<forall>v. obj_get target key = Some v \<longrightarrow> holds_value sat ?p v) \<and> holds_value sat ?p sv" by blast+
  have "shaped_object rel path ?t"
    using "2.prems"(1) mv(1) obj_set_distinct [OF dt] by (simp add: obj_ball_set [OF dt] obj_ball_get [OF dt, of _ key])
  moreover have "holds_value sat path (Nested ?t) \<longleftrightarrow> holds_value sat path (Nested target) \<and> holds_value sat ?p sv"
    using mv(2) by (auto simp: obj_ball_set [OF dt] obj_ball_get [OF dt, of _ key])
  ultimately show ?case using "2.IH"(2) [of path] "2.prems" by auto
next
  case (5 t s)
  have "shaped_object rel path t" using "5.prems"(1) by blast
  from "5.IH" [OF this "5.prems"(2,3)] show ?case unfolding mergeValue.simps by blast
qed (auto simp del: holds_value.simps(2) shaped.simps(1) simp: holds_ensure_shaped dest: shaped_Nested_rel)

lemma shaped_object_Nil [simp]: "shaped_object rel path [] \<longleftrightarrow> rel path"
  by simp

lemmas deepMerge_shaped = merge_shaped_holds(1) [THEN conjunct1]
  and deepMerge_holds = merge_shaped_holds(1) [THEN conjunct2]

lemma deepMerge_defined: "defined (Nested t) \<Longrightarrow> defined (Nested s) \<Longrightarrow> defined (Nested (deepMerge t s))"
  and mergeValue_defined: "(\<And>v. tv = Some v \<Longrightarrow> defined v) \<Longrightarrow> defined sv \<Longrightarrow> defined (mergeValue tv sv)"
proof (induction t s and tv sv rule: deepMerge_mergeValue.induct)
  case (2 target key sv source)
  have "defined v" if "obj_get target key = Some v" for v
    using "2.prems"(1) that by (auto simp: obj_get_def dest: map_of_SomeD)
  then have "defined (mergeValue (obj_get target key) sv)" using "2.IH"(1) "2.prems" by auto
  then have "defined (Nested (obj_set key (mergeValue (obj_get target key) sv) target))"
    using "2.prems"(1) obj_set_subset [of key _ target] by fastforce
  then show ?case using "2.IH"(2) "2.prems" by simp
qed auto

section \<open>Null values, alternatives\<close>

lemma transformNullValues_keys [simp]: "map fst (transformNullValues ob) = map fst ob"
  by (induction ob rule: transformNullValues.induct) auto

lemma transformNullValues_Nil [simp]: "transformNullValues ob = [] \<longleftrightarrow> ob = []"
  by (induction ob rule: transformNullValues.induct) auto

lemma transformNullValues_defined: "defined (Nested (transformNullValues ob))"
  by (induction ob rule: transformNullValues.induct) (auto split: wval.split jval.split)

definition null_value :: "wval \<Rightarrow> wval" where
  "null_value value = (case value of Plain VUndef \<Rightarrow> Operator IsNull
     | Plain (VStr s) \<Rightarrow> if s = [] \<or> isNullishLiteral s then Operator IsNull else value
     | Nested ob \<Rightarrow> Nested (transformNullValues ob) | _ \<Rightarrow> value)"

lemma transformNullValues_Cons [simp]: "transformNullValues ((k, v) # rest) = (k, null_value v) # transformNullValues rest"
  by (simp add: null_value_def)

declare transformNullValues.simps(2) [simp del]

lemma null_value_shaped:
  assumes "shaped rel path v" and "\<And>ob. v = Nested ob \<Longrightarrow> shaped_object rel path (transformNullValues ob)"
  shows "shaped rel path (null_value v)"
proof (cases v)
  case (Plain j)
  then show ?thesis using assms(1) by (cases j) (simp_all add: null_value_def)
qed (use assms in \<open>simp_all add: null_value_def\<close>)

lemma transformNullValues_shaped:
  "shaped_object rel path ob \<Longrightarrow> shaped_object rel path (transformNullValues ob)"
proof (induction ob arbitrary: path rule: transformNullValues.induct)
  case (2 key v rest)
  have "shaped_object rel (path @ [key]) (transformNullValues ob)" if "v = Nested ob" for ob
    using "2.IH"(1) [OF that, of "path @ [key]"] "2.prems" that by simp
  then have "shaped rel (path @ [key]) (null_value v)" using "2.prems" by (intro null_value_shaped) simp_all
  moreover have "shaped_object rel path (transformNullValues rest)" using "2.IH"(2) [of path] "2.prems" by simp
  moreover have "key \<notin> set (map fst (transformNullValues rest))" using "2.prems" by simp
  ultimately show ?case unfolding transformNullValues_Cons by simp
qed simp

lemma transformNullValues_id: "transformNullValues ob = ob \<longleftrightarrow> (\<forall>(k, v) \<in> set ob. null_value v = v)"
  by (induction ob) auto

lemma null_value_simps [simp]:
  "null_value (Operator op) = Operator op" "null_value (Nested ob) = Nested (transformNullValues ob)"
  by (simp_all add: null_value_def)

text \<open>Merging objects without null-like values gives one without.\<close>

lemma deepMerge_null_free:
  "transformNullValues t = t \<Longrightarrow> transformNullValues s = s \<Longrightarrow> transformNullValues (deepMerge t s) = deepMerge t s"
  and mergeValue_null_free:
  "(\<And>v. tv = Some v \<Longrightarrow> null_value v = v) \<Longrightarrow> null_value sv = sv \<Longrightarrow> null_value (mergeValue tv sv) = mergeValue tv sv"
proof (induction t s and tv sv rule: deepMerge_mergeValue.induct)
  case (2 target key sv source)
  have "null_value v = v" if "obj_get target key = Some v" for v
    using "2.prems"(1) that by (auto simp: transformNullValues_id obj_get_def dest: map_of_SomeD)
  then have "null_value (mergeValue (obj_get target key) sv) = mergeValue (obj_get target key) sv"
    using "2.IH"(1) "2.prems"(2) by (auto simp: transformNullValues_id)
  then have "transformNullValues (obj_set key (mergeValue (obj_get target key) sv) target) = obj_set key (mergeValue (obj_get target key) sv) target"
    using "2.prems"(1) obj_set_subset [of key _ target] unfolding transformNullValues_id by fastforce
  then show ?case using "2.IH"(2) "2.prems"(2) by (simp add: transformNullValues_id)
qed auto

lemma combine_holds:
  assumes "shaped_object rel [] a" and "\<And>b. b \<in> set bs \<Longrightarrow> shaped_object rel [] b \<and> defined (Nested b)"
  shows "where_holds sat (combineAndOrConditions a bs) \<longleftrightarrow> holds sat a \<and> (bs = [] \<or> (\<exists>b \<in> set bs. holds sat b))"
  using deepMerge_holds [OF assms(1), of _ sat] assms(2)
  by (auto simp: combineAndOrConditions_def where_holds_def simp del: holds_value.simps(2) shaped.simps(1) defined.simps(1))

section \<open>Named columns\<close>

text \<open>The paths at which an object puts a condition.\<close>

fun leaf_paths :: "string list \<Rightarrow> wval \<Rightarrow> string list set" where
  "leaf_paths path (Nested ob) = (\<Union>(k, v) \<in> set ob. leaf_paths (path @ [k]) v)"
| "leaf_paths path v = {path}"

abbreviation where_paths :: "wobj \<Rightarrow> string list set" where
  "where_paths ob \<equiv> leaf_paths [] (Nested ob)"

lemma leaf_paths_set: "leaf_paths path (Nested (obj_set k v ob)) \<subseteq> leaf_paths (path @ [k]) v \<union> leaf_paths path (Nested ob)"
  using obj_set_subset [of k v ob] by fastforce

lemma leaf_paths_get: "obj_get ob k = Some v \<Longrightarrow> leaf_paths (path @ [k]) v \<subseteq> leaf_paths path (Nested ob)"
  by (fastforce simp: obj_get_def dest: map_of_SomeD)

lemma deepMerge_paths:
  "leaf_paths path (Nested (deepMerge t s)) \<subseteq> leaf_paths path (Nested t) \<union> leaf_paths path (Nested s)"
  and mergeValue_paths:
  "leaf_paths path' (mergeValue tv sv) \<subseteq> (case tv of None \<Rightarrow> {} | Some v \<Rightarrow> leaf_paths path' v) \<union> leaf_paths path' sv"
proof (induction t s and tv sv arbitrary: path and path' rule: deepMerge_mergeValue.induct)
  case (2 target key sv source)
  have "(case obj_get target key of None \<Rightarrow> {} | Some v \<Rightarrow> leaf_paths (path @ [key]) v) \<subseteq> leaf_paths path (Nested target)"
    using leaf_paths_get [of target key] by (auto split: option.split simp del: leaf_paths.simps(1))
  then have "leaf_paths path (Nested (obj_set key (mergeValue (obj_get target key) sv) target))
      \<subseteq> leaf_paths path (Nested target) \<union> leaf_paths (path @ [key]) sv"
    using "2.IH"(1) [of "path @ [key]"] leaf_paths_set [of path key "mergeValue (obj_get target key) sv" target] by blast
  then show ?case using "2.IH"(2) [of path] unfolding deepMerge.simps by fastforce
qed auto

lemma transformNullValues_paths: "leaf_paths path (Nested (transformNullValues ob)) \<subseteq> leaf_paths path (Nested ob)"
proof (induction ob arbitrary: path rule: transformNullValues.induct)
  case (2 key v rest)
  have "leaf_paths (path @ [key]) (null_value v) \<subseteq> leaf_paths (path @ [key]) v"
    using "2.IH"(1) [of _ "path @ [key]"] by (auto simp: null_value_def split: wval.splits jval.splits if_splits)
  then show ?case using "2.IH"(2) [of path] by auto
qed simp

lemma setNestedValue_paths:
  "leaf_paths path (Nested (setNestedValue ps v ob)) \<subseteq> leaf_paths (path @ ps) v \<union> leaf_paths path (Nested ob)"
proof (induction ps v ob arbitrary: path rule: setNestedValue.induct)
  case (2 p v ob)
  then show ?case using leaf_paths_set [of path p v ob] by simp
next
  case (3 p q qs v ob)
  let ?p = "path @ [p]"
  have grow: "leaf_paths path (Nested (obj_set p (Nested (setNestedValue (q # qs) v inner)) ob))
      \<subseteq> leaf_paths (path @ p # q # qs) v \<union> leaf_paths path (Nested ob)"
    if "leaf_paths ?p (Nested (setNestedValue (q # qs) v inner)) \<subseteq> leaf_paths (?p @ q # qs) v \<union> leaf_paths ?p (Nested inner)"
      and "leaf_paths ?p (Nested inner) \<subseteq> leaf_paths path (Nested ob)" for inner
    using that leaf_paths_set [of path p "Nested (setNestedValue (q # qs) v inner)" ob]
    unfolding append_assoc append_Cons append_Nil by blast
  show ?case
  proof (cases "obj_get ob p")
    case None
    then show ?thesis using grow [OF "3.IH"(1) [OF None]] by (simp del: leaf_paths.simps(1)) simp
  next
    case (Some w)
    then show ?thesis
    proof (cases w)
      case (Nested inner)
      then show ?thesis
        using grow [OF "3.IH"(3) [OF Some Nested], OF leaf_paths_get [OF Some [unfolded Nested]]] Some
        by (simp del: leaf_paths.simps(1))
    next
      case (Plain j)
      then show ?thesis using grow [OF "3.IH"(2) [OF Some Plain]] Some by (simp del: leaf_paths.simps(1)) simp
    qed (use Some in simp)
  qed
qed simp

section \<open>Bound parameters\<close>

text \<open>The parameters of the raw conditions in a where object, with the values they are bound to.\<close>

fun wval_params :: "wval \<Rightarrow> (string \<times> string) set"
and op_params :: "find_operator \<Rightarrow> (string \<times> string) set" where
  "wval_params (Plain j) = {}"
| "wval_params (Operator op) = op_params op"
| "wval_params (Nested ob) = (\<Union>(k, v) \<in> set ob. wval_params v)"
| "op_params (Raw s ps) = set ps"
| "op_params (And ops) = (\<Union>op \<in> set ops. op_params op)"
| "op_params (Equal v) = wval_params v"
| "op_params (Not v) = wval_params v"
| "op_params op = {}"

abbreviation obj_params :: "wobj \<Rightarrow> (string \<times> string) set" where
  "obj_params ob \<equiv> wval_params (Nested ob)"

lemma obj_params_set: "obj_params (obj_set k v ob) \<subseteq> wval_params v \<union> obj_params ob"
  using obj_set_subset [of k v ob] by fastforce

lemma obj_params_get: "obj_get ob k = Some v \<Longrightarrow> wval_params v \<subseteq> obj_params ob"
  by (fastforce simp: obj_get_def dest: map_of_SomeD)

lemma ensureFindOperator_params: "op_params (ensureFindOperator v) = wval_params v"
  by (cases v) (simp_all add: ensureFindOperator_def)

lemma deepMerge_params: "obj_params (deepMerge t s) \<subseteq> obj_params t \<union> obj_params s"
  and mergeValue_params: "wval_params (mergeValue tv sv) \<subseteq> (case tv of None \<Rightarrow> {} | Some v \<Rightarrow> wval_params v) \<union> wval_params sv"
proof (induction t s and tv sv rule: deepMerge_mergeValue.induct)
  case (2 target key sv source)
  have "(case obj_get target key of None \<Rightarrow> {} | Some v \<Rightarrow> wval_params v) \<subseteq> obj_params target"
    using obj_params_get [of target key] by (auto split: option.split simp del: wval_params.simps(3))
  then show ?case using 2 obj_params_set [of key "mergeValue (obj_get target key) sv" target]
    by (simp del: wval_params.simps(3)) fastforce
qed (auto simp: ensureFindOperator_params)

lemma transformNullValues_params: "obj_params (transformNullValues ob) \<subseteq> obj_params ob"
proof (induction ob rule: transformNullValues.induct)
  case (2 key v rest)
  have "wval_params (null_value v) \<subseteq> wval_params v"
    using 2(1) by (auto simp: null_value_def split: wval.splits jval.splits if_splits)
  then show ?case using 2(2) by auto
qed simp

lemma setNestedValue_params: "obj_params (setNestedValue ps v ob) \<subseteq> wval_params v \<union> obj_params ob"
proof (induction ps v ob rule: setNestedValue.induct)
  case (2 p v ob)
  then show ?case using obj_params_set [of p v ob] by simp
next
  case (3 p q qs v ob)
  show ?case
  proof (cases "obj_get ob p")
    case None
    then show ?thesis using 3(1) obj_params_set [of p _ ob] by fastforce
  next
    case (Some w)
    then show ?thesis
    proof (cases w)
      case (Nested inner)
      then show ?thesis
        using Some 3(3) obj_params_set [of p _ ob] obj_params_get [OF Some] by fastforce
    qed (use Some 3(2) obj_params_set [of p _ ob] in fastforce)+
  qed
qed simp

section \<open>Properties\<close>

text \<open>merging two where objects is conjunction. For objects over the same columns and relations,
  a row satisfies the merged object exactly when it satisfies both, whatever the single operators
  say of it.\<close>

theorem deepMerge_conjunction:
  assumes "shaped_object rel [] a" and "shaped_object rel [] b" and "defined (Nested b)"
  shows "holds sat (deepMerge a b) \<longleftrightarrow> holds sat a \<and> holds sat b"
  using deepMerge_holds [OF assms] .

theorem deepMerge_conjunction_witness:
  "holds (\<lambda>path op. path = [''age'']) (deepMerge [(''age'', Operator (MoreThan (VNum ''1'')))] [(''age'', Operator (LessThan (VNum ''9'')))])"
  by (subst deepMerge_conjunction [where rel = "\<lambda>p. p = []"]) simp_all

end
