(* ===== verification/Query_Fields.thy ===== *)
theory Query_Fields
  imports Query_Where
begin

text \<open>
  The fields, operators and values of
  \<open>libs/common/src/utils/base-operations/typeorm-query-builder.util.ts\<close>: how a field path is looked
  up in the entity metadata, how the date, enum and JSON columns treat a value, and how the \<open>filter\<close>,
  \<open>or\<close> and \<open>s\<close> parameters become where objects. TypeORM's entity metadata is the record
  \<open>entity_meta\<close> of an entity name. Dayjs and \<open>JSON.parse\<close> are parameters (\<open>date_lib\<close>,
  \<open>qe_json_parse\<close>); a Dayjs call that throws, as one with an unknown time zone does, gives \<open>None\<close>.
  The builder's \<open>jsonbParamCounter\<close> is threaded through the functions that use it, and
  \<open>qe_timezone\<close> is its \<open>timezone\<close> getter.
\<close>

section \<open>Errors, metadata, environment\<close>

text \<open>\<open>InvalidParameterException\<close> with its field and message, \<open>BadRequestException\<close>, and the
  \<open>SyntaxError\<close>, \<open>TypeError\<close> or \<open>RangeError\<close> of the JavaScript runtime.\<close>

datatype query_error =
    InvalidParameterException string string
  | RelationException string
  | RuntimeError

type_synonym 'a qresult = "query_error + 'a"

record column_meta =
  col_name :: string
  col_type :: string
  col_enum :: "string list option"

record entity_meta =
  em_columns :: "column_meta list"
  em_primary :: "string list"
  em_relations :: "(string \<times> string) list"

record date_lib =
  dj_isValid :: "string \<Rightarrow> bool"
  dj_toISO :: "string \<Rightarrow> string"
  dj_tzISO :: "string \<Rightarrow> string \<Rightarrow> string option"
  dj_tzStart :: "string \<Rightarrow> string \<Rightarrow> string option"
  dj_tzEnd :: "string \<Rightarrow> string \<Rightarrow> string option"

record qenv =
  qe_schema :: "string \<Rightarrow> entity_meta"
  qe_root :: string
  qe_dates :: date_lib
  qe_timezone :: string
  qe_json_parse :: "string \<Rightarrow> jval option"

definition root_meta :: "qenv \<Rightarrow> entity_meta" where
  "root_meta env = qe_schema env (qe_root env)"

definition findColumnWithPropertyName :: "entity_meta \<Rightarrow> string \<Rightarrow> column_meta option" where
  "findColumnWithPropertyName m p = List.find (\<lambda>c. col_name c = p) (em_columns m)"

definition findRelationWithPropertyPath :: "entity_meta \<Rightarrow> string \<Rightarrow> string option" where
  "findRelationWithPropertyPath m p = map_of (em_relations m) p"

definition dotted :: "string \<Rightarrow> string list" where
  "dotted p = js_split CHR ''.'' p"

section \<open>Columns\<close>

fun resolve_parts :: "(string \<Rightarrow> entity_meta) \<Rightarrow> entity_meta \<Rightarrow> string list \<Rightarrow> column_meta option" where
  "resolve_parts sch m [] = None"
| "resolve_parts sch m [part] = findColumnWithPropertyName m part"
| "resolve_parts sch m (part # rest) =
     (case findRelationWithPropertyPath m part of
        None \<Rightarrow> None
      | Some e \<Rightarrow> resolve_parts sch (sch e) rest)"

definition resolveColumnMetadata :: "qenv \<Rightarrow> string \<Rightarrow> column_meta option" where
  "resolveColumnMetadata env fieldPath =
     (if \<not> js_includes ''.'' fieldPath then findColumnWithPropertyName (root_meta env) fieldPath
      else resolve_parts (qe_schema env) (root_meta env) (dotted fieldPath))"

definition DATE_COLUMN_TYPES :: "string list" where
  "DATE_COLUMN_TYPES = [''timestamp'', ''timestamptz'', ''date'', ''datetime'', ''time'', ''time with time zone'']"

definition isDateColumnRecursive :: "qenv \<Rightarrow> string \<Rightarrow> bool" where
  "isDateColumnRecursive env fieldPath =
     (case resolveColumnMetadata env fieldPath of
        None \<Rightarrow> False
      | Some column \<Rightarrow> col_type column \<in> set DATE_COLUMN_TYPES)"

definition getEnumValuesRecursive :: "qenv \<Rightarrow> string \<Rightarrow> string list option" where
  "getEnumValuesRecursive env fieldPath =
     (case resolveColumnMetadata env fieldPath of
        None \<Rightarrow> None
      | Some column \<Rightarrow> if col_type column \<noteq> ''enum'' then None else col_enum column)"

definition getEntityPropertyNames :: "qenv \<Rightarrow> string list" where
  "getEntityPropertyNames env = map col_name (em_columns (root_meta env))"

definition isJsonbColumn :: "qenv \<Rightarrow> string \<Rightarrow> bool" where
  "isJsonbColumn env propertyName =
     (case findColumnWithPropertyName (root_meta env) propertyName of
        None \<Rightarrow> False
      | Some column \<Rightarrow> col_type column = ''jsonb'' \<or> col_type column = ''json'')"

definition isJsonbPath :: "qenv \<Rightarrow> string \<Rightarrow> bool" where
  "isJsonbPath env fieldPath =
     (let firstSegment = hd (dotted fieldPath) in firstSegment \<noteq> [] \<and> isJsonbColumn env firstSegment)"

definition extractJsonbColumnAndPath :: "qenv \<Rightarrow> string \<Rightarrow> (string \<times> string list) option" where
  "extractJsonbColumnAndPath env fieldPath =
     (let parts = dotted fieldPath in
      if length parts < 2 then None
      else if \<not> isJsonbColumn env (hd parts) then None
      else Some (hd parts, tl parts))"

text \<open>\<open>validateFieldNamesRecursive\<close>, first the walk along the parts of one dotted path.\<close>

fun validate_parts ::
    "(string \<Rightarrow> entity_meta) \<Rightarrow> string \<Rightarrow> entity_meta \<Rightarrow> string list \<Rightarrow> unit qresult" where
  "validate_parts sch fieldPath m [] = Inr ()"
| "validate_parts sch fieldPath m [part] =
     (case findColumnWithPropertyName m part of
        Some _ \<Rightarrow> Inr ()
      | None \<Rightarrow> Inl (InvalidParameterException fieldPath
          (''Invalid nested column: '' @ quoted part @ '' in path '' @ quoted fieldPath
           @ ''. Allowed columns are: ['' @ js_join '', '' (map col_name (em_columns m)) @ '']'')))"
| "validate_parts sch fieldPath m (part # rest) =
     (case findRelationWithPropertyPath m part of
        Some e \<Rightarrow> validate_parts sch fieldPath (sch e) rest
      | None \<Rightarrow> Inl (InvalidParameterException fieldPath
          (''Invalid relation: '' @ quoted part @ '' in path '' @ quoted fieldPath
           @ ''. Allowed relations are: ['' @ js_join '', '' (map fst (em_relations m)) @ '']'')))"

fun validateFieldNamesRecursive :: "qenv \<Rightarrow> string list \<Rightarrow> unit qresult" where
  "validateFieldNamesRecursive env [] = Inr ()"
| "validateFieldNamesRecursive env (fieldPath # others) =
     (if isJsonbPath env fieldPath then validateFieldNamesRecursive env others
      else if \<not> js_includes ''.'' fieldPath then
        (if fieldPath \<in> set (getEntityPropertyNames env) then validateFieldNamesRecursive env others
         else Inl (InvalidParameterException fieldPath
           (''Invalid filter field: '' @ quoted fieldPath @ ''. Allowed fields are: [''
            @ js_join '', '' (getEntityPropertyNames env) @ '']'')))
      else (case validate_parts (qe_schema env) fieldPath (root_meta env) (dotted fieldPath) of
              Inl e \<Rightarrow> Inl e
            | Inr _ \<Rightarrow> validateFieldNamesRecursive env others))"

section \<open>Operators\<close>

datatype filter_operator = FEq | FIeq | FNe | FGt | FLt | FGte | FLte | FCont | FStarts | FEnds
  | FIn | FNotin | FIsnull | FNotnull | FBetween

definition FILTER_OPERATORS :: "(string \<times> filter_operator) list" where
  "FILTER_OPERATORS = [(''$eq'', FEq), (''$ieq'', FIeq), (''$ne'', FNe), (''$gt'', FGt), (''$lt'', FLt),
     (''$gte'', FGte), (''$lte'', FLte), (''$cont'', FCont), (''$starts'', FStarts), (''$ends'', FEnds),
     (''$in'', FIn), (''$notin'', FNotin), (''$isnull'', FIsnull), (''$notnull'', FNotnull),
     (''$between'', FBetween)]"

datatype search_operator = SGt | SGte | SLt | SLte | SNe | SIeq | SCont | SStarts | SEnds | SIn | SBetween

definition SEARCH_OPERATORS :: "(string \<times> search_operator) list" where
  "SEARCH_OPERATORS = [(''>'', SGt), (''>='', SGte), (''<'', SLt), (''<='', SLte), (''!='', SNe),
     (''ieq'', SIeq), (''cont'', SCont), (''starts'', SStarts), (''ends'', SEnds), (''in'', SIn),
     (''between'', SBetween)]"

datatype jsonb_operator = JEq | JIeq | JNe | JCont | JStarts | JEnds | JIn | JIsnull | JNotnull

definition JSONB_OPERATOR_BY_FILTER :: "(string \<times> filter_operator \<times> jsonb_operator) list" where
  "JSONB_OPERATOR_BY_FILTER = [(''$eq'', FEq, JEq), (''$ieq'', FIeq, JIeq), (''$ne'', FNe, JNe),
     (''$cont'', FCont, JCont), (''$starts'', FStarts, JStarts), (''$ends'', FEnds, JEnds),
     (''$in'', FIn, JIn), (''$isnull'', FIsnull, JIsnull), (''$notnull'', FNotnull, JNotnull)]"

definition JSONB_OPERATOR_BY_SEARCH :: "(string \<times> search_operator \<times> jsonb_operator) list" where
  "JSONB_OPERATOR_BY_SEARCH = [(''!='', SNe, JNe), (''ieq'', SIeq, JIeq), (''cont'', SCont, JCont),
     (''starts'', SStarts, JStarts), (''ends'', SEnds, JEnds), (''in'', SIn, JIn)]"

text \<open>The name of an operator, as the messages print it.\<close>

definition operator_name :: "(string \<times> 'o) list \<Rightarrow> 'o \<Rightarrow> string" where
  "operator_name table ob = (case List.find (\<lambda>(s, p). p = ob) table of Some (s, _) \<Rightarrow> s | None \<Rightarrow> [])"

definition mapFilterOperatorToJsonbOperator :: "filter_operator \<Rightarrow> string \<Rightarrow> jsonb_operator qresult" where
  "mapFilterOperatorToJsonbOperator operator column =
     (case map_of (map snd JSONB_OPERATOR_BY_FILTER) operator of
        Some j \<Rightarrow> Inr j
      | None \<Rightarrow> Inl (InvalidParameterException column
          (''Operator '' @ quoted (operator_name FILTER_OPERATORS operator)
           @ '' is not supported for JSONB fields in this version. Supported: ''
           @ js_join '', '' (map fst JSONB_OPERATOR_BY_FILTER) @ ''.'')))"

definition mapSearchOperatorToJsonbOperator :: "search_operator \<Rightarrow> jsonb_operator qresult" where
  "mapSearchOperatorToJsonbOperator operator =
     (case map_of (map snd JSONB_OPERATOR_BY_SEARCH) operator of
        Some j \<Rightarrow> Inr j
      | None \<Rightarrow> Inl (InvalidParameterException ''s''
          (''Search operator '' @ quoted (operator_name SEARCH_OPERATORS operator)
           @ '' is not supported for JSONB fields. Supported: ''
           @ js_join '', '' (map fst JSONB_OPERATOR_BY_SEARCH) @ ''.'')))"

definition assertValidSearchOperator :: "string \<Rightarrow> search_operator qresult" where
  "assertValidSearchOperator operator =
     (case map_of SEARCH_OPERATORS operator of
        Some p \<Rightarrow> Inr p
      | None \<Rightarrow> Inl (InvalidParameterException ''s''
          (''Invalid search operator: '' @ quoted operator @ ''. Allowed operators are: [''
           @ js_join '', '' (map fst SEARCH_OPERATORS) @ '']'')))"

definition parseCommaSeparatedValues :: "string \<Rightarrow> string list" where
  "parseCommaSeparatedValues value = filter (\<lambda>v. v \<noteq> []) (map js_trim (js_split CHR '','' value))"

section \<open>Dates\<close>

datatype direction = Greater | Less | Equals

text \<open>\<open>DATE_ONLY_REGEX\<close> and the suffix \<open>/[+-]\d{2}:\d{2}$/\<close>.\<close>

definition matches_shape :: "(char \<Rightarrow> bool) list \<Rightarrow> string \<Rightarrow> bool" where
  "matches_shape ps s = list_all2 (\<lambda>p c. p c) ps s"

definition isDateOnly :: "string \<Rightarrow> bool" where
  "isDateOnly value = matches_shape
     [is_digit, is_digit, is_digit, is_digit, (=) CHR ''-'', is_digit, is_digit, (=) CHR ''-'', is_digit, is_digit] value"

definition hasTimezone :: "string \<Rightarrow> bool" where
  "hasTimezone value =
     (is_prefix ''Z'' (rev value)
      \<or> (6 \<le> length value \<and> matches_shape [\<lambda>c. c = CHR ''+'' \<or> c = CHR ''-'', is_digit, is_digit, (=) CHR '':'', is_digit, is_digit]
           (drop (length value - 6) value)))"

definition or_throw :: "string option \<Rightarrow> jval qresult" where
  "or_throw r = (case r of None \<Rightarrow> Inl RuntimeError | Some s \<Rightarrow> Inr (VStr s))"

definition expandDateOnlyValue :: "qenv \<Rightarrow> string \<Rightarrow> direction \<Rightarrow> jval qresult" where
  "expandDateOnlyValue env dateString dir =
     or_throw ((case dir of Less \<Rightarrow> dj_tzEnd (qe_dates env) | _ \<Rightarrow> dj_tzStart (qe_dates env)) dateString (qe_timezone env))"

definition processDateValue :: "qenv \<Rightarrow> jval \<Rightarrow> direction \<Rightarrow> jval qresult" where
  "processDateValue env value dir =
     (case value of
        VStr s \<Rightarrow>
          (if js_trim s = [] then Inr value
           else if isDateOnly s then expandDateOnlyValue env s dir
           else if dj_isValid (qe_dates env) s then
             (if hasTimezone s then Inr (VStr (dj_toISO (qe_dates env) s))
              else or_throw (dj_tzISO (qe_dates env) s (qe_timezone env)))
           else Inl (InvalidParameterException ''date''
             (''Invalid date value: '' @ quoted s @ ''. Expected an ISO date or datetime string.'')))
      | _ \<Rightarrow> Inr value)"

definition processDateRangeValue :: "qenv \<Rightarrow> jval \<Rightarrow> jval qresult" where
  "processDateRangeValue env value =
     (case value of
        VArr [start, stop] \<Rightarrow>
          (case processDateValue env start Greater of Inl e \<Rightarrow> Inl e | Inr processedStart \<Rightarrow>
             (case processDateValue env stop Less of Inl e \<Rightarrow> Inl e | Inr processedEnd \<Rightarrow>
                Inr (VArr [processedStart, processedEnd])))
      | _ \<Rightarrow> Inr value)"

definition str_or :: "jval \<Rightarrow> string \<Rightarrow> string" where
  "str_or v s = (case v of VStr t \<Rightarrow> t | _ \<Rightarrow> s)"

definition processDateRangeString :: "qenv \<Rightarrow> string \<Rightarrow> string qresult" where
  "processDateRangeString env value =
     (case map js_trim (js_split CHR '','' value) of
        [start, stop] \<Rightarrow>
          (case processDateValue env (VStr start) Greater of Inl e \<Rightarrow> Inl e | Inr processedStart \<Rightarrow>
             (case processDateValue env (VStr stop) Less of Inl e \<Rightarrow> Inl e | Inr processedEnd \<Rightarrow>
                Inr (str_or processedStart start @ '','' @ str_or processedEnd stop)))
      | _ \<Rightarrow> Inr value)"

definition mapFilterOperatorToDirection :: "filter_operator \<Rightarrow> direction" where
  "mapFilterOperatorToDirection operator =
     (case operator of FGt \<Rightarrow> Greater | FGte \<Rightarrow> Greater | FLt \<Rightarrow> Less | FLte \<Rightarrow> Less | _ \<Rightarrow> Equals)"

definition mapSearchOperatorToDirection :: "search_operator \<Rightarrow> direction" where
  "mapSearchOperatorToDirection operator =
     (case operator of SGt \<Rightarrow> Greater | SGte \<Rightarrow> Greater | SLt \<Rightarrow> Less | SLte \<Rightarrow> Less | _ \<Rightarrow> Equals)"

definition processDateValueForFilter :: "qenv \<Rightarrow> string \<Rightarrow> filter_operator \<Rightarrow> string qresult" where
  "processDateValueForFilter env value operator =
     (if operator = FBetween then processDateRangeString env value
      else if operator \<notin> {FEq, FNe, FGt, FLt, FGte, FLte} then Inr value
      else (case processDateValue env (VStr value) (mapFilterOperatorToDirection operator) of
              Inl e \<Rightarrow> Inl e
            | Inr processed \<Rightarrow> Inr (str_or processed value)))"

section \<open>JSON columns\<close>

text \<open>\<open>buildJsonbRawCondition\<close>: the path segments and the values are bound parameters; the SQL text has
  their placeholders only. \<open>n\<close> is the counter before the call.\<close>

definition jsonb_prefix :: "nat \<Rightarrow> string" where
  "jsonb_prefix n = ''jsonb_'' @ show_nat n @ ''_''"

definition indexed_params :: "string \<Rightarrow> string list \<Rightarrow> (string \<times> string) list" where
  "indexed_params prefix values = map (\<lambda>(i, v). (prefix @ show_nat i, v)) (enumerate 0 values)"

definition placeholder :: "string \<Rightarrow> string" where
  "placeholder pName = '':'' @ pName"

definition pathArraySql :: "string \<Rightarrow> nat \<Rightarrow> string" where
  "pathArraySql prefix k =
     ''ARRAY['' @ js_join '', '' (map (\<lambda>i. placeholder (prefix @ ''p'' @ show_nat i)) [0..<k]) @ '']::text[]''"

definition buildJsonbRawCondition ::
    "string \<Rightarrow> string list \<Rightarrow> jsonb_operator \<Rightarrow> string \<Rightarrow> nat \<Rightarrow> find_operator" where
  "buildJsonbRawCondition column jsonPath operator value n =
     (let paramPrefix = jsonb_prefix n;
          pathParams = indexed_params (paramPrefix @ ''p'') jsonPath;
          buildRaw = (\<lambda>rest valueParams. Raw (RawJsonb column (pathArraySql paramPrefix (length jsonPath)) rest)
                                             (obj_spread pathParams valueParams));
          paramName = paramPrefix @ ''v'';
          bound = (\<lambda>cmp v. buildRaw (cmp @ placeholder paramName) [(paramName, v)])
      in if operator = JEq \<and> value = [] then buildRaw '' IS NULL'' []
         else if operator = JNe \<and> value = [] then buildRaw '' IS NOT NULL'' []
         else case operator of
             JEq \<Rightarrow> bound '' = '' value
           | JIeq \<Rightarrow> bound '' ILIKE '' value
           | JNe \<Rightarrow> bound '' != '' value
           | JCont \<Rightarrow> bound '' ILIKE '' (''%'' @ value @ ''%'')
           | JStarts \<Rightarrow> bound '' ILIKE '' (value @ ''%'')
           | JEnds \<Rightarrow> bound '' ILIKE '' (''%'' @ value)
           | JIn \<Rightarrow>
               (let values = parseCommaSeparatedValues value in
                if values = [] then Raw (RawConst ''1 = 0'') []
                else buildRaw ('' IN ('' @ js_join '','' (map (\<lambda>i. placeholder (paramPrefix @ ''i'' @ show_nat i)) [0..<length values]) @ '')'')
                       (indexed_params (paramPrefix @ ''i'') values))
           | JIsnull \<Rightarrow> if js_to_lower value = ''false'' then buildRaw '' IS NOT NULL'' [] else buildRaw '' IS NULL'' []
           | JNotnull \<Rightarrow> if js_to_lower value = ''false'' then buildRaw '' IS NULL'' [] else buildRaw '' IS NOT NULL'' [])"

text \<open>The text of a raw condition for the alias TypeORM passes.\<close>

definition dquoted :: "string \<Rightarrow> string" where
  "dquoted s = [CHR 0x22] @ s @ [CHR 0x22]"

definition raw_text :: "raw_sql \<Rightarrow> string \<Rightarrow> string" where
  "raw_text r alias =
     (case r of
        RawConst s \<Rightarrow> s
      | RawJsonb column path rest \<Rightarrow>
          (let dotIndex = length (takeWhile (\<lambda>c. c \<noteq> CHR ''.'') alias);
               columnRef = (if 0 < dotIndex \<and> dotIndex < length alias then dquoted (take dotIndex alias) @ ''.'' @ dquoted column
                            else dquoted column)
           in columnRef @ '' #>> '' @ path @ rest))"

section \<open>The filter and or parameters\<close>

type_synonym parsed_filter = "string \<times> filter_operator \<times> string"

text \<open>\<open>normalizeFilterInput\<close> and \<open>normalizeOrInput\<close>.\<close>

definition normalizeFilterInput :: "jval \<Rightarrow> string list" where
  "normalizeFilterInput param =
     (case param of
        VStr s \<Rightarrow> if js_trim s \<noteq> [] then [s] else []
      | VArr vs \<Rightarrow> filter (\<lambda>f. js_trim f \<noteq> []) (concat (map (\<lambda>v. case v of VStr f \<Rightarrow> [f] | _ \<Rightarrow> []) vs))
      | _ \<Rightarrow> [])"

text \<open>\<open>s.split('||')\<close>.\<close>

fun split_bars :: "string \<Rightarrow> string list" where
  "split_bars (a # b # s) =
     (if a = CHR ''|'' \<and> b = CHR ''|'' then [] # split_bars s
      else (case split_bars (b # s) of [] \<Rightarrow> [[a]] | w # ws \<Rightarrow> (a # w) # ws))"
| "split_bars s = [s]"

fun parseFilterStrings :: "string list \<Rightarrow> parsed_filter list qresult" where
  "parseFilterStrings [] = Inr []"
| "parseFilterStrings (filter_text # filters) =
     (case split_bars filter_text of
        field # operator # value0 # values \<Rightarrow>
          (let trimmedField = js_trim field; trimmedOperator = js_trim operator;
               value = js_join ''||'' (value0 # values) in
           if trimmedField = [] \<or> trimmedOperator = [] then parseFilterStrings filters
           else (case map_of FILTER_OPERATORS trimmedOperator of
                   None \<Rightarrow> Inl (InvalidParameterException trimmedField
                     (''Invalid filter operator: '' @ quoted trimmedOperator @ ''. Allowed operators are: [''
                      @ js_join '', '' (map fst FILTER_OPERATORS) @ '']''))
                 | Some op \<Rightarrow>
                     (case parseFilterStrings filters of
                        Inl e \<Rightarrow> Inl e
                      | Inr parsed \<Rightarrow> Inr ((trimmedField, op, value) # parsed))))
      | _ \<Rightarrow> parseFilterStrings filters)"

fun check_candidates :: "string \<Rightarrow> string list \<Rightarrow> string list \<Rightarrow> unit qresult" where
  "check_candidates field allowedValues [] = Inr ()"
| "check_candidates field allowedValues (candidate # candidates) =
     (if candidate = [] \<or> isNullishLiteral candidate then check_candidates field allowedValues candidates
      else if candidate \<notin> set allowedValues then
        Inl (InvalidParameterException field
          (''Invalid value '' @ quoted candidate @ '' for enum field '' @ quoted field @ ''. Allowed values are: [''
           @ js_join '', '' allowedValues @ '']''))
      else check_candidates field allowedValues candidates)"

definition validateEnumValueForFilter :: "qenv \<Rightarrow> string \<Rightarrow> filter_operator \<Rightarrow> string \<Rightarrow> unit qresult" where
  "validateEnumValueForFilter env field operator value =
     (if operator \<notin> {FEq, FNe, FIn, FNotin} then Inr ()
      else (case getEnumValuesRecursive env field of
              None \<Rightarrow> Inr ()
            | Some allowedValues \<Rightarrow>
                check_candidates field allowedValues
                  (if operator = FIn \<or> operator = FNotin then parseCommaSeparatedValues value else [value])))"

definition createBetweenFromString :: "string \<Rightarrow> wval qresult" where
  "createBetweenFromString value =
     (case parseCommaSeparatedValues value of
        [start, stop] \<Rightarrow> Inr (Operator (Between (VStr start) (VStr stop)))
      | _ \<Rightarrow> Inl (InvalidParameterException ''$between''
          ''Between operator requires exactly 2 comma-separated values: start,end''))"

definition applyFilterOperator :: "filter_operator \<Rightarrow> string \<Rightarrow> wval qresult" where
  "applyFilterOperator operator value =
     (case operator of
        FEq \<Rightarrow> Inr (if isNullishLiteral value then Operator IsNull else Plain (VStr value))
      | FIeq \<Rightarrow> Inr (Operator (ILike value))
      | FNe \<Rightarrow> Inr (Operator (Not (if isNullishLiteral value then Operator IsNull else Plain (VStr value))))
      | FGt \<Rightarrow> Inr (Operator (MoreThan (VStr value)))
      | FLt \<Rightarrow> Inr (Operator (LessThan (VStr value)))
      | FGte \<Rightarrow> Inr (Operator (MoreThanOrEqual (VStr value)))
      | FLte \<Rightarrow> Inr (Operator (LessThanOrEqual (VStr value)))
      | FCont \<Rightarrow> Inr (Operator (ILike (''%'' @ value @ ''%'')))
      | FStarts \<Rightarrow> Inr (Operator (ILike (value @ ''%'')))
      | FEnds \<Rightarrow> Inr (Operator (ILike (''%'' @ value)))
      | FIn \<Rightarrow> Inr (Operator (In (map VStr (parseCommaSeparatedValues value))))
      | FNotin \<Rightarrow> Inr (Operator (Not (Operator (In (map VStr (parseCommaSeparatedValues value))))))
      | FIsnull \<Rightarrow> Inr (Operator (if js_to_lower value = ''false'' then Not (Operator IsNull) else IsNull))
      | FNotnull \<Rightarrow> Inr (Operator (if js_to_lower value = ''false'' then IsNull else Not (Operator IsNull)))
      | FBetween \<Rightarrow> createBetweenFromString value)"

definition processedFilterValue :: "qenv \<Rightarrow> parsed_filter \<Rightarrow> wval qresult" where
  "processedFilterValue env f =
     (case f of (field, operator, value) \<Rightarrow>
        (case validateEnumValueForFilter env field operator value of Inl e \<Rightarrow> Inl e | Inr _ \<Rightarrow>
          (case (if isDateColumnRecursive env field then processDateValueForFilter env value operator else Inr value) of
             Inl e \<Rightarrow> Inl e
           | Inr processedValue \<Rightarrow> applyFilterOperator operator processedValue)))"

text \<open>The condition of one filter, the body of the loops of \<open>buildFilterWhereClause\<close> and
  \<open>buildOrWhereClause\<close>, with the counter after it. A filter on a bare JSON column gives the empty
  object.\<close>

definition singleCondition :: "qenv \<Rightarrow> parsed_filter \<Rightarrow> nat \<Rightarrow> (wobj \<times> nat) qresult" where
  "singleCondition env f n =
     (case f of (field, operator, value) \<Rightarrow>
        if isJsonbPath env field then
          (case extractJsonbColumnAndPath env field of
             None \<Rightarrow> Inr ([], n)
           | Some (column, jsonPath) \<Rightarrow>
               (case mapFilterOperatorToJsonbOperator operator column of
                  Inl e \<Rightarrow> Inl e
                | Inr j \<Rightarrow> Inr ([(column, Operator (buildJsonbRawCondition column jsonPath j value n))], Suc n)))
        else
          (case processedFilterValue env f of
             Inl e \<Rightarrow> Inl e
           | Inr operatorValue \<Rightarrow>
               Inr (if js_includes ''.'' field then setNestedValue (dotted field) operatorValue []
                    else [(field, operatorValue)], n)))"

fun buildFilterWhereClause :: "qenv \<Rightarrow> parsed_filter list \<Rightarrow> wobj \<Rightarrow> nat \<Rightarrow> (wobj \<times> nat) qresult" where
  "buildFilterWhereClause env [] whr n = Inr (whr, n)"
| "buildFilterWhereClause env (f # filters) whr n =
     (case singleCondition env f n of
        Inl e \<Rightarrow> Inl e
      | Inr (single, n') \<Rightarrow> buildFilterWhereClause env filters (deepMerge whr single) n')"

fun buildOrWhereClause :: "qenv \<Rightarrow> parsed_filter list \<Rightarrow> nat \<Rightarrow> (wobj list \<times> nat) qresult" where
  "buildOrWhereClause env [] n = Inr ([], n)"
| "buildOrWhereClause env (f # filters) n =
     (case singleCondition env f n of
        Inl e \<Rightarrow> Inl e
      | Inr (condition, n') \<Rightarrow>
          (case buildOrWhereClause env filters n' of
             Inl e \<Rightarrow> Inl e
           | Inr (orConditions, n'') \<Rightarrow> Inr (transformNullValues condition # orConditions, n'')))"

definition parsed_and_valid :: "qenv \<Rightarrow> jval \<Rightarrow> parsed_filter list qresult" where
  "parsed_and_valid env param =
     (case parseFilterStrings (normalizeFilterInput param) of
        Inl e \<Rightarrow> Inl e
      | Inr parsedFilters \<Rightarrow>
          (case validateFieldNamesRecursive env (map fst parsedFilters) of
             Inl e \<Rightarrow> Inl e
           | Inr _ \<Rightarrow> Inr parsedFilters))"

definition parseFilterParameter :: "qenv \<Rightarrow> jval \<Rightarrow> nat \<Rightarrow> (wobj \<times> nat) qresult" where
  "parseFilterParameter env param n =
     (case parsed_and_valid env param of
        Inl e \<Rightarrow> Inl e
      | Inr parsedFilters \<Rightarrow> buildFilterWhereClause env parsedFilters [] n)"

definition parseOrParameter :: "qenv \<Rightarrow> jval \<Rightarrow> nat \<Rightarrow> (wobj list \<times> nat) qresult" where
  "parseOrParameter env param n =
     (case parsed_and_valid env param of
        Inl e \<Rightarrow> Inl e
      | Inr parsedFilters \<Rightarrow> buildOrWhereClause env parsedFilters n)"

section \<open>The search parameter\<close>

text \<open>\<open>String(value)\<close>.\<close>

fun js_string :: "jval \<Rightarrow> string" where
  "js_string VUndef = ''undefined''"
| "js_string VNull = ''null''"
| "js_string (VBool b) = (if b then ''true'' else ''false'')"
| "js_string (VNum s) = s"
| "js_string (VStr s) = s"
| "js_string (VArr vs) = js_join '','' (map (\<lambda>v. if v = VNull \<or> v = VUndef then [] else js_string v) vs)"
| "js_string (VObj ob) = ''[object Object]''"

definition createBetweenOperator :: "jval \<Rightarrow> find_operator qresult" where
  "createBetweenOperator value =
     (case value of
        VArr [start, stop] \<Rightarrow> Inr (Between start stop)
      | _ \<Rightarrow> Inl (InvalidParameterException ''between''
          ''Between operator requires an array with exactly 2 values: [start, end]''))"

definition applySearchOperator :: "search_operator \<Rightarrow> jval \<Rightarrow> find_operator qresult" where
  "applySearchOperator operator value =
     (case operator of
        SGt \<Rightarrow> Inr (MoreThan value)
      | SGte \<Rightarrow> Inr (MoreThanOrEqual value)
      | SLt \<Rightarrow> Inr (LessThan value)
      | SLte \<Rightarrow> Inr (LessThanOrEqual value)
      | SNe \<Rightarrow> Inr (Not (Plain value))
      | SCont \<Rightarrow> Inr (ILike (''%'' @ js_string value @ ''%''))
      | SIeq \<Rightarrow> Inr (ILike (js_string value))
      | SStarts \<Rightarrow> Inr (ILike (js_string value @ ''%''))
      | SEnds \<Rightarrow> Inr (ILike (''%'' @ js_string value))
      | SIn \<Rightarrow> Inr (In (case value of VArr vs \<Rightarrow> vs | _ \<Rightarrow> [value]))
      | SBetween \<Rightarrow> createBetweenOperator value)"

definition searchOperand :: "qenv \<Rightarrow> bool \<Rightarrow> search_operator \<Rightarrow> jval \<Rightarrow> jval qresult" where
  "searchOperand env isDateColumn operator value =
     (if \<not> isDateColumn then Inr value
      else if operator = SBetween then processDateRangeValue env value
      else if operator \<in> {SGt, SGte, SLt, SLte, SNe} then
        processDateValue env value (mapSearchOperatorToDirection operator)
      else Inr value)"

fun searchConditions :: "qenv \<Rightarrow> bool \<Rightarrow> (string \<times> jval) list \<Rightarrow> find_operator list qresult" where
  "searchConditions env isDateColumn [] = Inr []"
| "searchConditions env isDateColumn ((rawOperator, value) # rest) =
     (case assertValidSearchOperator rawOperator of Inl e \<Rightarrow> Inl e | Inr operator \<Rightarrow>
       (case searchOperand env isDateColumn operator value of Inl e \<Rightarrow> Inl e | Inr value' \<Rightarrow>
         (case applySearchOperator operator value' of Inl e \<Rightarrow> Inl e | Inr op \<Rightarrow>
           (case searchConditions env isDateColumn rest of Inl e \<Rightarrow> Inl e | Inr ops \<Rightarrow> Inr (op # ops)))))"

definition conjoined :: "find_operator list \<Rightarrow> find_operator" where
  "conjoined conditions = (case conditions of [c] \<Rightarrow> c | _ \<Rightarrow> And conditions)"

definition processOperatorCondition :: "qenv \<Rightarrow> (string \<times> jval) list \<Rightarrow> bool \<Rightarrow> wval qresult" where
  "processOperatorCondition env operatorObj isDateColumn =
     (if operatorObj = [] then Inr (Plain VUndef)
      else (case searchConditions env isDateColumn operatorObj of
              Inl e \<Rightarrow> Inl e
            | Inr conditions \<Rightarrow> Inr (Operator (conjoined conditions))))"

definition buildConditionValue :: "qenv \<Rightarrow> jval \<Rightarrow> bool \<Rightarrow> wval qresult" where
  "buildConditionValue env condition isDateColumn =
     (case condition of
        VObj ob \<Rightarrow> processOperatorCondition env ob isDateColumn
      | _ \<Rightarrow> if isDateColumn
             then (case processDateValue env condition Equals of Inl e \<Rightarrow> Inl e | Inr v \<Rightarrow> Inr (Plain v))
             else Inr (Plain condition))"

fun jsonbSearchConditions ::
    "string \<Rightarrow> string list \<Rightarrow> (string \<times> jval) list \<Rightarrow> nat \<Rightarrow> (find_operator list \<times> nat) qresult" where
  "jsonbSearchConditions column jsonPath [] n = Inr ([], n)"
| "jsonbSearchConditions column jsonPath ((rawOperator, value) # rest) n =
     (case assertValidSearchOperator rawOperator of Inl e \<Rightarrow> Inl e | Inr operator \<Rightarrow>
       (case mapSearchOperatorToJsonbOperator operator of Inl e \<Rightarrow> Inl e | Inr j \<Rightarrow>
         (case jsonbSearchConditions column jsonPath rest (Suc n) of Inl e \<Rightarrow> Inl e | Inr (ops, n') \<Rightarrow>
            Inr (buildJsonbRawCondition column jsonPath j (js_string value) n # ops, n'))))"

definition buildJsonbSearchCondition ::
    "string \<Rightarrow> string list \<Rightarrow> jval \<Rightarrow> nat \<Rightarrow> (find_operator \<times> nat) qresult" where
  "buildJsonbSearchCondition column jsonPath condition n =
     (case condition of
        VObj ob \<Rightarrow>
          (if ob = [] then Inl (InvalidParameterException ''s''
             (''JSONB search condition for '' @ quoted column @ '' requires an operator object with at least one operator.''))
           else (case jsonbSearchConditions column jsonPath ob n of
                   Inl e \<Rightarrow> Inl e
                 | Inr (conditions, n') \<Rightarrow> Inr (conjoined conditions, n')))
      | _ \<Rightarrow> Inr (buildJsonbRawCondition column jsonPath JEq (js_string condition) n, Suc n))"

text \<open>One round of the loop of \<open>buildSearchWhereClause\<close>.\<close>

definition searchEntry :: "qenv \<Rightarrow> string \<Rightarrow> jval \<Rightarrow> wobj \<Rightarrow> nat \<Rightarrow> (wobj \<times> nat) qresult" where
  "searchEntry env key condition whr n =
     (if isJsonbPath env key then
        (case extractJsonbColumnAndPath env key of
           None \<Rightarrow> Inr (whr, n)
         | Some (column, jsonPath) \<Rightarrow>
             (case buildJsonbSearchCondition column jsonPath condition n of
                Inl e \<Rightarrow> Inl e
              | Inr (op, n') \<Rightarrow> Inr (deepMerge whr [(column, Operator op)], n')))
      else
        (case buildConditionValue env condition (isDateColumnRecursive env key) of
           Inl e \<Rightarrow> Inl e
         | Inr conditionValue \<Rightarrow>
             Inr (if js_includes ''.'' key then setNestedValue (dotted key) conditionValue whr
                  else obj_set key conditionValue whr, n)))"

fun searchEntries :: "qenv \<Rightarrow> (string \<times> jval) list \<Rightarrow> wobj \<Rightarrow> nat \<Rightarrow> (wobj \<times> nat) qresult" where
  "searchEntries env [] whr n = Inr (whr, n)"
| "searchEntries env ((key, condition) # rest) whr n =
     (case searchEntry env key condition whr n of
        Inl e \<Rightarrow> Inl e
      | Inr (whr', n') \<Rightarrow> searchEntries env rest whr' n')"

definition buildSearchWhereClause :: "qenv \<Rightarrow> (string \<times> jval) list \<Rightarrow> nat \<Rightarrow> (wobj \<times> nat) qresult" where
  "buildSearchWhereClause env conditions n =
     (case validateFieldNamesRecursive env (map fst conditions) of
        Inl e \<Rightarrow> Inl e
      | Inr _ \<Rightarrow> searchEntries env conditions [] n)"

definition DANGEROUS_PROTO_KEYS :: "string list" where
  "DANGEROUS_PROTO_KEYS = [''__proto__'', ''constructor'', ''prototype'']"

fun stripDangerousKeys :: "(string \<times> jval) list \<Rightarrow> (string \<times> jval) list" where
  "stripDangerousKeys [] = []"
| "stripDangerousKeys ((key, value) # rest) =
     (if key \<in> set DANGEROUS_PROTO_KEYS then stripDangerousKeys rest
      else (key, (case value of VObj ob \<Rightarrow> VObj (stripDangerousKeys ob) | _ \<Rightarrow> value)) # stripDangerousKeys rest)"

text \<open>The own entries of a value, as \<open>Object.keys\<close> enumerates them; null and undefined throw.\<close>

definition own_entries :: "jval \<Rightarrow> (string \<times> jval) list option" where
  "own_entries v =
     (case v of
        VObj ob \<Rightarrow> Some ob
      | VArr vs \<Rightarrow> Some (map (\<lambda>(i, w). (show_nat i, w)) (enumerate 0 vs))
      | VStr s \<Rightarrow> Some (map (\<lambda>(i, c). (show_nat i, VStr [c])) (enumerate 0 s))
      | VNull \<Rightarrow> None
      | VUndef \<Rightarrow> None
      | _ \<Rightarrow> Some [])"

definition parseSearchConditions :: "qenv \<Rightarrow> jval \<Rightarrow> (string \<times> jval) list qresult" where
  "parseSearchConditions env searchParam =
     (case (case searchParam of VStr s \<Rightarrow> qe_json_parse env s | _ \<Rightarrow> Some searchParam) of
        None \<Rightarrow> Inl RuntimeError
      | Some parsed \<Rightarrow>
          (case own_entries parsed of
             None \<Rightarrow> Inl RuntimeError
           | Some entries \<Rightarrow> Inr (stripDangerousKeys entries)))"

definition search_error :: "query_error \<Rightarrow> query_error" where
  "search_error e =
     (case e of
        InvalidParameterException _ _ \<Rightarrow> e
      | _ \<Rightarrow> InvalidParameterException ''s'' ''Invalid search parameter format. Must be a valid JSON string.'')"

definition parseSearchParameter :: "qenv \<Rightarrow> jval \<Rightarrow> nat \<Rightarrow> (wobj \<times> nat) qresult" where
  "parseSearchParameter env searchParam n =
     (case searchParam of
        VUndef \<Rightarrow> Inr ([], n)
      | VNull \<Rightarrow> Inr ([], n)
      | VBool _ \<Rightarrow> Inr ([], n)
      | VNum _ \<Rightarrow> Inr ([], n)
      | _ \<Rightarrow>
          (case parseSearchConditions env searchParam of
             Inl e \<Rightarrow> Inl (search_error e)
           | Inr conditions \<Rightarrow>
               (case buildSearchWhereClause env conditions n of
                  Inl e \<Rightarrow> Inl (search_error e)
                | Inr r \<Rightarrow> Inr r)))"

end
