(* ===== verification/Query_Meaning.thy ===== *)
theory Query_Meaning
  imports Query_Fields
begin

text \<open>
  What the conditions built from the query parameters mean. A field that passes validation is a path
  of relations that ends in a column, or a path into a JSON column; the where objects built from such
  fields all have the shape of the metadata (\<open>is_relation\<close>), so merging them is conjunction. The raw
  conditions on JSON columns bind every user text to a parameter whose name carries the counter of
  its call (\<open>allocated\<close>).
\<close>

section \<open>Paths in the metadata\<close>

text \<open>The entity a chain of relations leads to, and the paths that name relations.\<close>

fun walk :: "(string \<Rightarrow> entity_meta) \<Rightarrow> entity_meta \<Rightarrow> string list \<Rightarrow> entity_meta option" where
  "walk sch m [] = Some m"
| "walk sch m (p # ps) =
     (case findRelationWithPropertyPath m p of None \<Rightarrow> None | Some e \<Rightarrow> walk sch (sch e) ps)"

definition is_relation :: "qenv \<Rightarrow> string list \<Rightarrow> bool" where
  "is_relation env ps = (walk (qe_schema env) (root_meta env) ps \<noteq> None)"

text \<open>No property of an entity is a column and a relation at once.\<close>

definition names_disjoint :: "qenv \<Rightarrow> bool" where
  "names_disjoint env \<longleftrightarrow>
     (\<forall>e. set (map col_name (em_columns (qe_schema env e))) \<inter> set (map fst (em_relations (qe_schema env e))) = {})"

lemma js_includes_char: "js_includes [c] s \<longleftrightarrow> c \<in> set s"
  by (induction s) auto

lemma dotted_nonempty [simp]: "dotted p \<noteq> []"
  by (simp add: dotted_def)

lemma dotted_single: "\<not> js_includes ''.'' p \<Longrightarrow> dotted p = [p]"
  by (simp add: dotted_def js_includes_char js_split_no_sep)

lemma resolveColumnMetadata_parts:
  "resolveColumnMetadata env p = resolve_parts (qe_schema env) (root_meta env) (dotted p)"
  using dotted_single [of p] by (simp add: resolveColumnMetadata_def)

lemma validate_parts_ok:
  "ps \<noteq> [] \<Longrightarrow> validate_parts sch f m ps = Inr () \<longleftrightarrow> resolve_parts sch m ps \<noteq> None"
  by (induction sch f m ps rule: validate_parts.induct) (auto split: option.splits)

lemma findColumn_names: "findColumnWithPropertyName m p \<noteq> None \<longleftrightarrow> p \<in> set (map col_name (em_columns m))"
  by (auto simp: findColumnWithPropertyName_def find_None_iff)

lemma findRelation_names: "findRelationWithPropertyPath m p \<noteq> None \<longleftrightarrow> p \<in> set (map fst (em_relations m))"
  by (auto simp: findRelationWithPropertyPath_def map_of_eq_None_iff)

lemma validateFieldNames_ok:
  "validateFieldNamesRecursive env fs = Inr () \<longleftrightarrow>
     (\<forall>f \<in> set fs. isJsonbPath env f \<or> resolveColumnMetadata env f \<noteq> None)"
proof (induction fs)
  case (Cons f fs)
  have plain: "resolveColumnMetadata env f \<noteq> None \<longleftrightarrow> f \<in> set (getEntityPropertyNames env)" if "\<not> js_includes ''.'' f"
    using that findColumn_names [of "root_meta env" f] by (simp add: resolveColumnMetadata_def getEntityPropertyNames_def)
  have "validate_parts (qe_schema env) f (root_meta env) (dotted f) = Inr () \<longleftrightarrow> resolveColumnMetadata env f \<noteq> None"
    by (simp add: validate_parts_ok resolveColumnMetadata_parts)
  then show ?case using Cons.IH plain by (auto split: sum.splits)
qed simp

lemma walk_append: "walk sch m (a @ b) = Option.bind (walk sch m a) (\<lambda>m'. walk sch m' b)"
  by (induction sch m a rule: walk.induct) (auto split: option.split)

lemma resolve_snoc:
  "resolve_parts sch m (ps @ [p]) = Option.bind (walk sch m ps) (\<lambda>m'. findColumnWithPropertyName m' p)"
proof (induction sch m ps rule: walk.induct)
  case (2 sch m q qs)
  then show ?case by (cases "qs @ [p]") (auto split: option.split)
qed simp

lemma walk_meta:
  assumes "names_disjoint env" and "walk (qe_schema env) (root_meta env) ps = Some m"
  shows "\<exists>e. m = qe_schema env e"
proof -
  have "\<exists>e. m' = qe_schema env e" if "walk (qe_schema env) (qe_schema env e0) ps = Some m'" for m' e0
    using that by (induction ps arbitrary: e0) (auto split: option.splits)
  then show ?thesis using assms(2) by (simp add: root_meta_def)
qed

lemma column_path_shape:
  assumes "names_disjoint env" and "resolve_parts (qe_schema env) (root_meta env) ps \<noteq> None"
  shows "\<not> is_relation env ps" and "k < length ps \<Longrightarrow> is_relation env (take k ps)"
proof -
  have "ps \<noteq> []" using assms(2) by auto
  then obtain qs q where ps: "ps = qs @ [q]" by (metis append_butlast_last_id)
  then obtain m where m: "walk (qe_schema env) (root_meta env) qs = Some m" and c: "findColumnWithPropertyName m q \<noteq> None"
    using assms(2) by (auto simp: resolve_snoc bind_eq_Some_conv)
  obtain e where e: "m = qe_schema env e" using walk_meta [OF assms(1) m] by auto
  have "findRelationWithPropertyPath m q = None"
    using assms(1) c e findRelation_names [of m q] unfolding names_disjoint_def findColumn_names by blast
  then show "\<not> is_relation env ps" using m by (simp add: is_relation_def ps walk_append)
  assume "k < length ps"
  then have qs: "take k ps @ drop k qs = qs" by (simp add: ps)
  show "is_relation env (take k ps)"
    using m walk_append [of "qe_schema env" "root_meta env" "take k ps" "drop k qs"]
    unfolding qs is_relation_def by (auto simp: bind_eq_Some_conv)
qed

lemma is_relation_Nil [simp]: "is_relation env []"
  by (simp add: is_relation_def)

section \<open>Single conditions\<close>

text \<open>The object that puts one value at the end of a path.\<close>

fun nest :: "string list \<Rightarrow> wval \<Rightarrow> wobj" where
  "nest [] v = []"
| "nest [p] v = [(p, v)]"
| "nest (p # ps) v = [(p, Nested (nest ps v))]"

lemma setNestedValue_empty: "setNestedValue ps v [] = nest ps v"
  by (induction ps v rule: nest.induct) (simp_all add: obj_get_def)

definition is_leaf :: "wval \<Rightarrow> bool" where
  "is_leaf v = (case v of Nested _ \<Rightarrow> False | Plain VUndef \<Rightarrow> False | _ \<Rightarrow> True)"

lemma is_leaf_simps [simp]: "is_leaf (Operator op)" "is_leaf (Plain j) \<longleftrightarrow> j \<noteq> VUndef" "\<not> is_leaf (Nested ob)"
  by (simp_all add: is_leaf_def split: jval.split)

lemma nest_holds: "ps \<noteq> [] \<Longrightarrow> holds_value sat path (Nested (nest ps v)) = holds_value sat (path @ ps) v"
proof (induction ps v arbitrary: path rule: nest.induct)
  case (3 p q qs v)
  show ?case using "3.IH" [of "path @ [p]"] by simp
qed simp_all

lemma nest_defined: "is_leaf v \<Longrightarrow> defined (Nested (nest ps v))"
  by (induction ps v rule: nest.induct) (auto simp: is_leaf_def split: wval.splits jval.splits)

lemma shaped_leaf: "is_leaf v \<Longrightarrow> shaped rel path v \<longleftrightarrow> \<not> rel path"
  by (cases v) auto

lemma nest_shaped:
  assumes "is_leaf v" and "ps \<noteq> []" and "\<not> rel (path @ ps)" and "\<And>k. k < length ps \<Longrightarrow> rel (path @ take k ps)"
  shows "shaped_object rel path (nest ps v)"
  using assms
proof (induction ps v arbitrary: path rule: nest.induct)
  case (2 p v)
  then show ?case using "2.prems"(4) [of 0] by (simp add: shaped_leaf)
next
  case (3 p q qs v)
  have "rel ((path @ [p]) @ take k (q # qs))" if "k < length (q # qs)" for k
    using "3.prems"(4) [of "Suc k"] that by simp
  then have "shaped_object rel (path @ [p]) (nest (q # qs) v)" using "3.IH" [of "path @ [p]"] "3.prems" by simp
  then show ?case using "3.prems"(4) [of 0] by simp
qed simp

lemma applyFilterOperator_leaf: "applyFilterOperator op v = Inr w \<Longrightarrow> is_leaf w"
  by (auto simp: applyFilterOperator_def createBetweenFromString_def split: filter_operator.splits list.splits if_splits)

lemma processedFilterValue_leaf: "processedFilterValue env f = Inr w \<Longrightarrow> is_leaf w"
  by (auto simp: processedFilterValue_def split: prod.splits sum.splits dest: applyFilterOperator_leaf)

text \<open>A valid field: a path into a JSON column, or a column path.\<close>

definition valid_field :: "qenv \<Rightarrow> string \<Rightarrow> bool" where
  "valid_field env f \<longleftrightarrow> isJsonbPath env f \<or> resolveColumnMetadata env f \<noteq> None"

lemma jsonb_column_shape:
  assumes "names_disjoint env" and "isJsonbColumn env c"
  shows "\<not> is_relation env [c]"
proof -
  have "resolve_parts (qe_schema env) (root_meta env) [c] \<noteq> None"
    using assms(2) by (auto simp: isJsonbColumn_def split: option.splits)
  then show ?thesis using column_path_shape(1) [OF assms(1)] by blast
qed

lemma extract_column: "extractJsonbColumnAndPath env f = Some (c, path) \<Longrightarrow> isJsonbColumn env c"
  by (auto simp: extractJsonbColumnAndPath_def Let_def split: if_splits)

lemma column_object_shaped:
  assumes "names_disjoint env" and "isJsonbColumn env c"
  shows "shaped_object (is_relation env) [] [(c, Operator op)]"
  using jsonb_column_shape [OF assms] by simp

lemma field_object_nest:
  "(if js_includes ''.'' f then setNestedValue (dotted f) v [] else [(f, v)]) = nest (dotted f) v"
  using dotted_single [of f] by (simp add: setNestedValue_empty)

lemma field_nest_shaped:
  assumes "names_disjoint env" and "resolveColumnMetadata env f \<noteq> None" and "is_leaf v"
  shows "shaped_object (is_relation env) [] (nest (dotted f) v)"
  by (rule nest_shaped)
    (use assms column_path_shape [OF assms(1) assms(2) [unfolded resolveColumnMetadata_parts]] in simp_all)

lemma singleCondition_shaped:
  assumes "names_disjoint env" and "valid_field env (fst f)" and "singleCondition env f n = Inr (w, n')"
  shows "shaped_object (is_relation env) [] w \<and> defined (Nested w)"
proof -
  obtain field op v where f: "f = (field, op, v)" by (cases f)
  show ?thesis
  proof (cases "isJsonbPath env field")
    case True
    then show ?thesis using assms column_object_shaped [OF assms(1) extract_column]
      by (fastforce simp: singleCondition_def f split: option.splits sum.splits)
  next
    case False
    then obtain x where x: "processedFilterValue env f = Inr x" and w: "w = nest (dotted field) x"
      using assms(3) by (auto simp: singleCondition_def f field_object_nest split: sum.splits)
    have "resolveColumnMetadata env field \<noteq> None" using assms(2) False by (simp add: valid_field_def f)
    then show ?thesis unfolding w
      using field_nest_shaped [OF assms(1) _ processedFilterValue_leaf [OF x]] nest_defined [OF processedFilterValue_leaf [OF x]] by blast
  qed
qed

text \<open>The conditions of the filters one after the other.\<close>

fun singleConditions :: "qenv \<Rightarrow> parsed_filter list \<Rightarrow> nat \<Rightarrow> (wobj list \<times> nat) qresult" where
  "singleConditions env [] n = Inr ([], n)"
| "singleConditions env (f # fs) n =
     (case singleCondition env f n of
        Inl e \<Rightarrow> Inl e
      | Inr (c, n') \<Rightarrow>
          (case singleConditions env fs n' of Inl e \<Rightarrow> Inl e | Inr (cs, n'') \<Rightarrow> Inr (c # cs, n'')))"

lemma buildFilter_merges:
  "buildFilterWhereClause env fs w n =
     (case singleConditions env fs n of Inl e \<Rightarrow> Inl e | Inr (cs, n') \<Rightarrow> Inr (foldl deepMerge w cs, n'))"
  by (induction fs arbitrary: w n) (auto split: sum.splits)

lemma buildOr_transforms:
  "buildOrWhereClause env fs n =
     (case singleConditions env fs n of Inl e \<Rightarrow> Inl e | Inr (cs, n') \<Rightarrow> Inr (map transformNullValues cs, n'))"
  by (induction fs arbitrary: n) (auto split: sum.splits)

lemma singleConditions_shaped:
  assumes "names_disjoint env" and "\<forall>f \<in> set fs. valid_field env (fst f)" and "singleConditions env fs n = Inr (cs, n')"
  shows "\<forall>c \<in> set cs. shaped_object (is_relation env) [] c \<and> defined (Nested c)"
  using assms(2,3)
proof (induction fs arbitrary: n cs)
  case (Cons f fs)
  then obtain c m cs' where c: "singleCondition env f n = Inr (c, m)" and cs': "singleConditions env fs m = Inr (cs', n')" "cs = c # cs'"
    by (auto split: sum.splits)
  then show ?case using singleCondition_shaped [OF assms(1) _ c] Cons.IH [OF _ cs'(1)] Cons.prems(1)
    by (auto simp del: shaped.simps(1) defined.simps(1))
qed simp

lemma foldl_merge:
  assumes "shaped_object rel [] w" and "defined (Nested w)" and "\<forall>c \<in> set cs. shaped_object rel [] c \<and> defined (Nested c)"
  shows "shaped_object rel [] (foldl deepMerge w cs) \<and> defined (Nested (foldl deepMerge w cs))
    \<and> (holds sat (foldl deepMerge w cs) \<longleftrightarrow> holds sat w \<and> (\<forall>c \<in> set cs. holds sat c))"
  using assms
proof (induction cs arbitrary: w)
  case (Cons c cs)
  then show ?case
    using deepMerge_shaped [of rel "[]" w c] deepMerge_defined [of w c] deepMerge_holds [of rel "[]" w c sat]
    by (simp del: shaped.simps(1) defined.simps(1) holds_value.simps(2))
qed simp

lemma foldl_merge_null_free:
  "transformNullValues w = w \<Longrightarrow> \<forall>c \<in> set cs. transformNullValues c = c \<Longrightarrow>
   transformNullValues (foldl deepMerge w cs) = foldl deepMerge w cs"
  by (induction cs arbitrary: w) (simp_all add: deepMerge_null_free)

section \<open>Filter texts\<close>

lemma split_bars_nonempty [simp]: "split_bars s \<noteq> []"
  by (induction s rule: split_bars.induct) (auto split: list.split)

lemma join_split_bars: "js_join ''||'' (split_bars s) = s"
proof (induction s rule: split_bars.induct)
  case (1 a b s)
  obtain w ws where w: "split_bars (b # s) = w # ws" by (cases "split_bars (b # s)") auto
  obtain u us where u: "split_bars s = u # us" by (cases "split_bars s") auto
  show ?case
  proof (cases "a = CHR ''|'' \<and> b = CHR ''|''")
    case True
    then show ?thesis using 1 u by (cases us) auto
  next
    case False
    then show ?thesis using 1 w by (cases ws) auto
  qed
qed simp_all

lemma split_bars_head: "CHR ''|'' \<notin> set a \<Longrightarrow> split_bars (a @ ''||'' @ s) = a # split_bars s"
proof (induction a)
  case (Cons c a)
  then show ?case by (cases a) auto
qed simp

lemma filter_names_trimmed: "(name, op) \<in> set FILTER_OPERATORS \<Longrightarrow> js_trim name = name \<and> name \<noteq> [] \<and> CHR ''|'' \<notin> set name"
  unfolding FILTER_OPERATORS_def by (auto simp: js_trim_def is_space_def)

lemma filter_operators_distinct: "distinct (map fst FILTER_OPERATORS)"
  by (simp add: FILTER_OPERATORS_def)

text \<open>a filter text \<open>field||operator||value\<close> reads back as that field, operator and value, whatever
  the value contains, the separator included.\<close>

theorem filter_text_roundtrip:
  assumes "(name, op) \<in> set FILTER_OPERATORS" and "CHR ''|'' \<notin> set field"
    and "js_trim field = field" and "field \<noteq> []"
  shows "parseFilterStrings [field @ ''||'' @ name @ ''||'' @ value] = Inr [(field, op, value)]"
proof -
  obtain v vs where v: "split_bars value = v # vs" by (cases "split_bars value") auto
  have name: "js_trim name = name" "name \<noteq> []" "CHR ''|'' \<notin> set name" using filter_names_trimmed [OF assms(1)] by blast+
  have "split_bars (field @ ''||'' @ name @ ''||'' @ value) = field # name # v # vs"
    unfolding split_bars_head [OF assms(2)] split_bars_head [OF name(3)] v by (rule refl)
  moreover have "map_of FILTER_OPERATORS name = Some op"
    using assms(1) filter_operators_distinct by (simp add: map_of_eq_Some_iff)
  ultimately show ?thesis using assms(3,4) name(1,2) join_split_bars [of "value"] v by simp
qed

theorem filter_text_roundtrip_witness:
  "parseFilterStrings [''name'' @ ''||'' @ ''$cont'' @ ''||'' @ ''a||b''] = Inr [(''name'', FCont, ''a||b'')]"
  by (rule filter_text_roundtrip) (simp_all add: FILTER_OPERATORS_def js_trim_def is_space_def)

section \<open>Filters and alternatives\<close>

text \<open>several filters are their conjunction. When the fields are valid, the where object built
  from a list of filters holds of a row exactly when the condition of each single filter does, and
  \<open>or\<close> builds the same single conditions as its alternatives. When none of them is null-like, the
  null transformation that follows changes nothing, so both readings agree.\<close>

theorem filters_conjunctive:
  assumes "names_disjoint env" and "validateFieldNamesRecursive env (map fst fs) = Inr ()"
    and "buildFilterWhereClause env fs [] n = Inr (w, n')"
  shows "\<exists>cs. length cs = length fs \<and> buildOrWhereClause env fs n = Inr (map transformNullValues cs, n')
    \<and> (holds sat w \<longleftrightarrow> (\<forall>c \<in> set cs. holds sat c))
    \<and> ((\<forall>c \<in> set cs. transformNullValues c = c) \<longrightarrow> transformNullValues w = w)"
proof -
  obtain cs where cs: "singleConditions env fs n = Inr (cs, n')" "w = foldl deepMerge [] cs"
    using assms(3) by (auto simp: buildFilter_merges split: sum.splits)
  have "\<forall>c \<in> set cs. shaped_object (is_relation env) [] c \<and> defined (Nested c)"
    using assms(2) singleConditions_shaped [OF assms(1) _ cs(1)]
    by (auto simp: validateFieldNames_ok valid_field_def simp del: shaped.simps(1) defined.simps(1))
  then have "holds sat w \<longleftrightarrow> (\<forall>c \<in> set cs. holds sat c)"
    using foldl_merge [of "is_relation env" "[]" cs sat] unfolding cs(2) by simp
  moreover have "length cs = length fs" using cs(1) by (induction fs arbitrary: n cs) (auto split: sum.splits)
  ultimately show ?thesis using foldl_merge_null_free [of "[]" cs] cs by (auto simp: buildOr_transforms)
qed

section \<open>Raw conditions\<close>

text \<open>A set of bound parameters allocated between two values of the counter: every name carries the
  prefix of one of the calls, and no name is bound twice.\<close>

definition allocated :: "nat \<Rightarrow> nat \<Rightarrow> (string \<times> string) set \<Rightarrow> bool" where
  "allocated n n' S \<longleftrightarrow>
     (\<forall>(x, v) \<in> S. \<exists>k. n \<le> k \<and> k < n' \<and> is_prefix (jsonb_prefix k) x)
     \<and> (\<forall>x v v'. (x, v) \<in> S \<longrightarrow> (x, v') \<in> S \<longrightarrow> v = v')"

lemma digits_terminated:
  assumes "list_all is_digit a" and "list_all is_digit b" and "a @ CHR ''_'' # x = b @ CHR ''_'' # y"
  shows "a = b"
  using assms
proof (induction a arbitrary: b)
  case Nil
  then show ?case by (cases b) (auto simp: is_digit_def less_eq_char_def)
next
  case (Cons c a)
  then show ?case by (cases b) (auto simp: is_digit_def less_eq_char_def)
qed

lemma jsonb_prefix_unique: "is_prefix (jsonb_prefix k) x \<Longrightarrow> is_prefix (jsonb_prefix l) x \<Longrightarrow> k = l"
  using digits_terminated [of "show_nat k" "show_nat l"] by (auto simp: is_prefix_conv jsonb_prefix_def)

lemma allocated_empty [simp]: "allocated n n' {}"
  by (simp add: allocated_def)

lemma allocated_ex [simp]: "Ex (allocated n n')"
  using allocated_empty by blast

lemma allocated_subset: "allocated n n' S \<Longrightarrow> T \<subseteq> S \<Longrightarrow> allocated n n' T"
  unfolding allocated_def by blast

lemma allocated_union:
  assumes "allocated a b S" and "allocated b c T" and "a \<le> b" and "b \<le> c"
  shows "allocated a c (S \<union> T)"
proof -
  have disj: False if S: "(x, v) \<in> S" and T: "(x, v') \<in> T" for x v v'
  proof -
    obtain k where k: "k < b" "is_prefix (jsonb_prefix k) x" using assms(1) S unfolding allocated_def by blast
    obtain l where l: "b \<le> l" "is_prefix (jsonb_prefix l) x" using assms(2) T unfolding allocated_def by blast
    show False using jsonb_prefix_unique [OF k(2) l(2)] k(1) l(1) by simp
  qed
  have "\<exists>k. a \<le> k \<and> k < c \<and> is_prefix (jsonb_prefix k) x" if "(x, v) \<in> S \<union> T" for x v
  proof -
    from that consider "(x, v) \<in> S" | "(x, v) \<in> T" by blast
    then obtain k where "a \<le> k" "k < c" "is_prefix (jsonb_prefix k) x"
    proof cases
      case 1
      then obtain k where "a \<le> k" "k < b" "is_prefix (jsonb_prefix k) x" using assms(1) unfolding allocated_def by blast
      then show thesis using that [of k] assms(4) by simp
    next
      case 2
      then obtain k where "b \<le> k" "k < c" "is_prefix (jsonb_prefix k) x" using assms(2) unfolding allocated_def by blast
      then show thesis using that [of k] assms(3) by simp
    qed
    then show ?thesis by blast
  qed
  moreover have "v = v'" if "(x, v) \<in> S \<union> T" and "(x, v') \<in> S \<union> T" for x v v'
    using that assms(1,2) disj unfolding allocated_def by blast
  ultimately show ?thesis unfolding allocated_def by blast
qed

lemma obj_spread_distinct: "distinct (map fst a) \<Longrightarrow> distinct (map fst (obj_spread a b))"
  unfolding obj_spread_def by (induction b arbitrary: a) (auto simp: obj_set_distinct split: prod.split)

lemma obj_spread_subset: "set (obj_spread a b) \<subseteq> set a \<union> set b"
proof (induction b arbitrary: a)
  case (Cons e b)
  obtain k v where e: "e = (k, v)" by (cases e)
  show ?case using Cons [of "obj_set k v a"] obj_set_subset [of k v a] by (auto simp: obj_spread_def e)
qed (simp add: obj_spread_def)

lemma indexed_params_distinct: "distinct (map fst (indexed_params prefix vs))"
proof -
  have "map fst (indexed_params prefix vs) = map (\<lambda>i. prefix @ show_nat i) [0..<length vs]"
    by (rule nth_equalityI) (auto simp: indexed_params_def nth_enumerate_eq)
  then show ?thesis by (simp add: distinct_map inj_on_def)
qed

lemma indexed_params_prefix: "(x, v) \<in> set (indexed_params (pre @ s) vs) \<Longrightarrow> is_prefix pre x"
  by (auto simp: indexed_params_def)

lemma distinct_keys_functional: "distinct (map fst ps) \<Longrightarrow> (x, v) \<in> set ps \<Longrightarrow> (x, v') \<in> set ps \<Longrightarrow> v = v'"
  using eq_key_imp_eq_value by fast

lemma raw_allocated:
  assumes "distinct (map fst a)" and "\<And>x v. (x, v) \<in> set a \<union> set b \<Longrightarrow> is_prefix (jsonb_prefix n) x"
  shows "allocated n (Suc n) (set (obj_spread a b))"
  using obj_spread_subset [of a b] assms(2) distinct_keys_functional [OF obj_spread_distinct [OF assms(1), of b]]
  unfolding allocated_def by blast

lemma jsonb_raw_allocated: "allocated n (Suc n) (op_params (buildJsonbRawCondition c path op v n))"
  using indexed_params_prefix [of _ _ "jsonb_prefix n"] indexed_params_distinct [of "jsonb_prefix n @ ''p''" path]
  by (cases op) (auto simp: buildJsonbRawCondition_def Let_def intro!: raw_allocated)

lemma singleCondition_allocated:
  "singleCondition env f n = Inr (w, n') \<Longrightarrow> n \<le> n' \<and> allocated n n' (obj_params w)"
proof -
  assume s: "singleCondition env f n = Inr (w, n')"
  obtain field op v where f: "f = (field, op, v)" by (cases f)
  show ?thesis
  proof (cases "isJsonbPath env field")
    case True
    then show ?thesis using s jsonb_raw_allocated by (auto simp: singleCondition_def f split: option.splits sum.splits)
  next
    case False
    then obtain x where x: "processedFilterValue env f = Inr x" and w: "w = nest (dotted field) x" "n' = n"
      using s by (auto simp: singleCondition_def f field_object_nest split: sum.splits)
    have "wval_params y = {}" if "applyFilterOperator p t = Inr y" for p t y
      using that by (auto simp: applyFilterOperator_def createBetweenFromString_def split: filter_operator.splits list.splits if_splits)
    then have "wval_params x = {}" using x by (auto simp: processedFilterValue_def f split: sum.splits)
    then have "obj_params w = {}" using setNestedValue_params [of "dotted field" x "[]"] by (simp add: w setNestedValue_empty)
    then show ?thesis using w by simp
  qed
qed

lemma singleConditions_allocated:
  "singleConditions env fs n = Inr (cs, n') \<Longrightarrow> n \<le> n' \<and> allocated n n' (\<Union>c \<in> set cs. obj_params c)"
proof (induction fs arbitrary: n cs)
  case (Cons f fs)
  then obtain c m cs' where c: "singleCondition env f n = Inr (c, m)" and cs': "singleConditions env fs m = Inr (cs', n')" "cs = c # cs'"
    by (auto split: sum.splits)
  then show ?case using singleCondition_allocated [OF c] Cons.IH [OF cs'(1)] allocated_union [of n m "obj_params c" n']
    by (simp del: wval_params.simps(3))
qed simp

lemma foldl_merge_params: "obj_params (foldl deepMerge w cs) \<subseteq> obj_params w \<union> (\<Union>c \<in> set cs. obj_params c)"
proof (induction cs arbitrary: w)
  case (Cons c cs)
  then show ?case using Cons [of "deepMerge w c"] deepMerge_params [of w c] by (simp del: wval_params.simps(3)) blast
qed simp

section \<open>The search object\<close>

lemma obj_set_shaped:
  assumes "shaped_object rel path ob" and "shaped rel (path @ [k]) v"
  shows "shaped_object rel path (obj_set k v ob)"
  using assms obj_set_distinct [of ob k v] by (auto simp: obj_ball_set obj_ball)

lemma setNestedValue_shaped:
  assumes "shaped_object rel path ob" and "ps \<noteq> []" and "shaped rel (path @ ps) v"
    and "\<And>k. 0 < k \<Longrightarrow> k < length ps \<Longrightarrow> rel (path @ take k ps)"
  shows "shaped_object rel path (setNestedValue ps v ob)"
  using assms
proof (induction ps v ob arbitrary: path rule: setNestedValue.induct)
  case (2 p v ob)
  then show ?case using obj_set_shaped by simp
next
  case (3 p q qs v ob)
  have r: "rel (path @ [p])" using "3.prems"(4) [of 1] by simp
  have step: "rel ((path @ [p]) @ take k (q # qs))" if "0 < k" "k < length (q # qs)" for k
    using "3.prems"(4) [of "Suc k"] that by simp
  have sv: "shaped rel ((path @ [p]) @ q # qs) v" using "3.prems"(3) by simp
  have get: "shaped rel (path @ [p]) w" if "obj_get ob p = Some w" for w
    using "3.prems"(1) that by (auto simp: obj_get_def dest: map_of_SomeD)
  have fresh: "shaped_object rel (path @ [p]) []" using r by simp
  show ?case
  proof (cases "obj_get ob p")
    case None
    then show ?thesis using "3.IH"(1) [OF None fresh _ sv step] obj_set_shaped [OF "3.prems"(1)] by (simp del: shaped.simps(1))
  next
    case (Some w)
    then obtain inner where w: "w = Nested inner" using get r by (cases w) auto
    have "shaped_object rel (path @ [p]) (setNestedValue (q # qs) v inner)"
      using "3.IH"(3) [OF Some w get _ sv step] Some w by simp
    then show ?thesis using Some w obj_set_shaped [OF "3.prems"(1)] by (simp del: shaped.simps(1))
  qed
qed simp

lemma conjoined_params [simp]: "op_params (conjoined ops) = (\<Union>op \<in> set ops. op_params op)"
  by (simp add: conjoined_def split: list.split)

lemma applySearchOperator_params: "applySearchOperator p v = Inr op \<Longrightarrow> op_params op = {}"
  by (auto simp: applySearchOperator_def createBetweenOperator_def split: search_operator.splits jval.splits list.splits)

lemma searchConditions_params: "searchConditions env d ob = Inr ops \<Longrightarrow> op \<in> set ops \<Longrightarrow> op_params op = {}"
proof (induction ob arbitrary: ops)
  case (Cons e ob)
  obtain raw v where e: "e = (raw, v)" by (cases e)
  obtain p v' op' ops' where "applySearchOperator p v' = Inr op'" "searchConditions env d ob = Inr ops'" "ops = op' # ops'"
    using Cons.prems(1) by (auto simp: e split: sum.splits)
  then show ?case using Cons.IH Cons.prems(2) applySearchOperator_params by auto
qed simp

lemma buildConditionValue_params:
  assumes "buildConditionValue env c d = Inr v"
  shows "wval_params v = {}" and "\<And>ob. v \<noteq> Nested ob"
  using assms searchConditions_params
  by (fastforce simp: buildConditionValue_def processOperatorCondition_def split: jval.splits if_splits sum.splits)+

lemma jsonbSearch_allocated:
  "jsonbSearchConditions column path ob n = Inr (ops, n') \<Longrightarrow> n \<le> n' \<and> allocated n n' (\<Union>op \<in> set ops. op_params op)"
proof (induction column path ob n arbitrary: ops rule: jsonbSearchConditions.induct)
  case (2 column path raw v rest n)
  then obtain p j ops' where p: "assertValidSearchOperator raw = Inr p" "mapSearchOperatorToJsonbOperator p = Inr j"
      "jsonbSearchConditions column path rest (Suc n) = Inr (ops', n')"
    and ops: "ops = buildJsonbRawCondition column path j (js_string v) n # ops'"
    by (auto split: sum.splits)
  from "2.IH" [OF p] have "Suc n \<le> n'" "allocated (Suc n) n' (\<Union>op \<in> set ops'. op_params op)" by blast+
  then show ?case using ops allocated_union [OF jsonb_raw_allocated [of n column path j "js_string v"], of n'] by simp
qed simp

lemma buildJsonbSearch_allocated:
  "buildJsonbSearchCondition column path c n = Inr (op, n') \<Longrightarrow> n \<le> n' \<and> allocated n n' (op_params op)"
  using jsonbSearch_allocated jsonb_raw_allocated
  by (fastforce simp: buildJsonbSearchCondition_def split: jval.splits if_splits sum.splits)

lemma deepMerge_column_shaped:
  assumes "names_disjoint env" and "isJsonbColumn env c" and "shaped_object (is_relation env) [] w"
  shows "shaped_object (is_relation env) [] (deepMerge w [(c, Operator op)])"
  by (rule deepMerge_shaped) (use assms column_object_shaped in \<open>simp_all del: shaped.simps(1)\<close>)

lemma searchEntry_step:
  assumes "names_disjoint env" and "valid_field env key" and "searchEntry env key c w n = Inr (w', n')"
    and "shaped_object (is_relation env) [] w"
  shows "shaped_object (is_relation env) [] w' \<and> n \<le> n' \<and> (\<exists>S. allocated n n' S \<and> obj_params w' \<subseteq> obj_params w \<union> S)"
proof (cases "isJsonbPath env key")
  case True
  show ?thesis
  proof (cases "extractJsonbColumnAndPath env key")
    case None
    then show ?thesis using True assms allocated_empty by (auto simp: searchEntry_def simp del: shaped.simps(1) wval_params.simps(3))
  next
    case (Some cp)
    then obtain col path op where x: "extractJsonbColumnAndPath env key = Some (col, path)"
        and b: "buildJsonbSearchCondition col path c n = Inr (op, n')" and w': "w' = deepMerge w [(col, Operator op)]"
      using True assms(3) by (cases cp) (auto simp: searchEntry_def split: sum.splits)
    have "obj_params w' \<subseteq> obj_params w \<union> op_params op" using deepMerge_params [of w "[(col, Operator op)]"] w' by simp
    moreover have "shaped_object (is_relation env) [] w'"
      unfolding w' by (rule deepMerge_column_shaped [OF assms(1) extract_column [OF x] assms(4)])
    ultimately show ?thesis using buildJsonbSearch_allocated [OF b] by blast
  qed
next
  case False
  then obtain v where v: "buildConditionValue env c (isDateColumnRecursive env key) = Inr v" and n: "n' = n"
      and w': "w' = (if js_includes ''.'' key then setNestedValue (dotted key) v w else obj_set key v w)"
    using assms(3) by (auto simp: searchEntry_def split: sum.splits)
  have w'_nest: "w' = setNestedValue (dotted key) v w" using dotted_single [of key] by (simp add: w')
  have r: "resolve_parts (qe_schema env) (root_meta env) (dotted key) \<noteq> None"
    using assms(2) False by (simp add: valid_field_def resolveColumnMetadata_parts)
  have "shaped (is_relation env) (dotted key) v"
    using buildConditionValue_params(2) [OF v] column_path_shape(1) [OF assms(1) r] by (cases v) auto
  then have "shaped_object (is_relation env) [] w'" unfolding w'_nest
    using setNestedValue_shaped [OF assms(4)] column_path_shape(2) [OF assms(1) r] by (simp del: shaped.simps(1))
  moreover have "obj_params w' \<subseteq> obj_params w \<union> {}"
    using setNestedValue_params [of "dotted key" v w] buildConditionValue_params(1) [OF v] w'_nest by simp
  ultimately show ?thesis using n allocated_empty by blast
qed

lemma searchEntries_step:
  assumes "names_disjoint env"
  shows "\<forall>(key, c) \<in> set kvs. valid_field env key \<Longrightarrow> searchEntries env kvs w n = Inr (w', n') \<Longrightarrow>
    shaped_object (is_relation env) [] w \<Longrightarrow>
    shaped_object (is_relation env) [] w' \<and> n \<le> n' \<and> (\<exists>S. allocated n n' S \<and> obj_params w' \<subseteq> obj_params w \<union> S)"
proof (induction kvs arbitrary: w n)
  case (Cons e kvs)
  obtain key c where e: "e = (key, c)" by (cases e)
  from Cons.prems obtain u m where u: "searchEntry env key c w n = Inr (u, m)" and rest: "searchEntries env kvs u m = Inr (w', n')"
    by (auto simp: e split: sum.splits)
  have key: "valid_field env key" using Cons.prems(1) by (simp add: e)
  obtain S where S: "shaped_object (is_relation env) [] u" "n \<le> m" "allocated n m S" "obj_params u \<subseteq> obj_params w \<union> S"
    using searchEntry_step [OF assms key u Cons.prems(3)] by blast
  have "\<forall>(key, c) \<in> set kvs. valid_field env key" using Cons.prems(1) by simp
  from Cons.IH [OF this rest S(1)] obtain T where T: "shaped_object (is_relation env) [] w'" "m \<le> n'"
      "allocated m n' T" "obj_params w' \<subseteq> obj_params u \<union> T" by blast
  have "obj_params w' \<subseteq> obj_params w \<union> (S \<union> T)" using S(4) T(4) by blast
  then show ?case using allocated_union [OF S(3) T(3) S(2) T(2)] S(2) T(1,2) le_trans by blast
qed (use allocated_empty in \<open>auto simp del: shaped.simps(1) wval_params.simps(3)\<close>)

section \<open>Only columns of the metadata\<close>

definition column_path :: "qenv \<Rightarrow> string list \<Rightarrow> bool" where
  "column_path env ps \<longleftrightarrow> resolve_parts (qe_schema env) (root_meta env) ps \<noteq> None"

lemma jsonb_column_path: "isJsonbColumn env c \<Longrightarrow> column_path env [c]"
  by (auto simp: isJsonbColumn_def column_path_def split: option.splits)

lemma field_column_path: "valid_field env f \<Longrightarrow> \<not> isJsonbPath env f \<Longrightarrow> column_path env (dotted f)"
  by (simp add: valid_field_def column_path_def resolveColumnMetadata_parts)

lemma leaf_paths_leaf: "(\<And>ob. v \<noteq> Nested ob) \<Longrightarrow> leaf_paths path v = {path}"
  by (cases v) auto

lemma singleCondition_paths:
  assumes "valid_field env (fst f)" and "singleCondition env f n = Inr (w, n')" and "p \<in> where_paths w"
  shows "column_path env p"
proof -
  obtain field op v where f: "f = (field, op, v)" by (cases f)
  show ?thesis
  proof (cases "isJsonbPath env field")
    case True
    then show ?thesis using assms(2,3) jsonb_column_path extract_column
      by (fastforce simp: singleCondition_def f split: option.splits sum.splits)
  next
    case False
    then obtain x where x: "processedFilterValue env f = Inr x" and w: "w = nest (dotted field) x"
      using assms(2) by (auto simp: singleCondition_def f field_object_nest split: sum.splits)
    have "leaf_paths (dotted field) x = {dotted field}"
      by (rule leaf_paths_leaf) (use processedFilterValue_leaf [OF x] in auto)
    then have "where_paths w \<subseteq> {dotted field}"
      using setNestedValue_paths [of "[]" "dotted field" x "[]"] unfolding w setNestedValue_empty by simp
    then have "p = dotted field" using assms(3) by blast
    then show ?thesis using field_column_path [OF assms(1)] False by (simp add: f)
  qed
qed

lemma singleConditions_paths:
  "\<forall>f \<in> set fs. valid_field env (fst f) \<Longrightarrow> singleConditions env fs n = Inr (cs, n') \<Longrightarrow> c \<in> set cs \<Longrightarrow>
   p \<in> where_paths c \<Longrightarrow> column_path env p"
proof (induction fs arbitrary: n cs)
  case (Cons f fs)
  then obtain d m cs' where d: "singleCondition env f n = Inr (d, m)" and "singleConditions env fs m = Inr (cs', n')" "cs = d # cs'"
    by (auto split: sum.splits)
  then show ?case using Cons.prems Cons.IH singleCondition_paths [OF _ d] by (auto simp del: leaf_paths.simps(1))
qed simp

lemma foldl_merge_paths: "where_paths (foldl deepMerge w cs) \<subseteq> where_paths w \<union> (\<Union>c \<in> set cs. where_paths c)"
proof (induction cs arbitrary: w)
  case (Cons c cs)
  then show ?case using Cons [of "deepMerge w c"] deepMerge_paths [of "[]" w c] by (simp del: leaf_paths.simps(1)) blast
qed simp

lemma searchEntry_paths:
  assumes "valid_field env key" and "searchEntry env key c w n = Inr (w', n')" and "\<forall>p \<in> where_paths w. column_path env p"
  shows "\<forall>p \<in> where_paths w'. column_path env p"
proof (cases "isJsonbPath env key")
  case True
  then consider "w' = w" | col op where "isJsonbColumn env col" "w' = deepMerge w [(col, Operator op)]"
    using assms(2) extract_column by (fastforce simp: searchEntry_def split: option.splits sum.splits)
  then show ?thesis
  proof cases
    case 2
    then show ?thesis using assms(3) jsonb_column_path deepMerge_paths [of "[]" w "[(col, Operator op)]"]
      by (auto simp del: leaf_paths.simps(1)) (auto)
  qed (use assms in simp)
next
  case False
  then obtain v where v: "buildConditionValue env c (isDateColumnRecursive env key) = Inr v"
      and w': "w' = (if js_includes ''.'' key then setNestedValue (dotted key) v w else obj_set key v w)"
    using assms(2) by (auto simp: searchEntry_def split: sum.splits)
  have "w' = setNestedValue (dotted key) v w" using dotted_single [of key] by (simp add: w')
  then have "where_paths w' \<subseteq> {dotted key} \<union> where_paths w"
    using setNestedValue_paths [of "[]" "dotted key" v w] leaf_paths_leaf [OF buildConditionValue_params(2) [OF v]] by simp
  then show ?thesis using assms(3) field_column_path [OF assms(1) False] by blast
qed

lemma searchEntries_paths:
  "\<forall>(key, c) \<in> set kvs. valid_field env key \<Longrightarrow> searchEntries env kvs w n = Inr (w', n') \<Longrightarrow>
   \<forall>p \<in> where_paths w. column_path env p \<Longrightarrow> \<forall>p \<in> where_paths w'. column_path env p"
proof (induction kvs arbitrary: w n)
  case (Cons e kvs)
  obtain key c where e: "e = (key, c)" by (cases e)
  from Cons.prems obtain u m where u: "searchEntry env key c w n = Inr (u, m)" and rest: "searchEntries env kvs u m = Inr (w', n')"
    by (auto simp: e split: sum.splits)
  have "valid_field env key" using Cons.prems(1) by (simp add: e)
  then have "\<forall>p \<in> where_paths u. column_path env p" by (rule searchEntry_paths [OF _ u Cons.prems(3)])
  then show ?case using Cons.IH [OF _ rest] Cons.prems(1) unfolding e by (simp del: leaf_paths.simps(1))
qed simp

section \<open>An example entity\<close>

definition example_column :: "string \<Rightarrow> string \<Rightarrow> column_meta" where
  "example_column name type = \<lparr>col_name = name, col_type = type, col_enum = None\<rparr>"

definition item_meta :: entity_meta where
  "item_meta = \<lparr>em_columns = [example_column ''id'' ''uuid'', example_column ''name'' ''varchar'',
       example_column ''created_at'' ''timestamptz'', example_column ''is_deleted'' ''bool'',
       example_column ''deleted_at'' ''timestamptz'', example_column ''meta'' ''jsonb'',
       (example_column ''status'' ''enum'')\<lparr>col_enum := Some [''open'', ''closed'']\<rparr>],
     em_primary = [''id''], em_relations = [(''owner'', ''users'')]\<rparr>"

definition item_env :: qenv where
  "item_env = \<lparr>qe_schema = (\<lambda>_. item_meta), qe_root = ''items'',
     qe_dates = \<lparr>dj_isValid = (\<lambda>s. s \<noteq> ''null''), dj_toISO = (\<lambda>s. s),
       dj_tzISO = (\<lambda>s tz. if tz = ''Asia/Bangkok'' then Some (s @ ''+07:00'') else None),
       dj_tzStart = (\<lambda>s tz. if tz = ''Asia/Bangkok'' then Some (s @ ''T00:00:00+07:00'') else None),
       dj_tzEnd = (\<lambda>s tz. if tz = ''Asia/Bangkok'' then Some (s @ ''T23:59:59+07:00'') else None)\<rparr>,
     qe_timezone = ''Asia/Bangkok'', qe_json_parse = (\<lambda>_. None)\<rparr>"

lemma example_names_disjoint: "names_disjoint item_env"
  by (simp add: names_disjoint_def item_env_def item_meta_def example_column_def)

definition example_filters :: "parsed_filter list" where
  "example_filters = [(''name'', FCont, ''a''), (''meta.color'', FEq, ''red''), (''owner.name'', FNe, ''b''), (''name'', FNe, ''x'')]"

theorem filters_conjunctive_witness:
  "\<exists>w n cs. buildFilterWhereClause item_env example_filters [] 0 = Inr (w, n) \<and> length cs = 4
     \<and> (holds (\<lambda>path op. path \<noteq> [''name'']) w \<longleftrightarrow> (\<forall>c \<in> set cs. holds (\<lambda>path op. path \<noteq> [''name'']) c))"
proof -
  have "\<not> isl (buildFilterWhereClause item_env example_filters [] 0)" by code_simp
  then obtain w n where b: "buildFilterWhereClause item_env example_filters [] 0 = Inr (w, n)"
    by (metis sum.collapse(2) surj_pair)
  have v: "validateFieldNamesRecursive item_env (map fst example_filters) = Inr ()" by code_simp
  have "length example_filters = 4" by (simp add: example_filters_def)
  then show ?thesis using filters_conjunctive [OF example_names_disjoint v b, of "\<lambda>path op. path \<noteq> [''name'']"] b
    by (metis (no_types, lifting))
qed

section \<open>User text and SQL text\<close>

text \<open>What the text of a JSON condition may depend on besides its column, operator and path length.\<close>

definition jsonb_shape :: "jsonb_operator \<Rightarrow> string \<Rightarrow> nat" where
  "jsonb_shape op v =
     (case op of
        JEq \<Rightarrow> of_bool (v = []) | JNe \<Rightarrow> of_bool (v = [])
      | JIn \<Rightarrow> length (parseCommaSeparatedValues v)
      | JIsnull \<Rightarrow> of_bool (js_to_lower v = ''false'') | JNotnull \<Rightarrow> of_bool (js_to_lower v = ''false'')
      | _ \<Rightarrow> 0)"

definition condition_text :: "find_operator \<Rightarrow> string \<Rightarrow> string option" where
  "condition_text op alias = (case op of Raw r ps \<Rightarrow> Some (raw_text r alias) | _ \<Rightarrow> None)"

text \<open>the SQL text of a condition on a JSON column never contains user text. Two conditions on the
  same column with paths of the same length and values of the same shape (empty or not, number of
  list items) have the same text for every alias; path segments and values travel as bound
  parameters only.\<close>

theorem jsonb_sql_independent:
  assumes "length path = length path'" and "jsonb_shape op v = jsonb_shape op v'"
  shows "\<exists>sql. condition_text (buildJsonbRawCondition column path op v n) alias = Some sql
    \<and> condition_text (buildJsonbRawCondition column path' op v' n) alias = Some sql"
  using assms by (cases op) (auto simp: buildJsonbRawCondition_def condition_text_def jsonb_shape_def Let_def of_bool_def split: if_splits)

theorem jsonb_sql_independent_witness:
  "\<exists>sql. condition_text (buildJsonbRawCondition ''meta'' [''color''] JEq ''red'' 0) ''item.meta'' = Some sql
    \<and> condition_text (buildJsonbRawCondition ''meta'' [[CHR 0x27]] JEq [CHR 0x27] 0) ''item.meta'' = Some sql"
  by (rule jsonb_sql_independent) (simp_all add: jsonb_shape_def)

section \<open>Null-like values\<close>

text \<open>an empty \<open>$eq\<close> value means IS NULL on its own, and no longer does when a second filter names
  the same field: the merged condition compares with the empty text.\<close>

theorem empty_eq_merged:
  "map_sum id (transformNullValues \<circ> fst) (buildFilterWhereClause item_env [(''name'', FEq, [])] [] 0)
     = Inr [(''name'', Operator IsNull)]
   \<and> map_sum id (transformNullValues \<circ> fst) (buildFilterWhereClause item_env [(''name'', FEq, []), (''name'', FNe, ''x'')] [] 0)
     = Inr [(''name'', Operator (And [Equal (Plain (VStr [])), Not (Plain (VStr ''x''))]))]"
  by (rule conjI) code_simp+

text \<open>the literal \<open>null\<close> means IS NULL on a plain column, and is refused on a date column for which
  Dayjs does not read it as a date.\<close>

theorem null_literal_on_dates:
  assumes "isDateColumnRecursive env field" and "\<not> isJsonbPath env field" and "\<not> dj_isValid (qe_dates env) ''null''"
  shows "\<exists>m. singleCondition env (field, FEq, ''null'') n = Inl (InvalidParameterException ''date'' m)"
    and "\<not> isDateColumnRecursive env' f \<Longrightarrow> getEnumValuesRecursive env' f = None \<Longrightarrow> processedFilterValue env' (f, FEq, ''null'') = Inr (Operator IsNull)"
proof -
  have col: "col_type column \<noteq> ''enum''" if "resolveColumnMetadata env field = Some column" for column
    using assms(1) that by (auto simp: isDateColumnRecursive_def DATE_COLUMN_TYPES_def)
  then have "getEnumValuesRecursive env field = None" by (auto simp: getEnumValuesRecursive_def split: option.split)
  moreover have "js_trim ''null'' = ''null''" "\<not> isDateOnly ''null''" by code_simp+
  ultimately show "\<exists>m. singleCondition env (field, FEq, ''null'') n = Inl (InvalidParameterException ''date'' m)"
    using assms by (simp add: singleCondition_def processedFilterValue_def validateEnumValueForFilter_def
        processDateValueForFilter_def processDateValue_def)
  have "isNullishLiteral ''null''" by code_simp
  then show "\<not> isDateColumnRecursive env' f \<Longrightarrow> getEnumValuesRecursive env' f = None \<Longrightarrow> processedFilterValue env' (f, FEq, ''null'') = Inr (Operator IsNull)"
    by (simp add: processedFilterValue_def validateEnumValueForFilter_def applyFilterOperator_def)
qed

text \<open>a filter on a JSON column without a path inside it gives the empty condition, which every row
  satisfies, also as an alternative of \<open>or\<close>.\<close>

theorem bare_json_filter_ignored:
  assumes "isJsonbColumn env f" and "CHR ''.'' \<notin> set f" and "f \<noteq> []"
  shows "buildOrWhereClause env [(f, op, v)] n = Inr ([[]], n)" and "holds sat []"
proof -
  have "dotted f = [f]" using assms(2) by (simp add: dotted_def js_split_no_sep)
  then show "buildOrWhereClause env [(f, op, v)] n = Inr ([[]], n)"
    using assms by (simp add: singleCondition_def isJsonbPath_def extractJsonbColumnAndPath_def)
qed simp

end
