(* ===== verification/Query_Builder.thy ===== *)
theory Query_Builder
  imports Query_Meaning Base_Service Complex_Main
begin

text \<open>
  \<open>TypeOrmQueryBuilder.build\<close> of
  \<open>libs/common/src/utils/base-operations/typeorm-query-builder.util.ts\<close> (pagination, sorting, filters,
  exclusions, relations, field selection) and the list reads of
  \<open>libs/common/src/utils/base-operations/base-service-operations.util.ts\<close> that run on its result
  (\<open>findAll\<close>, \<open>findOneOrQuery\<close>, \<open>findPaginated\<close>). The query parameters are those of
  \<open>libs/common/src/dto/query-params.dto.ts\<close> after its conversions. A JavaScript number is \<open>js_number\<close>:
  its finite values are rationals, and the integer products and differences of the pagination are
  rounded to 53 bits as doubles are.
\<close>

section \<open>Numbers\<close>

datatype js_number = NaN | PosInf | NegInf | Fin rat

fun js_floor :: "js_number \<Rightarrow> js_number" where
  "js_floor (Fin x) = Fin (of_int \<lfloor>x\<rfloor>)"
| "js_floor x = x"

fun js_less :: "js_number \<Rightarrow> js_number \<Rightarrow> bool" where
  "js_less NaN y = False"
| "js_less x NaN = False"
| "js_less PosInf y = False"
| "js_less x NegInf = False"
| "js_less NegInf y = True"
| "js_less x PosInf = True"
| "js_less (Fin x) (Fin y) = (x < y)"

text \<open>\<open>Math.max\<close> and \<open>Math.min\<close> of two numbers.\<close>

definition js_max :: "js_number \<Rightarrow> js_number \<Rightarrow> js_number" where
  "js_max x y = (if x = NaN \<or> y = NaN then NaN else if js_less x y then y else x)"

definition js_min :: "js_number \<Rightarrow> js_number \<Rightarrow> js_number" where
  "js_min x y = (if x = NaN \<or> y = NaN then NaN else if js_less x y then x else y)"

text \<open>An integer result rounded to a double: 53 significant bits, ties to even, and Infinity from
  \<open>2 ^ 1024\<close> on; integers up to \<open>2 ^ 53\<close> are exact.\<close>

fun bit_length :: "nat \<Rightarrow> nat" where
  "bit_length n = (if n = 0 then 0 else Suc (bit_length (n div 2)))"

declare bit_length.simps [simp del]

definition round53 :: "nat \<Rightarrow> nat" where
  "round53 n =
     (let k = bit_length n - 53; q = n div 2 ^ k; r = n mod 2 ^ k; half = 2 ^ (k - 1) in
      (if half < r \<or> (r = half \<and> odd q) then Suc q else q) * 2 ^ k)"

definition js_round_int :: "int \<Rightarrow> js_number" where
  "js_round_int z =
     (if \<bar>z\<bar> \<le> 9007199254740992 then Fin (of_int z)
      else let m = round53 (nat \<bar>z\<bar>) in
           if 2 ^ 1024 \<le> m then (if 0 < z then PosInf else NegInf) else Fin (of_int (sgn z * int m)))"

text \<open>\<open>page - 1\<close>, \<open>(page - 1) * limit\<close> on integers.\<close>

fun js_pred :: "js_number \<Rightarrow> js_number" where
  "js_pred (Fin x) = js_round_int (\<lfloor>x\<rfloor> - 1)"
| "js_pred x = x"

fun js_times :: "js_number \<Rightarrow> js_number \<Rightarrow> js_number" where
  "js_times (Fin x) (Fin y) = js_round_int (\<lfloor>x\<rfloor> * \<lfloor>y\<rfloor>)"
| "js_times NaN y = NaN"
| "js_times x NaN = NaN"
| "js_times (Fin x) y = (if x = 0 then NaN else if (0 < x) = (y = PosInf) then PosInf else NegInf)"
| "js_times x (Fin y) = (if y = 0 then NaN else if (0 < y) = (x = PosInf) then PosInf else NegInf)"
| "js_times x y = (if x = y then PosInf else NegInf)"

section \<open>Query parameters and find options\<close>

record query_params =
  q_page :: "js_number option"
  q_offset :: "js_number option"
  q_limit :: "js_number option"
  q_sort :: "string option"
  q_s :: jval
  q_filter :: jval
  q_or :: jval
  q_relations :: "string option"
  q_fields :: "string option"
  q_exclude_ids :: jval
  q_ignore_limit :: bool
  q_get_count_only :: bool

datatype sort_direction = ASC | DESC

datatype select_value = SelectTrue | SelectObject "(string \<times> select_value) list"

record find_options =
  fo_take :: "js_number option"
  fo_skip :: "js_number option"
  fo_order :: "(string \<times> sort_direction) list option"
  fo_where :: where_clause
  fo_relations :: "string list option"
  fo_select :: "(string \<times> select_value) list option"

section \<open>Pagination\<close>

text \<open>\<open>Number(value)\<close> of an optional number.\<close>

definition js_Number :: "js_number option \<Rightarrow> js_number" where
  "js_Number v = (case v of None \<Rightarrow> NaN | Some x \<Rightarrow> x)"

definition MAX_QUERY_LIMIT :: js_number where
  "MAX_QUERY_LIMIT = Fin 2000"

definition DEFAULT_LIMIT :: js_number where
  "DEFAULT_LIMIT = Fin 10"

definition parsePositiveInteger :: "js_number option \<Rightarrow> js_number \<Rightarrow> js_number \<Rightarrow> js_number" where
  "parsePositiveInteger v defaultValue minValue =
     (let parsed = js_Number v in if parsed = NaN then defaultValue else js_max minValue (js_floor parsed))"

text \<open>\<open>resolveMaxLimit\<close>; the argument is \<open>Number(process.env.QUERY_MAX_LIMIT)\<close>.\<close>

definition resolveMaxLimit :: "js_number \<Rightarrow> js_number" where
  "resolveMaxLimit fromEnv =
     (case fromEnv of Fin x \<Rightarrow> if 0 < x then Fin (of_int \<lfloor>x\<rfloor>) else MAX_QUERY_LIMIT | _ \<Rightarrow> MAX_QUERY_LIMIT)"

definition isValidOffset :: "js_number \<Rightarrow> bool" where
  "isValidOffset offset = (offset \<noteq> NaN \<and> \<not> js_less offset (Fin 0))"

definition applyPagination :: "js_number \<Rightarrow> query_params \<Rightarrow> js_number \<times> js_number" where
  "applyPagination fromEnv q =
     (let requestedLimit = parsePositiveInteger (q_limit q) DEFAULT_LIMIT (Fin 1);
          limit = js_min requestedLimit (resolveMaxLimit fromEnv);
          page = parsePositiveInteger (q_page q) (Fin 1) (Fin 1);
          offset = js_Number (q_offset q)
      in (limit, if isValidOffset offset then offset else js_times (js_pred page) limit))"

section \<open>Sorting\<close>

definition parseSortField :: "string \<Rightarrow> string option \<times> sort_direction" where
  "parseSortField field =
     (let parts = js_split CHR '':'' field; key = js_trim (hd parts) in
      if key = [] then (None, ASC)
      else (Some key,
            case tl parts of
              [] \<Rightarrow> ASC
            | d # _ \<Rightarrow> if js_to_upper (js_trim d) = ''DESC'' then DESC else ASC))"

fun sortFields :: "string list \<Rightarrow> (string \<times> sort_direction) list" where
  "sortFields [] = []"
| "sortFields (field # rest) =
     (case parseSortField field of (None, _) \<Rightarrow> sortFields rest | (Some key, dir) \<Rightarrow> (key, dir) # sortFields rest)"

definition parseSortString :: "qenv \<Rightarrow> string \<Rightarrow> (string \<times> sort_direction) list qresult" where
  "parseSortString env sortString =
     (let pairs = sortFields (js_split CHR '','' sortString) in
      case validateFieldNamesRecursive env (map fst pairs) of
        Inl e \<Rightarrow> Inl e
      | Inr _ \<Rightarrow> Inr (obj_spread [] pairs))"

text \<open>\<open>isNonEmptyString\<close> and the early return that \<open>sort\<close>, \<open>relations\<close> and \<open>fields\<close> share.\<close>

definition when_given :: "string option \<Rightarrow> (string \<Rightarrow> 'a qresult) \<Rightarrow> 'a option qresult" where
  "when_given param f =
     (case param of
        None \<Rightarrow> Inr None
      | Some s \<Rightarrow> if s = [] then Inr None else (case f s of Inl e \<Rightarrow> Inl e | Inr r \<Rightarrow> Inr (Some r)))"

definition applySorting :: "qenv \<Rightarrow> query_params \<Rightarrow> (string \<times> sort_direction) list option qresult" where
  "applySorting env q = when_given (q_sort q) (parseSortString env)"

section \<open>Filters and exclusions\<close>

definition applyFilters :: "qenv \<Rightarrow> query_params \<Rightarrow> where_clause qresult" where
  "applyFilters env q =
     (case parseSearchParameter env (q_s q) 0 of Inl e \<Rightarrow> Inl e | Inr (searchConds, n) \<Rightarrow>
       (case parseFilterParameter env (q_filter q) n of Inl e \<Rightarrow> Inl e | Inr (filterConds, n') \<Rightarrow>
         (case parseOrParameter env (q_or q) n' of Inl e \<Rightarrow> Inl e | Inr (orConds, n'') \<Rightarrow>
           Inr (combineAndOrConditions (transformNullValues (deepMerge searchConds filterConds)) orConds))))"

text \<open>The identifiers \<open>exclude_ids\<close> names.\<close>

definition excludeIds :: "jval \<Rightarrow> string list" where
  "excludeIds raw =
     (case raw of
        VStr s \<Rightarrow> parseCommaSeparatedValues s
      | VArr vs \<Rightarrow> filter (\<lambda>i. i \<noteq> []) (concat (map (\<lambda>v. case v of VStr i \<Rightarrow> [i] | _ \<Rightarrow> []) vs))
      | _ \<Rightarrow> [])"

definition applyExclusions :: "qenv \<Rightarrow> query_params \<Rightarrow> where_clause \<Rightarrow> where_clause" where
  "applyExclusions env q whr =
     (if excludeIds (q_exclude_ids q) = [] then whr
      else (case em_primary (root_meta env) of
              [] \<Rightarrow> whr
            | pkName # _ \<Rightarrow>
                (let exclusionCondition = [(pkName, Operator (Not (Operator (In (map VStr (excludeIds (q_exclude_ids q)))))))] in
                 case whr of
                   WhereArray conds \<Rightarrow> WhereArray (map (\<lambda>cond. deepMerge cond exclusionCondition) conds)
                 | WhereObject ob \<Rightarrow> WhereObject (deepMerge ob exclusionCondition))))"

section \<open>Relations\<close>

text \<open>\<open>VALID_RELATION_PATTERN\<close>.\<close>

definition valid_relation_pattern :: "string \<Rightarrow> bool" where
  "valid_relation_pattern relation = list_all (\<lambda>w. w \<noteq> [] \<and> list_all is_word_char w) (dotted relation)"

fun check_relations :: "string list \<Rightarrow> string list \<Rightarrow> unit qresult" where
  "check_relations allowedRelations [] = Inr ()"
| "check_relations allowedRelations (relation # rest) =
     (if \<not> valid_relation_pattern relation then
        Inl (RelationException (''Invalid characters in requested relation: '' @ quoted relation))
      else if relation \<notin> set allowedRelations then
        Inl (RelationException (''Relation not allowed: '' @ quoted relation))
      else check_relations allowedRelations rest)"

definition validateAndParseRelations :: "string list \<Rightarrow> string \<Rightarrow> string list qresult" where
  "validateAndParseRelations allowedRelations relationsString =
     (let requested = parseCommaSeparatedValues relationsString in
      if allowedRelations = [] \<and> requested \<noteq> [] then
        Inl (RelationException ''No relations are allowed for this endpoint.'')
      else (case check_relations allowedRelations requested of Inl e \<Rightarrow> Inl e | Inr _ \<Rightarrow> Inr requested))"

definition applyRelations :: "string list \<Rightarrow> query_params \<Rightarrow> string list option qresult" where
  "applyRelations allowedRelations q = when_given (q_relations q) (validateAndParseRelations allowedRelations)"

section \<open>Field selection\<close>

definition isValidColumn :: "entity_meta \<Rightarrow> string \<Rightarrow> bool" where
  "isValidColumn m columnName = (findColumnWithPropertyName m columnName \<noteq> None)"

text \<open>The columns of a relation that the walk adds without overwriting.\<close>

definition add_columns :: "string list \<Rightarrow> (string \<times> select_value) list \<Rightarrow> (string \<times> select_value) list" where
  "add_columns cols target = fold (\<lambda>c t. if obj_get t c \<noteq> None then t else obj_set c SelectTrue t) cols target"

text \<open>\<open>buildNestedSelect\<close> at one level: \<open>m\<close> is \<open>currentMetadata\<close>, the last argument \<open>currentLevel\<close>.
  Where the level already selects the part as a column, the walk stays on the same level and
  entity.\<close>

fun buildNestedSelect ::
    "(string \<Rightarrow> entity_meta) \<Rightarrow> string \<Rightarrow> entity_meta \<Rightarrow> string list \<Rightarrow> (string \<times> select_value) list
     \<Rightarrow> (string \<times> select_value) list qresult" where
  "buildNestedSelect sch path m [] level = Inr level"
| "buildNestedSelect sch path m [part] level =
     (if \<not> isValidColumn m part then
        Inl (InvalidParameterException ''fields'' (''Invalid nested column: '' @ quoted part @ '' in path '' @ quoted path))
      else Inr (obj_set part SelectTrue level))"
| "buildNestedSelect sch path m (part # rest) level =
     (case findRelationWithPropertyPath m part of
        None \<Rightarrow> Inl (InvalidParameterException ''fields'' (''Invalid relation: '' @ quoted part @ '' in path '' @ quoted path))
      | Some e \<Rightarrow>
          if obj_get level part = Some SelectTrue then buildNestedSelect sch path m rest level
          else
            (let relationTarget = (case obj_get level part of Some (SelectObject ob) \<Rightarrow> ob | _ \<Rightarrow> []);
                 columnsToSelect = (if 1 < length rest then map col_name (em_columns (sch e)) else em_primary (sch e)) in
             case buildNestedSelect sch path (sch e) rest (add_columns columnsToSelect relationTarget) of
               Inl er \<Rightarrow> Inl er
             | Inr ob \<Rightarrow> Inr (obj_set part (SelectObject ob) level)))"

fun select_fields :: "qenv \<Rightarrow> string list \<Rightarrow> (string \<times> select_value) list \<Rightarrow> (string \<times> select_value) list qresult" where
  "select_fields env [] selectObject = Inr selectObject"
| "select_fields env (fieldPath # rest) selectObject =
     (if \<not> js_includes ''.'' fieldPath then
        (if isValidColumn (root_meta env) fieldPath then select_fields env rest (obj_set fieldPath SelectTrue selectObject)
         else Inl (InvalidParameterException ''fields'' (''Invalid column: '' @ quoted fieldPath)))
      else (case buildNestedSelect (qe_schema env) fieldPath (root_meta env) (dotted fieldPath) selectObject of
              Inl e \<Rightarrow> Inl e
            | Inr selectObject' \<Rightarrow> select_fields env rest selectObject'))"

definition parseAndValidateFields :: "qenv \<Rightarrow> string \<Rightarrow> (string \<times> select_value) list qresult" where
  "parseAndValidateFields env fieldsString =
     (let requestedFields = fold (\<lambda>pk fs. if pk \<in> set fs then fs else fs @ [pk]) (em_primary (root_meta env))
                              (parseCommaSeparatedValues fieldsString)
      in select_fields env requestedFields [])"

definition applyFieldSelection :: "qenv \<Rightarrow> query_params \<Rightarrow> (string \<times> select_value) list option qresult" where
  "applyFieldSelection env q = when_given (q_fields q) (parseAndValidateFields env)"

section \<open>Build\<close>

definition build :: "qenv \<Rightarrow> js_number \<Rightarrow> string list \<Rightarrow> query_params \<Rightarrow> find_options qresult" where
  "build env fromEnv allowedRelations q =
     (case applySorting env q of Inl e \<Rightarrow> Inl e | Inr order \<Rightarrow>
       (case applyFilters env q of Inl e \<Rightarrow> Inl e | Inr whr \<Rightarrow>
         (case applyRelations allowedRelations q of Inl e \<Rightarrow> Inl e | Inr relations \<Rightarrow>
           (case applyFieldSelection env q of Inl e \<Rightarrow> Inl e | Inr sel \<Rightarrow>
             Inr \<lparr>fo_take = Some (fst (applyPagination fromEnv q)), fo_skip = Some (snd (applyPagination fromEnv q)),
                  fo_order = order, fo_where = applyExclusions env q whr, fo_relations = relations, fo_select = sel\<rparr>))))"

section \<open>The conditions of a query\<close>

lemma empty_object [simp]:
  "leaf_paths path (Nested []) = {}" "obj_params [] = {}" "defined (Nested [])"
  by simp_all

lemmas object_simps = leaf_paths.simps(1) shaped.simps(1) wval_params.simps(3) holds_value.simps(2) defined.simps(1)

declare object_simps [simp del]

text \<open>The three parts that \<open>applyFilters\<close> combines.\<close>

definition query_parts :: "qenv \<Rightarrow> query_params \<Rightarrow> (wobj \<times> wobj list) qresult" where
  "query_parts env q =
     (case parseSearchParameter env (q_s q) 0 of Inl e \<Rightarrow> Inl e | Inr (searchConds, n) \<Rightarrow>
       (case parseFilterParameter env (q_filter q) n of Inl e \<Rightarrow> Inl e | Inr (filterConds, n') \<Rightarrow>
         (case parseOrParameter env (q_or q) n' of Inl e \<Rightarrow> Inl e | Inr (orConds, n'') \<Rightarrow>
           Inr (transformNullValues (deepMerge searchConds filterConds), orConds))))"

lemma applyFilters_parts:
  "applyFilters env q = (case query_parts env q of Inl e \<Rightarrow> Inl e | Inr (a, ors) \<Rightarrow> Inr (combineAndOrConditions a ors))"
  by (simp add: applyFilters_def query_parts_def split: sum.split)

lemma build_parts:
  assumes "build env fromEnv allowed q = Inr fo"
  obtains a ors where "query_parts env q = Inr (a, ors)"
    and "fo_where fo = applyExclusions env q (combineAndOrConditions a ors)"
  using assms by (auto simp: build_def applyFilters_parts split: sum.splits prod.splits)

lemma parsed_and_valid_fields:
  "parsed_and_valid env param = Inr fs \<Longrightarrow> \<forall>f \<in> set fs. valid_field env (fst f)"
  by (auto simp: parsed_and_valid_def validateFieldNames_ok valid_field_def split: sum.splits)

lemma parseFilter_shaped:
  assumes "names_disjoint env" and "parseFilterParameter env param n = Inr (w, n')"
  shows "shaped_object (is_relation env) [] w \<and> defined (Nested w) \<and> n \<le> n' \<and> allocated n n' (obj_params w)"
proof -
  obtain fs where fs: "parsed_and_valid env param = Inr fs" and b: "buildFilterWhereClause env fs [] n = Inr (w, n')"
    using assms(2) by (auto simp: parseFilterParameter_def split: sum.splits)
  obtain cs where cs: "singleConditions env fs n = Inr (cs, n')" "w = foldl deepMerge [] cs"
    using b by (auto simp: buildFilter_merges split: sum.splits)
  have "\<forall>c \<in> set cs. shaped_object (is_relation env) [] c \<and> defined (Nested c)"
    by (rule singleConditions_shaped [OF assms(1) parsed_and_valid_fields [OF fs] cs(1)])
  then have "shaped_object (is_relation env) [] w \<and> defined (Nested w)"
    using foldl_merge [of "is_relation env" "[]" cs] unfolding cs(2) by simp
  moreover have "obj_params w \<subseteq> (\<Union>c \<in> set cs. obj_params c)" using foldl_merge_params [of "[]" cs] cs(2) by simp
  ultimately show ?thesis using singleConditions_allocated [OF cs(1)] allocated_subset by blast
qed

lemma parseOr_shaped:
  assumes "names_disjoint env" and "parseOrParameter env param n = Inr (ors, n')"
  shows "(\<forall>c \<in> set ors. shaped_object (is_relation env) [] c \<and> defined (Nested c)) \<and> n \<le> n'
    \<and> allocated n n' (\<Union>c \<in> set ors. obj_params c)"
proof -
  obtain fs where fs: "parsed_and_valid env param = Inr fs" and b: "buildOrWhereClause env fs n = Inr (ors, n')"
    using assms(2) by (auto simp: parseOrParameter_def split: sum.splits)
  obtain cs where cs: "singleConditions env fs n = Inr (cs, n')" "ors = map transformNullValues cs"
    using b by (auto simp: buildOr_transforms split: sum.splits)
  have "\<forall>c \<in> set cs. shaped_object (is_relation env) [] c"
    using singleConditions_shaped [OF assms(1) parsed_and_valid_fields [OF fs] cs(1)] by blast
  then have "\<forall>c \<in> set ors. shaped_object (is_relation env) [] c \<and> defined (Nested c)"
    using transformNullValues_shaped transformNullValues_defined by (auto simp: cs(2))
  moreover have "(\<Union>c \<in> set ors. obj_params c) \<subseteq> (\<Union>c \<in> set cs. obj_params c)"
    using transformNullValues_params by (fastforce simp: cs(2))
  ultimately show ?thesis using singleConditions_allocated [OF cs(1)] allocated_subset by blast
qed

lemma parseSearch_shaped:
  assumes "names_disjoint env" and "parseSearchParameter env s n = Inr (w, n')"
  shows "shaped_object (is_relation env) [] w \<and> n \<le> n' \<and> (\<exists>S. allocated n n' S \<and> obj_params w \<subseteq> S)"
proof (cases "(w, n') = ([], n)")
  case True
  then show ?thesis by simp
next
  case False
  then obtain conds where b: "buildSearchWhereClause env conds n = Inr (w, n')"
    using assms(2) by (auto simp: parseSearchParameter_def split: jval.splits sum.splits)
  then have v: "\<forall>(key, c) \<in> set conds. valid_field env key" and e: "searchEntries env conds [] n = Inr (w, n')"
    by (auto simp: buildSearchWhereClause_def validateFieldNames_ok valid_field_def split: sum.splits)
  show ?thesis using searchEntries_step [OF assms(1) v e] by simp
qed

lemma query_parts_shaped:
  assumes "names_disjoint env" and "query_parts env q = Inr (a, ors)"
  shows "shaped_object (is_relation env) [] a \<and> defined (Nested a)
    \<and> (\<forall>c \<in> set ors. shaped_object (is_relation env) [] c \<and> defined (Nested c))
    \<and> (\<exists>n. allocated 0 n (obj_params a \<union> (\<Union>c \<in> set ors. obj_params c)))"
proof -
  obtain s f n m k where s: "parseSearchParameter env (q_s q) 0 = Inr (s, n)"
      and f: "parseFilterParameter env (q_filter q) n = Inr (f, m)"
      and ors: "parseOrParameter env (q_or q) m = Inr (ors, k)" and a: "a = transformNullValues (deepMerge s f)"
    using assms(2) by (auto simp: query_parts_def split: sum.splits)
  note S = parseSearch_shaped [OF assms(1) s] and F = parseFilter_shaped [OF assms(1) f] and R = parseOr_shaped [OF assms(1) ors]
  obtain T where T: "allocated 0 n T" "obj_params s \<subseteq> T" using S by blast
  have "allocated 0 k ((T \<union> obj_params f) \<union> (\<Union>c \<in> set ors. obj_params c))"
    using allocated_union [OF allocated_union [OF T(1)]] F R by (meson le_trans le0)
  moreover have "obj_params a \<subseteq> T \<union> obj_params f"
    using transformNullValues_params [of "deepMerge s f"] deepMerge_params [of s f] T(2) unfolding a by blast
  ultimately have "\<exists>n. allocated 0 n (obj_params a \<union> (\<Union>c \<in> set ors. obj_params c))"
    by (meson Un_mono allocated_subset order_refl)
  moreover have "shaped_object (is_relation env) [] a"
    unfolding a by (rule transformNullValues_shaped [OF deepMerge_shaped]) (use S F in blast)+
  ultimately show ?thesis using R transformNullValues_defined [of "deepMerge s f"] a by blast
qed

section \<open>Names in the result\<close>

text \<open>The primary columns are columns, and their names have no dot.\<close>

definition primary_ok :: "qenv \<Rightarrow> bool" where
  "primary_ok env \<longleftrightarrow>
     (\<forall>e. \<forall>pk \<in> set (em_primary (qe_schema env e)). isValidColumn (qe_schema env e) pk \<and> CHR ''.'' \<notin> set pk)"

text \<open>The objects of a where clause.\<close>

definition alternatives :: "where_clause \<Rightarrow> wobj list" where
  "alternatives w = (case w of WhereObject ob \<Rightarrow> [ob] | WhereArray obs \<Rightarrow> obs)"

lemma where_holds_alternatives: "where_holds sat w \<longleftrightarrow> (\<exists>ob \<in> set (alternatives w). holds sat ob)"
  by (simp add: where_holds_def alternatives_def split: where_clause.split)

lemma combine_alternatives:
  "set (alternatives (combineAndOrConditions a ors)) \<subseteq> {a} \<union> set ors \<union> deepMerge a ` set ors"
  by (auto simp: combineAndOrConditions_def alternatives_def)

lemma parseFilter_paths:
  "parseFilterParameter env param n = Inr (w, n') \<Longrightarrow> p \<in> where_paths w \<Longrightarrow> column_path env p"
proof -
  assume "parseFilterParameter env param n = Inr (w, n')" and p: "p \<in> where_paths w"
  then obtain fs cs where fs: "parsed_and_valid env param = Inr fs" and cs: "singleConditions env fs n = Inr (cs, n')" "w = foldl deepMerge [] cs"
    by (auto simp: parseFilterParameter_def buildFilter_merges split: sum.splits)
  then obtain c where "c \<in> set cs" "p \<in> where_paths c" using p foldl_merge_paths [of "[]" cs] by auto
  then show ?thesis by (rule singleConditions_paths [OF parsed_and_valid_fields [OF fs] cs(1)])
qed

lemma parseOr_paths:
  "parseOrParameter env param n = Inr (ors, n') \<Longrightarrow> c \<in> set ors \<Longrightarrow> p \<in> where_paths c \<Longrightarrow> column_path env p"
proof -
  assume "parseOrParameter env param n = Inr (ors, n')" and c: "c \<in> set ors" and p: "p \<in> where_paths c"
  then obtain fs cs where fs: "parsed_and_valid env param = Inr fs" and cs: "singleConditions env fs n = Inr (cs, n')" "ors = map transformNullValues cs"
    by (auto simp: parseOrParameter_def buildOr_transforms split: sum.splits)
  then obtain d where "d \<in> set cs" "p \<in> where_paths d" using c p transformNullValues_paths [of "[]"] by auto
  then show ?thesis by (rule singleConditions_paths [OF parsed_and_valid_fields [OF fs] cs(1)])
qed

lemma parseSearch_paths:
  assumes "parseSearchParameter env s n = Inr (w, n')"
  shows "\<forall>p \<in> where_paths w. column_path env p"
proof (cases "(w, n') = ([], n)")
  case False
  then obtain conds where b: "buildSearchWhereClause env conds n = Inr (w, n')"
    using assms by (auto simp: parseSearchParameter_def split: jval.splits sum.splits)
  then have v: "\<forall>(key, c) \<in> set conds. valid_field env key" and e: "searchEntries env conds [] n = Inr (w, n')"
    by (auto simp: buildSearchWhereClause_def validateFieldNames_ok valid_field_def split: sum.splits)
  show ?thesis by (rule searchEntries_paths [OF v e]) simp
qed simp

lemma query_parts_paths:
  assumes "query_parts env q = Inr (a, ors)"
  shows "\<forall>p \<in> where_paths a. column_path env p" and "\<forall>c \<in> set ors. \<forall>p \<in> where_paths c. column_path env p"
proof -
  obtain s f n m k where s: "parseSearchParameter env (q_s q) 0 = Inr (s, n)"
      and f: "parseFilterParameter env (q_filter q) n = Inr (f, m)"
      and ors: "parseOrParameter env (q_or q) m = Inr (ors, k)" and a: "a = transformNullValues (deepMerge s f)"
    using assms by (auto simp: query_parts_def split: sum.splits)
  show "\<forall>c \<in> set ors. \<forall>p \<in> where_paths c. column_path env p" using parseOr_paths [OF ors] by blast
  have "where_paths a \<subseteq> where_paths s \<union> where_paths f"
    unfolding a using transformNullValues_paths [of "[]" "deepMerge s f"] deepMerge_paths [of "[]" s f] by blast
  then show "\<forall>p \<in> where_paths a. column_path env p" using parseSearch_paths [OF s] parseFilter_paths [OF f] by blast
qed

text \<open>The exclusion as an object, empty when there is none.\<close>

definition exclusion :: "qenv \<Rightarrow> query_params \<Rightarrow> wobj" where
  "exclusion env q =
     (case em_primary (root_meta env) of
        [] \<Rightarrow> []
      | pk # _ \<Rightarrow> if excludeIds (q_exclude_ids q) = [] then []
                 else [(pk, Operator (Not (Operator (In (map VStr (excludeIds (q_exclude_ids q)))))))])"

lemma applyExclusions_alternatives:
  "alternatives (applyExclusions env q w) = map (\<lambda>c. deepMerge c (exclusion env q)) (alternatives w)"
  by (simp add: applyExclusions_def exclusion_def alternatives_def Let_def split: where_clause.split list.split)

lemma exclusion_params [simp]: "obj_params (exclusion env q) = {}"
  by (simp add: exclusion_def object_simps split: list.split)

lemma primary_root: "primary_ok env \<Longrightarrow> pk \<in> set (em_primary (root_meta env)) \<Longrightarrow> isValidColumn (root_meta env) pk \<and> CHR ''.'' \<notin> set pk"
  by (auto simp: primary_ok_def root_meta_def)

lemma exclusion_paths: "primary_ok env \<Longrightarrow> p \<in> where_paths (exclusion env q) \<Longrightarrow> column_path env p"
  using primary_root [of env "hd (em_primary (root_meta env))"]
  by (cases "em_primary (root_meta env)") (auto simp: exclusion_def column_path_def isValidColumn_def object_simps split: if_splits)

lemma exclusion_shaped:
  assumes "names_disjoint env" and "primary_ok env"
  shows "shaped_object (is_relation env) [] (exclusion env q)" and "defined (Nested (exclusion env q))"
proof -
  have "\<not> is_relation env [pk]" if "em_primary (root_meta env) = pk # pks" for pk pks
    using primary_root [OF assms(2), of pk] that column_path_shape(1) [OF assms(1), of "[pk]"] by (simp add: isValidColumn_def)
  then show "shaped_object (is_relation env) [] (exclusion env q)" by (simp add: exclusion_def object_simps split: list.split)
  show "defined (Nested (exclusion env q))" by (simp add: exclusion_def object_simps split: list.split)
qed

lemma build_where_paths:
  assumes "primary_ok env" and "build env fromEnv allowed q = Inr fo" and "ob \<in> set (alternatives (fo_where fo))"
    and "p \<in> where_paths ob"
  shows "column_path env p"
proof -
  obtain a ors where parts: "query_parts env q = Inr (a, ors)"
      and w: "fo_where fo = applyExclusions env q (combineAndOrConditions a ors)" by (rule build_parts [OF assms(2)])
  obtain c where c: "c \<in> set (alternatives (combineAndOrConditions a ors))" and ob: "ob = deepMerge c (exclusion env q)"
    using assms(3) by (auto simp: w applyExclusions_alternatives)
  have "where_paths c \<subseteq> where_paths a \<union> (\<Union>d \<in> set ors. where_paths d)"
  proof -
    consider "c = a" | "c \<in> set ors" | d where "d \<in> set ors" "c = deepMerge a d"
      using c combine_alternatives [of a ors] by blast
    then show ?thesis by cases (use deepMerge_paths [of "[]" a] in blast)+
  qed
  then show ?thesis using assms(4) ob deepMerge_paths [of "[]" c "exclusion env q"] query_parts_paths [OF parts]
      exclusion_paths [OF assms(1)] by blast
qed

section \<open>Selected columns\<close>

text \<open>Every selected name is a column of its entity, every nested selection a relation.\<close>

fun select_ok :: "(string \<Rightarrow> entity_meta) \<Rightarrow> entity_meta \<Rightarrow> (string \<times> select_value) list \<Rightarrow> bool" where
  "select_ok sch m [] = True"
| "select_ok sch m ((k, v) # rest) =
     ((case v of
         SelectTrue \<Rightarrow> isValidColumn m k
       | SelectObject ob \<Rightarrow> (case findRelationWithPropertyPath m k of None \<Rightarrow> False | Some e \<Rightarrow> select_ok sch (sch e) ob))
      \<and> select_ok sch m rest)"

definition entry_ok :: "(string \<Rightarrow> entity_meta) \<Rightarrow> entity_meta \<Rightarrow> string \<Rightarrow> select_value \<Rightarrow> bool" where
  "entry_ok sch m k v = select_ok sch m [(k, v)]"

lemma select_ok_ball: "select_ok sch m sel \<longleftrightarrow> (\<forall>(k, v) \<in> set sel. entry_ok sch m k v)"
  by (induction sel) (auto simp: entry_ok_def)

lemma select_ok_set: "select_ok sch m sel \<Longrightarrow> entry_ok sch m k v \<Longrightarrow> select_ok sch m (obj_set k v sel)"
  using obj_set_subset [of k v sel] by (fastforce simp: select_ok_ball)

lemma select_ok_get: "select_ok sch m sel \<Longrightarrow> obj_get sel k = Some v \<Longrightarrow> entry_ok sch m k v"
  by (fastforce simp: select_ok_ball obj_get_def dest: map_of_SomeD)

lemma select_ok_add_columns:
  "\<forall>c \<in> set cols. isValidColumn m c \<Longrightarrow> select_ok sch m sel \<Longrightarrow> select_ok sch m (add_columns cols sel)"
  unfolding add_columns_def by (induction cols arbitrary: sel) (auto simp: select_ok_set entry_ok_def)

lemma isValidColumn_columns: "c \<in> set (map col_name (em_columns m)) \<Longrightarrow> isValidColumn m c"
  unfolding isValidColumn_def findColumn_names .

lemma buildNestedSelect_ok:
  "(\<And>e. \<forall>pk \<in> set (em_primary (sch e)). isValidColumn (sch e) pk) \<Longrightarrow>
   buildNestedSelect sch path m ps level = Inr level' \<Longrightarrow> select_ok sch m level \<Longrightarrow> select_ok sch m level'"
proof (induction sch path m ps level arbitrary: level' rule: buildNestedSelect.induct)
  case (2 sch path m part level)
  then show ?case by (auto simp: select_ok_set entry_ok_def split: if_splits)
next
  case (3 sch path m part q qs level)
  obtain e where e: "findRelationWithPropertyPath m part = Some e" using "3.prems"(2) by (auto split: option.splits)
  show ?case
  proof (cases "obj_get level part = Some SelectTrue")
    case True
    then show ?thesis using "3.IH"(1) [OF e True "3.prems"(1)] "3.prems"(2,3) e by simp
  next
    case False
    define target where "target = (case obj_get level part of Some (SelectObject ob) \<Rightarrow> ob | _ \<Rightarrow> [])"
    define cols where "cols = (if 1 < length (q # qs) then map col_name (em_columns (sch e)) else em_primary (sch e))"
    obtain ob where ob: "buildNestedSelect sch path (sch e) (q # qs) (add_columns cols target) = Inr ob"
        and l': "level' = obj_set part (SelectObject ob) level"
      using "3.prems"(2) False e by (auto simp: target_def cols_def Let_def split: sum.splits)
    have "select_ok sch (sch e) target"
      using select_ok_get [OF "3.prems"(3), of part] e by (auto simp: target_def entry_ok_def split: option.splits select_value.splits)
    then have "select_ok sch (sch e) (add_columns cols target)"
      using "3.prems"(1) isValidColumn_columns by (intro select_ok_add_columns) (auto simp: cols_def)
    then have "select_ok sch (sch e) ob" using "3.IH"(2) [OF e False _ _ "3.prems"(1)] ob by (simp add: target_def cols_def)
    then show ?thesis unfolding l' by (intro select_ok_set "3.prems"(3)) (simp add: entry_ok_def e)
  qed
qed simp

lemma select_fields_ok:
  assumes "primary_ok env"
  shows "select_fields env fs sel = Inr sel' \<Longrightarrow> select_ok (qe_schema env) (root_meta env) sel \<Longrightarrow>
    select_ok (qe_schema env) (root_meta env) sel'"
proof (induction fs arbitrary: sel)
  case (Cons f fs)
  have pk: "\<forall>pk \<in> set (em_primary (qe_schema env e)). isValidColumn (qe_schema env e) pk" for e
    using assms by (simp add: primary_ok_def)
  show ?case using Cons buildNestedSelect_ok [of "qe_schema env", OF pk]
    by (auto simp: select_ok_set entry_ok_def split: if_splits sum.splits)
qed simp

text \<open>A column that the level selects stays selected.\<close>

lemma buildNestedSelect_keeps:
  "buildNestedSelect sch path m ps level = Inr level' \<Longrightarrow> obj_get level k = Some SelectTrue \<Longrightarrow>
   obj_get level' k = Some SelectTrue"
  by (induction sch path m ps level arbitrary: level' rule: buildNestedSelect.induct)
    (auto simp: Let_def split: option.splits if_splits sum.splits)

lemma select_fields_keeps:
  "select_fields env fs sel = Inr sel' \<Longrightarrow> obj_get sel k = Some SelectTrue \<Longrightarrow> obj_get sel' k = Some SelectTrue"
  by (induction fs arbitrary: sel) (auto split: if_splits sum.splits dest: buildNestedSelect_keeps)

lemma select_fields_selects:
  "select_fields env fs sel = Inr sel' \<Longrightarrow> k \<in> set fs \<Longrightarrow> \<not> js_includes ''.'' k \<Longrightarrow> obj_get sel' k = Some SelectTrue"
  by (induction fs arbitrary: sel) (auto split: if_splits sum.splits dest: select_fields_keeps)

lemma requested_primary:
  "set (fold (\<lambda>pk fs. if pk \<in> set fs then fs else fs @ [pk]) pks fs) = set pks \<union> set fs"
  by (induction pks arbitrary: fs) auto

section \<open>Properties of the built query\<close>


definition item_query :: query_params where
  "item_query = \<lparr>q_page = Some (Fin 3), q_offset = None, q_limit = Some (Fin 25), q_sort = Some ''created_at:desc,name'',
     q_s = VObj [(''created_at'', VObj [(''>='', VStr ''2026-01-01''), (''<'', VStr ''2026-02-01'')])],
     q_filter = VArr [VStr ''name||$cont||a'', VStr ''meta.color||$eq||red''],
     q_or = VArr [VStr ''status||$eq||open'', VStr ''owner.name||$starts||x''], q_relations = Some ''owner'',
     q_fields = Some ''name, owner.name'', q_exclude_ids = VStr ''7,8'', q_ignore_limit = False, q_get_count_only = False\<rparr>"

lemma example_primary_ok: "primary_ok item_env"
  by (simp add: primary_ok_def item_env_def item_meta_def example_column_def isValidColumn_def findColumnWithPropertyName_def)

lemma example_builds: "\<exists>fo. build item_env NaN [''owner''] item_query = Inr fo"
proof -
  have "\<not> isl (applySorting item_env item_query)" by code_simp
  moreover have "\<not> isl (applyFilters item_env item_query)" by code_simp
  moreover have "\<not> isl (applyRelations [''owner''] item_query)" by code_simp
  moreover have "\<not> isl (applyFieldSelection item_env item_query)" by code_simp
  ultimately show ?thesis by (auto simp: build_def isl_def split: sum.split)
qed


lemma combined_shaped:
  assumes "names_disjoint env" and "query_parts env q = Inr (a, ors)" and c: "c \<in> set (alternatives (combineAndOrConditions a ors))"
  shows "shaped_object (is_relation env) [] c"
proof -
  note shaped = query_parts_shaped [OF assms(1,2)]
  consider "c = a" | "c \<in> set ors" | d where "d \<in> set ors" "c = deepMerge a d"
    using c combine_alternatives [of a ors] by blast
  then show ?thesis by cases (use shaped deepMerge_shaped in blast)+
qed

lemma build_shaped:
  assumes "names_disjoint env" and "primary_ok env" and "build env fromEnv allowed q = Inr fo"
    and ob: "ob \<in> set (alternatives (fo_where fo))"
  shows "shaped_object (is_relation env) [] ob"
proof -
  obtain a ors where parts: "query_parts env q = Inr (a, ors)"
      and w: "fo_where fo = applyExclusions env q (combineAndOrConditions a ors)" by (rule build_parts [OF assms(3)])
  then show ?thesis using ob deepMerge_shaped [OF combined_shaped [OF assms(1) parts] exclusion_shaped [OF assms(1,2)]]
    by (auto simp: applyExclusions_alternatives)
qed

lemma build_holds:
  assumes "names_disjoint env" and "primary_ok env" and "build env fromEnv allowed q = Inr fo"
  shows "\<exists>a ors. query_parts env q = Inr (a, ors)
    \<and> (\<forall>sat. where_holds sat (fo_where fo) \<longleftrightarrow>
          holds sat a \<and> (ors = [] \<or> (\<exists>c \<in> set ors. holds sat c)) \<and> holds sat (exclusion env q))"
proof -
  obtain a ors where parts: "query_parts env q = Inr (a, ors)"
      and w: "fo_where fo = applyExclusions env q (combineAndOrConditions a ors)" by (rule build_parts [OF assms(3)])
  have "where_holds sat (fo_where fo) \<longleftrightarrow> where_holds sat (combineAndOrConditions a ors) \<and> holds sat (exclusion env q)" for sat
    using deepMerge_holds [OF combined_shaped [OF assms(1) parts] exclusion_shaped [OF assms(1,2)], where sat = sat]
    unfolding where_holds_alternatives w applyExclusions_alternatives by auto
  moreover have "where_holds sat (combineAndOrConditions a ors) \<longleftrightarrow> holds sat a \<and> (ors = [] \<or> (\<exists>c \<in> set ors. holds sat c))" for sat
    by (rule combine_holds) (use query_parts_shaped [OF assms(1) parts] in blast)+
  ultimately show ?thesis using parts by auto
qed



text \<open>no bound parameter clashes. Over the whole where clause, all alternatives together, a
  parameter name of a JSON condition is bound to one value only.\<close>

theorem parameters_consistent:
  assumes "names_disjoint env" and "build env fromEnv allowed q = Inr fo"
  shows "single_valued (\<Union>ob \<in> set (alternatives (fo_where fo)). obj_params ob)"
proof -
  obtain a ors where parts: "query_parts env q = Inr (a, ors)"
      and w: "fo_where fo = applyExclusions env q (combineAndOrConditions a ors)" by (rule build_parts [OF assms(2)])
  let ?P = "obj_params a \<union> (\<Union>c \<in> set ors. obj_params c)"
  have "obj_params ob \<subseteq> ?P" if ob: "ob \<in> set (alternatives (fo_where fo))" for ob
  proof -
    obtain c where c: "c \<in> set (alternatives (combineAndOrConditions a ors))" and e: "ob = deepMerge c (exclusion env q)"
      using ob by (auto simp: w applyExclusions_alternatives)
    consider "c = a" | "c \<in> set ors" | d where "d \<in> set ors" "c = deepMerge a d"
      using c combine_alternatives [of a ors] by blast
    then have "obj_params c \<subseteq> ?P" by cases (use deepMerge_params [of a] in blast)+
    then show ?thesis using deepMerge_params [of c "exclusion env q"] unfolding e by simp
  qed
  then have "(\<Union>ob \<in> set (alternatives (fo_where fo)). obj_params ob) \<subseteq> ?P" by blast
  moreover have "single_valued ?P"
    using query_parts_shaped [OF assms(1) parts] unfolding allocated_def single_valued_def by blast
  ultimately show ?thesis by (meson single_valued_subset)
qed

theorem parameters_consistent_witness:
  "\<exists>fo. build item_env NaN [''owner''] item_query = Inr fo
    \<and> single_valued (\<Union>ob \<in> set (alternatives (fo_where fo)). obj_params ob)"
proof -
  obtain fo where "build item_env NaN [''owner''] item_query = Inr fo" using example_builds by blast
  then show ?thesis using parameters_consistent [OF example_names_disjoint] by blast
qed

section \<open>Page bounds\<close>

lemma js_round_int_exact: "0 \<le> z \<Longrightarrow> z \<le> 2 ^ 53 \<Longrightarrow> js_round_int z = Fin (of_int z)"
  by (simp add: js_round_int_def)

lemma resolveMaxLimit_whole: "\<exists>M :: nat. resolveMaxLimit e = Fin (of_nat M)"
proof -
  have default: "\<exists>M :: nat. MAX_QUERY_LIMIT = Fin (of_nat M)"
    unfolding MAX_QUERY_LIMIT_def by (rule exI [of _ 2000]) simp
  show ?thesis
  proof (cases e)
    case (Fin x)
    have "Fin (of_int \<lfloor>x\<rfloor>) = Fin (of_nat (nat \<lfloor>x\<rfloor>))" if "0 < x" using that by simp
    then show ?thesis using Fin default by (auto simp: resolveMaxLimit_def intro: exI [of _ "nat \<lfloor>x\<rfloor>"])
  qed (use default in \<open>simp_all add: resolveMaxLimit_def\<close>)
qed

text \<open>A page or page size is at least one: a whole number or Infinity.\<close>

lemma parsePositiveInteger_cases:
  "parsePositiveInteger v (Fin (of_nat d)) (Fin 1) = PosInf
   \<or> (\<exists>k :: nat. parsePositiveInteger v (Fin (of_nat d)) (Fin 1) = Fin (of_nat k) \<and> (1 \<le> d \<longrightarrow> 1 \<le> k))"
proof -
  have whole: "Fin (of_int z) = Fin (of_nat (nat z)) \<and> 1 \<le> nat z" if "1 \<le> z" for z
    using that by simp
  show ?thesis
  proof (cases "js_Number v")
    case (Fin x)
    show ?thesis
    proof (cases "(1 :: rat) < of_int \<lfloor>x\<rfloor>")
      case True
      then have "1 \<le> \<lfloor>x\<rfloor>" by simp
      moreover have "parsePositiveInteger v (Fin (of_nat d)) (Fin 1) = Fin (of_int \<lfloor>x\<rfloor>)"
        using Fin True by (simp add: parsePositiveInteger_def js_max_def)
      ultimately show ?thesis using whole [of "\<lfloor>x\<rfloor>"] by metis
    next
      case False
      then show ?thesis using Fin by (auto simp: parsePositiveInteger_def js_max_def intro: exI [of _ 1])
    qed
  qed (auto simp: parsePositiveInteger_def js_max_def intro: exI [of _ 1])
qed

lemma js_min_whole: "js_min (Fin (of_nat a)) (Fin (of_nat b)) = Fin (of_nat (min a b))"
  by (simp add: js_min_def min_def)

lemma page_size_bounds:
  "\<exists>l M :: nat. resolveMaxLimit fromEnv = Fin (of_nat M) \<and> fst (applyPagination fromEnv q) = Fin (of_nat l)
     \<and> l \<le> M \<and> (1 \<le> M \<longrightarrow> 1 \<le> l)"
proof -
  obtain M :: nat where M: "resolveMaxLimit fromEnv = Fin (of_nat M)" using resolveMaxLimit_whole by blast
  have "DEFAULT_LIMIT = Fin (of_nat 10)" by (simp add: DEFAULT_LIMIT_def)
  then consider "parsePositiveInteger (q_limit q) DEFAULT_LIMIT (Fin 1) = PosInf"
    | k :: nat where "parsePositiveInteger (q_limit q) DEFAULT_LIMIT (Fin 1) = Fin (of_nat k)" "1 \<le> k"
    using parsePositiveInteger_cases [of "q_limit q" 10] by (metis one_le_numeral)
  then show ?thesis
  proof cases
    case 1
    then show ?thesis using M by (auto simp: applyPagination_def Let_def js_min_def)
  next
    case 2
    then show ?thesis using M by (auto simp: applyPagination_def Let_def js_min_whole intro: exI [of _ "min k M"])
  qed
qed

lemma skip_exact:
  assumes "fst (applyPagination fromEnv q) = Fin (of_nat l)" and "q_page q = Some (Fin (of_nat p))" and "1 \<le> p"
    and "p \<le> 2 ^ 53" and "(p - 1) * l \<le> 2 ^ 53" and "\<not> isValidOffset (js_Number (q_offset q))"
  shows "snd (applyPagination fromEnv q) = Fin (of_nat ((p - 1) * l))"
proof -
  have page: "parsePositiveInteger (q_page q) (Fin 1) (Fin 1) = Fin (of_nat p)"
    using assms(2,3) by (auto simp: parsePositiveInteger_def js_Number_def js_max_def)
  obtain k where k: "p = Suc k" using assms(3) by (cases p) auto
  have "js_pred (Fin (of_nat p)) = js_round_int (int k)" by (simp add: k floor_add_int)
  also have "\<dots> = Fin (of_nat k)" using js_round_int_exact [of "int k"] assms(4) k by simp
  finally have pred: "js_pred (Fin (of_nat p)) = Fin (of_nat k)" .
  have "int (k * l) \<le> int (2 ^ 53)" using assms(5) unfolding k by (simp only: of_nat_le_iff diff_Suc_1)
  then have "js_round_int (int (k * l)) = Fin (of_nat (k * l))" using js_round_int_exact [of "int (k * l)"] by simp
  then have "js_times (Fin (of_nat k)) (Fin (of_nat l)) = Fin (of_nat (k * l))" by simp
  then show ?thesis using assms(1,6) page pred by (simp add: applyPagination_def Let_def k)
qed



end
