(* ===== verification/List_Service.thy ===== *)
theory List_Service
  imports Query_Builder "HOL-Library.Multiset"
begin

text \<open>
  The list reads of \<open>libs/common/src/utils/base-operations/base-service-operations.util.ts\<close>:
  \<open>findAll\<close>, \<open>findOneOrQuery\<close> and \<open>findPaginated\<close>, which run the query built by the query builder on
  the table. How Postgres evaluates one operator on a row, orders rows and cuts a page is the
  parameter \<open>database\<close>; a page with whole bounds is that slice of the ordered rows (\<open>slice_ok\<close>). As
  everywhere, a select skips the rows whose deletion date is set, and TypeORM throws
  \<open>EntityPropertyNotFoundError\<close> for a where key that is neither a column nor a relation.
\<close>

section \<open>Running find options\<close>

record 'm database =
  db_sat :: "'m base_entity_scheme \<Rightarrow> string list \<Rightarrow> find_operator \<Rightarrow> bool"
  db_order :: "(string \<times> sort_direction) list option \<Rightarrow> 'm base_entity_scheme list \<Rightarrow> 'm base_entity_scheme list"
  db_slice :: "js_number option \<Rightarrow> js_number option \<Rightarrow> 'm base_entity_scheme list \<Rightarrow> 'm base_entity_scheme list result"

definition unknown_property :: "qenv \<Rightarrow> where_clause \<Rightarrow> string option" where
  "unknown_property env w =
     List.find (\<lambda>k. findColumnWithPropertyName (root_meta env) k = None \<and> findRelationWithPropertyPath (root_meta env) k = None)
       (concat (map (map fst) (alternatives w)))"

definition matching_rows :: "'m database \<Rightarrow> where_clause \<Rightarrow> 'm table \<Rightarrow> 'm table" where
  "matching_rows db w t = repo_find (\<lambda>r. where_holds (db_sat db r) w) t"

definition find_with_options :: "qenv \<Rightarrow> 'm database \<Rightarrow> find_options \<Rightarrow> 'm table \<Rightarrow> 'm table result" where
  "find_with_options env db fo t =
     (case unknown_property env (fo_where fo) of
        Some k \<Rightarrow> Inl (EntityPropertyNotFoundError k)
      | None \<Rightarrow> db_slice db (fo_skip fo) (fo_take fo) (db_order db (fo_order fo) (matching_rows db (fo_where fo) t)))"

definition count_with_where :: "qenv \<Rightarrow> 'm database \<Rightarrow> where_clause \<Rightarrow> 'm table \<Rightarrow> nat result" where
  "count_with_where env db w t =
     (case unknown_property env w of
        Some k \<Rightarrow> Inl (EntityPropertyNotFoundError k)
      | None \<Rightarrow> Inr (length (matching_rows db w t)))"

definition findAndCount :: "qenv \<Rightarrow> 'm database \<Rightarrow> find_options \<Rightarrow> 'm table \<Rightarrow> ('m table \<times> nat) result" where
  "findAndCount env db fo t =
     (case find_with_options env db fo t of Inl e \<Rightarrow> Inl e | Inr rows \<Rightarrow>
       (case count_with_where env db (fo_where fo) t of Inl e \<Rightarrow> Inl e | Inr tot \<Rightarrow> Inr (rows, tot)))"

section \<open>The list reads\<close>

text \<open>A builder error as the exception it is.\<close>

fun query_exception :: "query_error \<Rightarrow> js_error" where
  "query_exception (InvalidParameterException field m) = HttpException BadRequest None ''Invalid Parameter Format''"
| "query_exception (RelationException m) = BadRequestException m"
| "query_exception RuntimeError = PlainError ''RangeError''"

definition softDeleteWhere :: wobj where
  "softDeleteWhere = [(''is_deleted'', Plain (VBool False)), (''deleted_at'', Operator IsNull)]"

definition defaultAllowedRelations :: "string list" where
  "defaultAllowedRelations = [''lookup_created_by'', ''lookup_updated_by'', ''lookup_deleted_by'']"

definition getFinalAllowedRelations :: "string list \<Rightarrow> string list" where
  "getFinalAllowedRelations allowedRelations = js_set (defaultAllowedRelations @ allowedRelations)"

definition build_for :: "qenv \<Rightarrow> js_number \<Rightarrow> string list \<Rightarrow> query_params \<Rightarrow> find_options result" where
  "build_for env fromEnv allowedRelations q =
     (case build env fromEnv (getFinalAllowedRelations allowedRelations) q of
        Inl e \<Rightarrow> Inl (query_exception e)
      | Inr fo \<Rightarrow> Inr fo)"

text \<open>The where clause of \<open>_findOneOrQuery\<close> and \<open>_findEntitiesWithPagination\<close>.\<close>

definition with_soft_delete :: "where_clause \<Rightarrow> where_clause" where
  "with_soft_delete w =
     (case w of
        WhereArray conditions \<Rightarrow> WhereArray (map (obj_spread softDeleteWhere) conditions)
      | WhereObject ob \<Rightarrow> WhereObject (obj_spread softDeleteWhere ob))"

text \<open>\<open>_findAllEntities\<close> spreads the clause itself: the alternatives of an array become properties
  named by their index.\<close>

definition findAllEntities ::
    "qenv \<Rightarrow> 'm database \<Rightarrow> js_number \<Rightarrow> string list \<Rightarrow> query_params \<Rightarrow> 'm table \<Rightarrow> 'm table result" where
  "findAllEntities env db fromEnv allowedRelations q t =
     (case build_for env fromEnv allowedRelations q of
        Inl e \<Rightarrow> Inl e
      | Inr fo \<Rightarrow>
          find_with_options env db
            (fo\<lparr>fo_take := None, fo_skip := None,
                fo_where := WhereObject (obj_spread softDeleteWhere
                  (case fo_where fo of
                     WhereObject ob \<Rightarrow> ob
                   | WhereArray obs \<Rightarrow> map (\<lambda>(i, ob). (show_nat i, Nested ob)) (enumerate 0 obs)))\<rparr>) t)"

text \<open>\<open>query.filter?.toString()\<close> in the message.\<close>

definition findOneEntityOrQuery ::
    "qenv \<Rightarrow> 'm database \<Rightarrow> js_number \<Rightarrow> string list \<Rightarrow> string \<Rightarrow> query_params \<Rightarrow> bool \<Rightarrow> 'm table \<Rightarrow> 'm entity option result" where
  "findOneEntityOrQuery env db fromEnv allowedRelations tableName q skipNotFound t =
     (case build_for env fromEnv allowedRelations q of
        Inl e \<Rightarrow> Inl e
      | Inr fo \<Rightarrow>
          (case find_with_options env db (fo\<lparr>fo_where := with_soft_delete (fo_where fo), fo_take := Some (Fin 1)\<rparr>) t of
             Inl e \<Rightarrow> Inl e
           | Inr (r # _) \<Rightarrow> Inr (Some r)
           | Inr [] \<Rightarrow>
               if skipNotFound then Inr None
               else Inl (NotFoundException (tableName @ '' with filter '' @ quoted (js_string (q_filter q)) @ '' not found.''))))"

record pagination =
  pg_page :: js_number
  pg_page_size :: js_number
  pg_total :: nat
  pg_total_records :: nat
  pg_total_pages :: js_number

text \<open>\<open>Math.ceil(total / limit)\<close>.\<close>

fun js_ceil_div :: "nat \<Rightarrow> js_number \<Rightarrow> js_number" where
  "js_ceil_div n (Fin l) =
     (if l = 0 then (if n = 0 then NaN else PosInf) else Fin (of_int \<lceil>of_nat n / l\<rceil>))"
| "js_ceil_div n NaN = NaN"
| "js_ceil_div n _ = Fin 0"

text \<open>\<open>Number(query.page) || 1\<close>.\<close>

definition page_or_1 :: "js_number option \<Rightarrow> js_number" where
  "page_or_1 v = (let n = js_Number v in if n = NaN \<or> n = Fin 0 then Fin 1 else n)"

definition findEntitiesWithPagination ::
    "qenv \<Rightarrow> 'm database \<Rightarrow> js_number \<Rightarrow> string list \<Rightarrow> query_params \<Rightarrow> 'm table \<Rightarrow> ('m table \<times> pagination) result" where
  "findEntitiesWithPagination env db fromEnv allowedRelations q t =
     (case build_for env fromEnv allowedRelations q of
        Inl e \<Rightarrow> Inl e
      | Inr built \<Rightarrow>
          (let fo = built\<lparr>fo_where := with_soft_delete (fo_where built)\<rparr>;
               limit = (case fo_take fo of None \<Rightarrow> Fin 10 | Some l \<Rightarrow> l);
               page = page_or_1 (q_page q) in
           if q_get_count_only q then
             (case count_with_where env db (fo_where fo) t of
                Inl e \<Rightarrow> Inl e
              | Inr tot \<Rightarrow> Inr ([], \<lparr>pg_page = page, pg_page_size = limit, pg_total = tot,
                                      pg_total_records = tot, pg_total_pages = js_ceil_div tot limit\<rparr>))
           else if q_ignore_limit q then
             (case findAndCount env db (fo\<lparr>fo_take := None, fo_skip := None\<rparr>) t of
                Inl e \<Rightarrow> Inl e
              | Inr (entities, tot) \<Rightarrow>
                  Inr (entities, \<lparr>pg_page = page, pg_page_size = Fin (of_nat (length entities)), pg_total = tot,
                                  pg_total_records = tot, pg_total_pages = Fin 1\<rparr>))
           else
             (case findAndCount env db fo t of
                Inl e \<Rightarrow> Inl e
              | Inr (entities, tot) \<Rightarrow>
                  Inr (entities, \<lparr>pg_page = page, pg_page_size = limit, pg_total = tot,
                                  pg_total_records = tot, pg_total_pages = js_ceil_div tot limit\<rparr>))))"

definition findOneOrQuery where
  "findOneOrQuery tableName env db fromEnv allowedRelations q skipNotFound t =
     executeDbOperation tableName (findOneEntityOrQuery env db fromEnv allowedRelations tableName q skipNotFound t)"

definition findAll where
  "findAll tableName env db fromEnv allowedRelations q t =
     executeDbOperation tableName (findAllEntities env db fromEnv allowedRelations q t)"

definition findPaginated where
  "findPaginated tableName env db fromEnv allowedRelations q t =
     executeDbOperation tableName (findEntitiesWithPagination env db fromEnv allowedRelations q t)"

section \<open>Soft deletion\<close>

lemma obj_set_fresh: "k \<notin> set (map fst ob) \<Longrightarrow> obj_set k v ob = ob @ [(k, v)]"
  by (induction ob rule: obj_set.induct) auto

lemma obj_spread_disjoint:
  "distinct (map fst b) \<Longrightarrow> set (map fst a) \<inter> set (map fst b) = {} \<Longrightarrow> obj_spread a b = a @ b"
proof (induction b arbitrary: a)
  case (Cons e b)
  obtain k v where e: "e = (k, v)" by (cases e)
  have "obj_set k v a = a @ [(k, v)]" using Cons.prems(2) by (intro obj_set_fresh) (auto simp: e)
  then show ?case using Cons.IH [of "a @ [(k, v)]"] Cons.prems by (auto simp: obj_spread_def e)
qed (simp add: obj_spread_def)

definition soft_keys_free :: "where_clause \<Rightarrow> bool" where
  "soft_keys_free w \<longleftrightarrow> (\<forall>ob \<in> set (alternatives w). ''is_deleted'' \<notin> set (map fst ob) \<and> ''deleted_at'' \<notin> set (map fst ob))"

lemma holds_append: "holds sat (a @ b) \<longleftrightarrow> holds sat a \<and> holds sat b"
  by (auto simp: holds_value.simps(2))

lemma with_soft_delete_holds:
  assumes "\<forall>ob \<in> set (alternatives w). distinct (map fst ob)" and "soft_keys_free w"
  shows "where_holds sat (with_soft_delete w) \<longleftrightarrow> holds sat softDeleteWhere \<and> where_holds sat w"
proof -
  have "holds sat (obj_spread softDeleteWhere ob) \<longleftrightarrow> holds sat softDeleteWhere \<and> holds sat ob"
    if "ob \<in> set (alternatives w)" for ob
  proof -
    have "obj_spread softDeleteWhere ob = softDeleteWhere @ ob"
      using assms that by (intro obj_spread_disjoint) (auto simp: soft_keys_free_def softDeleteWhere_def)
    then show ?thesis by (simp only: holds_append)
  qed
  then show ?thesis
    by (auto simp: where_holds_alternatives with_soft_delete_def alternatives_def split: where_clause.splits)
qed

text \<open>What the reads rely on of the database: ordering permutes the rows, a slice gives some of them, no
  bounds give all, and whole bounds cut that page.\<close>

definition database_ok :: "'m database \<Rightarrow> bool" where
  "database_ok db \<longleftrightarrow>
     (\<forall>ord rows. mset (db_order db ord rows) = mset rows)
     \<and> (\<forall>s k rows out. db_slice db s k rows = Inr out \<longrightarrow> set out \<subseteq> set rows)
     \<and> (\<forall>rows. db_slice db None None rows = Inr rows)
     \<and> (\<forall>s l rows. 1 \<le> l \<longrightarrow> db_slice db (Some (Fin (of_nat s))) (Some (Fin (of_nat l))) rows = Inr (take l (drop s rows)))"

text \<open>The rows a query is about: not deleted, and satisfying the conditions.\<close>

definition wanted :: "qenv \<Rightarrow> 'm database \<Rightarrow> query_params \<Rightarrow> wobj \<Rightarrow> wobj list \<Rightarrow> 'm entity \<Rightarrow> bool" where
  "wanted env db q a ors r \<longleftrightarrow>
     visible r \<and> holds (db_sat db r) softDeleteWhere \<and> holds (db_sat db r) a
     \<and> (ors = [] \<or> (\<exists>c \<in> set ors. holds (db_sat db r) c)) \<and> holds (db_sat db r) (exclusion env q)"

lemma build_for_build: "build_for env e allowed q = Inr fo \<longleftrightarrow> build env e (getFinalAllowedRelations allowed) q = Inr fo"
  by (auto simp: build_for_def split: sum.splits)

lemma matching_wanted:
  assumes "names_disjoint env" and "primary_ok env" and "build_for env e allowed q = Inr fo"
    and "soft_keys_free (fo_where fo)"
  shows "\<exists>a ors. query_parts env q = Inr (a, ors) \<and> matching_rows db (with_soft_delete (fo_where fo)) t = filter (wanted env db q a ors) t"
proof -
  note b = assms(3) [unfolded build_for_build]
  obtain a ors where parts: "query_parts env q = Inr (a, ors)" and m: "\<And>sat. where_holds sat (fo_where fo) \<longleftrightarrow>
          holds sat a \<and> (ors = [] \<or> (\<exists>c \<in> set ors. holds sat c)) \<and> holds sat (exclusion env q)"
    using build_holds [OF assms(1,2) b] by blast
  have "\<forall>ob \<in> set (alternatives (fo_where fo)). distinct (map fst ob)"
    using build_shaped [OF assms(1,2) b] by (auto simp: shaped.simps(1))
  then have "where_holds sat (with_soft_delete (fo_where fo)) \<longleftrightarrow> holds sat softDeleteWhere \<and> where_holds sat (fo_where fo)" for sat
    using assms(4) by (rule with_soft_delete_holds)
  then show ?thesis using parts m by (auto simp: matching_rows_def repo_find_def wanted_def [abs_def])
qed

lemma find_with_options_subset:
  assumes "database_ok db" and "find_with_options env db fo t = Inr rows"
  shows "set rows \<subseteq> set (matching_rows db (fo_where fo) t)"
proof -
  have "set (db_order db ord xs) = set xs" for ord xs
    using assms(1) unfolding database_ok_def by (metis set_mset_mset)
  then show ?thesis using assms unfolding database_ok_def find_with_options_def
    by (auto split: option.splits) (metis subsetD)
qed

lemma findPaginated_rows:
  assumes "database_ok db" and "findPaginated tableName env db e allowed q t = Inr (data, pg)"
  obtains fo where "build_for env e allowed q = Inr fo"
    and "set data \<subseteq> set (matching_rows db (with_soft_delete (fo_where fo)) t)"
    and "pg_total pg = length (matching_rows db (with_soft_delete (fo_where fo)) t)"
proof -
  have f: "findEntitiesWithPagination env db e allowed q t = Inr (data, pg)"
    using assms(2) by (auto simp: findPaginated_def executeDbOperation_def split: sum.splits js_error.splits)
  then obtain fo where fo: "build_for env e allowed q = Inr fo"
    by (auto simp: findEntitiesWithPagination_def split: sum.splits)
  have "set data \<subseteq> set (matching_rows db (with_soft_delete (fo_where fo)) t)
      \<and> pg_total pg = length (matching_rows db (with_soft_delete (fo_where fo)) t)"
    using f fo find_with_options_subset [OF assms(1)]
    by (fastforce simp: findEntitiesWithPagination_def findAndCount_def count_with_where_def Let_def
        split: if_splits sum.splits option.splits prod.splits)
  then show thesis using that fo by blast
qed


section \<open>Pages\<close>

lemma concat_slices: "concat (map (\<lambda>p. take l (drop (p * l) xs)) [0..<N]) = take (N * l) xs"
proof (induction N)
  case (Suc N)
  then show ?case by (simp add: take_add add.commute [of l])
qed simp

lemma ceil_div_nat:
  assumes "1 \<le> l"
  obtains N :: nat where "js_ceil_div n (Fin (of_nat l)) = Fin (of_nat N)" and "n \<le> N * l" and "\<And>p. p < N \<Longrightarrow> p * l < n"
proof -
  let ?x = "(of_nat n :: rat) / of_nat l"
  define N where "N = nat \<lceil>?x\<rceil>"
  have N: "of_int \<lceil>?x\<rceil> = (of_nat N :: rat)" by (simp add: N_def)
  have pos: "0 < (of_nat l :: rat)" using assms by simp
  have "js_ceil_div n (Fin (of_nat l)) = Fin (of_nat N)" using assms N by simp
  moreover have "n \<le> N * l"
  proof -
    have "?x \<le> of_nat N" using le_of_int_ceiling [of ?x] N by simp
    then have "(of_nat n :: rat) \<le> of_nat (N * l)" using pos by (simp add: pos_divide_le_eq)
    then show ?thesis by (simp only: of_nat_le_iff)
  qed
  moreover have "p * l < n" if "p < N" for p
  proof -
    have "int p < \<lceil>?x\<rceil>" using that by (simp add: N_def)
    then have "of_nat p < ?x" by (simp add: less_ceiling_iff)
    then have "(of_nat (p * l) :: rat) < of_nat n" using pos by (simp add: pos_less_divide_eq)
    then show ?thesis by (simp only: of_nat_less_iff)
  qed
  ultimately show ?thesis by (rule that)
qed

text \<open>Changing the page changes the rows to skip only.\<close>

lemma applyPagination_take_page: "fst (applyPagination e (q\<lparr>q_page := v\<rparr>)) = fst (applyPagination e q)"
  by (simp add: applyPagination_def Let_def)

lemma build_other_fields:
  assumes "q_sort q' = q_sort q" "q_s q' = q_s q" "q_filter q' = q_filter q" "q_or q' = q_or q"
    "q_relations q' = q_relations q" "q_fields q' = q_fields q" "q_exclude_ids q' = q_exclude_ids q"
  shows "build env e allowed q' = map_sum id (\<lambda>fo. fo\<lparr>fo_take := Some (fst (applyPagination e q')),
    fo_skip := Some (snd (applyPagination e q'))\<rparr>) (build env e allowed q)"
proof -
  have "applySorting env q' = applySorting env q" "applyFilters env q' = applyFilters env q"
    "applyRelations allowed q' = applyRelations allowed q" "applyFieldSelection env q' = applyFieldSelection env q"
    "applyExclusions env q' = applyExclusions env q"
    unfolding applySorting_def applyFilters_def applyRelations_def applyFieldSelection_def applyExclusions_def [abs_def] assms
    by (rule refl)+
  then show ?thesis by (simp add: build_def split: sum.split)
qed

lemma build_for_page:
  assumes "build_for env e allowed q = Inr fo"
  shows "build_for env e allowed (q\<lparr>q_page := v\<rparr>) = Inr (fo\<lparr>fo_skip := Some (snd (applyPagination e (q\<lparr>q_page := v\<rparr>)))\<rparr>)"
proof -
  have "fo_take fo = Some (fst (applyPagination e q))"
    using assms by (auto simp: build_for_build build_def split: sum.splits)
  then show ?thesis using assms build_other_fields [of "q\<lparr>q_page := v\<rparr>" q env e "getFinalAllowedRelations allowed"]
    by (simp add: build_for_build applyPagination_take_page)
qed

lemma build_for_ignore_limit: "build_for env e allowed (q\<lparr>q_ignore_limit := b\<rparr>) = build_for env e allowed q"
proof -
  have "applyPagination e (q\<lparr>q_ignore_limit := b\<rparr>) = applyPagination e q" by (simp add: applyPagination_def)
  then have "build env e allowed' (q\<lparr>q_ignore_limit := b\<rparr>) = build env e allowed' q" for allowed'
    using build_other_fields [of "q\<lparr>q_ignore_limit := b\<rparr>" q env e allowed']
    by (cases "build env e allowed' q") (auto simp: build_def split: sum.splits)
  then show ?thesis by (simp add: build_for_def)
qed

lemma build_for_take: "build_for env e allowed q = Inr fo \<Longrightarrow> fo_take fo = Some (fst (applyPagination e q))"
  by (auto simp: build_for_build build_def split: sum.splits)

lemma findPaginated_Inr: "findPaginated tn env db e allowed q t = Inr x \<longleftrightarrow> findEntitiesWithPagination env db e allowed q t = Inr x"
  by (auto simp: findPaginated_def executeDbOperation_def split: sum.splits js_error.splits)

lemma page_of_query:
  assumes "database_ok db" and "build_for env e allowed q = Inr fo" and "\<not> q_get_count_only q" and "\<not> q_ignore_limit q"
    and "unknown_property env (with_soft_delete (fo_where fo)) = None"
    and "fst (applyPagination e q) = Fin (of_nat l)" and "snd (applyPagination e (q\<lparr>q_page := v\<rparr>)) = Fin (of_nat s)" and "1 \<le> l"
  shows "\<exists>pg. findPaginated tn env db e allowed (q\<lparr>q_page := v\<rparr>) t
      = Inr (take l (drop s (db_order db (fo_order fo) (matching_rows db (with_soft_delete (fo_where fo)) t))), pg)
    \<and> pg_total pg = length (matching_rows db (with_soft_delete (fo_where fo)) t)
    \<and> pg_total_pages pg = js_ceil_div (pg_total pg) (Fin (of_nat l))"
proof -
  have slice: "db_slice db (Some (Fin (of_nat s))) (Some (Fin (of_nat l))) rows = Inr (take l (drop s rows))" for rows
    using assms(1,8) unfolding database_ok_def by blast
  show ?thesis unfolding findPaginated_Inr
    using build_for_page [OF assms(2), of v] build_for_take [OF assms(2)] assms(3-7) slice
    by (simp add: findEntitiesWithPagination_def findAndCount_def find_with_options_def count_with_where_def Let_def)
qed


section \<open>Examples\<close>

definition item_db :: "unit database" where
  "item_db = \<lparr>
     db_sat = (\<lambda>r path op.
       if path = [''is_deleted''] then op = Equal (Plain (VBool (is_deleted r))) \<or> op = Equal (Plain (VStr (if is_deleted r then ''true'' else ''false'')))
       else if path = [''deleted_at''] then (op = IsNull) = (deleted_at r = None)
       else if path = [''id''] then op \<noteq> Not (Operator (In [VStr (eid r)]))
       else True),
     db_order = (\<lambda>ord rows. rows),
     db_slice = (\<lambda>s k rows. case (s, k) of (Some (Fin a), Some (Fin b)) \<Rightarrow> Inr (take (nat \<lfloor>b\<rfloor>) (drop (nat \<lfloor>a\<rfloor>) rows)) | _ \<Rightarrow> Inr rows)\<rparr>"

lemma item_db_ok: "database_ok item_db"
  by (auto simp: database_ok_def item_db_def split: option.splits js_number.splits dest: in_set_takeD in_set_dropD)

definition plain_query :: query_params where
  "plain_query = \<lparr>q_page = None, q_offset = None, q_limit = Some (Fin 2), q_sort = None, q_s = VUndef, q_filter = VArr [],
     q_or = VArr [], q_relations = None, q_fields = None, q_exclude_ids = VUndef, q_ignore_limit = False, q_get_count_only = False\<rparr>"

definition item_rows :: "unit table" where
  "item_rows = [example_row ''1'', example_row ''2'', (example_row ''3'')\<lparr>is_deleted := True\<rparr>, example_row ''4'']"

lemma result_obtain: "map_sum f g r = Inr y \<Longrightarrow> \<exists>x. r = Inr x \<and> g x = y"
  by (cases r) auto



text \<open>a filter on \<open>is_deleted\<close> replaces the soft-deletion condition instead of adding to it: a row
  marked as deleted whose deletion date is not set is returned.\<close>

theorem soft_delete_overridden:
  "map_sum id (map eid \<circ> fst) (findPaginated ''items'' item_env item_db NaN [] plain_query item_rows) = Inr [''1'', ''2'']
   \<and> map_sum id (map eid \<circ> fst) (findPaginated ''items'' item_env item_db NaN []
        (plain_query\<lparr>q_filter := VArr [VStr ''is_deleted||$eq||true'']\<rparr>) item_rows) = Inr [''3'']"
  by (rule conjI) code_simp+

text \<open>\<open>findAll\<close> refuses every query with an \<open>or\<close> alternative on an entity without a
  property named \<open>0\<close>: the spread turns the alternatives into properties \<open>0\<close>, \<open>1\<close> and so on, which TypeORM
  does not know.\<close>

theorem findAll_or_refused:
  assumes "build_for env e allowed q = Inr fo" and "fo_where fo = WhereArray (ob # obs)"
    and "findColumnWithPropertyName (root_meta env) ''0'' = None" and "findRelationWithPropertyPath (root_meta env) ''0'' = None"
  shows "\<exists>k m. findAll tn env db e allowed q t = Inl (HttpException BadRequest (Some k) m)"
proof -
  let ?w = "WhereObject (obj_spread softDeleteWhere (map (\<lambda>(i, ob). (show_nat i, Nested ob)) (enumerate 0 (ob # obs))))"
  have keys: "set (map fst (obj_spread a b)) = set (map fst a) \<union> set (map fst b)" for a b :: wobj
  proof (induction b arbitrary: a)
    case (Cons x b)
    then show ?case using Cons [of "obj_set (fst x) (snd x) a"] obj_set_keys [of "fst x" "snd x" a]
      by (auto simp: obj_spread_def split_beta)
  qed (simp add: obj_spread_def)
  have "show_nat 0 = ''0''" by code_simp
  then have "''0'' \<in> set (concat (map (map fst) (alternatives ?w)))" by (simp add: alternatives_def keys [unfolded set_map])
  then have "unknown_property env ?w \<noteq> None" using assms(3,4) unfolding unknown_property_def find_None_iff by blast
  then show ?thesis using assms(1,2)
    by (auto simp: findAll_def findAllEntities_def find_with_options_def executeDbOperation_def)
qed

end
