(* ===== verification/Products.thy ===== *)
theory Products
  imports List_Service
begin

text \<open>
  Products of \<open>apps/inventory-bc/src/modules\<close>: the product service with its variants
  (\<open>product/services/products.service.ts\<close>, \<open>product/utils/generate-variant-combinations.util.ts\<close>), the
  conversion factors with their round check (\<open>uom-conversion/services/uom-conversion-factors.service.ts\<close>)
  and the nested lists of conversion factors, reorder levels, attribute values and variant attributes,
  which are list reads with one filter more. The supplier service answers over RPC;
  \<open>getSupplierById\<close> is the answer of its handler, or nothing. A quantity is a rational number; the
  rounding of the column to four digits keeps whole numbers whole and is left out.
\<close>

section \<open>Entities\<close>

datatype product_type = SINGLE | BUNDLE

record product = base_entity +
  sku :: string
  pr_name_th :: string
  pr_name_en :: string
  pr_type :: product_type
  item_group_id :: string
  brand_id :: "string option"
  stock_uom_id :: string
  has_variants :: bool
  template_product_id :: "string option"
  supplier_id :: "string option"

record item_attribute_value = base_entity +
  iv_attribute_id :: string
  iv_value :: string
  iv_abbr :: "string option"

record item_variant_attribute = base_entity +
  variant_product_id :: string
  va_attribute_id :: string
  va_attribute_value_id :: string

record uom = base_entity +
  uom_name :: string
  is_whole_number :: bool

datatype uom_conversion_type = PURCHASE | SALES

record uom_conversion_factor = base_entity +
  cf_product_id :: string
  cf_uom_id :: string
  conversion_factor :: rat
  uom_type :: uom_conversion_type

section \<open>Variant combinations\<close>

record variant_attribute_selection =
  attribute_id :: string
  value_ids :: "string list"

text \<open>An entry of a combination: the attribute and one of its values.\<close>

type_synonym combination = "(string \<times> string) list"

definition generateVariantCombinations :: "variant_attribute_selection list \<Rightarrow> combination list" where
  "generateVariantCombinations selections =
     foldl (\<lambda>accumulatedCombinations selection.
         concat (map (\<lambda>combination. map (\<lambda>valueId. combination @ [(attribute_id selection, valueId)]) (value_ids selection))
           accumulatedCombinations))
       [[]] selections"

section \<open>The product service\<close>

definition assertValidSupplier :: "(string \<Rightarrow> bool) \<Rightarrow> string \<Rightarrow> unit result" where
  "assertValidSupplier getSupplierById supplierId =
     (if getSupplierById supplierId then Inr ()
      else Inl (BadRequestException (''Supplier '' @ quoted supplierId @ '' not found.'')))"

definition no_template_message :: "string \<Rightarrow> string" where
  "no_template_message templateId = ''Product '' @ quoted templateId @ '' is not a variant template (has_variants=false).''"

definition assertValidTemplate :: "string \<Rightarrow> product list \<Rightarrow> unit result" where
  "assertValidTemplate templateId t =
     (case repo_findOne (\<lambda>r. eid r = templateId \<and> \<not> is_deleted r) t of
        None \<Rightarrow> Inl (BadRequestException (''Template product '' @ quoted templateId @ '' not found.''))
      | Some template \<Rightarrow>
          if \<not> has_variants template then Inl (BadRequestException (no_template_message templateId)) else Inr ())"

text \<open>The checks of the two references a payload names, in the order of the code; an absent or empty
  reference is not checked.\<close>

definition check_references :: "(string \<Rightarrow> bool) \<Rightarrow> string option \<Rightarrow> string option \<Rightarrow> product list \<Rightarrow> unit result" where
  "check_references getSupplierById supplier template t =
     (case (case supplier of None \<Rightarrow> Inr () | Some s \<Rightarrow> if s = [] then Inr () else assertValidSupplier getSupplierById s) of
        Inl e \<Rightarrow> Inl e
      | Inr _ \<Rightarrow>
          (case template of None \<Rightarrow> Inr () | Some i \<Rightarrow> if i = [] then Inr () else assertValidTemplate i t))"

definition products_create where
  "products_create tableName chk getSupplierById new_id data user t =
     (case check_references getSupplierById (supplier_id data) (template_product_id data) t of
        Inl e \<Rightarrow> Inl e
      | Inr _ \<Rightarrow> base_create tableName chk new_id data user t)"

text \<open>An update: the two references as far as the payload names them, and the merge of the others.\<close>

record update_product_dto =
  up_supplier_id :: "string option option"
  up_template_product_id :: "string option option"
  up_others :: "product \<Rightarrow> product"

definition product_patch :: "update_product_dto \<Rightarrow> product \<Rightarrow> product" where
  "product_patch dto r =
     (up_others dto r)\<lparr>supplier_id := (case up_supplier_id dto of None \<Rightarrow> supplier_id r | Some s \<Rightarrow> s),
       template_product_id := (case up_template_product_id dto of None \<Rightarrow> template_product_id r | Some i \<Rightarrow> i)\<rparr>"

definition products_update where
  "products_update tableName chk getSupplierById i dto user t =
     (case check_references getSupplierById (Option.bind (up_supplier_id dto) id) (Option.bind (up_template_product_id dto) id) t of
        Inl e \<Rightarrow> Inl e
      | Inr _ \<Rightarrow> base_update tableName chk i (product_patch dto) user t)"

section \<open>Generating variants\<close>

text \<open>\<open>combination.map\<close> over the values of a combination: the first one missing throws.\<close>

fun combinationValues :: "(string \<times> item_attribute_value) list \<Rightarrow> combination \<Rightarrow> item_attribute_value list result" where
  "combinationValues valueById [] = Inr []"
| "combinationValues valueById ((attribute, valueId) # entries) =
     (case js_map_get valueById valueId of
        None \<Rightarrow> Inl (BadRequestException (''Attribute value '' @ quoted valueId @ '' not found.''))
      | Some v \<Rightarrow>
          (case combinationValues valueById entries of Inl e \<Rightarrow> Inl e | Inr vs \<Rightarrow> Inr (v # vs)))"

definition new_variant :: "string \<Rightarrow> product \<Rightarrow> item_attribute_value list \<Rightarrow> product" where
  "new_variant new_id template vs =
     (let skuSuffix = js_join ''-'' (map (\<lambda>v. case iv_abbr v of None \<Rightarrow> iv_value v | Some a \<Rightarrow> a) vs);
          nameSuffix = js_join '' '' (map iv_value vs) in
      \<lparr>eid = new_id, created_by = None, updated_by = None, is_deleted = False, deleted_reason = None, deleted_at = None,
       deleted_by = None, sku = sku template @ ''-'' @ skuSuffix,
       pr_name_th = pr_name_th template @ '' '' @ nameSuffix, pr_name_en = pr_name_en template @ '' '' @ nameSuffix,
       pr_type = pr_type template, item_group_id = item_group_id template, brand_id = brand_id template,
       stock_uom_id = stock_uom_id template, has_variants = False, template_product_id = Some (eid template),
       supplier_id = supplier_id template\<rparr>)"

definition variantAttributes :: "(nat \<Rightarrow> string) \<Rightarrow> string \<Rightarrow> actor \<Rightarrow> combination \<Rightarrow> item_variant_attribute list" where
  "variantAttributes new_ids variantId user combination =
     map (\<lambda>(j, attribute, valueId).
         \<lparr>eid = new_ids j, created_by = extractUserId user, updated_by = extractUserId user, is_deleted = False,
          deleted_reason = None, deleted_at = None, deleted_by = None, variant_product_id = variantId,
          va_attribute_id = attribute, va_attribute_value_id = valueId\<rparr>)
       (enumerate 0 combination)"

text \<open>The loop over the combinations; \<open>pid k\<close> and \<open>aid k j\<close> are the keys the database generates.\<close>

fun create_variants where
  "create_variants chkp chka pid aid user template valueById k [] products attributes = Inr (products, attributes, [])"
| "create_variants chkp chka pid aid user template valueById k (combination # combinations) products attributes =
     (case combinationValues valueById combination of
        Inl e \<Rightarrow> Inl e
      | Inr vs \<Rightarrow>
          (let variant = stamp_created user (new_variant (pid k) template vs) in
           case repo_save chkp variant products of
             Inl e \<Rightarrow> Inl e
           | Inr products' \<Rightarrow>
               (case repo_save_all chka (variantAttributes (aid k) (eid variant) user combination) attributes of
                  Inl e \<Rightarrow> Inl e
                | Inr attributes' \<Rightarrow>
                    (case create_variants chkp chka pid aid user template valueById (Suc k) combinations products' attributes' of
                       Inl e \<Rightarrow> Inl e
                     | Inr (p, a, created) \<Rightarrow> Inr (p, a, variant # created)))))"

definition generateVariants where
  "generateVariants tableName chkp chka pid aid templateId selections user values_table products attributes =
     executeDbOperation tableName
       (case repo_findOne (\<lambda>r. eid r = templateId \<and> \<not> is_deleted r) products of
          None \<Rightarrow> Inl (NotFoundException (''Product with ID '' @ quoted templateId @ '' not found.''))
        | Some template \<Rightarrow>
            if \<not> has_variants template then Inl (BadRequestException (no_template_message templateId))
            else
              (let combinations = generateVariantCombinations selections in
               if combinations = [] then
                 Inl (BadRequestException ''Every attribute dimension must have at least one selected value.'')
               else
                 (let allValueIds = js_set (map snd (concat combinations));
                      found = repo_find (\<lambda>v. eid v \<in> set allValueIds) values_table;
                      valueById = map (\<lambda>v. (eid v, v)) found in
                  create_variants chkp chka pid aid user template valueById 0 combinations products attributes)))"

section \<open>Conversion factors\<close>

text \<open>\<open>Number.isInteger\<close>.\<close>

definition js_isInteger :: "rat \<Rightarrow> bool" where
  "js_isInteger x \<longleftrightarrow> of_int \<lfloor>x\<rfloor> = x"

definition assertWholeNumberRoundCheck :: "(rat \<Rightarrow> string) \<Rightarrow> string \<Rightarrow> rat \<Rightarrow> product list \<Rightarrow> uom list \<Rightarrow> unit result" where
  "assertWholeNumberRoundCheck show_number productId conversionFactor products uoms =
     (case repo_findOne (\<lambda>r. eid r = productId \<and> \<not> is_deleted r) products of
        None \<Rightarrow> Inl (BadRequestException (''Product '' @ quoted productId @ '' not found.''))
      | Some product \<Rightarrow>
          (case repo_findOne (\<lambda>r. eid r = stock_uom_id product \<and> \<not> is_deleted r) uoms of
             None \<Rightarrow> Inr ()
           | Some stockUom \<Rightarrow>
               if is_whole_number stockUom \<and> \<not> js_isInteger conversionFactor
               then Inl (BadRequestException (''Stock UOM '' @ quoted (uom_name stockUom)
                      @ '' is whole-number-only; conversion_factor ('' @ show_number conversionFactor @ '') must be a whole number.''))
               else Inr ()))"

definition factors_create where
  "factors_create tableName chk show_number new_id data user products uoms t =
     (case assertWholeNumberRoundCheck show_number (cf_product_id data) (conversion_factor data) products uoms of
        Inl e \<Rightarrow> Inl e
      | Inr _ \<Rightarrow> base_create tableName chk new_id data user t)"

text \<open>An update: the two checked columns as far as the payload names them, and the merge of the others.\<close>

record update_factor_dto =
  uf_product_id :: "string option"
  uf_conversion_factor :: "rat option"
  uf_others :: "uom_conversion_factor \<Rightarrow> uom_conversion_factor"

definition factor_patch :: "update_factor_dto \<Rightarrow> uom_conversion_factor \<Rightarrow> uom_conversion_factor" where
  "factor_patch dto r =
     (uf_others dto r)\<lparr>cf_product_id := (case uf_product_id dto of None \<Rightarrow> cf_product_id r | Some i \<Rightarrow> i),
       conversion_factor := (case uf_conversion_factor dto of None \<Rightarrow> conversion_factor r | Some x \<Rightarrow> x)\<rparr>"

definition factors_update where
  "factors_update tableName chk show_number i dto user products uoms t =
     (case (case uf_conversion_factor dto of
              None \<Rightarrow> Inr ()
            | Some x \<Rightarrow>
                (case (case uf_product_id dto of
                         Some p \<Rightarrow> Inr p
                       | None \<Rightarrow> (case base_findById tableName i t of Inl e \<Rightarrow> Inl e | Inr r \<Rightarrow> Inr (cf_product_id r))) of
                   Inl e \<Rightarrow> Inl e
                 | Inr productId \<Rightarrow> assertWholeNumberRoundCheck show_number productId x products uoms)) of
        Inl e \<Rightarrow> Inl e
      | Inr _ \<Rightarrow> base_update tableName chk i (factor_patch dto) user t)"

section \<open>Nested lists\<close>

text \<open>\<open>[].concat(query.filter ?? []).concat(`field||$eq||id`)\<close>.\<close>

definition with_filter :: "string \<Rightarrow> jval \<Rightarrow> jval" where
  "with_filter text v =
     VArr ((case v of VUndef \<Rightarrow> [] | VNull \<Rightarrow> [] | VArr vs \<Rightarrow> vs | _ \<Rightarrow> [v]) @ [VStr text])"

definition findPaginatedBy where
  "findPaginatedBy field i tableName env db fromEnv q t =
     findPaginated tableName env db fromEnv [] (q\<lparr>q_filter := with_filter (field @ ''||$eq||'' @ i) (q_filter q)\<rparr>) t"

definition factors_findPaginatedByProductId where
  "factors_findPaginatedByProductId = findPaginatedBy ''product_id''"

definition reorderLevels_findPaginatedByProductId where
  "reorderLevels_findPaginatedByProductId = findPaginatedBy ''product_id''"

definition findPaginatedByAttributeId where
  "findPaginatedByAttributeId = findPaginatedBy ''attribute_id''"

definition findPaginatedByVariantProductId where
  "findPaginatedByVariantProductId = findPaginatedBy ''variant_product_id''"

section \<open>Combinations are the product\<close>

abbreviation choices :: "variant_attribute_selection \<Rightarrow> (string \<times> string) list" where
  "choices s \<equiv> map (Pair (attribute_id s)) (value_ids s)"

lemma append_sections: "(@) [] = (\<lambda>d. d)" "(@) (c @ [e]) = (\<lambda>d. c @ e # d)"
  by auto

lemma combinations_from:
  "foldl (\<lambda>acc s. concat (map (\<lambda>c. map (\<lambda>v. c @ [(attribute_id s, v)]) (value_ids s)) acc)) acc selections
     = concat (map (\<lambda>c. map (\<lambda>d. c @ d) (product_lists (map choices selections))) acc)"
proof (induction selections arbitrary: acc)
  case Nil
  then show ?case by (induction acc) auto
next
  case (Cons s selections)
  have "concat (concat (map h acc)) = concat (map (\<lambda>c. concat (h c)) acc)" for h :: "combination \<Rightarrow> combination list list"
    by (induction acc) auto
  then show ?case by (simp add: Cons.IH comp_def map_concat append_sections)
qed

lemma combinations_product: "generateVariantCombinations selections = product_lists (map choices selections)"
  using combinations_from [of "[[]]" selections] by (simp add: generateVariantCombinations_def append_sections)

lemma product_lists_length: "length (product_lists xss) = prod_list (map length xss)"
  by (induction xss) (simp_all add: length_concat comp_def sum_list_triv)

lemma product_lists_distinct: "\<forall>xs \<in> set xss. distinct xs \<Longrightarrow> distinct (product_lists xss)"
proof (induction xss)
  case (Cons xs xss)
  have "distinct (concat (map (\<lambda>x. map (Cons x) ys) xs))" if "distinct xs" "distinct ys" for ys
    using that by (induction xs) (auto simp: distinct_map)
  then show ?case using Cons by simp
qed simp

section \<open>What the loop creates\<close>

text \<open>The keys the database generates: pairwise different and not in use.\<close>

definition fresh_keys :: "(nat \<Rightarrow> string) \<Rightarrow> (nat \<Rightarrow> nat \<Rightarrow> string) \<Rightarrow> product list \<Rightarrow> item_variant_attribute list \<Rightarrow> bool" where
  "fresh_keys pid aid products attributes \<longleftrightarrow>
     inj pid \<and> range pid \<inter> eid ` set products = {}
     \<and> inj (\<lambda>(k, j). aid k j) \<and> (\<forall>k j. aid k j \<notin> eid ` set attributes)
     \<and> (\<forall>a \<in> set attributes. variant_product_id a \<notin> range pid)"

text \<open>The attribute rows of a variant, read back as a combination.\<close>

definition attributes_of :: "string \<Rightarrow> item_variant_attribute list \<Rightarrow> combination" where
  "attributes_of i attributes =
     map (\<lambda>a. (va_attribute_id a, va_attribute_value_id a)) (repo_find (\<lambda>a. variant_product_id a = i) attributes)"

definition abbreviated :: "item_attribute_value \<Rightarrow> string" where
  "abbreviated v = (case iv_abbr v of None \<Rightarrow> iv_value v | Some a \<Rightarrow> a)"

lemma combinationValues_Inr:
  "combinationValues m c = Inr vs \<longleftrightarrow> list_all2 (\<lambda>e v. js_map_get m (snd e) = Some v) c vs"
  by (induction m c arbitrary: vs rule: combinationValues.induct)
    (auto simp: list_all2_Cons1 split: option.splits sum.splits)

lemma new_variant_id [simp]: "eid (new_variant i template vs) = i"
  by (simp add: new_variant_def Let_def)

lemma variantAttributes_length [simp]: "length (variantAttributes ids i user c) = length c"
  by (simp add: variantAttributes_def)

lemma variantAttributes_nth:
  assumes "j < length c"
  shows "eid (variantAttributes ids i user c ! j) = ids j"
    and "va_attribute_id (variantAttributes ids i user c ! j) = fst (c ! j)"
    and "va_attribute_value_id (variantAttributes ids i user c ! j) = snd (c ! j)"
    and "variant_product_id (variantAttributes ids i user c ! j) = i" and "visible (variantAttributes ids i user c ! j)"
  using assms by (simp_all add: variantAttributes_def nth_enumerate_eq case_prod_beta visible_def)

lemma variantAttributes_keys: "map eid (variantAttributes ids i user c) = map ids [0..<length c]"
  by (rule nth_equalityI) (simp_all add: variantAttributes_nth)

lemma variantAttributes_entries:
  "map (\<lambda>a. (va_attribute_id a, va_attribute_value_id a)) (variantAttributes ids i user c) = c"
  by (rule nth_equalityI) (simp_all add: variantAttributes_nth)

lemma variantAttributes_owner: "a \<in> set (variantAttributes ids i user c) \<Longrightarrow> variant_product_id a = i \<and> visible a"
  by (auto simp: in_set_conv_nth variantAttributes_nth)

definition created_from :: "(nat \<Rightarrow> string) \<Rightarrow> actor \<Rightarrow> product \<Rightarrow> (string \<times> item_attribute_value) list \<Rightarrow> nat \<Rightarrow> combination \<Rightarrow> product \<Rightarrow> bool" where
  "created_from pid user template m k c r \<longleftrightarrow>
     (\<exists>vs. combinationValues m c = Inr vs \<and> r = stamp_created user (new_variant (pid k) template vs))"

lemma create_variants_rows:
  assumes "create_variants chkp chka pid aid user template m k cs products attributes = Inr (products', attributes', created)"
    and "inj pid" and "inj (\<lambda>(k, j). aid k j)"
    and "\<forall>j \<ge> k. pid j \<notin> eid ` set products" and "\<forall>j \<ge> k. \<forall>l. aid j l \<notin> eid ` set attributes"
  shows "products' = products @ created
    \<and> attributes' = attributes @ concat (map (\<lambda>(j, c). variantAttributes (aid j) (pid j) user c) (enumerate k cs))
    \<and> list_all2 (\<lambda>(j, c) r. created_from pid user template m j c r) (enumerate k cs) created"
  using assms
proof (induction cs arbitrary: k products attributes created)
  case (Cons c cs)
  obtain vs p1 a1 created1 where vs: "combinationValues m c = Inr vs"
    and p1: "repo_save chkp (stamp_created user (new_variant (pid k) template vs)) products = Inr p1"
    and a1: "repo_save_all chka (variantAttributes (aid k) (pid k) user c) attributes = Inr a1"
    and rec: "create_variants chkp chka pid aid user template m (Suc k) cs p1 a1 = Inr (products', attributes', created1)"
    and cr: "created = stamp_created user (new_variant (pid k) template vs) # created1"
    using Cons.prems(1) by (auto simp: Let_def new_variant_def split: sum.splits)
  have ids: "eid ` set (variantAttributes (aid k) (pid k) user c) = aid k ` {0..<length c}"
    using arg_cong [OF variantAttributes_keys, of set "aid k" "pid k" user c] by auto
  have p1': "p1 = products @ [stamp_created user (new_variant (pid k) template vs)]"
    using repo_save_fresh [OF p1] Cons.prems(4) by simp
  have inj_k: "inj (aid k)" by (rule injI) (use Cons.prems(3) in \<open>auto dest: injD [of _ "(k, _)" "(k, _)"]\<close>)
  have a1': "a1 = attributes @ variantAttributes (aid k) (pid k) user c"
  proof (rule repo_save_all_fresh [OF a1])
    show "distinct (map eid (variantAttributes (aid k) (pid k) user c))"
      using inj_on_subset [OF inj_k subset_UNIV] by (simp add: variantAttributes_keys distinct_map)
    show "eid ` set (variantAttributes (aid k) (pid k) user c) \<inter> eid ` set attributes = {}"
      using Cons.prems(5) unfolding ids by blast
  qed
  have pf: "\<forall>j \<ge> Suc k. pid j \<notin> eid ` set p1"
    using Cons.prems(2,4) by (auto simp: p1' dest: injD)
  have af: "\<forall>j \<ge> Suc k. \<forall>l. aid j l \<notin> eid ` set a1"
  proof (intro allI impI)
    fix j l assume j: "Suc k \<le> j"
    have "aid j l \<noteq> aid k x" for x using injD [OF Cons.prems(3), of "(j, l)" "(k, x)"] j by auto
    then show "aid j l \<notin> eid ` set a1" using Cons.prems(5) j unfolding a1' set_append image_Un ids by auto
  qed
  show ?case using Cons.IH [OF rec Cons.prems(2,3) pf af] vs by (auto simp: p1' a1' cr created_from_def)
qed simp

lemma repo_find_append: "repo_find p (xs @ ys) = repo_find p xs @ repo_find p ys"
  by (simp add: repo_find_def)

lemma variantAttributes_find:
  "inj pid \<Longrightarrow> repo_find (\<lambda>a. variant_product_id a = pid j) (variantAttributes ids (pid l) user d)
     = (if l = j then variantAttributes ids (pid l) user d else [])"
  using variantAttributes_owner [of _ ids "pid l" user d] by (auto simp: repo_find_def filter_empty_conv dest: injD)

lemma variantAttributes_find_all:
  assumes "inj pid" and "distinct (map fst ps)"
  shows "repo_find (\<lambda>a. variant_product_id a = pid j) (concat (map (\<lambda>(l, c). variantAttributes (aid l) (pid l) user c) ps))
     = (case map_of ps j of None \<Rightarrow> [] | Some c \<Rightarrow> variantAttributes (aid j) (pid j) user c)"
  using assms(2)
proof (induction ps)
  case (Cons e ps)
  then show ?case
    by (cases e) (auto simp: repo_find_append variantAttributes_find [OF assms(1)] map_of_eq_None_iff image_iff split: option.split dest!: map_of_SomeD)
qed (simp add: repo_find_def)

lemma attributes_read_back:
  assumes "inj pid" and "\<forall>a \<in> set attributes. variant_product_id a \<notin> range pid" and "(j, c) \<in> set (enumerate k cs)"
  shows "attributes_of (pid j) (attributes @ concat (map (\<lambda>(j, c). variantAttributes (aid j) (pid j) user c) (enumerate k cs))) = c"
proof -
  have "repo_find (\<lambda>a. variant_product_id a = pid j) attributes = []"
    using assms(2) by (auto simp: repo_find_def filter_empty_conv)
  moreover have "map_of (enumerate k cs) j = Some c" using assms(3) by (simp add: map_of_is_SomeI map_fst_enumerate)
  ultimately show ?thesis using variantAttributes_entries
    by (simp add: attributes_of_def repo_find_append variantAttributes_find_all [OF assms(1)] map_fst_enumerate)
qed

lemma found_value:
  assumes "js_map_get (map (\<lambda>v. (eid v, v)) (repo_find p t)) i = Some v"
  shows "v \<in> set t \<and> visible v \<and> eid v = i"
  using js_map_get_Some [OF assms] by (auto simp: repo_find_def)

lemma stamp_created_product [simp]:
  "sku (stamp_created user r) = sku r" "has_variants (stamp_created user r) = has_variants r"
  "stock_uom_id (stamp_created user r) = stock_uom_id r" "template_product_id (stamp_created user r) = template_product_id r"
  by (cases user; simp)+

text \<open>The template of a successful request.\<close>

lemma generateVariants_Inr:
  assumes "generateVariants tn chkp chka pid aid i selections user vals products attributes = Inr (products', attributes', created)"
  obtains template m where "template \<in> set products" "eid template = i" "has_variants template"
    "\<And>v x. js_map_get m v = Some x \<Longrightarrow> x \<in> set vals \<and> visible x \<and> eid x = v"
    "create_variants chkp chka pid aid user template m 0 (generateVariantCombinations selections) products attributes
       = Inr (products', attributes', created)"
proof -
  obtain template where t: "repo_findOne (\<lambda>r. eid r = i \<and> \<not> is_deleted r) products = Some template" and h: "has_variants template"
    using assms by (auto simp: generateVariants_def executeDbOperation_Inr split: option.splits if_splits)
  have e: "template \<in> set products" "eid template = i" using t by (auto simp: repo_findOne_def dest: find_Some_iff_mem)
  let ?m = "map (\<lambda>v. (eid v, v)) (repo_find (\<lambda>v. eid v \<in> set (js_set (map snd (concat (generateVariantCombinations selections))))) vals)"
  have "create_variants chkp chka pid aid user template ?m 0 (generateVariantCombinations selections) products attributes
      = Inr (products', attributes', created)"
    using assms t h unfolding generateVariants_def executeDbOperation_Inr Let_def by (simp split: if_splits)
  then show thesis using that [OF e h] found_value by blast
qed

text \<open>C36: generating variants creates every combination exactly once. The new rows are appended to
  the products; reading the attribute rows of a new variant back is a bijection between the new
  variants and the choices of one selected value per attribute; and every variant points to the
  template, is no template itself, keeps its stock unit and carries the abbreviations of its
  values in its SKU.\<close>

theorem variants_exact:
  assumes "generateVariants tn chkp chka pid aid i selections user vals products attributes = Inr (products', attributes', created)"
    and "fresh_keys pid aid products attributes" and "\<forall>s \<in> set selections. distinct (value_ids s)"
  shows "products' = products @ created
    \<and> bij_betw (\<lambda>r. attributes_of (eid r) attributes') (set created)
      {c. list_all2 (\<lambda>e s. fst e = attribute_id s \<and> snd e \<in> set (value_ids s)) c selections}
    \<and> (\<exists>template \<in> set products. eid template = i \<and> has_variants template \<and> (\<forall>r \<in> set created.
      template_product_id r = Some i \<and> \<not> has_variants r \<and> stock_uom_id r = stock_uom_id template
      \<and> (\<exists>vs. list_all2 (\<lambda>e v. v \<in> set vals \<and> visible v \<and> eid v = snd e) (attributes_of (eid r) attributes') vs
          \<and> sku r = sku template @ ''-'' @ js_join ''-'' (map abbreviated vs))))"
proof -
  let ?cs = "generateVariantCombinations selections"
  obtain template m where t: "template \<in> set products" "eid template = i" "has_variants template"
    and m: "\<And>v x. js_map_get m v = Some x \<Longrightarrow> x \<in> set vals \<and> visible x \<and> eid x = v"
    and c: "create_variants chkp chka pid aid user template m 0 ?cs products attributes = Inr (products', attributes', created)"
    by (rule generateVariants_Inr [OF assms(1)]) blast
  have inj: "inj pid" and f: "\<forall>a \<in> set attributes. variant_product_id a \<notin> range pid" using assms(2) by (auto simp: fresh_keys_def)
  from create_variants_rows [OF c inj] assms(2) have p: "products' = products @ created"
    and a: "attributes' = attributes @ concat (map (\<lambda>(j, c). variantAttributes (aid j) (pid j) user c) (enumerate 0 ?cs))"
    and cr: "list_all2 (\<lambda>(j, c) r. created_from pid user template m j c r) (enumerate 0 ?cs) created"
    unfolding fresh_keys_def by blast+
  have len: "length created = length ?cs" using list_all2_lengthD [OF cr] by simp
  have made: "created_from pid user template m j (?cs ! j) (created ! j)" if "j < length ?cs" for j
    using list_all2_nthD [OF cr, of j] that by (simp add: nth_enumerate_eq)
  have of_key: "attributes_of (pid j) attributes' = ?cs ! j" if "j < length ?cs" for j
    unfolding a by (rule attributes_read_back [OF inj f]) (use that in \<open>auto simp: in_set_enumerate_eq\<close>)
  have ids: "eid (created ! j) = pid j" if "j < length ?cs" for j
    using made [OF that] by (auto simp: created_from_def)
  have read_back: "attributes_of (eid (created ! j)) attributes' = ?cs ! j" if "j < length ?cs" for j
    using of_key [OF that] ids [OF that] by simp
  have "map (\<lambda>r. attributes_of (eid r) attributes') created = ?cs"
    by (rule nth_equalityI) (simp_all add: len read_back)
  moreover have "distinct ?cs"
    using assms(3) by (auto simp: combinations_product distinct_map inj_on_def intro!: product_lists_distinct)
  ultimately have "bij_betw (\<lambda>r. attributes_of (eid r) attributes') (set created) (set ?cs)"
    by (metis bij_betw_imageI distinct_map set_map)
  moreover have "set ?cs = {c. list_all2 (\<lambda>e s. fst e = attribute_id s \<and> snd e \<in> set (value_ids s)) c selections}"
    by (auto simp: combinations_product product_lists_set list_all2_map2 elim!: list_all2_mono)
  moreover have "template_product_id r = Some i \<and> \<not> has_variants r \<and> stock_uom_id r = stock_uom_id template
      \<and> (\<exists>vs. list_all2 (\<lambda>e v. v \<in> set vals \<and> visible v \<and> eid v = snd e) (attributes_of (eid r) attributes') vs
          \<and> sku r = sku template @ ''-'' @ js_join ''-'' (map abbreviated vs))" if "r \<in> set created" for r
  proof -
    obtain j where j: "j < length ?cs" "r = created ! j" using \<open>r \<in> set created\<close> len by (auto simp: in_set_conv_nth)
    obtain vs where vs: "combinationValues m (?cs ! j) = Inr vs" and r: "r = stamp_created user (new_variant (pid j) template vs)"
      using made [OF j(1)] j(2) by (auto simp: created_from_def)
    have "list_all2 (\<lambda>e v. v \<in> set vals \<and> visible v \<and> eid v = snd e) (attributes_of (eid r) attributes') vs"
      using vs m unfolding combinationValues_Inr j(2) read_back [OF j(1)] by (auto elim!: list_all2_mono)
    then show ?thesis using t(2) by (auto simp: r new_variant_def Let_def abbreviated_def [abs_def])
  qed
  ultimately show ?thesis using p t by auto
qed

section \<open>Which requests are accepted\<close>

lemma product_lists_empty: "product_lists xss = [] \<longleftrightarrow> [] \<in> set xss"
  by (induction xss) auto

lemma product_lists_covers: "[] \<notin> set xss \<Longrightarrow> set (concat (product_lists xss)) = (\<Union>xs \<in> set xss. set xs)"
proof (induction xss)
  case (Cons xs xss)
  then have "product_lists xss \<noteq> []" "xs \<noteq> []" by (auto simp: product_lists_empty)
  then obtain x ys where "x \<in> set xs" "ys \<in> set (product_lists xss)" by (meson last_in_set)
  moreover have "set (concat (product_lists (xs # xss))) = (\<Union>x \<in> set xs. \<Union>ys \<in> set (product_lists xss). insert x (set ys))"
    by simp
  ultimately have "set (concat (product_lists (xs # xss))) = set xs \<union> set (concat (product_lists xss))" by auto
  then show ?case using Cons by simp
qed simp

lemma combinationValues_ok: "is_ok (combinationValues m c) \<longleftrightarrow> (\<forall>e \<in> set c. js_map_get m (snd e) \<noteq> None)"
  by (induction m c rule: combinationValues.induct) (auto simp: is_ok_conv split: option.splits sum.splits)

lemma combinations_ok:
  "(\<forall>c \<in> set cs. is_ok (combinationValues m c)) \<longleftrightarrow> (\<forall>v \<in> snd ` set (concat cs). js_map_get m v \<noteq> None)"
  by (auto simp: combinationValues_ok)

lemma save_all_accepts: "\<forall>t r. chk t r = None \<Longrightarrow> is_ok (repo_save_all chk rs t)"
  by (induction rs arbitrary: t) (auto simp: repo_save_def)

lemma create_variants_ok:
  assumes "\<forall>t r. chkp t r = None" and "\<forall>t r. chka t r = None"
  shows "is_ok (create_variants chkp chka pid aid user template m k cs products attributes) \<longleftrightarrow> (\<forall>c \<in> set cs. is_ok (combinationValues m c))"
proof (induction cs arbitrary: k products attributes)
  case (Cons c cs)
  show ?case
  proof (cases "combinationValues m c")
    case (Inr vs)
    let ?v = "stamp_created user (new_variant (pid k) template vs)"
    obtain a where "repo_save_all chka (variantAttributes (aid k) (pid k) user c) attributes = Inr a"
      using save_all_accepts [OF assms(2)] by (fastforce simp: is_ok_conv)
    then show ?thesis using Cons.IH [of "Suc k" "put_row ?v products" a] assms(1) Inr
      by (auto simp: repo_save_def is_ok_conv Let_def split: sum.splits)
  qed simp
qed simp

text \<open>which requests for variants are accepted. When the database refuses no row, variants are
  generated exactly when the template is live and marked as one, every attribute has a selected
  value, and all selected values exist; a refused request stores nothing.\<close>

theorem variants_accepted:
  assumes "\<forall>t r. chkp t r = None" and "\<forall>t r. chka t r = None"
  shows "is_ok (generateVariants tn chkp chka pid aid i selections user vals products attributes) \<longleftrightarrow>
    (\<exists>template. repo_findOne (\<lambda>r. eid r = i \<and> \<not> is_deleted r) products = Some template \<and> has_variants template)
    \<and> (\<forall>s \<in> set selections. value_ids s \<noteq> [] \<and> (\<forall>v \<in> set (value_ids s). \<exists>r \<in> set vals. visible r \<and> eid r = v))"
proof -
  let ?cs = "generateVariantCombinations selections"
  let ?m = "map (\<lambda>v. (eid v, v)) (repo_find (\<lambda>v. eid v \<in> set (js_set (map snd (concat ?cs)))) vals)"
  have e: "?cs = [] \<longleftrightarrow> (\<exists>s \<in> set selections. value_ids s = [])"
    by (auto simp: combinations_product product_lists_empty)
  have c: "(\<forall>c \<in> set ?cs. is_ok (combinationValues ?m c)) \<longleftrightarrow>
      (\<forall>s \<in> set selections. \<forall>v \<in> set (value_ids s). \<exists>r \<in> set vals. visible r \<and> eid r = v)" if "?cs \<noteq> []"
  proof -
    have all: "set (concat ?cs) = (\<Union>s \<in> set selections. set (choices s))"
      using that e unfolding combinations_product by (subst product_lists_covers) auto
    have found: "js_map_get ?m v \<noteq> None \<longleftrightarrow> (\<exists>r \<in> set vals. visible r \<and> eid r = v)" if "v \<in> snd ` set (concat ?cs)" for v
      using that by (auto simp: js_map_get_None repo_find_def image_image simp del: set_concat)
    have "(\<forall>c \<in> set ?cs. is_ok (combinationValues ?m c)) \<longleftrightarrow>
        (\<forall>v \<in> snd ` set (concat ?cs). \<exists>r \<in> set vals. visible r \<and> eid r = v)"
      unfolding combinations_ok by (intro ball_cong refl found)
    then show ?thesis unfolding all by auto
  qed
  show ?thesis
    by (cases "repo_findOne (\<lambda>r. eid r = i \<and> \<not> is_deleted r) products")
      (use e c create_variants_ok [OF assms] in \<open>auto simp: generateVariants_def executeDbOperation_Inr is_ok_conv Let_def\<close>)
qed

section \<open>Whole-number units\<close>

text \<open>The stock unit of a product, as the round check finds it.\<close>

definition stock_unit :: "string \<Rightarrow> product list \<Rightarrow> uom list \<Rightarrow> uom option" where
  "stock_unit productId products uoms =
     (case repo_findOne (\<lambda>r. eid r = productId \<and> \<not> is_deleted r) products of
        None \<Rightarrow> None
      | Some p \<Rightarrow> repo_findOne (\<lambda>r. eid r = stock_uom_id p \<and> \<not> is_deleted r) uoms)"

definition factor_ok :: "product list \<Rightarrow> uom list \<Rightarrow> uom_conversion_factor \<Rightarrow> bool" where
  "factor_ok products uoms f \<longleftrightarrow>
     (\<forall>u. stock_unit (cf_product_id f) products uoms = Some u \<and> is_whole_number u \<longrightarrow> js_isInteger (conversion_factor f))"

lemma round_check_Inr:
  "assertWholeNumberRoundCheck sn p x products uoms = Inr () \<Longrightarrow> stock_unit p products uoms = Some u \<Longrightarrow> is_whole_number u \<Longrightarrow> js_isInteger x"
  by (auto simp: assertWholeNumberRoundCheck_def stock_unit_def split: option.splits if_splits)

lemma factor_ok_stamps [simp]:
  "factor_ok ps us (stamp_created u r) = factor_ok ps us r" "factor_ok ps us (stamp_updated u r) = factor_ok ps us r"
  "factor_ok ps us (r\<lparr>eid := i\<rparr>) = factor_ok ps us r" "factor_ok ps us (soft_deleted now u r) = factor_ok ps us r"
  by (cases u; simp add: factor_ok_def soft_deleted_def)+

text \<open>The states of the table of factors under requests whose payload never moves a factor to another
  product without sending the factor; products and units are fixed.\<close>

inductive factors_reachable for tn chk sn products uoms where
  empty: "factors_reachable tn chk sn products uoms []"
| create: "factors_reachable tn chk sn products uoms t \<Longrightarrow> new_id \<notin> eid ` set t \<Longrightarrow>
    factors_create tn chk sn new_id data user products uoms t = Inr (t', e) \<Longrightarrow> factors_reachable tn chk sn products uoms t'"
| update: "factors_reachable tn chk sn products uoms t \<Longrightarrow> (uf_product_id dto \<noteq> None \<Longrightarrow> uf_conversion_factor dto \<noteq> None) \<Longrightarrow>
    factors_update tn chk sn i dto user products uoms t = Inr (t', e) \<Longrightarrow> factors_reachable tn chk sn products uoms t'"
| delete: "factors_reachable tn chk sn products uoms t \<Longrightarrow> base_delete tn ms i soft user t = Inr t' \<Longrightarrow>
    factors_reachable tn chk sn products uoms t'"

lemma saved_inv:
  assumes "repo_save chk e t = Inr t'" and "keys_ok t" and "\<forall>r \<in> set t. P r" and "P e"
  shows "keys_ok t' \<and> (\<forall>r \<in> set t'. P r)"
  using assms save_set [OF assms(1)] by (auto simp: repo_save_def split: option.splits)

lemma factors_update_ok:
  assumes "factors_update tn chk sn i dto user products uoms t = Inr (t', e)" and "keys_ok t" and "\<forall>r \<in> set t. factor_ok products uoms r"
    and "uf_product_id dto \<noteq> None \<Longrightarrow> uf_conversion_factor dto \<noteq> None"
  shows "repo_save chk e t = Inr t' \<and> factor_ok products uoms e"
proof -
  have b: "base_update tn chk i (factor_patch dto) user t = Inr (t', e)"
    using assms(1) by (auto simp: factors_update_def split: sum.splits)
  then have p: "preload i (factor_patch dto) user t = Some e" and s: "repo_save chk e t = Inr t'"
    by (auto simp: base_update_def executeDbOperation_Inr split: option.splits sum.splits)
  obtain r where r: "row t i = Some r" and e: "e = stamp_updated user ((factor_patch dto r)\<lparr>eid := i\<rparr>)"
    using p by (auto simp: preload_row [OF assms(2)] split: option.splits if_splits)
  have "factor_ok products uoms (factor_patch dto r)"
  proof (cases "uf_conversion_factor dto")
    case None
    then have "uf_product_id dto = None" using assms(4) by blast
    then show ?thesis using None assms(3) row_mem [OF r] by (simp add: factor_ok_def factor_patch_def)
  next
    case (Some x)
    have "assertWholeNumberRoundCheck sn (cf_product_id (factor_patch dto r)) x products uoms = Inr ()"
    proof (cases "uf_product_id dto")
      case None
      then obtain y where y: "base_findById tn i t = Inr y" "assertWholeNumberRoundCheck sn (cf_product_id y) x products uoms = Inr ()"
        using assms(1) Some by (auto simp: factors_update_def split: sum.splits)
      have "y = r" using y(1) r by (auto simp: base_findById_def findEntityById_row [OF assms(2)] split: option.splits if_splits)
      then show ?thesis using y(2) None by (simp add: factor_patch_def)
    qed (use assms(1) Some in \<open>auto simp: factors_update_def factor_patch_def split: sum.splits\<close>)
    then show ?thesis using round_check_Inr Some by (fastforce simp: factor_ok_def factor_patch_def)
  qed
  then show ?thesis using s by (simp add: e)
qed

lemma factors_invariant:
  "factors_reachable tn chk sn products uoms t \<Longrightarrow> keys_ok t \<and> (\<forall>f \<in> set t. factor_ok products uoms f)"
proof (induction rule: factors_reachable.induct)
  case (create t new_id data user t' e)
  have c: "assertWholeNumberRoundCheck sn (cf_product_id data) (conversion_factor data) products uoms = Inr ()"
    and s: "repo_save chk (stamp_created user (data\<lparr>eid := new_id\<rparr>)) t = Inr t'"
    using create.hyps(3) by (auto simp: factors_create_def base_create_def createEntity_def executeDbOperation_Inr Let_def split: sum.splits)
  have "factor_ok products uoms data" using round_check_Inr [OF c] by (auto simp: factor_ok_def)
  then have "factor_ok products uoms (stamp_created user (data\<lparr>eid := new_id\<rparr>))" by simp
  then show ?case using saved_inv [OF s] create.IH by blast
next
  case (update t dto i user t' e)
  then have "repo_save chk e t = Inr t' \<and> factor_ok products uoms e" by (intro factors_update_ok) auto
  then show ?case using saved_inv [of chk e t t' "factor_ok products uoms"] update.IH by blast
next
  case (delete t ms i soft user t')
  then have t': "t' = fst (deleteEntity ms i soft user t)" by (auto simp: base_delete_def split: prod.splits if_splits)
  have "\<forall>f \<in> set t'. factor_ok products uoms f" using delete.IH by (auto simp: t' deleteEntity_def repo_update_def repo_delete_def)
  then show ?case using delete.IH deleteEntity_keys t' by blast
qed (simp add: keys_ok_def)

lemma whole_times_whole: "js_isInteger x \<Longrightarrow> js_isInteger (of_int q * x)"
  unfolding js_isInteger_def by (metis floor_of_int of_int_mult)

text \<open>C37: stock in whole-number units stays whole. In every state that creating, updating and deleting
  conversion factors lead to, as long as no update moves a factor to another product without
  sending the factor, converting a whole quantity into a stock unit that is counted in whole numbers
  gives a whole number.\<close>

theorem whole_stock_quantities:
  assumes "factors_reachable tn chk sn products uoms t" and "f \<in> set t"
    and "stock_unit (cf_product_id f) products uoms = Some u" and "is_whole_number u"
  shows "js_isInteger (of_int q * conversion_factor f)"
  by (rule whole_times_whole) (use factors_invariant [OF assms(1)] assms(2-) in \<open>auto simp: factor_ok_def\<close>)

text \<open>an update that names only the product skips the round check: it moves a fractional factor to a
  product with a whole-number unit.\<close>

theorem round_check_skipped:
  assumes "keys_ok t" and "base_findById tn i t = Inr f" and "\<not> js_isInteger (conversion_factor f)"
    and "stock_unit p products uoms = Some u" and "is_whole_number u" and "\<forall>t r. chk t r = None"
  shows "\<exists>t' f'. factors_update tn chk sn i \<lparr>uf_product_id = Some p, uf_conversion_factor = None, uf_others = id\<rparr> user products uoms t
      = Inr (t', f') \<and> f' \<in> set t' \<and> \<not> factor_ok products uoms f'"
proof -
  let ?dto = "\<lparr>uf_product_id = Some p, uf_conversion_factor = None, uf_others = id\<rparr>"
  have r: "row t i = Some f" "deleted_at f = None"
    using assms(2) by (auto simp: base_findById_def findEntityById_row [OF assms(1)] softDeleteFilter_def split: option.splits if_splits)
  let ?e = "stamp_updated user ((factor_patch ?dto f)\<lparr>eid := i\<rparr>)"
  have "preload i (factor_patch ?dto) user t = Some ?e" using r by (simp add: preload_row [OF assms(1)] visible_def)
  moreover have "\<not> factor_ok products uoms (factor_patch ?dto f)" using assms(3-5) by (simp add: factor_ok_def factor_patch_def)
  moreover have "?e \<in> set (put_row ?e t)" by (auto simp: put_row_def)
  ultimately show ?thesis using assms(6)
    by (auto simp: factors_update_def base_update_def executeDbOperation_Inr repo_save_def)
qed

section \<open>References of a product\<close>

text \<open>The handler of the supplier service behind \<open>getSupplierById\<close>: \<open>findById\<close>, whose error is no answer.\<close>

definition handleGetSupplierById :: "string \<Rightarrow> 'm table \<Rightarrow> string \<Rightarrow> bool" where
  "handleGetSupplierById tableName suppliers i = is_ok (base_findById tableName i suppliers)"

definition names_reference :: "string option \<Rightarrow> string \<Rightarrow> bool" where
  "names_reference v i \<longleftrightarrow> v = Some i \<and> i \<noteq> []"

text \<open>a product is accepted exactly with valid references. With the handler of the supplier service
  behind the lookup and no row refused by the database, a create succeeds exactly when the supplier
  it names, if any, is live in the supplier table, and the template it names, if any, is a live
  product marked as a template.\<close>

theorem product_references:
  assumes "\<forall>t r. chk t r = None" and "keys_ok suppliers" and "keys_ok t"
  shows "is_ok (products_create tn chk (handleGetSupplierById stn suppliers) new_id data user t) \<longleftrightarrow>
    (\<forall>i. names_reference (supplier_id data) i \<longrightarrow> (\<exists>r \<in> set suppliers. eid r = i \<and> softDeleteFilter r))
    \<and> (\<forall>i. names_reference (template_product_id data) i \<longrightarrow> (\<exists>r \<in> set t. eid r = i \<and> softDeleteFilter r \<and> has_variants r))"
proof -
  have s: "handleGetSupplierById stn suppliers i \<longleftrightarrow> (\<exists>r \<in> set suppliers. eid r = i \<and> softDeleteFilter r)" for i
    by (auto simp: handleGetSupplierById_def base_findById_def findEntityById_def repo_findOne_def visible_def softDeleteFilter_def
        find_None_iff dest: find_Some_iff_mem split: option.splits)
  have u: "r = r'" if "r \<in> set t" "r' \<in> set t" "eid r = eid r'" for r r' using keys_eq [OF assms(3)] that by blast
  have c: "is_ok (assertValidTemplate i t) \<longleftrightarrow> (\<exists>r \<in> set t. eid r = i \<and> softDeleteFilter r \<and> has_variants r)" for i
    by (auto simp: assertValidTemplate_def repo_findOne_def visible_def softDeleteFilter_def find_None_iff
        dest: find_Some_iff_mem u split: option.splits)
  show ?thesis using assms(1)
    by (auto simp: products_create_def check_references_def base_create_def createEntity_def executeDbOperation_def repo_save_def
        Let_def names_reference_def assertValidSupplier_def s c [symmetric] is_ok_conv split: option.splits sum.splits)
qed

section \<open>Nested lists are scoped\<close>

text \<open>An operator that includes the comparison with a given text, and a value that does.\<close>

fun requires :: "string \<Rightarrow> find_operator \<Rightarrow> bool" where
  "requires i (Equal (Plain (VStr s))) = (s = i)"
| "requires i (And ops) = (\<exists>op \<in> set ops. requires i op)"
| "requires i _ = False"

fun pinned :: "string \<Rightarrow> wval \<Rightarrow> bool" where
  "pinned i (Plain (VStr s)) = (s = i)"
| "pinned i (Operator op) = requires i op"
| "pinned i _ = False"

lemma requires_holds: "requires i op \<Longrightarrow> holds_op sat path op \<Longrightarrow> sat path (Equal (Plain (VStr i)))"
  by (induction i op rule: requires.induct) auto

lemma pinned_holds: "pinned i v \<Longrightarrow> holds_value sat path v \<Longrightarrow> sat path (Equal (Plain (VStr i)))"
  by (cases "(i, v)" rule: pinned.cases) (auto dest: requires_holds)

lemma requires_ensure [simp]: "pinned i v \<Longrightarrow> requires i (ensureFindOperator v)"
  by (cases "(i, v)" rule: pinned.cases) (auto simp: ensureFindOperator_def)

lemma pinned_cases:
  assumes "pinned i v"
  obtains "v = Plain (VStr i)" | op where "v = Operator op" "requires i op"
  using assms by (cases "(i, v)" rule: pinned.cases) auto

lemma pinned_source: "pinned i sv \<Longrightarrow> pinned i (mergeValue tv sv)"
proof (cases tv)
  case (Some x)
  assume "pinned i sv"
  then show ?thesis
  proof (cases rule: pinned_cases)
    case 1
    show ?thesis
    proof (cases x)
      case (Plain j)
      then show ?thesis using 1 Some by (cases j) auto
    qed (use 1 Some in auto)
  next
    case (2 op)
    show ?thesis
    proof (cases x)
      case (Plain j)
      then show ?thesis using 2 Some by (cases j) auto
    qed (use 2 Some in auto)
  qed
qed simp

lemma pinned_target: "pinned i v \<Longrightarrow> pinned i (mergeValue (Some v) sv)"
  by (erule pinned_cases) auto

lemma pinned_null_value: "pinned i v \<Longrightarrow> i \<noteq> [] \<Longrightarrow> \<not> isNullishLiteral i \<Longrightarrow> null_value v = v"
  by (cases "(i, v)" rule: pinned.cases) (auto simp: null_value_def)

text \<open>An object that pins a field.\<close>

definition pins :: "string \<Rightarrow> string \<Rightarrow> wobj \<Rightarrow> bool" where
  "pins field i ob \<longleftrightarrow> (\<exists>v. obj_get ob field = Some v \<and> pinned i v)"

lemma pins_kept: "pins field i t \<Longrightarrow> pins field i (deepMerge t s)"
proof (induction s arbitrary: t)
  case (Cons e s)
  obtain k v where e: "e = (k, v)" by (cases e)
  have "pins field i (obj_set k (mergeValue (obj_get t k) v) t)"
    using Cons.prems pinned_target by (auto simp: pins_def)
  then show ?case using Cons.IH e by simp
qed simp

lemma pins_merged: "pins field i s \<Longrightarrow> distinct (map fst s) \<Longrightarrow> pins field i (deepMerge t s)"
proof (induction s arbitrary: t)
  case (Cons e s)
  obtain k v where e: "e = (k, v)" by (cases e)
  show ?case
  proof (cases "k = field")
    case True
    then have "pins field i (obj_set k (mergeValue (obj_get t k) v) t)"
      using Cons.prems(1) pinned_source by (auto simp: pins_def e obj_get_def [of "_ # _"])
    then show ?thesis using pins_kept e by simp
  next
    case False
    then have "pins field i s" using Cons.prems(1) by (auto simp: pins_def e obj_get_def)
    then show ?thesis using Cons e by simp
  qed
qed (simp add: pins_def obj_get_def)

lemma pins_transformed:
  assumes "pins field i ob" and "i \<noteq> []" and "\<not> isNullishLiteral i"
  shows "pins field i (transformNullValues ob)"
proof -
  have "obj_get (transformNullValues ob) k = map_option null_value (obj_get ob k)" for k
    by (induction ob) (auto simp: obj_get_def)
  then show ?thesis using assms pinned_null_value by (fastforce simp: pins_def)
qed

lemma pins_holds:
  assumes "pins field i ob" and "holds sat ob"
  shows "sat [field] (Equal (Plain (VStr i)))"
proof -
  obtain v where v: "obj_get ob field = Some v" "pinned i v" using assms(1) by (auto simp: pins_def)
  then have "(field, v) \<in> set ob" by (auto simp: obj_get_def dest: map_of_SomeD)
  then have "holds_value sat [field] v" using assms(2) by (fastforce simp: holds_value.simps(2))
  then show ?thesis using pinned_holds [OF v(2)] by blast
qed

text \<open>The last filter text is the last condition merged.\<close>

lemma parseFilterStrings_snoc:
  "parseFilterStrings (xs @ [x]) = Inr ps \<Longrightarrow> parseFilterStrings [x] = Inr [f] \<Longrightarrow> \<exists>qs. ps = qs @ [f]"
proof (induction xs arbitrary: ps)
  case (Cons y xs)
  have "\<exists>ps'. parseFilterStrings (xs @ [x]) = Inr ps' \<and> (ps = ps' \<or> (\<exists>g. ps = g # ps'))"
    using Cons.prems(1) by (auto simp: Let_def split: list.splits if_splits option.splits sum.splits)
  then show ?case using Cons.IH Cons.prems(2) by (metis append_Cons)
qed simp

lemma singleConditions_snoc:
  "singleConditions env (fs @ [f]) n = Inr (cs, n') \<Longrightarrow>
   \<exists>ds c m. cs = ds @ [c] \<and> singleCondition env f m = Inr (c, n')"
proof (induction fs arbitrary: n cs)
  case (Cons g fs)
  then show ?case by (fastforce split: sum.splits)
qed (auto split: sum.splits)

lemma with_filter_last: "js_trim text \<noteq> [] \<Longrightarrow> \<exists>xs. normalizeFilterInput (with_filter text v) = xs @ [text]"
  by (simp add: normalizeFilterInput_def with_filter_def)

text \<open>A column on which an equality filter is a plain comparison.\<close>

definition own_column :: "qenv \<Rightarrow> string \<Rightarrow> bool" where
  "own_column env field \<longleftrightarrow>
     field \<noteq> [] \<and> js_trim field = field \<and> CHR ''|'' \<notin> set field \<and> \<not> js_includes ''.'' field
     \<and> \<not> isJsonbPath env field \<and> \<not> isDateColumnRecursive env field"

lemma own_condition:
  assumes "own_column env field" and "\<not> isNullishLiteral i" and "singleCondition env (field, FEq, i) n = Inr (c, n')"
  shows "c = [(field, Plain (VStr i))]"
  using assms by (auto simp: own_column_def singleCondition_def processedFilterValue_def applyFilterOperator_def split: sum.splits)

lemma in_dropWhile: "x \<in> set s \<Longrightarrow> \<not> P x \<Longrightarrow> x \<in> set (dropWhile P s)"
  by (induction s) auto

lemma trim_nonempty: "x \<in> set s \<Longrightarrow> \<not> is_space x \<Longrightarrow> js_trim s \<noteq> []"
  using in_dropWhile [of x "rev (dropWhile is_space s)" is_space] in_dropWhile [of x s is_space] by (auto simp: js_trim_def)

lemma scoped_pins:
  assumes "names_disjoint env" and "own_column env field" and "i \<noteq> []" and "\<not> isNullishLiteral i"
    and "query_parts env (q\<lparr>q_filter := with_filter (field @ ''||$eq||'' @ i) v\<rparr>) = Inr (a, ors)"
  shows "pins field i a"
proof -
  let ?text = "field @ ''||$eq||'' @ i"
  obtain s f n m where f: "parseFilterParameter env (with_filter ?text v) n = Inr (f, m)" and a: "a = transformNullValues (deepMerge s f)"
    using assms(5) by (auto simp: query_parts_def split: sum.splits)
  then obtain fs where fs: "parseFilterStrings (normalizeFilterInput (with_filter ?text v)) = Inr fs"
    and b: "buildFilterWhereClause env fs [] n = Inr (f, m)"
    by (auto simp: parseFilterParameter_def parsed_and_valid_def split: sum.splits)
  have "js_trim ?text \<noteq> []" by (rule trim_nonempty [of "CHR ''$''"]) (simp_all add: is_space_def)
  then obtain xs where xs: "normalizeFilterInput (with_filter ?text v) = xs @ [?text]" using with_filter_last by blast
  have "parseFilterStrings [?text] = Inr [(field, FEq, i)]"
    using filter_text_roundtrip [of "''$eq''" FEq field i] assms(2) by (simp add: own_column_def FILTER_OPERATORS_def)
  then obtain gs where gs: "fs = gs @ [(field, FEq, i)]" using parseFilterStrings_snoc fs xs by metis
  obtain cs where cs: "singleConditions env fs n = Inr (cs, m)" "f = foldl deepMerge [] cs"
    using b by (auto simp: buildFilter_merges split: sum.splits)
  obtain ds where "cs = ds @ [[(field, Plain (VStr i))]]"
    using singleConditions_snoc [OF cs(1) [unfolded gs]] own_condition [OF assms(2,4)] by blast
  then have "f = deepMerge (foldl deepMerge [] ds) [(field, Plain (VStr i))]" using cs(2) by simp
  then have "pins field i f" by (simp only:) (rule pins_merged, simp_all add: pins_def obj_get_def)
  moreover have "distinct (map fst f)" using parseFilter_shaped [OF assms(1) f] by (auto simp: shaped.simps(1))
  ultimately have "pins field i (deepMerge s f)" by (rule pins_merged)
  then show ?thesis unfolding a by (rule pins_transformed [OF _ assms(3,4)])
qed

lemma obj_spread_get:
  "distinct (map fst b) \<Longrightarrow> obj_get (obj_spread a b) k = (case obj_get b k of None \<Rightarrow> obj_get a k | Some v \<Rightarrow> Some v)"
proof (induction b arbitrary: a)
  case (Cons e b)
  obtain j v where e: "e = (j, v)" by (cases e)
  have "obj_get b j = None" using Cons.prems by (simp add: obj_get_None e)
  moreover have "obj_get (e # b) k = (if k = j then Some v else obj_get b k)" by (simp add: e obj_get_def)
  moreover have "obj_spread a (e # b) = obj_spread (obj_set j v a) b" by (simp add: obj_spread_def e)
  ultimately show ?case using Cons.IH [of "obj_set j v a"] Cons.prems by (simp split: option.split)
qed (simp add: obj_spread_def obj_get_def)

lemma with_soft_delete_implies:
  assumes "\<forall>ob \<in> set (alternatives w). distinct (map fst ob)" and "where_holds sat (with_soft_delete w)"
  shows "where_holds sat w"
proof -
  have "holds sat ob" if "ob \<in> set (alternatives w)" "holds sat (obj_spread softDeleteWhere ob)" for ob
  proof -
    have "(k, v) \<in> set (obj_spread softDeleteWhere ob)" if "(k, v) \<in> set ob" for k v
    proof -
      have "obj_get ob k = Some v" using that assms(1) \<open>ob \<in> set (alternatives w)\<close> by (simp add: obj_get_def map_of_is_SomeI)
      then have "obj_get (obj_spread softDeleteWhere ob) k = Some v"
        using obj_spread_get [of ob] assms(1) \<open>ob \<in> set (alternatives w)\<close> by simp
      then show ?thesis by (auto simp: obj_get_def dest: map_of_SomeD)
    qed
    then show ?thesis using that(2) by (fastforce simp: holds_value.simps(2))
  qed
  then show ?thesis using assms(2)
    by (auto simp: where_holds_alternatives with_soft_delete_def alternatives_def split: where_clause.splits) blast
qed

text \<open>a nested list shows only its own rows. Whatever search, filters and alternatives the client
  sends along, every row that the list of the factors of a product returns is a visible row of the
  table whose product column is compared equal to that product, and the total counts no other rows.
  The same holds of reorder levels, of the values of an attribute and of the attributes of a variant,
  which differ in the name of the column.\<close>

theorem nested_list_scoped:
  assumes "database_ok db" and "names_disjoint env" and "primary_ok env" and "own_column env field" and "i \<noteq> []" and "\<not> isNullishLiteral i"
    and "findPaginatedBy field i tn env db e q t = Inr (data, pg)"
  shows "set data \<subseteq> {r \<in> set t. visible r \<and> db_sat db r [field] (Equal (Plain (VStr i)))}
    \<and> pg_total pg \<le> length (filter (\<lambda>r. visible r \<and> db_sat db r [field] (Equal (Plain (VStr i)))) t)"
proof -
  let ?q = "q\<lparr>q_filter := with_filter (field @ ''||$eq||'' @ i) (q_filter q)\<rparr>"
  obtain fo where fo: "build_for env e [] ?q = Inr fo"
      and d: "set data \<subseteq> set (matching_rows db (with_soft_delete (fo_where fo)) t)"
        "pg_total pg = length (matching_rows db (with_soft_delete (fo_where fo)) t)"
    by (rule findPaginated_rows [OF assms(1) assms(7) [unfolded findPaginatedBy_def]])
  note b = fo [unfolded build_for_build]
  obtain a ors where parts: "query_parts env ?q = Inr (a, ors)" and m: "\<And>sat. where_holds sat (fo_where fo) \<Longrightarrow> holds sat a"
    using build_holds [OF assms(2,3) b] by blast
  have w: "where_holds sat (with_soft_delete (fo_where fo)) \<Longrightarrow> sat [field] (Equal (Plain (VStr i)))" for sat
    using with_soft_delete_implies build_shaped [OF assms(2,3) b] m pins_holds [OF scoped_pins [OF assms(2,4,5,6) parts]]
    by (metis shaped.simps(1))
  have "length (matching_rows db (with_soft_delete (fo_where fo)) t)
      \<le> length (filter (\<lambda>r. visible r \<and> db_sat db r [field] (Equal (Plain (VStr i)))) t)"
    unfolding matching_rows_def repo_find_def by (rule filter_length_mono) (use w in blast)
  moreover have "set (matching_rows db (with_soft_delete (fo_where fo)) t)
      \<subseteq> {r \<in> set t. visible r \<and> db_sat db r [field] (Equal (Plain (VStr i)))}"
    using w by (auto simp: matching_rows_def repo_find_def)
  ultimately show ?thesis using d by auto
qed

section \<open>Examples\<close>

definition shirt :: product where
  "shirt = \<lparr>eid = ''shirt'', created_by = None, updated_by = None, is_deleted = False, deleted_reason = None, deleted_at = None,
     deleted_by = None, sku = ''SH'', pr_name_th = ''suea'', pr_name_en = ''shirt'', pr_type = SINGLE, item_group_id = ''g'',
     brand_id = None, stock_uom_id = ''piece'', has_variants = True, template_product_id = None, supplier_id = None\<rparr>"

definition attribute_value :: "string \<Rightarrow> string \<Rightarrow> string option \<Rightarrow> item_attribute_value" where
  "attribute_value i v a = \<lparr>eid = i, created_by = None, updated_by = None, is_deleted = False, deleted_reason = None, deleted_at = None,
     deleted_by = None, iv_attribute_id = ''c'', iv_value = v, iv_abbr = a\<rparr>"

definition shirt_values :: "item_attribute_value list" where
  "shirt_values = [attribute_value ''r'' ''red'' (Some ''R''), attribute_value ''b'' ''blue'' None, attribute_value ''s'' ''small'' (Some ''S'')]"

definition shirt_selections :: "variant_attribute_selection list" where
  "shirt_selections = [\<lparr>attribute_id = ''color'', value_ids = [''r'', ''b'']\<rparr>, \<lparr>attribute_id = ''size'', value_ids = [''s'']\<rparr>]"

definition example_aid :: "nat \<Rightarrow> nat \<Rightarrow> string" where
  "example_aid k j = show_nat k @ CHR ''_'' # show_nat j"

lemma shirt_fresh: "fresh_keys show_nat example_aid [shirt] []"
proof -
  have "inj show_nat" by (rule injI) simp
  moreover have "inj (\<lambda>(k, j). example_aid k j)"
  proof (rule injI, clarify)
    fix k j l m assume e: "example_aid k j = example_aid l m"
    then have "show_nat k = show_nat l" unfolding example_aid_def by (rule digits_terminated [OF show_nat_digits show_nat_digits])
    then show "k = l \<and> j = m" using e by (simp add: example_aid_def)
  qed
  moreover have "show_nat k \<noteq> ''shirt''" for k
  proof
    assume "show_nat k = ''shirt''"
    then have "list_all is_digit ''shirt''" using show_nat_digits [of k] by simp
    then show False by (simp add: is_digit_def less_eq_char_def)
  qed
  then have "range show_nat \<inter> eid ` set [shirt] = {}" by (force simp: shirt_def)
  ultimately show ?thesis by (simp add: fresh_keys_def)
qed

definition shirt_variants where
  "shirt_variants = generateVariants ''products'' (\<lambda>_ _. None) (\<lambda>_ _. None) show_nat example_aid ''shirt'' shirt_selections (ActorId ''u'')
     shirt_values [shirt] []"

lemma shirt_skus: "map_sum id (map sku \<circ> fst) shirt_variants = Inr [''SH'', ''SH-R-S'', ''SH-blue-S'']"
  unfolding shirt_variants_def by code_simp

theorem variants_exact_witness:
  "\<exists>products' attributes' created. shirt_variants = Inr (products', attributes', created)
     \<and> products' = [shirt] @ created \<and> bij_betw (\<lambda>r. attributes_of (eid r) attributes') (set created)
        {c. list_all2 (\<lambda>e s. fst e = attribute_id s \<and> snd e \<in> set (value_ids s)) c shirt_selections}"
proof -
  obtain products' attributes' created where g: "shirt_variants = Inr (products', attributes', created)"
    using result_obtain [OF shirt_skus] by (metis surj_pair)
  have "\<forall>s \<in> set shirt_selections. distinct (value_ids s)" by (simp add: shirt_selections_def)
  from variants_exact [OF g [unfolded shirt_variants_def] shirt_fresh this] g show ?thesis by blast
qed

theorem variants_accepted_witness:
  "is_ok shirt_variants \<and> \<not> is_ok (generateVariants ''products'' (\<lambda>_ _. None) (\<lambda>_ _. None) show_nat example_aid ''shirt''
     shirt_selections NoActor [attribute_value ''r'' ''red'' None] [shirt] [])"
  unfolding shirt_variants_def
  by (subst (1 2) variants_accepted)
    (simp_all add: shirt_def shirt_selections_def shirt_values_def attribute_value_def repo_findOne_def visible_def)

definition example_uom :: uom where
  "example_uom = \<lparr>eid = ''piece'', created_by = None, updated_by = None, is_deleted = False, deleted_reason = None, deleted_at = None,
     deleted_by = None, uom_name = ''piece'', is_whole_number = True\<rparr>"

definition example_factor :: "string \<Rightarrow> string \<Rightarrow> rat \<Rightarrow> uom_conversion_factor" where
  "example_factor i p x = \<lparr>eid = i, created_by = None, updated_by = None, is_deleted = False, deleted_reason = None, deleted_at = None,
     deleted_by = None, cf_product_id = p, cf_uom_id = ''box'', conversion_factor = x, uom_type = PURCHASE\<rparr>"

lemma shirt_unit: "stock_unit ''shirt'' [shirt] [example_uom] = Some example_uom"
  by (simp add: stock_unit_def repo_findOne_def visible_def shirt_def example_uom_def)

lemma whole_12: "js_isInteger 12"
  unfolding js_isInteger_def by (metis floor_numeral of_int_numeral)

lemma not_whole_half: "\<not> js_isInteger (1 / 2)"
proof -
  have "\<lfloor>1 / 2 :: rat\<rfloor> = 0" by (simp add: floor_eq_iff)
  then show ?thesis by (simp add: js_isInteger_def)
qed

lemma example_factor_stored: "factors_reachable ''f'' (\<lambda>_ _. None) (\<lambda>_. []) [shirt] [example_uom] [example_factor ''1'' ''shirt'' 12]"
proof (rule factors_reachable.create [OF factors_reachable.empty])
  show "factors_create ''f'' (\<lambda>_ _. None) (\<lambda>_. []) ''1'' (example_factor ''1'' ''shirt'' 12) NoActor [shirt] [example_uom] []
      = Inr ([example_factor ''1'' ''shirt'' 12], example_factor ''1'' ''shirt'' 12)"
    by (simp add: factors_create_def assertWholeNumberRoundCheck_def repo_findOne_def visible_def shirt_def example_uom_def
        example_factor_def whole_12 base_create_def createEntity_def executeDbOperation_def repo_save_def put_row_def Let_def)
qed simp

theorem whole_stock_quantities_witness: "js_isInteger (of_int 5 * conversion_factor (example_factor ''1'' ''shirt'' 12))"
  by (rule whole_stock_quantities [OF example_factor_stored]) (simp_all add: shirt_unit example_factor_def, simp add: example_uom_def)

theorem round_check_skipped_witness:
  "\<exists>t' f'. factors_update ''f'' (\<lambda>_ _. None) (\<lambda>_. []) ''1'' \<lparr>uf_product_id = Some ''shirt'', uf_conversion_factor = None, uf_others = id\<rparr>
     NoActor [shirt] [example_uom] [example_factor ''1'' ''oil'' (1 / 2)] = Inr (t', f') \<and> f' \<in> set t' \<and> \<not> factor_ok [shirt] [example_uom] f'"
  by (rule round_check_skipped [where f = "example_factor ''1'' ''oil'' (1 / 2)", OF _ _ _ shirt_unit])
    (simp_all add: keys_ok_def base_findById_def findEntityById_def repo_findOne_def visible_def softDeleteFilter_def example_factor_def
      not_whole_half example_uom_def)

theorem product_references_witness:
  "is_ok (products_create ''products'' (\<lambda>_ _. None) (handleGetSupplierById ''suppliers'' [example_row ''acme'']) ''new''
       (shirt\<lparr>supplier_id := Some ''acme'', template_product_id := Some ''shirt''\<rparr>) NoActor [shirt])
   \<and> \<not> is_ok (products_create ''products'' (\<lambda>_ _. None) (handleGetSupplierById ''suppliers'' [example_row ''acme'']) ''new''
       (shirt\<lparr>supplier_id := Some ''else''\<rparr>) NoActor [shirt])"
  by (subst (1 2) product_references)
    (simp_all add: keys_ok_def names_reference_def example_row_def shirt_def softDeleteFilter_def)

definition factor_env :: qenv where
  "factor_env = item_env\<lparr>qe_schema := (\<lambda>_. \<lparr>em_columns = [example_column ''id'' ''uuid'', example_column ''product_id'' ''uuid'',
       example_column ''uom_id'' ''uuid'', example_column ''is_deleted'' ''bool'', example_column ''deleted_at'' ''timestamptz''],
     em_primary = [''id''], em_relations = []\<rparr>)\<rparr>"

definition factor_db :: "unit uom_conversion_factor_ext database" where
  "factor_db = \<lparr>
     db_sat = (\<lambda>r path op. path = [''product_id''] \<longrightarrow> op = Equal (Plain (VStr (cf_product_id r)))),
     db_order = (\<lambda>ord rows. rows),
     db_slice = (\<lambda>s k rows. case (s, k) of (Some (Fin a), Some (Fin b)) \<Rightarrow> Inr (take (nat \<lfloor>b\<rfloor>) (drop (nat \<lfloor>a\<rfloor>) rows)) | _ \<Rightarrow> Inr rows)\<rparr>"

lemma factor_db_ok: "database_ok factor_db"
  by (auto simp: database_ok_def factor_db_def split: option.splits js_number.splits dest: in_set_takeD in_set_dropD)

theorem nested_list_scoped_witness:
  "\<exists>data pg. findPaginatedBy ''product_id'' ''oil'' ''factors'' factor_env factor_db NaN
      (plain_query\<lparr>q_or := VArr [VStr ''product_id||$eq||shirt'', VStr ''uom_id||$eq||box'']\<rparr>)
      [example_factor ''1'' ''shirt'' 12, example_factor ''2'' ''oil'' 12] = Inr (data, pg)
    \<and> length data = 1 \<and> set data \<subseteq> {r. cf_product_id r = ''oil''}"
proof -
  let ?r = "findPaginatedBy ''product_id'' ''oil'' ''factors'' factor_env factor_db NaN
      (plain_query\<lparr>q_or := VArr [VStr ''product_id||$eq||shirt'', VStr ''uom_id||$eq||box'']\<rparr>)
      [example_factor ''1'' ''shirt'' 12, example_factor ''2'' ''oil'' 12]"
  have "map_sum id (length \<circ> fst) ?r = Inr 1" by code_simp
  then obtain data pg where d: "?r = Inr (data, pg)" and one: "length data = 1" by (auto dest: result_obtain)
  have n: "names_disjoint factor_env" "primary_ok factor_env"
    by (simp_all add: names_disjoint_def primary_ok_def factor_env_def item_env_def example_column_def isValidColumn_def findColumnWithPropertyName_def)
  have c: "own_column factor_env ''product_id''" by code_simp
  have l: "\<not> isNullishLiteral ''oil''" by code_simp
  have "db_sat factor_db r [''product_id''] (Equal (Plain (VStr ''oil''))) \<Longrightarrow> cf_product_id r = ''oil''" for r
    by (simp add: factor_db_def)
  then show ?thesis using nested_list_scoped [OF factor_db_ok n c _ l d] d one by auto
qed

end
