(* ===== verification/Document_Numbers.thy ===== *)
theory Document_Numbers
  imports Base_Service
begin

text \<open>
  Document types and their running numbers, \<open>apps/report-bc/src/modules/document-type\<close>: the format
  parser and formatter of \<open>utils/running-number-format.util.ts\<close> and the service that validates formats
  and issues numbers, \<open>services/document-types.service.ts\<close>. A format is read as a list of literal
  characters and tokens; the regular expression the parser builds consists of literal characters and
  one group of a fixed number of digits, anchored at both ends, and is modelled as the list of
  these. A date is its local year, month and day together with its time in milliseconds. The
  transaction that issues a number holds a row lock, so it is one step.
\<close>

section \<open>Formats\<close>

record local_date =
  jd_year :: nat
  jd_month :: nat
  jd_day :: nat
  jd_ms :: nat

record date_parts =
  dp_yyyy :: string
  dp_yy :: string
  dp_mm :: string
  dp_dd :: string

text \<open>The month of a \<open>Date\<close> counts from zero.\<close>

definition resolveDateParts :: "local_date \<Rightarrow> date_parts" where
  "resolveDateParts now =
     (let yyyy = show_nat (jd_year now) in
      \<lparr>dp_yyyy = yyyy, dp_yy = drop (length yyyy - 2) yyyy,
       dp_mm = js_pad_start 2 CHR ''0'' (show_nat (jd_month now + 1)),
       dp_dd = js_pad_start 2 CHR ''0'' (show_nat (jd_day now))\<rparr>)"

text \<open>The tokens of \<open>TOKEN_RE\<close>; the last carries its digits.\<close>

datatype token = TYear4 | TYear2 | TMonth | TDay | TSeq string

text \<open>\<open>{SEQ:(\d+)}\<close> at the start of a text: its digits and the rest.\<close>

definition match_seq :: "string \<Rightarrow> (string \<times> string) option" where
  "match_seq s =
     (if is_prefix ''{SEQ:'' s
      then let ds = takeWhile is_digit (drop 5 s); rest = dropWhile is_digit (drop 5 s)
           in if ds \<noteq> [] \<and> is_prefix ''}'' rest then Some (ds, tl rest) else None
      else None)"

definition match_token :: "string \<Rightarrow> (token \<times> string) option" where
  "match_token s =
     (if is_prefix ''{YYYY}'' s then Some (TYear4, drop 6 s)
      else if is_prefix ''{YY}'' s then Some (TYear2, drop 4 s)
      else if is_prefix ''{MM}'' s then Some (TMonth, drop 4 s)
      else if is_prefix ''{DD}'' s then Some (TDay, drop 4 s)
      else (case match_seq s of Some (ds, rest) \<Rightarrow> Some (TSeq ds, rest) | None \<Rightarrow> None))"

datatype piece = Lit char | Tok token

lemma match_seq_shorter: "match_seq s = Some (ds, rest) \<Longrightarrow> length rest < length s"
proof -
  assume m: "match_seq s = Some (ds, rest)"
  have "length (dropWhile is_digit (drop 5 s)) \<le> length (drop 5 s)" by (rule length_dropWhile_le)
  then show ?thesis using m by (auto simp: match_seq_def Let_def is_prefix_conv split: if_splits)
qed

lemma match_token_shorter: "match_token s = Some (t, rest) \<Longrightarrow> length rest < length s"
  by (auto simp: match_token_def is_prefix_conv dest: match_seq_shorter split: if_splits option.splits)

text \<open>The successive matches of \<open>TOKEN_RE.exec\<close> and the text between them.\<close>

function pieces :: "string \<Rightarrow> piece list" where
  "pieces [] = []"
| "pieces (c # s) =
     (case match_token (c # s) of
        Some (t, rest) \<Rightarrow> Tok t # pieces rest
      | None \<Rightarrow> Lit c # pieces s)"
  by pat_completeness auto
termination
  by (relation "measure length") (auto dest: match_token_shorter)

section \<open>Reading and writing a number\<close>

datatype re_item = ReChar char | ReDigits nat

definition seq_error :: js_error where
  "seq_error = BadRequestException ''running_number_format must contain exactly one {SEQ:n} placeholder.''"

text \<open>The loop of \<open>parseRunningNumberFormat\<close>: the items of the expression and the number of sequence
  digits found so far.\<close>

fun parse_pieces :: "date_parts \<Rightarrow> piece list \<Rightarrow> nat option \<Rightarrow> (re_item list \<times> nat option) result" where
  "parse_pieces dp [] seqDigits = Inr ([], seqDigits)"
| "parse_pieces dp (p # ps) seqDigits =
     (let continue = (\<lambda>items sd. case parse_pieces dp ps sd of Inl e \<Rightarrow> Inl e | Inr (rest, n) \<Rightarrow> Inr (items @ rest, n)) in
      case p of
        Lit c \<Rightarrow> continue [ReChar c] seqDigits
      | Tok TYear4 \<Rightarrow> continue (map ReChar (dp_yyyy dp)) seqDigits
      | Tok TYear2 \<Rightarrow> continue (map ReChar (dp_yy dp)) seqDigits
      | Tok TMonth \<Rightarrow> continue (map ReChar (dp_mm dp)) seqDigits
      | Tok TDay \<Rightarrow> continue (map ReChar (dp_dd dp)) seqDigits
      | Tok (TSeq ds) \<Rightarrow>
          (if seqDigits \<noteq> None then Inl seq_error
           else continue [ReDigits (digits_val ds)] (Some (digits_val ds))))"

definition parseRunningNumberFormat :: "string \<Rightarrow> local_date \<Rightarrow> (re_item list \<times> nat) result" where
  "parseRunningNumberFormat format now =
     (case parse_pieces (resolveDateParts now) (pieces format) None of
        Inl e \<Rightarrow> Inl e
      | Inr (regex, None) \<Rightarrow> Inl seq_error
      | Inr (regex, Some seqDigits) \<Rightarrow> Inr (regex, seqDigits))"

text \<open>\<open>regex.exec(value)\<close>: the text of the group, if the whole value matches.\<close>

fun re_exec :: "re_item list \<Rightarrow> string \<Rightarrow> string \<Rightarrow> string option" where
  "re_exec [] s g = (if s = [] then Some g else None)"
| "re_exec (ReChar c # items) s g = (case s of [] \<Rightarrow> None | d # s' \<Rightarrow> if c = d then re_exec items s' g else None)"
| "re_exec (ReDigits n # items) s g =
     (if n \<le> length s \<and> list_all is_digit (take n s) then re_exec items (drop n s) (take n s) else None)"

text \<open>\<open>s.replace(/p/g, r)\<close> for a text \<open>p\<close>, and for the pattern of the sequence token.\<close>

fun replace_all :: "string \<Rightarrow> string \<Rightarrow> string \<Rightarrow> string" where
  "replace_all p r [] = []"
| "replace_all p r (c # s) =
     (if is_prefix p (c # s) then r @ replace_all p r (drop (length p - 1) s) else c # replace_all p r s)"

function replace_seq :: "string \<Rightarrow> string \<Rightarrow> string" where
  "replace_seq r [] = []"
| "replace_seq r (c # s) =
     (case match_seq (c # s) of Some (ds, rest) \<Rightarrow> r @ replace_seq r rest | None \<Rightarrow> c # replace_seq r s)"
  by pat_completeness auto
termination
  by (relation "measure (\<lambda>(r, s). length s)") (auto dest: match_seq_shorter)

definition formatRunningNumber :: "string \<Rightarrow> local_date \<Rightarrow> nat \<Rightarrow> nat \<Rightarrow> string" where
  "formatRunningNumber format now sq seqDigits =
     (let dp = resolveDateParts now in
      replace_seq (js_pad_start seqDigits CHR ''0'' (show_nat sq))
        (replace_all ''{DD}'' (dp_dd dp)
          (replace_all ''{MM}'' (dp_mm dp)
            (replace_all ''{YY}'' (dp_yy dp)
              (replace_all ''{YYYY}'' (dp_yyyy dp) format)))))"

section \<open>The service\<close>

record document_type = base_entity +
  dt_code :: string
  dt_name_th :: string
  dt_name_en :: string
  dt_print_template_id :: string
  has_running_number :: bool
  running_number_format :: "string option"
  dt_is_active :: bool

record document_running_number = base_entity +
  rn_document_type_id :: string
  last_running_number :: nat
  last_value :: "string option"
  last_issued_at :: "nat option"

definition validateRunningNumberFormat :: "bool \<Rightarrow> string option \<Rightarrow> local_date \<Rightarrow> unit result" where
  "validateRunningNumberFormat hasRunningNumber format now =
     (if \<not> hasRunningNumber then Inr ()
      else (case format of
              None \<Rightarrow> Inl (BadRequestException ''running_number_format is required when has_running_number is true.'')
            | Some f \<Rightarrow>
                if f = [] then Inl (BadRequestException ''running_number_format is required when has_running_number is true.'')
                else (case parseRunningNumberFormat f now of Inl e \<Rightarrow> Inl e | Inr _ \<Rightarrow> Inr ())))"

definition documentTypes_create where
  "documentTypes_create tableName chk now new_id data user t =
     (case validateRunningNumberFormat (has_running_number data) (running_number_format data) now of
        Inl e \<Rightarrow> Inl e
      | Inr _ \<Rightarrow> base_create tableName chk new_id data user t)"

text \<open>An update: the two fields as far as the payload names them, and the merge of the others.\<close>

record update_document_type_dto =
  ud_has_running_number :: "bool option"
  ud_running_number_format :: "string option option"
  ud_others :: "document_type \<Rightarrow> document_type"

definition dto_patch :: "update_document_type_dto \<Rightarrow> document_type \<Rightarrow> document_type" where
  "dto_patch dto r =
     (ud_others dto r)\<lparr>has_running_number := (case ud_has_running_number dto of None \<Rightarrow> has_running_number r | Some b \<Rightarrow> b),
       running_number_format := (case ud_running_number_format dto of None \<Rightarrow> running_number_format r | Some f \<Rightarrow> f)\<rparr>"

definition documentTypes_update where
  "documentTypes_update tableName chk now i dto user t =
     (case (if ud_has_running_number dto \<noteq> None \<or> ud_running_number_format dto \<noteq> None then
              (case base_findById tableName i t of
                 Inl e \<Rightarrow> Inl e
               | Inr existing \<Rightarrow>
                   validateRunningNumberFormat
                     (case ud_has_running_number dto of None \<Rightarrow> has_running_number existing | Some b \<Rightarrow> b)
                     (case ud_running_number_format dto of None \<Rightarrow> running_number_format existing | Some f \<Rightarrow> f) now)
            else Inr ()) of
        Inl e \<Rightarrow> Inl e
      | Inr _ \<Rightarrow> base_update tableName chk i (dto_patch dto) user t)"

text \<open>The next number and its text, from the last text issued.\<close>

definition next_number :: "string \<Rightarrow> local_date \<Rightarrow> string option \<Rightarrow> (nat \<times> string) result" where
  "next_number format now last_text =
     (case parseRunningNumberFormat format now of
        Inl e \<Rightarrow> Inl e
      | Inr (regex, seqDigits) \<Rightarrow>
          (let found = (case last_text of None \<Rightarrow> None | Some v \<Rightarrow> if v = [] then None else re_exec regex v []);
               nextSeq = (case found of None \<Rightarrow> 1 | Some digits \<Rightarrow> digits_val digits + 1)
           in Inr (nextSeq, formatRunningNumber format now nextSeq seqDigits)))"

definition new_counter :: "string \<Rightarrow> string \<Rightarrow> document_running_number" where
  "new_counter new_id documentTypeId =
     \<lparr>eid = new_id, created_by = None, updated_by = None, is_deleted = False, deleted_reason = None, deleted_at = None,
      deleted_by = None, rn_document_type_id = documentTypeId, last_running_number = 0, last_value = None, last_issued_at = None\<rparr>"

text \<open>\<open>INSERT ... ON CONFLICT DO NOTHING\<close>: a counter of the type, deleted or not, is a conflict.\<close>

definition with_counter :: "string \<Rightarrow> string \<Rightarrow> document_running_number list \<Rightarrow> document_running_number list" where
  "with_counter new_id i counters =
     (if \<exists>c \<in> set counters. rn_document_type_id c = i then counters else counters @ [new_counter new_id i])"

definition generateNextRunningNumber where
  "generateNextRunningNumber tableName chk new_id i now types counters =
     (case base_findById tableName i types of
        Inl e \<Rightarrow> Inl e
      | Inr docType \<Rightarrow>
          (case (has_running_number docType, running_number_format docType) of
             (True, Some format) \<Rightarrow>
               (if format = [] then Inl (BadRequestException ''This document type does not use running numbers.'')
                else executeDbOperation tableName
                  (let c1 = with_counter new_id i counters in
                   case repo_findOne (\<lambda>c. rn_document_type_id c = i) c1 of
                     None \<Rightarrow> Inl (PlainError ''EntityNotFoundError'')
                   | Some counter \<Rightarrow>
                       (case next_number format now (last_value counter) of
                          Inl e \<Rightarrow> Inl e
                        | Inr (nextSeq, text) \<Rightarrow>
                            (let stored = (\<lambda>c. c\<lparr>last_running_number := nextSeq, last_value := Some text, last_issued_at := Some (jd_ms now)\<rparr>) in
                             case chk c1 (stored counter) of
                               Some e \<Rightarrow> Inl (QueryFailedError e)
                             | None \<Rightarrow> Inr (fst (repo_update (\<lambda>c. rn_document_type_id c = i) stored c1), nextSeq, text)))))
           | _ \<Rightarrow> Inl (BadRequestException ''This document type does not use running numbers.'')))"

definition getRunningNumberStatus where
  "getRunningNumberStatus tableName i types counters =
     (case base_findById tableName i types of
        Inl e \<Rightarrow> Inl e
      | Inr _ \<Rightarrow>
          (case repo_findOne (\<lambda>c. rn_document_type_id c = i) counters of
             None \<Rightarrow> Inr (0, None, None)
           | Some c \<Rightarrow> Inr (last_running_number c, last_value c, last_issued_at c)))"

section \<open>Padded numerals\<close>

lemma show_nat_length: "1 \<le> d \<Longrightarrow> length (show_nat n) \<le> d \<longleftrightarrow> n < 10 ^ d"
proof (induction n arbitrary: d rule: show_nat.induct)
  case (1 n)
  show ?case
  proof (cases "n < 10")
    case True
    have "(10 :: nat) ^ 1 \<le> 10 ^ d" by (rule power_increasing) (use 1 in simp_all)
    then show ?thesis using True 1 by (simp add: show_nat.simps [of n])
  next
    case False
    then have len: "length (show_nat n) = Suc (length (show_nat (n div 10)))" by (simp add: show_nat.simps [of n])
    show ?thesis
    proof (cases "d = 1")
      case True
      then show ?thesis using len False by (simp add: not_less)
    next
      case False
      then obtain e where e: "d = Suc e" "1 \<le> e" using 1 by (cases d) auto
      have "n div 10 < 10 ^ e \<longleftrightarrow> n < 10 ^ d" by (simp add: e(1) div_less_iff_less_mult mult.commute)
      then show ?thesis using len "1.IH" [of e] \<open>\<not> n < 10\<close> e by simp
    qed
  qed
qed

definition padded :: "nat \<Rightarrow> nat \<Rightarrow> string" where
  "padded d n = js_pad_start d CHR ''0'' (show_nat n)"

lemma padded_length: "1 \<le> d \<Longrightarrow> length (padded d n) = d \<longleftrightarrow> n < 10 ^ d"
  using show_nat_length [of d n] by (auto simp: padded_def js_pad_start_def)

lemma padded_length_ge: "d \<le> length (padded d n)"
  by (simp add: padded_def js_pad_start_def)

lemma digit_zero: "is_digit CHR ''0''" "char_digit CHR ''0'' = 0"
  by (simp_all add: is_digit_def char_digit_def)

lemma padded_digits: "list_all is_digit (padded d n)"
proof -
  have "list_all is_digit (replicate k CHR ''0'')" for k by (induction k) (simp_all add: digit_zero)
  then show ?thesis by (simp add: padded_def js_pad_start_def)
qed

lemma digits_val_zeros: "digits_val (replicate k CHR ''0'' @ s) = digits_val s"
  unfolding digits_val_def by (induction k) (simp_all add: digit_zero)

lemma padded_val [simp]: "digits_val (padded d n) = n"
  by (simp add: padded_def js_pad_start_def digits_val_zeros)

lemma digit_not_brace: "is_digit c \<Longrightarrow> c \<noteq> CHR ''{'' \<and> c \<noteq> CHR ''}''"
  by (auto simp: is_digit_def less_eq_char_def)

section \<open>Pieces\<close>

fun piece_src :: "piece \<Rightarrow> string" where
  "piece_src (Lit c) = [c]"
| "piece_src (Tok TYear4) = ''{YYYY}''"
| "piece_src (Tok TYear2) = ''{YY}''"
| "piece_src (Tok TMonth) = ''{MM}''"
| "piece_src (Tok TDay) = ''{DD}''"
| "piece_src (Tok (TSeq ds)) = ''{SEQ:'' @ ds @ ''}''"

abbreviation src :: "piece list \<Rightarrow> string" where
  "src ps \<equiv> concat (map piece_src ps)"

lemma match_seq_src: "match_seq s = Some (ds, rest) \<Longrightarrow> s = ''{SEQ:'' @ ds @ ''}'' @ rest \<and> ds \<noteq> [] \<and> list_all is_digit ds"
proof -
  assume m: "match_seq s = Some (ds, rest)"
  then obtain u where u: "s = ''{SEQ:'' @ u" by (auto simp: match_seq_def is_prefix_conv split: if_splits)
  then have d: "ds = takeWhile is_digit u" "ds \<noteq> []" and r: "dropWhile is_digit u = CHR ''}'' # rest"
    using m by (auto simp: match_seq_def Let_def is_prefix_conv split: if_splits)
  have "u = takeWhile is_digit u @ dropWhile is_digit u" by simp
  then have "u = ds @ CHR ''}'' # rest" using d(1) r by metis
  then show ?thesis using u d by (auto simp: list_all_iff dest: set_takeWhileD)
qed

lemma match_token_src: "match_token s = Some (t, rest) \<Longrightarrow> s = piece_src (Tok t) @ rest"
  by (auto simp: match_token_def is_prefix_conv dest: match_seq_src split: if_splits option.splits)

lemma pieces_src: "src (pieces s) = s"
  by (induction s rule: pieces.induct) (auto split: option.split dest: match_token_src [symmetric])

text \<open>Braces occur in tokens only.\<close>

fun plain_piece :: "piece \<Rightarrow> bool" where
  "plain_piece (Lit c) = (c \<noteq> CHR ''{'' \<and> c \<noteq> CHR ''}'')"
| "plain_piece (Tok (TSeq ds)) = (ds \<noteq> [] \<and> list_all is_digit ds)"
| "plain_piece (Tok t) = True"

definition clean :: "string \<Rightarrow> bool" where
  "clean format \<longleftrightarrow> (\<forall>p \<in> set (pieces format). plain_piece p)"

text \<open>Replacing a date token by digits, piece by piece.\<close>

definition put_token :: "token \<Rightarrow> string \<Rightarrow> piece list \<Rightarrow> piece list" where
  "put_token t r ps = concat (map (\<lambda>p. if p = Tok t then map Lit r else [p]) ps)"

lemma put_token_simps [simp]:
  "put_token t r [] = []" "put_token t r (p # ps) = (if p = Tok t then map Lit r else [p]) @ put_token t r ps"
  by (simp_all add: put_token_def)

lemma src_Lit [simp]: "src (map Lit r) = r" "concat (map (piece_src \<circ> Lit) r) = r"
  by (induction r) auto

lemma replace_all_skip:
  "CHR ''{'' \<notin> set w \<Longrightarrow> replace_all (CHR ''{'' # p) r (w @ s) = w @ replace_all (CHR ''{'' # p) r s"
  by (induction w) auto

lemma replace_all_head: "p \<noteq> [] \<Longrightarrow> replace_all p r (p @ s) = r @ replace_all p r s"
  by (cases p) auto

lemma replace_token:
  assumes "t \<in> {TYear4, TYear2, TMonth, TDay}" and "\<forall>p \<in> set ps. plain_piece p"
  shows "replace_all (piece_src (Tok t)) r (src ps) = src (put_token t r ps)"
  using assms(2)
proof (induction ps)
  case (Cons p ps)
  have IH: "replace_all (piece_src (Tok t)) r (src ps) = src (put_token t r ps)" using Cons by simp
  obtain q where q: "piece_src (Tok t) = CHR ''{'' # q" using assms(1) by auto
  show ?case
  proof (cases "p = Tok t")
    case True
    then show ?thesis using IH replace_all_head [of "piece_src (Tok t)" r "src ps"] q by simp
  next
    case False
    have "replace_all (piece_src (Tok t)) r (piece_src p @ src ps) = piece_src p @ replace_all (piece_src (Tok t)) r (src ps)"
    proof (cases p)
      case (Lit c)
      then show ?thesis using Cons.prems q by auto
    next
      case (Tok u)
      obtain w where w: "piece_src p = CHR ''{'' # w" "CHR ''{'' \<notin> set w"
        using Tok Cons.prems digit_not_brace by (cases u) (auto simp: list_all_iff)
      have "\<not> is_prefix (piece_src (Tok t)) (piece_src p @ src ps)"
        using assms(1) False Tok by (cases u) auto
      then show ?thesis using w q replace_all_skip [OF w(2), of q r "src ps"] by simp
    qed
    then show ?thesis using IH False by simp
  qed
qed simp

lemma match_seq_head: "ds \<noteq> [] \<Longrightarrow> list_all is_digit ds \<Longrightarrow> match_seq (''{SEQ:'' @ ds @ ''}'' @ s) = Some (ds, s)"
proof -
  assume ds: "ds \<noteq> []" "list_all is_digit ds"
  have "\<not> is_digit CHR ''}''" by (simp add: is_digit_def less_eq_char_def)
  then have "takeWhile is_digit (ds @ ''}'' @ s) = ds" "dropWhile is_digit (ds @ ''}'' @ s) = ''}'' @ s"
    using ds(2) by (simp_all add: takeWhile_append2 dropWhile_append2 list_all_iff)
  then show ?thesis using ds(1) by (simp add: match_seq_def Let_def)
qed

lemma match_seq_other: "s \<noteq> [] \<Longrightarrow> hd s \<noteq> CHR ''{'' \<Longrightarrow> match_seq s = None"
  by (cases s) (auto simp: match_seq_def)

lemma replace_seq_skip: "CHR ''{'' \<notin> set w \<Longrightarrow> replace_seq r (w @ s) = w @ replace_seq r s"
  by (induction w) (auto simp: match_seq_other)

text \<open>With the date tokens gone, the sequence token is replaced.\<close>

fun is_seq :: "piece \<Rightarrow> bool" where
  "is_seq (Tok (TSeq ds)) = True"
| "is_seq p = False"

fun is_lit :: "piece \<Rightarrow> bool" where
  "is_lit (Lit c) = True"
| "is_lit p = False"

lemma replace_seq_pieces:
  "\<forall>p \<in> set ps. plain_piece p \<and> (is_lit p \<or> is_seq p) \<Longrightarrow>
   replace_seq r (src ps) = concat (map (\<lambda>p. if is_seq p then r else piece_src p) ps)"
proof (induction ps)
  case (Cons p ps)
  show ?case
  proof (cases p)
    case (Lit c)
    then show ?thesis using Cons by (simp add: match_seq_other)
  next
    case (Tok t)
    then obtain ds where ds: "t = TSeq ds" "ds \<noteq> []" "list_all is_digit ds" using Cons.prems by (cases t) auto
    have "replace_seq r (CHR ''{'' # ''SEQ:'' @ ds @ ''}'' @ src ps) = r @ replace_seq r (src ps)"
      using match_seq_head [OF ds(2,3), of "src ps"] by (simp add: replace_seq.simps)
    then show ?thesis using Cons Tok ds by simp
  qed
qed simp

section \<open>The text of a number\<close>

definition date_text :: "date_parts \<Rightarrow> token \<Rightarrow> string" where
  "date_text dp t = (case t of TYear4 \<Rightarrow> dp_yyyy dp | TYear2 \<Rightarrow> dp_yy dp | TMonth \<Rightarrow> dp_mm dp | TDay \<Rightarrow> dp_dd dp | TSeq ds \<Rightarrow> [])"

fun piece_text :: "date_parts \<Rightarrow> string \<Rightarrow> piece \<Rightarrow> string" where
  "piece_text dp sq (Lit c) = [c]"
| "piece_text dp sq (Tok (TSeq ds)) = sq"
| "piece_text dp sq (Tok t) = date_text dp t"

definition digits_only :: "date_parts \<Rightarrow> bool" where
  "digits_only dp \<longleftrightarrow> list_all is_digit (dp_yyyy dp) \<and> list_all is_digit (dp_yy dp) \<and> list_all is_digit (dp_mm dp) \<and> list_all is_digit (dp_dd dp)"

lemma resolve_digits: "digits_only (resolveDateParts now)"
  using show_nat_digits [of "jd_year now"] padded_digits [of 2]
  by (auto simp: digits_only_def resolveDateParts_def Let_def padded_def list_all_iff dest: in_set_dropD)

lemma put_token_plain: "list_all is_digit r \<Longrightarrow> \<forall>p \<in> set ps. plain_piece p \<Longrightarrow> \<forall>p \<in> set (put_token t r ps). plain_piece p"
  using digit_not_brace by (induction ps) (auto simp: list_all_iff)

lemma put_token_none: "Tok u \<in> set (put_token t r ps) \<longleftrightarrow> Tok u \<in> set ps \<and> u \<noteq> t"
  by (induction ps) auto

lemma put_token_text:
  "(\<And>c. f (Lit c) = [c]) \<Longrightarrow> concat (map f (put_token t r ps)) = concat (map (\<lambda>p. if p = Tok t then r else f p) ps)"
proof (induction ps)
  case (Cons p ps)
  have "concat (map (f \<circ> Lit) r) = r" using Cons.prems by (induction r) auto
  then show ?case using Cons by simp
qed simp

lemma piece_text_cases:
  "piece_text dp sq p =
     (if p = Tok TYear4 then dp_yyyy dp else if p = Tok TYear2 then dp_yy dp else if p = Tok TMonth then dp_mm dp
      else if p = Tok TDay then dp_dd dp else if is_seq p then sq else piece_src p)"
  by (cases p rule: plain_piece.cases) (simp_all add: date_text_def)

lemma format_pieces:
  assumes "clean format"
  shows "formatRunningNumber format now sq d = concat (map (piece_text (resolveDateParts now) (padded d sq)) (pieces format))"
proof -
  define dp where "dp = resolveDateParts now"
  have dp: "digits_only dp" unfolding dp_def by (rule resolve_digits)
  define p1 where "p1 = put_token TYear4 (dp_yyyy dp) (pieces format)"
  define p2 where "p2 = put_token TYear2 (dp_yy dp) p1"
  define p3 where "p3 = put_token TMonth (dp_mm dp) p2"
  define p4 where "p4 = put_token TDay (dp_dd dp) p3"
  have plain0: "\<forall>p \<in> set (pieces format). plain_piece p" using assms by (simp add: clean_def)
  have plain1: "\<forall>p \<in> set p1. plain_piece p" unfolding p1_def using dp by (intro put_token_plain plain0) (simp add: digits_only_def)
  have plain2: "\<forall>p \<in> set p2. plain_piece p" unfolding p2_def using dp by (intro put_token_plain plain1) (simp add: digits_only_def)
  have plain3: "\<forall>p \<in> set p3. plain_piece p" unfolding p3_def using dp by (intro put_token_plain plain2) (simp add: digits_only_def)
  have plain4: "\<forall>p \<in> set p4. plain_piece p" unfolding p4_def using dp by (intro put_token_plain plain3) (simp add: digits_only_def)
  have "\<forall>p \<in> set p4. is_lit p \<or> is_seq p"
  proof -
    have "is_lit p \<or> is_seq p \<or> p \<in> Tok ` {TYear4, TYear2, TMonth, TDay}" for p by (cases p rule: plain_piece.cases) auto
    moreover have "Tok u \<notin> set p4" if "u \<in> {TYear4, TYear2, TMonth, TDay}" for u
      using that by (auto simp: p4_def p3_def p2_def p1_def put_token_none)
    ultimately show ?thesis by blast
  qed
  then have seq: "replace_seq (padded d sq) (src p4) = concat (map (\<lambda>p. if is_seq p then padded d sq else piece_src p) p4)"
    using plain4 by (intro replace_seq_pieces) blast
  have "replace_all ''{YYYY}'' (dp_yyyy dp) format = src p1"
    using replace_token [OF _ plain0, of TYear4] by (simp add: p1_def pieces_src)
  moreover have "replace_all ''{YY}'' (dp_yy dp) (src p1) = src p2" using replace_token [OF _ plain1, of TYear2] by (simp add: p2_def)
  moreover have "replace_all ''{MM}'' (dp_mm dp) (src p2) = src p3" using replace_token [OF _ plain2, of TMonth] by (simp add: p3_def)
  moreover have "replace_all ''{DD}'' (dp_dd dp) (src p3) = src p4" using replace_token [OF _ plain3, of TDay] by (simp add: p4_def)
  ultimately have "formatRunningNumber format now sq d = replace_seq (padded d sq) (src p4)"
    by (simp add: formatRunningNumber_def Let_def dp_def padded_def)
  also have "\<dots> = concat (map (\<lambda>p. if is_seq p then padded d sq else piece_src p) p4)" by (rule seq)
  also have "\<dots> = concat (map (piece_text dp (padded d sq)) (pieces format))"
    unfolding p4_def p3_def p2_def p1_def
    by (simp add: put_token_text) (rule arg_cong [where f = concat], rule map_cong [OF refl], simp add: piece_text_cases)
  finally show ?thesis unfolding dp_def .
qed

section \<open>Reading a number back\<close>

definition piece_items :: "date_parts \<Rightarrow> piece \<Rightarrow> re_item list" where
  "piece_items dp p =
     (case p of Lit c \<Rightarrow> [ReChar c] | Tok (TSeq ds) \<Rightarrow> [ReDigits (digits_val ds)] | Tok t \<Rightarrow> map ReChar (date_text dp t))"

lemma parse_pieces_no_seq:
  "parse_pieces dp ps (Some d) = Inr (items, n) \<Longrightarrow>
     n = Some d \<and> items = concat (map (piece_items dp) ps) \<and> (\<forall>p \<in> set ps. \<not> is_seq p)"
  by (induction ps arbitrary: items)
    (auto simp: Let_def piece_items_def date_text_def split: piece.splits token.splits sum.splits)

lemma parse_pieces_one_seq:
  "parse_pieces dp ps None = Inr (items, Some d) \<Longrightarrow>
     items = concat (map (piece_items dp) ps)
     \<and> (\<exists>a ds b. ps = a @ Tok (TSeq ds) # b \<and> digits_val ds = d \<and> (\<forall>p \<in> set a \<union> set b. \<not> is_seq p))"
proof (induction ps arbitrary: items)
  case (Cons p ps)
  show ?case
  proof (cases "is_seq p")
    case True
    then obtain ds where p: "p = Tok (TSeq ds)" by (cases p rule: is_seq.cases) auto
    then obtain rest where r: "parse_pieces dp ps (Some (digits_val ds)) = Inr (rest, Some d)"
        and i: "items = ReDigits (digits_val ds) # rest"
      using Cons.prems by (auto simp: Let_def split: sum.splits)
    have "piece_items dp p = [ReDigits (digits_val ds)]" by (simp add: p piece_items_def)
    moreover have "p # ps = [] @ Tok (TSeq ds) # ps \<and> digits_val ds = d \<and> (\<forall>x \<in> set [] \<union> set ps. \<not> is_seq x)"
      using p parse_pieces_no_seq [OF r] by simp
    ultimately show ?thesis using parse_pieces_no_seq [OF r] i by (metis append_Cons append_Nil concat.simps(2) list.simps(9))
  next
    case False
    then obtain rest where r: "parse_pieces dp ps None = Inr (rest, Some d)" and i: "items = piece_items dp p @ rest"
      using Cons.prems by (auto simp: Let_def piece_items_def date_text_def split: piece.splits token.splits sum.splits)
    from Cons.IH [OF r] obtain a ds b where "ps = a @ Tok (TSeq ds) # b" "digits_val ds = d" "\<forall>p \<in> set a \<union> set b. \<not> is_seq p"
      and rest: "rest = concat (map (piece_items dp) ps)" by blast
    then have "p # ps = (p # a) @ Tok (TSeq ds) # b \<and> digits_val ds = d \<and> (\<forall>x \<in> set (p # a) \<union> set b. \<not> is_seq x)"
      using False by simp
    then show ?thesis using i rest by (metis concat.simps(2) list.simps(9))
  qed
qed simp

lemma re_exec_chars: "re_exec (map ReChar w @ items) (w @ s) g = re_exec items s g"
  by (induction w) auto

lemma re_exec_fixed:
  "\<forall>p \<in> set ps. \<not> is_seq p \<Longrightarrow>
   re_exec (concat (map (piece_items dp) ps) @ items) (concat (map (piece_text dp sq) ps) @ s) g = re_exec items s g"
proof (induction ps)
  case (Cons p ps)
  have "piece_items dp p = map ReChar (piece_text dp sq p)"
    using Cons.prems by (cases p rule: plain_piece.cases) (simp_all add: piece_items_def)
  then show ?case using Cons re_exec_chars [of "piece_text dp sq p"] by simp
qed simp

fun item_width :: "re_item \<Rightarrow> nat" where
  "item_width (ReChar c) = 1"
| "item_width (ReDigits n) = n"

lemma re_exec_length: "re_exec items s g \<noteq> None \<Longrightarrow> length s = sum_list (map item_width items)"
  by (induction items s g rule: re_exec.induct) (auto split: list.splits if_splits)

lemma re_exec_number:
  assumes "ps = a @ Tok (TSeq ds) # b" and "\<forall>p \<in> set a \<union> set b. \<not> is_seq p" and "list_all is_digit sq"
  shows "re_exec (concat (map (piece_items dp) ps)) (concat (map (piece_text dp sq) ps)) [] =
    (if length sq = digits_val ds then Some sq else None)"
proof -
  let ?ib = "concat (map (piece_items dp) b)" and ?tb = "concat (map (piece_text dp sq) b)"
  have "re_exec (concat (map (piece_items dp) ps)) (concat (map (piece_text dp sq) ps)) []
      = re_exec (ReDigits (digits_val ds) # ?ib) (sq @ ?tb) []"
    using re_exec_fixed [of a dp "ReDigits (digits_val ds) # ?ib" sq "sq @ ?tb" "[]"] assms(1,2) by (simp add: piece_items_def)
  moreover have "re_exec ?ib ?tb g = Some g" for g
    using re_exec_fixed [of b dp "[]" sq "[]" g] assms(2) by simp
  moreover have "re_exec (ReDigits (digits_val ds) # ?ib) (sq @ ?tb) [] = None" if "length sq \<noteq> digits_val ds"
  proof (rule ccontr)
    assume "re_exec (ReDigits (digits_val ds) # ?ib) (sq @ ?tb) [] \<noteq> None"
    from re_exec_length [OF this] have "length sq + length ?tb = digits_val ds + sum_list (map item_width ?ib)" by simp
    moreover have "length ?tb = sum_list (map item_width ?ib)"
      using re_exec_length [of ?ib ?tb "[]"] \<open>\<And>g. re_exec ?ib ?tb g = Some g\<close> by simp
    ultimately show False using that by simp
  qed
  ultimately show ?thesis using assms(3) by (auto simp: list_all_iff)
qed

lemma parse_reads:
  assumes "clean format" and "parseRunningNumberFormat format now = Inr (regex, d)" and "1 \<le> d"
  shows "re_exec regex (formatRunningNumber format now n d) [] = (if n < 10 ^ d then Some (padded d n) else None)"
proof -
  have "parse_pieces (resolveDateParts now) (pieces format) None = Inr (regex, Some d)"
    using assms(2) by (auto simp: parseRunningNumberFormat_def split: sum.splits option.splits)
  from parse_pieces_one_seq [OF this] obtain a ds b where r: "regex = concat (map (piece_items (resolveDateParts now)) (pieces format))"
    and p: "pieces format = a @ Tok (TSeq ds) # b" "digits_val ds = d" "\<forall>p \<in> set a \<union> set b. \<not> is_seq p" by blast
  show ?thesis
    unfolding r format_pieces [OF assms(1)] re_exec_number [OF p(1,3) padded_digits] p(2) padded_length [OF assms(3)] ..
qed

lemma formatted_nonempty:
  assumes "clean format" and "parseRunningNumberFormat format now = Inr (regex, d)" and "1 \<le> d"
  shows "formatRunningNumber format now n d \<noteq> []"
proof -
  have "parse_pieces (resolveDateParts now) (pieces format) None = Inr (regex, Some d)"
    using assms(2) by (auto simp: parseRunningNumberFormat_def split: sum.splits option.splits)
  from parse_pieces_one_seq [OF this] obtain a ds b where "pieces format = a @ Tok (TSeq ds) # b" by blast
  moreover have "padded d n \<noteq> []" using padded_length_ge [of d n] assms(3) by auto
  ultimately show ?thesis unfolding format_pieces [OF assms(1)] by simp
qed

lemma next_number_after:
  assumes "clean format" and "parseRunningNumberFormat format now = Inr (regex, d)" and "1 \<le> d"
  shows "next_number format now None = Inr (1, formatRunningNumber format now 1 d)"
    and "next_number format now (Some (formatRunningNumber format now n d)) =
      (let m = (if n < 10 ^ d then Suc n else 1) in Inr (m, formatRunningNumber format now m d))"
  using formatted_nonempty [OF assms] by (simp_all add: next_number_def assms(2) parse_reads [OF assms] Let_def)

lemma formatRunningNumber_inject:
  assumes "clean format" and "parseRunningNumberFormat format now = Inr (regex, d)" and "1 \<le> d" and "m < 10 ^ d" and "n < 10 ^ d"
    and "formatRunningNumber format now m d = formatRunningNumber format now n d"
  shows "m = n"
  using parse_reads [OF assms(1-3), of m] parse_reads [OF assms(1-3), of n] assms(4-6) by (metis option.inject padded_val)

section \<open>Issuing numbers\<close>

text \<open>Several requests for a number of one document type, in the order in which they get the row
  lock.\<close>

fun issue_all where
  "issue_all tableName chk new_id i types [] counters = Inr ([], counters)"
| "issue_all tableName chk new_id i types (now # nows) counters =
     (case generateNextRunningNumber tableName chk new_id i now types counters of
        Inl e \<Rightarrow> Inl e
      | Inr (counters', issued) \<Rightarrow>
          (case issue_all tableName chk new_id i types nows counters' of
             Inl e \<Rightarrow> Inl e
           | Inr (rest, counters'') \<Rightarrow> Inr (issued # rest, counters'')))"

text \<open>The last text of the counter of a document type; without a counter there is none.\<close>

definition last_text :: "string \<Rightarrow> document_running_number list \<Rightarrow> string option option" where
  "last_text i counters =
     (if \<exists>c \<in> set counters. rn_document_type_id c = i
      then map_option last_value (repo_findOne (\<lambda>c. rn_document_type_id c = i) counters) else Some None)"

text \<open>A document type that uses a well-formed format with at least one digit.\<close>

definition numbered :: "string \<Rightarrow> string \<Rightarrow> document_type list \<Rightarrow> string \<Rightarrow> local_date \<Rightarrow> nat \<Rightarrow> bool" where
  "numbered tableName i types format now d \<longleftrightarrow>
     (\<exists>dt. base_findById tableName i types = Inr dt \<and> has_running_number dt \<and> running_number_format dt = Some format)
     \<and> clean format \<and> 1 \<le> d \<and> (\<exists>regex. parseRunningNumberFormat format now = Inr (regex, d))"

lemma numbered_nonempty: "numbered tn i types format now d \<Longrightarrow> format \<noteq> []"
  by (auto simp: numbered_def parseRunningNumberFormat_def)

lemma findOne_update:
  assumes "\<And>c. rn_document_type_id (f c) = rn_document_type_id c" and "\<And>c. deleted_at (f c) = deleted_at c"
  shows "repo_findOne (\<lambda>c. rn_document_type_id c = i) (fst (repo_update (\<lambda>c. rn_document_type_id c = i) f t))
    = map_option f (repo_findOne (\<lambda>c. rn_document_type_id c = i) t)"
  using assms by (induction t) (auto simp: repo_findOne_def repo_update_def visible_def)

lemma with_counter_findOne:
  "map_option last_value (repo_findOne (\<lambda>c. rn_document_type_id c = i) (with_counter new_id i counters)) = last_text i counters"
proof (cases "\<exists>c \<in> set counters. rn_document_type_id c = i")
  case False
  then have "repo_findOne (\<lambda>c. rn_document_type_id c = i) (counters @ [new_counter new_id i]) = Some (new_counter new_id i)"
    unfolding repo_findOne_def by (induction counters) (auto simp: new_counter_def visible_def)
  then show ?thesis using False by (simp add: with_counter_def last_text_def new_counter_def)
qed (auto simp: with_counter_def last_text_def)

lemma generate_step:
  assumes "numbered tn i types format now d" and "last_text i counters = Some v" and "\<forall>t r. chk t r = None"
    and "next_number format now v = Inr (m, text)"
  shows "\<exists>counters'. generateNextRunningNumber tn chk new_id i now types counters = Inr (counters', m, text)
    \<and> last_text i counters' = Some (Some text)"
proof -
  let ?c1 = "with_counter new_id i counters" and ?P = "\<lambda>c. rn_document_type_id c = i"
  obtain c where c: "repo_findOne ?P ?c1 = Some c" "last_value c = v"
    using assms(2) with_counter_findOne [of i new_id counters] by auto
  let ?f = "\<lambda>c. c\<lparr>last_running_number := m, last_value := Some text, last_issued_at := Some (jd_ms now)\<rparr>"
  let ?c2 = "fst (repo_update ?P ?f ?c1)"
  have "generateNextRunningNumber tn chk new_id i now types counters = Inr (?c2, m, text)"
    using assms(1,3,4) c numbered_nonempty [OF assms(1)]
    by (auto simp: numbered_def generateNextRunningNumber_def executeDbOperation_def Let_def)
  moreover have "repo_findOne ?P ?c2 = Some (?f c)" using c(1) by (subst findOne_update) simp_all
  moreover have "\<exists>x \<in> set ?c2. ?P x" using \<open>repo_findOne ?P ?c2 = Some (?f c)\<close> by (auto simp: repo_findOne_def dest: find_Some_iff_mem)
  ultimately show ?thesis by (auto simp: last_text_def)
qed

lemma same_period:
  assumes "resolveDateParts now = resolveDateParts now'"
  shows "parseRunningNumberFormat format now = parseRunningNumberFormat format now'"
    and "formatRunningNumber format now = formatRunningNumber format now'"
  by (simp_all add: parseRunningNumberFormat_def formatRunningNumber_def [abs_def] assms)

lemma same_next:
  assumes "resolveDateParts now = resolveDateParts now'"
  shows "next_number format now v = next_number format now' v"
  unfolding next_number_def same_period [OF assms] ..

lemma issue_from:
  assumes "\<forall>t r. chk t r = None" and "numbered tn i types format now0 d"
  shows "last_text i counters = Some (if n = 0 then None else Some (formatRunningNumber format now0 n d)) \<Longrightarrow>
    \<forall>now \<in> set nows. resolveDateParts now = resolveDateParts now0 \<Longrightarrow> n + length nows \<le> 10 ^ d \<Longrightarrow>
    \<exists>counters'. issue_all tn chk new_id i types nows counters
      = Inr (map (\<lambda>k. (k, formatRunningNumber format now0 k d)) [Suc n..<Suc (n + length nows)], counters')"
proof (induction nows arbitrary: n counters)
  case (Cons now nows)
  obtain regex where p: "clean format" "1 \<le> d" "parseRunningNumberFormat format now0 = Inr (regex, d)"
    using assms(2) by (auto simp: numbered_def)
  have now: "resolveDateParts now = resolveDateParts now0" using Cons.prems(2) by simp
  have num: "numbered tn i types format now d" using assms(2) same_period [OF now] by (simp add: numbered_def)
  have lt: "n < 10 ^ d" using Cons.prems(3) by simp
  have "next_number format now (if n = 0 then None else Some (formatRunningNumber format now0 n d))
      = Inr (Suc n, formatRunningNumber format now0 (Suc n) d)"
    using next_number_after [OF p(1,3,2)] lt unfolding same_next [OF now] by (simp add: Let_def)
  from generate_step [OF num Cons.prems(1) assms(1) this] obtain c1 where
    g: "generateNextRunningNumber tn chk new_id i now types counters = Inr (c1, Suc n, formatRunningNumber format now0 (Suc n) d)"
    and l: "last_text i c1 = Some (Some (formatRunningNumber format now0 (Suc n) d))" by blast
  have "last_text i c1 = Some (if Suc n = 0 then None else Some (formatRunningNumber format now0 (Suc n) d))" using l by simp
  from Cons.IH [OF this] obtain c2 where
    "issue_all tn chk new_id i types nows c1 = Inr (map (\<lambda>k. (k, formatRunningNumber format now0 k d)) [Suc (Suc n)..<Suc (Suc n + length nows)], c2)"
    using Cons.prems(2,3) by auto
  then show ?case using g by (simp add: upt_conv_Cons del: upt_Suc)
qed simp


text \<open>the numbering restarts when the sequence outgrows its digits: after the number that no longer
  fits, the next one is 1 again, with the text issued first.\<close>

theorem running_number_repeats:
  assumes "\<forall>t r. chk t r = None" and "numbered tn i types format now0 d"
    and "last_text i counters = Some (Some (formatRunningNumber format now0 (10 ^ d - 1) d))"
  shows "\<exists>counters'. issue_all tn chk new_id i types [now0, now0] counters
    = Inr ([(10 ^ d, formatRunningNumber format now0 (10 ^ d) d), (1, formatRunningNumber format now0 1 d)], counters')"
proof -
  obtain regex where p: "clean format" "1 \<le> d" "parseRunningNumberFormat format now0 = Inr (regex, d)"
    using assms(2) by (auto simp: numbered_def)
  note next_after = next_number_after(2) [OF p(1,3,2)]
  have "next_number format now0 (Some (formatRunningNumber format now0 (10 ^ d - 1) d)) = Inr (10 ^ d, formatRunningNumber format now0 (10 ^ d) d)"
    using next_after [of "10 ^ d - 1"] by (simp add: Let_def)
  from generate_step [OF assms(2,3,1) this] obtain c1 where
    g1: "generateNextRunningNumber tn chk new_id i now0 types counters = Inr (c1, 10 ^ d, formatRunningNumber format now0 (10 ^ d) d)"
    and l1: "last_text i c1 = Some (Some (formatRunningNumber format now0 (10 ^ d) d))" by blast
  have "next_number format now0 (Some (formatRunningNumber format now0 (10 ^ d) d)) = Inr (1, formatRunningNumber format now0 1 d)"
    using next_after [of "10 ^ d"] by (simp add: Let_def)
  from generate_step [OF assms(2) l1 assms(1) this] obtain c2 where
    "generateNextRunningNumber tn chk new_id i now0 types c1 = Inr (c2, 1, formatRunningNumber format now0 1 d)" by blast
  then show ?thesis using g1 by simp
qed

section \<open>Formats stay valid\<close>

text \<open>Whether a format parses does not depend on the day.\<close>

lemma parse_pieces_any_day:
  "parse_pieces dp ps sd = Inr (items, n) \<Longrightarrow> \<exists>items'. parse_pieces dp' ps sd = Inr (items', n)"
  by (induction ps arbitrary: sd items) (fastforce simp: Let_def split: piece.splits token.splits sum.splits if_splits)+

lemma parse_any_day:
  assumes "parseRunningNumberFormat format now = Inr (regex, d)"
  shows "\<exists>regex'. parseRunningNumberFormat format now' = Inr (regex', d)"
proof -
  have "parse_pieces (resolveDateParts now) (pieces format) None = Inr (regex, Some d)"
    using assms by (auto simp: parseRunningNumberFormat_def split: sum.splits option.splits)
  from parse_pieces_any_day [OF this, of "resolveDateParts now'"] show ?thesis by (force simp: parseRunningNumberFormat_def)
qed

definition format_ok :: "document_type \<Rightarrow> bool" where
  "format_ok r \<longleftrightarrow> (has_running_number r \<longrightarrow>
     (\<exists>f d. running_number_format r = Some f \<and> f \<noteq> [] \<and> (\<forall>now. \<exists>regex. parseRunningNumberFormat f now = Inr (regex, d))))"

lemma validate_format_ok:
  "validateRunningNumberFormat (has_running_number r) (running_number_format r) now = Inr () \<Longrightarrow> format_ok r"
  using parse_any_day by (fastforce simp: validateRunningNumberFormat_def format_ok_def split: if_splits option.splits sum.splits)

lemma format_ok_stamps [simp]:
  "format_ok (stamp_created u r) = format_ok r" "format_ok (stamp_updated u r) = format_ok r"
  "format_ok (r\<lparr>eid := i\<rparr>) = format_ok r" "format_ok (soft_deleted now u r) = format_ok r"
  by (cases u; simp add: format_ok_def soft_deleted_def)+

text \<open>The states of the table of document types.\<close>

inductive doc_reachable :: "string \<Rightarrow> (document_type list \<Rightarrow> document_type \<Rightarrow> driver_error option) \<Rightarrow> document_type list \<Rightarrow> bool"
  for tn chk where
  empty: "doc_reachable tn chk []"
| create: "doc_reachable tn chk t \<Longrightarrow> new_id \<notin> eid ` set t \<Longrightarrow>
    documentTypes_create tn chk now new_id data user t = Inr (t', e) \<Longrightarrow> doc_reachable tn chk t'"
| update: "doc_reachable tn chk t \<Longrightarrow> documentTypes_update tn chk now i dto user t = Inr (t', e) \<Longrightarrow> doc_reachable tn chk t'"
| delete: "doc_reachable tn chk t \<Longrightarrow> base_delete tn ms i soft user t = Inr t' \<Longrightarrow> doc_reachable tn chk t'"

lemma create_inv:
  assumes "documentTypes_create tn chk now new_id data user t = Inr (t', e)" and "keys_ok t" and "\<forall>r \<in> set t. format_ok r"
  shows "keys_ok t' \<and> (\<forall>r \<in> set t'. format_ok r)"
proof -
  have v: "validateRunningNumberFormat (has_running_number data) (running_number_format data) now = Inr ()"
    and s: "repo_save chk (stamp_created user (data\<lparr>eid := new_id\<rparr>)) t = Inr t'"
    using assms(1) by (auto simp: documentTypes_create_def base_create_def createEntity_def executeDbOperation_Inr Let_def split: sum.splits)
  have "keys_ok t'" using s assms(2) by (auto simp: repo_save_def split: option.splits)
  moreover have "format_ok (stamp_created user (data\<lparr>eid := new_id\<rparr>))" using validate_format_ok [OF v] by simp
  ultimately show ?thesis using save_set [OF s] assms(3) by blast
qed

lemma update_inv:
  assumes "documentTypes_update tn chk now i dto user t = Inr (t', e)" and "keys_ok t" and "\<forall>r \<in> set t. format_ok r"
  shows "keys_ok t' \<and> (\<forall>r \<in> set t'. format_ok r)"
proof -
  have b: "base_update tn chk i (dto_patch dto) user t = Inr (t', e)"
    using assms(1) by (auto simp: documentTypes_update_def split: sum.splits)
  then have p: "preload i (dto_patch dto) user t = Some e" and s: "repo_save chk e t = Inr t'"
    by (auto simp: base_update_def executeDbOperation_Inr split: option.splits sum.splits)
  obtain r where r: "row t i = Some r" and e: "e = stamp_updated user ((dto_patch dto r)\<lparr>eid := i\<rparr>)"
    using p by (auto simp: preload_row [OF assms(2)] split: option.splits if_splits)
  have "format_ok (dto_patch dto r)"
  proof (cases "ud_has_running_number dto \<noteq> None \<or> ud_running_number_format dto \<noteq> None")
    case True
    then obtain existing where x: "base_findById tn i t = Inr existing" and
      v: "validateRunningNumberFormat (has_running_number (dto_patch dto existing)) (running_number_format (dto_patch dto existing)) now = Inr ()"
      using assms(1) by (auto simp: documentTypes_update_def dto_patch_def split: sum.splits)
    have "existing = r" using x r by (auto simp: base_findById_def findEntityById_row [OF assms(2)] split: option.splits if_splits)
    then show ?thesis using validate_format_ok [OF v] by simp
  next
    case False
    then have "has_running_number (dto_patch dto r) = has_running_number r" "running_number_format (dto_patch dto r) = running_number_format r"
      by (simp_all add: dto_patch_def)
    then show ?thesis using assms(3) row_mem [OF r] by (simp add: format_ok_def)
  qed
  then have "format_ok e" by (simp add: e)
  moreover have "keys_ok t'" using s assms(2) by (auto simp: repo_save_def split: option.splits)
  ultimately show ?thesis using save_set [OF s] assms(3) by blast
qed

lemma doc_invariant: "doc_reachable tn chk t \<Longrightarrow> keys_ok t \<and> (\<forall>r \<in> set t. format_ok r)"
proof (induction rule: doc_reachable.induct)
  case (delete t ms i soft user t')
  then have t': "t' = fst (deleteEntity ms i soft user t)" by (auto simp: base_delete_def split: prod.splits if_splits)
  have "\<forall>r \<in> set t'. format_ok r" using delete.IH by (auto simp: t' deleteEntity_def repo_update_def repo_delete_def)
  then show ?case using delete.IH deleteEntity_keys t' by blast
qed (auto simp: keys_ok_def dest: create_inv update_inv)


section \<open>Examples\<close>

definition invoice_type :: document_type where
  "invoice_type = \<lparr>eid = ''inv'', created_by = None, updated_by = None, is_deleted = False, deleted_reason = None, deleted_at = None,
     deleted_by = None, dt_code = ''INV'', dt_name_th = ''INV'', dt_name_en = ''Invoice'', dt_print_template_id = ''p'',
     has_running_number = True, running_number_format = Some ''INV-{YYYY}{MM}-{SEQ:2}'', dt_is_active = True\<rparr>"

definition example_day :: local_date where
  "example_day = \<lparr>jd_year = 2026, jd_month = 6, jd_day = 9, jd_ms = 0\<rparr>"

lemma invoice_numbered: "numbered ''document_types'' ''inv'' [invoice_type] ''INV-{YYYY}{MM}-{SEQ:2}'' example_day 2"
proof -
  have "base_findById ''document_types'' ''inv'' [invoice_type] = Inr invoice_type"
    by (simp add: base_findById_def findEntityById_def repo_findOne_def visible_def softDeleteFilter_def invoice_type_def)
  moreover have "clean ''INV-{YYYY}{MM}-{SEQ:2}''" by code_simp
  moreover have "map_sum id snd (parseRunningNumberFormat ''INV-{YYYY}{MM}-{SEQ:2}'' example_day) = Inr 2" by code_simp
  then have "\<exists>regex. parseRunningNumberFormat ''INV-{YYYY}{MM}-{SEQ:2}'' example_day = Inr (regex, 2)"
    by (cases "parseRunningNumberFormat ''INV-{YYYY}{MM}-{SEQ:2}'' example_day") auto
  ultimately show ?thesis by (auto simp: numbered_def invoice_type_def)
qed


definition invoice_counter :: document_running_number where
  "invoice_counter = (new_counter ''c'' ''inv'')\<lparr>last_running_number := 99, last_value := Some ''INV-202607-99''\<rparr>"

theorem running_number_repeats_witness:
  "\<exists>counters'. issue_all ''document_types'' (\<lambda>_ _. None) ''c'' ''inv'' [invoice_type] [example_day, example_day] [invoice_counter]
      = Inr ([(100, ''INV-202607-100''), (1, ''INV-202607-01'')], counters')"
proof -
  have texts: "formatRunningNumber ''INV-{YYYY}{MM}-{SEQ:2}'' example_day 99 2 = ''INV-202607-99''"
    "formatRunningNumber ''INV-{YYYY}{MM}-{SEQ:2}'' example_day 100 2 = ''INV-202607-100''"
    "formatRunningNumber ''INV-{YYYY}{MM}-{SEQ:2}'' example_day 1 2 = ''INV-202607-01''" by code_simp+
  have "last_text ''inv'' [invoice_counter] = Some (Some (formatRunningNumber ''INV-{YYYY}{MM}-{SEQ:2}'' example_day (10 ^ 2 - 1) 2))"
    using texts(1) by (simp add: last_text_def invoice_counter_def new_counter_def repo_findOne_def visible_def)
  from running_number_repeats [OF _ invoice_numbered this, of "\<lambda>_ _. None" "''c''"] show ?thesis using texts(2,3) by simp
qed

lemma invoice_reachable: "doc_reachable ''document_types'' (\<lambda>_ _. None) [invoice_type]"
proof -
  have "validateRunningNumberFormat (has_running_number invoice_type) (running_number_format invoice_type) example_day = Inr ()" by code_simp
  then have "documentTypes_create ''document_types'' (\<lambda>_ _. None) example_day ''inv'' invoice_type NoActor [] = Inr ([invoice_type], invoice_type)"
    by (simp add: documentTypes_create_def base_create_def createEntity_def executeDbOperation_def repo_save_def put_row_def invoice_type_def Let_def)
  from doc_reachable.create [OF doc_reachable.empty _ this] show ?thesis by simp
qed


end
