(* ===== verification/Permission_Scan.thy ===== *)
theory Permission_Scan
  imports Iam_Data Query_Where
begin

text \<open>
  \<open>libs/database/src/scripts/permission-sync-scan.util.ts\<close>: the permissions that the sources declare. The
  tree below \<open>apps\<close> is a list of named files and directories, with the text of each file; a
  regular expression of the code is a function on the text it is applied to. \<open>JSON.parse\<close> of a
  manifest is a parameter, \<open>None\<close> where it throws. Warnings on the console are left out.
\<close>

section \<open>Permission strings\<close>

record scanned_permission =
  sp_service :: string
  sp_permission :: string
  sp_resource :: string
  sp_action :: string
  sp_name :: "(string \<times> string) option"
  sp_plane :: plane

text \<open>\<open>PERMISSION_STRING.exec\<close>: the part before the colon and the part after it.\<close>

definition match_permission :: "string \<Rightarrow> (string \<times> string) option" where
  "match_permission s =
     (let prefix = takeWhile is_word_char s in
      case dropWhile is_word_char s of
        [] \<Rightarrow> None
      | c # action \<Rightarrow>
          if c = CHR '':'' \<and> prefix \<noteq> [] \<and> action \<noteq> [] \<and> list_all is_word_char action then Some (prefix, action) else None)"

definition derivePermissionParts :: "string \<Rightarrow> (string \<times> string) option" where
  "derivePermissionParts permission =
     (case match_permission permission of
        None \<Rightarrow> None
      | Some (prefix, action) \<Rightarrow>
          if prefix \<noteq> ''page'' then Some (prefix, action)
          else
            (let stripped = (if is_prefix ''view_'' action then drop 5 action else action);
                 slug = (if stripped = [] then action else stripped)
             in Some (''page_'' @ slug, action)))"

definition humanize :: "string \<Rightarrow> string" where
  "humanize w =
     js_join '' '' (map (\<lambda>part. case part of [] \<Rightarrow> [] | c # cs \<Rightarrow> to_upper_char c # cs) (js_split (CHR ''_'') w))"

definition derivePlaceholderName :: "string \<Rightarrow> string" where
  "derivePlaceholderName permission =
     (case match_permission permission of
        None \<Rightarrow> humanize permission
      | Some (prefix, action) \<Rightarrow> humanize action @ '' '' @ humanize prefix)"

section \<open>Files\<close>

datatype node = FileNode string | DirNode "(string \<times> node) list"

definition ends_with :: "string \<Rightarrow> string \<Rightarrow> bool" where
  "ends_with p s = is_prefix (rev p) (rev s)"

definition isSourceFile :: "string \<Rightarrow> bool" where
  "isSourceFile entry \<longleftrightarrow> ends_with ''.ts'' entry \<and> \<not> ends_with ''.spec.ts'' entry"

definition isViewFile :: "string \<Rightarrow> bool" where
  "isViewFile entry \<longleftrightarrow> ends_with ''.ejs'' entry \<or> ends_with ''.js'' entry"

text \<open>\<open>walk\<close>, with the text of the files in place of their paths.\<close>

fun walk_files :: "(string \<Rightarrow> bool) \<Rightarrow> (string \<times> node) list \<Rightarrow> string list" where
  "walk_files matches [] = []"
| "walk_files matches ((entry, nd) # entries) =
     (if entry = ''node_modules'' \<or> entry = ''dist'' then []
      else (case nd of
              DirNode sub \<Rightarrow> walk_files matches sub
            | FileNode content \<Rightarrow> if matches entry then [content] else [])) @ walk_files matches entries"

text \<open>The entries of a subdirectory; none where \<open>statSync\<close> throws or finds a file.\<close>

definition subdirectory :: "node \<Rightarrow> string \<Rightarrow> (string \<times> node) list option" where
  "subdirectory nd sub =
     (case nd of
        FileNode _ \<Rightarrow> None
      | DirNode entries \<Rightarrow>
          (case map_of entries sub of Some (DirNode es) \<Rightarrow> Some es | _ \<Rightarrow> None))"

section \<open>Decorator calls\<close>

definition DECORATOR_CALL_START :: string where
  "DECORATOR_CALL_START = ''@RequirePermission(''"

text \<open>\<open>content.indexOf(p)\<close>: the text after the first occurrence.\<close>

fun after_first :: "string \<Rightarrow> string \<Rightarrow> string option" where
  "after_first p [] = (if p = [] then Some [] else None)"
| "after_first p (c # s) = (if is_prefix p (c # s) then Some (drop (length p) (c # s)) else after_first p s)"

text \<open>The loop of \<open>extractBalancedArgs\<close> on the text after the opening parenthesis; \<open>prev\<close> is the
  character before it.\<close>

fun balanced_args :: "char \<Rightarrow> nat \<Rightarrow> char option \<Rightarrow> string \<Rightarrow> string" where
  "balanced_args prev depth quote [] = []"
| "balanced_args prev depth (Some q) (c # s) =
     c # balanced_args c depth (if c = q \<and> prev \<noteq> CHR 0x5C then None else Some q) s"
| "balanced_args prev depth None (c # s) =
     (if c = CHR 0x27 \<or> c = CHR 0x22 \<or> c = CHR 0x60 then c # balanced_args c depth (Some c) s
      else if c = CHR ''('' then c # balanced_args c (depth + 1) None s
      else if c = CHR '')'' then (if depth = 1 then [] else c # balanced_args c (depth - 1) None s)
      else c # balanced_args c depth None s)"

definition extractBalancedArgs :: "string \<Rightarrow> string" where
  "extractBalancedArgs s = balanced_args (CHR ''('') 1 None s"

lemma after_first_shorter: "after_first p s = Some t \<Longrightarrow> length t \<le> length s"
  by (induction p s rule: after_first.induct) (auto split: if_splits)

lemma after_first_shorter': "after_first (a # p) s = Some t \<Longrightarrow> length t < length s"
proof (induction s)
  case (Cons c s)
  then show ?case using after_first_shorter [of "a # p" s t] by (auto split: if_splits)
qed simp

text \<open>The loop over the calls of a file: the arguments of each.\<close>

function decorator_calls :: "string \<Rightarrow> string list" where
  "decorator_calls content =
     (case after_first DECORATOR_CALL_START content of
        None \<Rightarrow> []
      | Some rest \<Rightarrow> (let args = extractBalancedArgs rest in args # decorator_calls (drop (length args + 1) rest)))"
  by pat_completeness auto
termination
  by (relation "measure length") (auto simp: DECORATOR_CALL_START_def dest: after_first_shorter')

declare decorator_calls.simps [simp del]

definition is_quote :: "char \<Rightarrow> bool" where
  "is_quote c \<longleftrightarrow> c = CHR 0x27 \<or> c = CHR 0x22"

definition is_newline :: "char \<Rightarrow> bool" where
  "is_newline c \<longleftrightarrow> c = CHR 0x0A \<or> c = CHR 0x0D"

text \<open>\<open>(['"])((?:(?!\1).)*)\1\<close> at the start of a text: what is between the quotes.\<close>

definition quoted_text :: "string \<Rightarrow> string option" where
  "quoted_text s =
     (case s of
        [] \<Rightarrow> None
      | q # r \<Rightarrow>
          let body = takeWhile (\<lambda>c. c \<noteq> q \<and> \<not> is_newline c) r in
          if is_quote q \<and> is_prefix [q] (drop (length body) r) then Some body else None)"

text \<open>\<open>/\bth\s*:\s*(['"])((?:(?!\1).)*)\1/.exec\<close>, for a given label; \<open>boundary\<close> says whether the character before
  the text is no word character.\<close>

definition label_here :: "string \<Rightarrow> string \<Rightarrow> string option" where
  "label_here label s =
     (if is_prefix label s
      then (case dropWhile is_space (drop (length label) s) of
              [] \<Rightarrow> None
            | c # r \<Rightarrow> if c = CHR '':'' then quoted_text (dropWhile is_space r) else None)
      else None)"

fun find_label :: "string \<Rightarrow> bool \<Rightarrow> string \<Rightarrow> string option" where
  "find_label label boundary [] = None"
| "find_label label boundary (c # s) =
     (case (if boundary then label_here label (c # s) else None) of
        Some body \<Rightarrow> Some body
      | None \<Rightarrow> find_label label (\<not> is_word_char c) s)"

text \<open>\<open>/^\s*(['"])([a-zA-Z0-9_]+:[a-zA-Z0-9_]+)\1/\<close>: the permission and the text after the match.\<close>

definition leading_permission :: "string \<Rightarrow> (string \<times> string) option" where
  "leading_permission args =
     (case dropWhile is_space args of
        [] \<Rightarrow> None
      | q # r \<Rightarrow>
          let body = takeWhile (\<lambda>c. is_word_char c \<or> c = CHR '':'') r; rest = drop (length body) r in
          if is_quote q \<and> match_permission body \<noteq> None \<and> is_prefix [q] rest then Some (body, tl rest) else None)"

definition parseDecoratorCall :: "string \<Rightarrow> (string \<times> (string \<times> string) option) option" where
  "parseDecoratorCall args =
     (case leading_permission args of
        None \<Rightarrow> None
      | Some (permission, remainder) \<Rightarrow>
          Some (permission,
            (case (find_label ''th'' True remainder, find_label ''en'' True remainder) of
               (Some th, Some en) \<Rightarrow> Some (th, en)
             | _ \<Rightarrow> None)))"

section \<open>The scan of the sources\<close>

definition scan_key :: "string \<Rightarrow> string \<Rightarrow> string" where
  "scan_key service permission = service @ ''::'' @ permission"

text \<open>A call that declares a permission, as the entry of the map.\<close>

definition scanned_call :: "string \<Rightarrow> string \<Rightarrow> scanned_permission option" where
  "scanned_call service args =
     (case parseDecoratorCall args of
        None \<Rightarrow> None
      | Some (permission, name) \<Rightarrow>
          (case derivePermissionParts permission of
             None \<Rightarrow> None
           | Some (resource, action) \<Rightarrow>
               Some \<lparr>sp_service = service, sp_permission = permission, sp_resource = resource, sp_action = action,
                 sp_name = name, sp_plane = ApiPlane\<rparr>))"

text \<open>\<open>found.set(key, p)\<close> for each permission in turn.\<close>

definition found_set :: "scanned_permission list \<Rightarrow> (string \<times> scanned_permission) list \<Rightarrow> (string \<times> scanned_permission) list" where
  "found_set ps found = fold (\<lambda>p. obj_set (scan_key (sp_service p) (sp_permission p)) p) ps found"

definition service_calls :: "string \<times> node \<Rightarrow> scanned_permission list" where
  "service_calls entry =
     (case entry of (service, nd) \<Rightarrow>
        (case subdirectory nd ''src'' of
           None \<Rightarrow> []
         | Some es \<Rightarrow> List.map_filter (scanned_call service) (concat (map decorator_calls (walk_files isSourceFile es)))))"

definition scanApiPermissions :: "(string \<times> node) list \<Rightarrow> scanned_permission list" where
  "scanApiPermissions apps = map snd (found_set (concat (map service_calls apps)) [])"

section \<open>The scan of the views\<close>

text \<open>\<open>UI_PERMISSION_LITERAL\<close> at the start of a text: the literal and the text after the match.\<close>

definition ui_literal :: "string \<Rightarrow> (string \<times> string) option" where
  "ui_literal s =
     (case s of
        [] \<Rightarrow> None
      | q # r \<Rightarrow>
          if \<not> is_quote q then None
          else
            (case (if is_prefix ''page:'' r then Some ''page:'' else if is_prefix ''component:'' r then Some ''component:'' else None) of
               None \<Rightarrow> None
             | Some p \<Rightarrow>
                 let slug = takeWhile is_word_char (drop (length p) r); rest = dropWhile is_word_char (drop (length p) r) in
                 if slug \<noteq> [] \<and> is_prefix [q] rest then Some (p @ slug, tl rest) else None))"

lemma ui_literal_shorter: "ui_literal s = Some (p, rest) \<Longrightarrow> length rest < length s"
  using length_dropWhile_le [of is_word_char]
  by (auto simp: ui_literal_def Let_def split: list.splits if_splits)
    (metis Suc_leI diff_le_self le_imp_less_Suc le_trans length_drop length_tl less_Suc_eq_le)+

function ui_literals :: "string \<Rightarrow> string list" where
  "ui_literals [] = []"
| "ui_literals (c # s) =
     (case ui_literal (c # s) of Some (p, rest) \<Rightarrow> p # ui_literals rest | None \<Rightarrow> ui_literals s)"
  by pat_completeness auto
termination
  by (relation "measure length") (auto dest: ui_literal_shorter)

definition scanned_literal :: "string \<Rightarrow> string \<Rightarrow> scanned_permission option" where
  "scanned_literal service permission =
     (case derivePermissionParts permission of
        None \<Rightarrow> None
      | Some (resource, action) \<Rightarrow>
          Some \<lparr>sp_service = service, sp_permission = permission, sp_resource = resource, sp_action = action,
            sp_name = None, sp_plane = UiPlane\<rparr>)"

section \<open>Manifests\<close>

definition isNonEmptyString :: "jval \<Rightarrow> string option" where
  "isNonEmptyString v = (case v of VStr s \<Rightarrow> if js_trim s \<noteq> [] then Some s else None | _ \<Rightarrow> None)"

text \<open>A property of a record; undefined when it is missing. \<open>None\<close> when the value is no record.\<close>

definition property_of :: "jval \<Rightarrow> string \<Rightarrow> jval option" where
  "property_of v key =
     (case v of VObj props \<Rightarrow> Some (case obj_get props key of None \<Rightarrow> VUndef | Some x \<Rightarrow> x) | _ \<Rightarrow> None)"

definition parseManifestName :: "jval \<Rightarrow> (string \<times> string) option" where
  "parseManifestName v =
     (case (Option.bind (property_of v ''th'') isNonEmptyString, Option.bind (property_of v ''en'') isNonEmptyString) of
        (Some th, Some en) \<Rightarrow> Some (th, en)
      | _ \<Rightarrow> None)"

definition parseManifestEntry :: "string \<Rightarrow> jval \<Rightarrow> string \<Rightarrow> scanned_permission option" where
  "parseManifestEntry service entry expectedPrefix =
     (case Option.bind (property_of entry ''permission'') isNonEmptyString of
        None \<Rightarrow> None
      | Some permission \<Rightarrow>
          (case derivePermissionParts permission of
             None \<Rightarrow> None
           | Some (resource, action) \<Rightarrow>
               if \<not> is_prefix (expectedPrefix @ '':'') permission then None
               else Some \<lparr>sp_service = service, sp_permission = permission, sp_resource = resource, sp_action = action,
                      sp_name = Option.bind (property_of entry ''name'') parseManifestName, sp_plane = UiPlane\<rparr>))"

text \<open>One page of a manifest with its components.\<close>

definition scanned_page :: "string \<Rightarrow> jval \<Rightarrow> scanned_permission list" where
  "scanned_page service page =
     (let scannedPage = parseManifestEntry service page ''page'';
          adopt = (\<lambda>c. case scannedPage of None \<Rightarrow> c | Some p \<Rightarrow> c\<lparr>sp_resource := sp_resource p\<rparr>) in
      (case scannedPage of None \<Rightarrow> [] | Some p \<Rightarrow> [p])
      @ (case property_of page ''components'' of
           Some (VArr components) \<Rightarrow>
             List.map_filter (\<lambda>c. map_option adopt (parseManifestEntry service c ''component'')) components
         | _ \<Rightarrow> []))"

definition UI_PERMISSIONS_MANIFEST_FILENAME :: string where
  "UI_PERMISSIONS_MANIFEST_FILENAME = ''ui-permissions.manifest.json''"

definition scanUiPermissionsManifest :: "(string \<Rightarrow> jval option) \<Rightarrow> string \<Rightarrow> node \<Rightarrow> scanned_permission list" where
  "scanUiPermissionsManifest json_parse service nd =
     (case nd of
        FileNode _ \<Rightarrow> []
      | DirNode entries \<Rightarrow>
          (case map_of entries UI_PERMISSIONS_MANIFEST_FILENAME of
             Some (FileNode content) \<Rightarrow>
               (case json_parse content of
                  None \<Rightarrow> []
                | Some manifest \<Rightarrow>
                    (case property_of manifest ''pages'' of
                       Some (VArr pages) \<Rightarrow> concat (map (scanned_page service) pages)
                     | _ \<Rightarrow> []))
           | _ \<Rightarrow> []))"

definition service_views :: "(string \<Rightarrow> jval option) \<Rightarrow> string \<times> node \<Rightarrow> scanned_permission list" where
  "service_views json_parse entry =
     (case entry of (service, nd) \<Rightarrow>
        concat (map (\<lambda>sub. case subdirectory nd sub of
            None \<Rightarrow> []
          | Some es \<Rightarrow> List.map_filter (scanned_literal service) (concat (map ui_literals (walk_files isViewFile es))))
          [''views'', ''public''])
        @ scanUiPermissionsManifest json_parse service nd)"

definition scanUiPermissions :: "(string \<Rightarrow> jval option) \<Rightarrow> (string \<times> node) list \<Rightarrow> scanned_permission list" where
  "scanUiPermissions json_parse apps = map snd (found_set (concat (map (service_views json_parse) apps)) [])"

section \<open>Keys of the scan\<close>

lemma match_permission_Some:
  "match_permission s = Some (p, a) \<longleftrightarrow>
     s = p @ CHR '':'' # a \<and> p \<noteq> [] \<and> a \<noteq> [] \<and> list_all is_word_char p \<and> list_all is_word_char a"
proof
  assume m: "match_permission s = Some (p, a)"
  then have "s = takeWhile is_word_char s @ CHR '':'' # a" "p = takeWhile is_word_char s" "p \<noteq> []" "a \<noteq> []" "list_all is_word_char a"
    by (auto simp: match_permission_def Let_def split: list.splits if_splits) (metis takeWhile_dropWhile_id)
  then show "s = p @ CHR '':'' # a \<and> p \<noteq> [] \<and> a \<noteq> [] \<and> list_all is_word_char p \<and> list_all is_word_char a"
    by (metis list_all_iff set_takeWhileD)
next
  assume s: "s = p @ CHR '':'' # a \<and> p \<noteq> [] \<and> a \<noteq> [] \<and> list_all is_word_char p \<and> list_all is_word_char a"
  have c: "\<not> is_word_char (CHR '':'')" by code_simp
  have "takeWhile is_word_char s = p" "dropWhile is_word_char s = CHR '':'' # a"
    using s c by (simp_all add: list_all_iff)
  then show "match_permission s = Some (p, a)" using s by (simp add: match_permission_def)
qed

text \<open>The last two colons of a key separate the parts of the permission.\<close>

lemma scan_key_inject:
  assumes "match_permission p \<noteq> None" and "match_permission q \<noteq> None" and "scan_key s p = scan_key t q"
  shows "s = t \<and> p = q"
proof -
  obtain a b c d where p: "p = a @ CHR '':'' # b" "list_all is_word_char a" "list_all is_word_char b"
    and q: "q = c @ CHR '':'' # d" "list_all is_word_char c" "list_all is_word_char d"
    using assms(1,2) by (auto simp: match_permission_Some)
  have colon: "\<not> is_word_char (CHR '':'')" by code_simp
  have words: "takeWhile is_word_char (rev x @ CHR '':'' # y) = rev x \<and> dropWhile is_word_char (rev x @ CHR '':'' # y) = CHR '':'' # y"
    if "list_all is_word_char x" for x y
    using that colon takeWhile_append2 [of "rev x" is_word_char "CHR '':'' # y"] dropWhile_append2 [of "rev x" is_word_char "CHR '':'' # y"]
    by (auto simp: list_all_iff)
  have e: "rev b @ CHR '':'' # rev a @ CHR '':'' # CHR '':'' # rev s = rev d @ CHR '':'' # rev c @ CHR '':'' # CHR '':'' # rev t"
    using arg_cong [OF assms(3), of rev] by (simp add: scan_key_def p q)
  then have "rev b = rev d" using words [OF p(3)] words [OF q(3)] by metis
  then have e': "rev a @ CHR '':'' # CHR '':'' # rev s = rev c @ CHR '':'' # CHR '':'' # rev t" using e by simp
  then have "rev a = rev c" using words [OF p(2)] words [OF q(2)] by metis
  then show ?thesis using e' \<open>rev b = rev d\<close> by (simp add: p q)
qed

text \<open>What a map filled with permissions holds.\<close>

abbreviation identity :: "scanned_permission \<Rightarrow> string \<times> string" where
  "identity p \<equiv> (sp_service p, sp_permission p)"

lemma found_set_invariant:
  assumes "distinct (map fst m)" and "\<forall>(k, p) \<in> set m. k = scan_key (sp_service p) (sp_permission p)"
  shows "distinct (map fst (found_set ps m)) \<and> (\<forall>(k, p) \<in> set (found_set ps m). k = scan_key (sp_service p) (sp_permission p))
    \<and> snd ` set (found_set ps m) \<subseteq> snd ` set m \<union> set ps
    \<and> fst ` set (found_set ps m) = fst ` set m \<union> (\<lambda>p. scan_key (sp_service p) (sp_permission p)) ` set ps"
  using assms
proof (induction ps arbitrary: m)
  case (Cons p ps)
  let ?m = "obj_set (scan_key (sp_service p) (sp_permission p)) p m"
  have d: "distinct (map fst ?m)" by (rule obj_set_distinct [OF Cons.prems(1)])
  have k: "\<forall>(k, p) \<in> set ?m. k = scan_key (sp_service p) (sp_permission p)"
    using Cons.prems(2) obj_set_subset [of "scan_key (sp_service p) (sp_permission p)" p m] by auto
  have s: "snd ` set ?m \<subseteq> snd ` set m \<union> {p}"
    using obj_set_subset [of "scan_key (sp_service p) (sp_permission p)" p m] by fastforce
  have f: "fst ` set ?m = insert (scan_key (sp_service p) (sp_permission p)) (fst ` set m)"
    using obj_set_keys [of "scan_key (sp_service p) (sp_permission p)" p m] by simp
  have "found_set (p # ps) m = found_set ps ?m" by (simp add: found_set_def)
  moreover have "snd ` set (found_set ps ?m) \<subseteq> snd ` set m \<union> set (p # ps)"
    using Cons.IH [OF d k] s by (simp add: subset_insertI2 Un_commute) blast
  ultimately show ?case using Cons.IH [OF d k] f by simp
qed (simp add: found_set_def)

lemma found_values:
  assumes "\<forall>p \<in> set ps. match_permission (sp_permission p) \<noteq> None"
  shows "distinct (map identity (map snd (found_set ps []))) \<and> set (map snd (found_set ps [])) \<subseteq> set ps
    \<and> identity ` set (map snd (found_set ps [])) = identity ` set ps"
proof -
  let ?m = "found_set ps []"
  have d: "distinct (map fst ?m)" and k: "\<forall>(k, p) \<in> set ?m. k = scan_key (sp_service p) (sp_permission p)"
    and s: "snd ` set ?m \<subseteq> set ps" and f: "fst ` set ?m = (\<lambda>p. scan_key (sp_service p) (sp_permission p)) ` set ps"
    using found_set_invariant [of "[]" ps] by simp_all
  have e: "map fst ?m = map (case_prod scan_key) (map identity (map snd ?m))" using k by (auto simp: case_prod_beta)
  have "distinct (map (case_prod scan_key) (map identity (map snd ?m)))" by (rule subst [OF e, of distinct, OF d])
  then have "distinct (map identity (map snd ?m))" unfolding distinct_map [of "case_prod scan_key"] by blast
  moreover have "identity p \<in> identity ` snd ` set ?m" if "p \<in> set ps" for p
  proof -
    have "scan_key (sp_service p) (sp_permission p) \<in> fst ` set ?m" using f that by simp
    then obtain e where e: "e \<in> set ?m" "fst e = scan_key (sp_service p) (sp_permission p)" by force
    then have "scan_key (sp_service (snd e)) (sp_permission (snd e)) = scan_key (sp_service p) (sp_permission p)" using k by fastforce
    moreover have "snd e \<in> set ps" using s e(1) by auto
    ultimately have "identity (snd e) = identity p"
      using scan_key_inject [of "sp_permission (snd e)" "sp_permission p"] assms that by simp
    then show ?thesis using e(1) by (auto intro!: image_eqI [where x = "snd e"])
  qed
  ultimately show ?thesis using s by auto
qed

section \<open>What the scans return\<close>

text \<open>A scanned row as the catalogue expects it: a service that was scanned, a permission of two word
  parts, the part after the colon as its action, and a resource.\<close>

definition scanned_ok :: "(string \<times> node) list \<Rightarrow> scanned_permission \<Rightarrow> bool" where
  "scanned_ok apps p \<longleftrightarrow> sp_service p \<in> fst ` set apps
     \<and> (\<exists>prefix. match_permission (sp_permission p) = Some (prefix, sp_action p)) \<and> sp_resource p \<noteq> []"

lemma derive_parts:
  "derivePermissionParts s = Some (r, a) \<Longrightarrow> \<exists>p. match_permission s = Some (p, a) \<and> r \<noteq> []"
  by (auto simp: derivePermissionParts_def match_permission_Some Let_def split: option.splits if_splits prod.splits)

lemma map_filter_mem: "y \<in> set (List.map_filter f xs) \<longleftrightarrow> (\<exists>x \<in> set xs. f x = Some y)"
  by (force simp: List.map_filter_def)

lemma scanned_call_ok:
  "scanned_call service args = Some p \<Longrightarrow> sp_service p = service \<and> sp_plane p = ApiPlane
     \<and> (\<exists>prefix. match_permission (sp_permission p) = Some (prefix, sp_action p)) \<and> sp_resource p \<noteq> []"
  by (auto simp: scanned_call_def split: option.splits prod.splits dest!: derive_parts)

lemma service_calls_ok:
  assumes "e \<in> set apps" and "p \<in> set (service_calls e)"
  shows "scanned_ok apps p \<and> sp_plane p = ApiPlane"
proof -
  obtain args where "scanned_call (fst e) args = Some p"
    using assms(2) by (auto simp: service_calls_def map_filter_mem split: prod.splits option.splits)
  then show ?thesis using scanned_call_ok [of "fst e" args p] assms(1) by (auto simp: scanned_ok_def)
qed

lemma ui_literal_prefix:
  "ui_literal s = Some (p, rest) \<Longrightarrow> is_prefix ''page:'' p \<or> is_prefix ''component:'' p"
  by (auto simp: ui_literal_def Let_def split: list.splits if_splits)

lemma ui_literals_prefix: "p \<in> set (ui_literals s) \<Longrightarrow> is_prefix ''page:'' p \<or> is_prefix ''component:'' p"
  by (induction s rule: ui_literals.induct) (auto dest: ui_literal_prefix split: option.splits)

lemma manifest_entry_ok:
  assumes "parseManifestEntry service entry pre = Some p"
  shows "sp_service p = service \<and> sp_plane p = UiPlane \<and> is_prefix (pre @ '':'') (sp_permission p)
    \<and> (\<exists>prefix. match_permission (sp_permission p) = Some (prefix, sp_action p)) \<and> sp_resource p \<noteq> []"
  using assms derive_parts by (fastforce simp: parseManifestEntry_def split: option.splits if_splits prod.splits)

text \<open>A row of the \<open>ui\<close> plane of a given service.\<close>

definition ui_row :: "string \<Rightarrow> scanned_permission \<Rightarrow> bool" where
  "ui_row service p \<longleftrightarrow> sp_service p = service \<and> sp_plane p = UiPlane
     \<and> (is_prefix ''page:'' (sp_permission p) \<or> is_prefix ''component:'' (sp_permission p))
     \<and> (\<exists>prefix. match_permission (sp_permission p) = Some (prefix, sp_action p)) \<and> sp_resource p \<noteq> []"

lemma manifest_ui_row:
  "parseManifestEntry service entry pre = Some p \<Longrightarrow> pre = ''page'' \<or> pre = ''component'' \<Longrightarrow> r \<noteq> [] \<Longrightarrow> ui_row service p \<and> ui_row service (p\<lparr>sp_resource := r\<rparr>)"
  using manifest_entry_ok [of service entry pre p] by (auto simp: ui_row_def)

lemma scanned_page_ok: "p \<in> set (scanned_page service page) \<Longrightarrow> ui_row service p"
proof -
  assume "p \<in> set (scanned_page service page)"
  then consider "parseManifestEntry service page ''page'' = Some p"
    | c q where "parseManifestEntry service c ''component'' = Some q" "p = q"
    | c q r where "parseManifestEntry service c ''component'' = Some q" "parseManifestEntry service page ''page'' = Some r"
        "p = q\<lparr>sp_resource := sp_resource r\<rparr>"
    by (auto simp: scanned_page_def Let_def map_filter_mem split: option.splits jval.splits)
  then show ?thesis
  proof cases
    case 3
    then show ?thesis using manifest_ui_row [OF 3(1), of "sp_resource r"] manifest_entry_ok [OF 3(2)] by simp
  qed (use manifest_ui_row [of service _ _ p "''r''"] in blast)+
qed

lemma service_views_ok: "p \<in> set (service_views json_parse (service, nd)) \<Longrightarrow> ui_row service p"
proof -
  assume "p \<in> set (service_views json_parse (service, nd))"
  then consider es perm where "perm \<in> set (concat (map ui_literals (walk_files isViewFile es)))" "scanned_literal service perm = Some p"
    | "p \<in> set (scanUiPermissionsManifest json_parse service nd)"
    by (fastforce simp: service_views_def map_filter_mem split: option.splits)
  then show ?thesis
  proof cases
    case 1
    then show ?thesis using ui_literals_prefix derive_parts
      by (fastforce simp: scanned_literal_def ui_row_def split: option.splits)
  next
    case 2
    then show ?thesis using scanned_page_ok
      by (auto simp: scanUiPermissionsManifest_def split: node.splits option.splits jval.splits)
  qed
qed


definition sample_sources :: "(string \<times> node) list" where
  "sample_sources = [(''iam'', DirNode [(''src'', DirNode [(''a.controller.ts'',
     FileNode (''@RequirePermission('' @ [CHR 0x27] @ ''users:read'' @ [CHR 0x27] @ '') list() {}''))])])]"


section \<open>Declarations read back\<close>

text \<open>A declaration as it is written in a source file.\<close>

definition declared_text :: "string \<times> (string \<times> string) option \<Rightarrow> string" where
  "declared_text d =
     (case d of (permission, name) \<Rightarrow>
        [CHR 0x27] @ permission @ [CHR 0x27]
        @ (case name of
             None \<Rightarrow> []
           | Some (th, en) \<Rightarrow> '', { th: '' @ [CHR 0x27] @ th @ [CHR 0x27] @ '', en: '' @ [CHR 0x27] @ en @ [CHR 0x27] @ '' }''))"

text \<open>Names without quotes, backslashes, line breaks and colons.\<close>

definition plain_name :: "string \<Rightarrow> bool" where
  "plain_name s \<longleftrightarrow> (\<forall>c \<in> set s. \<not> is_quote c \<and> \<not> is_newline c \<and> c \<noteq> CHR 0x5C \<and> c \<noteq> CHR '':'')"

definition declarable :: "string \<times> (string \<times> string) option \<Rightarrow> bool" where
  "declarable d \<longleftrightarrow> match_permission (fst d) \<noteq> None
     \<and> (case snd d of None \<Rightarrow> True | Some (th, en) \<Rightarrow> plain_name th \<and> plain_name en)"

text \<open>A source file: text, a decorator, text, a decorator, and so on.\<close>

definition source_text :: "(string \<times> string \<times> (string \<times> string) option) list \<Rightarrow> string \<Rightarrow> string" where
  "source_text ds post = concat (map (\<lambda>(gap, d). gap @ DECORATOR_CALL_START @ declared_text d @ '')'') ds) @ post"

lemma start_once: "\<forall>i \<in> set [1..<length DECORATOR_CALL_START]. DECORATOR_CALL_START ! i \<noteq> DECORATOR_CALL_START ! 0"
  by code_simp

lemma start_in_gap:
  assumes "is_prefix DECORATOR_CALL_START (g @ DECORATOR_CALL_START @ r)" and "g \<noteq> []"
  shows "is_prefix DECORATOR_CALL_START g"
proof -
  let ?D = DECORATOR_CALL_START
  obtain z where z: "g @ ?D @ r = ?D @ z" using assms(1) by (auto simp: is_prefix_conv)
  have "length ?D \<le> length g"
  proof (rule ccontr)
    assume "\<not> length ?D \<le> length g"
    then have l: "length g < length ?D" by simp
    have "?D \<noteq> []" by (simp add: DECORATOR_CALL_START_def)
    then have "(g @ ?D @ r) ! length g = ?D ! 0" by (simp add: nth_append)
    moreover have "(?D @ z) ! length g = ?D ! length g" using l by (simp add: nth_append)
    ultimately have "?D ! length g = ?D ! 0" using z by simp
    moreover have "length g \<in> set [1..<length ?D]" using l assms(2) by (simp add: Suc_leI)
    ultimately show False using start_once by blast
  qed
  then have "take (length ?D) g = ?D" using arg_cong [OF z, of "take (length ?D)"] by simp
  then show ?thesis by (metis append_take_drop_id is_prefix_conv)
qed

lemma after_gap: "\<not> js_includes DECORATOR_CALL_START g \<Longrightarrow> after_first DECORATOR_CALL_START (g @ DECORATOR_CALL_START @ r) = Some r"
proof (induction g)
  case Nil
  show ?case by (simp add: DECORATOR_CALL_START_def)
next
  case (Cons c g)
  then show ?case using start_in_gap [of "c # g" r] by auto
qed

lemma after_none: "\<not> js_includes DECORATOR_CALL_START s \<Longrightarrow> after_first DECORATOR_CALL_START s = None"
  by (induction s) (auto simp: DECORATOR_CALL_START_def)

text \<open>Reading arguments: text outside quotes and parentheses, and a quoted text.\<close>

definition outside :: "char \<Rightarrow> bool" where
  "outside c \<longleftrightarrow> \<not> is_quote c \<and> c \<noteq> CHR 0x60 \<and> c \<noteq> CHR ''('' \<and> c \<noteq> CHR '')''"

lemma balanced_outside:
  "list_all outside xs \<Longrightarrow> balanced_args prev depth None (xs @ r) = xs @ balanced_args (last (prev # xs)) depth None r"
  by (induction xs arbitrary: prev) (auto simp: outside_def is_quote_def)

lemma balanced_inside:
  "\<forall>c \<in> set xs. c \<noteq> q \<and> c \<noteq> CHR 0x5C \<Longrightarrow> prev \<noteq> CHR 0x5C \<Longrightarrow>
   balanced_args prev depth (Some q) (xs @ q # r) = xs @ q # balanced_args q depth None r"
  by (induction xs arbitrary: prev) auto

lemma balanced_quoted:
  "\<forall>c \<in> set xs. c \<noteq> CHR 0x27 \<and> c \<noteq> CHR 0x5C \<Longrightarrow>
   balanced_args prev depth None (CHR 0x27 # xs @ CHR 0x27 # r) = CHR 0x27 # xs @ CHR 0x27 # balanced_args (CHR 0x27) depth None r"
  by (simp add: balanced_inside)

lemma permission_chars:
  assumes "match_permission p \<noteq> None" and "c \<in> set p"
  shows "is_word_char c \<or> c = CHR '':''"
  using assms by (auto simp: match_permission_Some list_all_iff)

lemma word_plain: "is_word_char c \<or> c = CHR '':'' \<Longrightarrow> \<not> is_quote c \<and> c \<noteq> CHR 0x5C \<and> \<not> is_space c"
  by (auto simp: is_word_char_def is_digit_def is_upper_def is_lower_def is_quote_def is_space_def less_eq_char_def)

lemma args_read: "declarable d \<Longrightarrow> extractBalancedArgs (declared_text d @ '')'' @ r) = declared_text d"
proof -
  assume d: "declarable d"
  obtain p n where dn: "d = (p, n)" by (cases d)
  have "match_permission p \<noteq> None" using d by (simp add: declarable_def dn)
  then have p: "\<forall>c \<in> set p. c \<noteq> CHR 0x27 \<and> c \<noteq> CHR 0x5C"
    using permission_chars [of p] word_plain unfolding is_quote_def by blast
  have o1: "list_all outside '', { th: ''" and o2: "list_all outside '', en: ''" and o3: "list_all outside '' }''" by code_simp+
  show ?thesis
  proof (cases n)
    case None
    then show ?thesis using p by (simp add: declared_text_def dn extractBalancedArgs_def balanced_inside)
  next
    case (Some m)
    obtain th en where m: "m = (th, en)" by (cases m)
    have n: "\<forall>c \<in> set th. c \<noteq> CHR 0x27 \<and> c \<noteq> CHR 0x5C" "\<forall>c \<in> set en. c \<noteq> CHR 0x27 \<and> c \<noteq> CHR 0x5C"
      using d by (auto simp: declarable_def dn Some m plain_name_def is_quote_def)
    have e: "balanced_args x 1 None '')'' = []" "balanced_args x 1 None (CHR '')'' # r) = []" for x by simp_all
    show ?thesis
      unfolding extractBalancedArgs_def declared_text_def dn Some m prod.case option.case append_assoc append_Cons append_Nil
      using p n
      by (simp add: balanced_inside balanced_outside [OF o1, simplified] balanced_outside [OF o2, simplified] balanced_outside [OF o3, simplified])
  qed
qed

lemma quoted_text_read: "plain_name xs \<Longrightarrow> quoted_text (CHR 0x27 # xs @ CHR 0x27 # r) = Some xs"
proof -
  assume "plain_name xs"
  then have "takeWhile (\<lambda>c. c \<noteq> CHR 0x27 \<and> \<not> is_newline c) (xs @ CHR 0x27 # r) = xs"
    by (subst takeWhile_append2) (auto simp: plain_name_def is_quote_def)
  then show ?thesis by (simp add: quoted_text_def is_quote_def)
qed

text \<open>No label inside a plain name.\<close>

lemma label_not_in_name:
  assumes "plain_name xs" and "CHR 0x27 \<notin> set label"
  shows "label_here label (xs @ CHR 0x27 # r) = None"
proof (cases "is_prefix label (xs @ CHR 0x27 # r)")
  case True
  then obtain z where z: "xs @ CHR 0x27 # r = label @ z" by (auto simp: is_prefix_conv)
  have "length label \<le> length xs"
  proof (rule ccontr)
    assume "\<not> length label \<le> length xs"
    then have "label ! length xs \<in> set label" "(label @ z) ! length xs = label ! length xs" by (simp_all add: nth_append)
    moreover have "(xs @ CHR 0x27 # r) ! length xs = CHR 0x27" by simp
    ultimately show False using z assms(2) by metis
  qed
  then obtain ys where ys: "xs = label @ ys" using z by (metis append_eq_append_conv_if append_take_drop_id)
  have "\<exists>c s. dropWhile is_space (ys @ CHR 0x27 # r) = c # s \<and> c \<noteq> CHR '':''"
  proof (cases "\<forall>c \<in> set ys. is_space c")
    case True
    then show ?thesis by (simp add: dropWhile_append2 is_space_def)
  next
    case False
    then have "dropWhile is_space ys \<noteq> []" by simp
    moreover have "set (dropWhile is_space ys) \<subseteq> set xs" using ys by (auto dest: set_dropWhileD)
    ultimately show ?thesis using assms(1) False
      by (cases "dropWhile is_space ys") (auto simp: dropWhile_append plain_name_def)
  qed
  then show ?thesis by (auto simp: label_here_def ys)
qed (simp add: label_here_def)

lemma find_label_skip:
  assumes "plain_name xs" and "CHR 0x27 \<notin> set label" and "label \<noteq> []"
  shows "find_label label b (xs @ CHR 0x27 # r) = find_label label True r"
  using assms(1)
proof (induction xs arbitrary: b)
  case Nil
  have "label_here label (CHR 0x27 # r) = None" using label_not_in_name [of "[]" label r] assms(2) by (simp add: plain_name_def)
  moreover have "\<not> is_word_char (CHR 0x27)" by code_simp
  ultimately show ?case by simp
next
  case (Cons c xs)
  have "label_here label (c # xs @ CHR 0x27 # r) = None" using label_not_in_name [OF Cons.prems assms(2), of r] by simp
  then show ?case using Cons by (simp add: plain_name_def)
qed

lemma label_at:
  "plain_name xs \<Longrightarrow> label_here label (label @ '': '' @ [CHR 0x27] @ xs @ CHR 0x27 # r) = Some xs"
  using quoted_text_read [of xs r] by (simp add: label_here_def is_prefix_conv is_space_def)

lemma chars_simps [simp]:
  "\<not> is_word_char (CHR '','')" "\<not> is_word_char (CHR '' '')" "\<not> is_word_char (CHR ''{'')" "is_word_char (CHR ''t'')" "is_word_char (CHR ''h'')"
  "\<not> is_word_char (CHR '':'')" "\<not> is_word_char (CHR 0x27)" "\<not> is_space (CHR 0x27)"
  by code_simp+

lemma declared_text_read: "declarable d \<Longrightarrow> parseDecoratorCall (declared_text d) = Some d"
proof -
  assume d: "declarable d"
  obtain p n where dn: "d = (p, n)" by (cases d)
  have m: "match_permission p \<noteq> None" using d by (simp add: declarable_def dn)
  then have w: "\<forall>c \<in> set p. is_word_char c \<or> c = CHR '':''" using permission_chars by blast
  have lead: "leading_permission (CHR 0x27 # p @ CHR 0x27 # r) = Some (p, r)" for r
  proof -
    have "takeWhile (\<lambda>c. is_word_char c \<or> c = CHR '':'') (p @ CHR 0x27 # r) = p" using w by (subst takeWhile_append2) auto
    then show ?thesis using m by (simp add: leading_permission_def is_quote_def)
  qed
  show ?thesis
  proof (cases n)
    case None
    then show ?thesis using lead [of "[]"] by (simp add: declared_text_def dn parseDecoratorCall_def)
  next
    case (Some t)
    obtain th en where t: "t = (th, en)" by (cases t)
    have ok: "plain_name th" "plain_name en" using d by (simp_all add: declarable_def dn Some t)
    let ?rest = "'', en: '' @ [CHR 0x27] @ en @ CHR 0x27 # '' }''"
    let ?r = "'', { th: '' @ [CHR 0x27] @ th @ CHR 0x27 # ?rest"
    have th: "find_label ''th'' True ?r = Some th"
      using label_at [OF ok(1), of "''th''" ?rest] by (simp add: label_here_def [of _ "CHR '','' # _"] label_here_def [of _ "CHR '' '' # _"] label_here_def [of _ "CHR ''{'' # _"])
    have "find_label ''en'' True ?r = find_label ''en'' True (th @ CHR 0x27 # ?rest)"
      by (simp add: label_here_def)
    also have "\<dots> = find_label ''en'' True ?rest" by (rule find_label_skip [OF ok(1)]) simp_all
    also have "\<dots> = Some en"
      using label_at [OF ok(2), of "''en''" "'' }''"] by (simp add: label_here_def [of _ "CHR '','' # _"] label_here_def [of _ "CHR '' '' # _"])
    finally have en: "find_label ''en'' True ?r = Some en" .
    have "declared_text d = CHR 0x27 # p @ CHR 0x27 # ?r" by (simp add: declared_text_def dn Some t)
    then show ?thesis using lead [of ?r] th en by (simp add: parseDecoratorCall_def dn Some t)
  qed
qed

text \<open>what a source file declares is what the scan reads. In a file that consists of permission
  decorators, with or without a display name, between texts without such a decorator, the calls
  found are exactly the decorators, in order, with their permissions and names.\<close>

theorem declarations_read_back:
  assumes "\<forall>(gap, d) \<in> set ds. \<not> js_includes DECORATOR_CALL_START gap \<and> declarable d"
    and "\<not> js_includes DECORATOR_CALL_START post"
  shows "map parseDecoratorCall (decorator_calls (source_text ds post)) = map (Some \<circ> snd) ds"
  using assms(1)
proof (induction ds)
  case Nil
  then show ?case using after_none [OF assms(2)] by (simp add: source_text_def decorator_calls.simps)
next
  case (Cons e ds)
  obtain gap d where e: "e = (gap, d)" by (cases e)
  have d: "declarable d" and g: "\<not> js_includes DECORATOR_CALL_START gap" using Cons.prems by (auto simp: e)
  have "source_text (e # ds) post = gap @ DECORATOR_CALL_START @ declared_text d @ '')'' @ source_text ds post"
    by (simp add: source_text_def e)
  then have "decorator_calls (source_text (e # ds) post) = declared_text d # decorator_calls (source_text ds post)"
    by (subst decorator_calls.simps) (simp add: after_gap [OF g] args_read [OF d, simplified] Let_def)
  then show ?case using Cons declared_text_read [OF d] by (simp add: e)
qed

theorem declarations_read_back_witness:
  "map parseDecoratorCall (decorator_calls (source_text
     [(''  @Get() '', (''role:read'', None)), ('' list() {} @Post() '', (''role:create'', Some (''sang'', ''Create role'')))] ''create() {}''))
   = [Some (''role:read'', None), Some (''role:create'', Some (''sang'', ''Create role''))]"
  by (subst declarations_read_back) (simp_all add: DECORATOR_CALL_START_def declarable_def match_permission_def is_word_char_def
      is_digit_def is_upper_def is_lower_def less_eq_char_def plain_name_def is_quote_def is_newline_def)

end
