(* ===== verification/Permission_Catalog.thy ===== *)
theory Permission_Catalog
  imports Permission_Scan
begin

text \<open>
  The catalogue of permissions: its administration
  (\<open>apps/iam/src/modules/permissions/services/permissions.service.ts\<close>) and the two programs that bring it in line
  with a scan of the sources, the command \<open>libs/database/src/scripts/sync-permissions.script.ts\<close> in plain SQL
  and its twin inside the service, \<open>permissions-sync.service.ts\<close>, on the repository. Both run in a
  transaction; in the command every statement but the upsert is unconditional, and a database error rolls the
  run back and is left out. The unique constraint on service and permission is a hypothesis on
  the constraint parameter where it matters.
\<close>

section \<open>One plane\<close>

definition perm_key :: "permission \<Rightarrow> string \<times> string" where
  "perm_key r = (perm_service r, permission_string r)"

definition catalogue_key :: "permission \<Rightarrow> string" where
  "catalogue_key r = scan_key (perm_service r) (permission_string r)"

definition sp_key :: "scanned_permission \<Rightarrow> string" where
  "sp_key p = scan_key (sp_service p) (sp_permission p)"

record plane_diff =
  pd_added :: "scanned_permission list"
  pd_removed :: "permission list"
  pd_unchanged :: "scanned_permission list"

definition diff_of :: "scanned_permission list \<Rightarrow> permission list \<Rightarrow> plane_diff" where
  "diff_of scanned existingRows =
     (let existing = map catalogue_key existingRows; scannedKeys = map sp_key scanned in
      \<lparr>pd_added = filter (\<lambda>p. sp_key p \<notin> set existing) scanned,
       pd_removed = filter (\<lambda>r. catalogue_key r \<notin> set scannedKeys) existingRows,
       pd_unchanged = filter (\<lambda>p. sp_key p \<in> set existing) scanned\<rparr>)"

text \<open>The names of a new row: the explicit one, or the placeholder.\<close>

definition name_th :: "scanned_permission \<Rightarrow> string" where
  "name_th p = (case sp_name p of None \<Rightarrow> derivePlaceholderName (sp_permission p) | Some (th, en) \<Rightarrow> th)"

definition name_en :: "scanned_permission \<Rightarrow> string" where
  "name_en p = (case sp_name p of None \<Rightarrow> derivePlaceholderName (sp_permission p) | Some (th, en) \<Rightarrow> en)"

definition scanned_row :: "string \<Rightarrow> plane \<Rightarrow> scanned_permission \<Rightarrow> permission" where
  "scanned_row new_id pl p =
     \<lparr>eid = new_id, created_by = None, updated_by = None, is_deleted = False, deleted_reason = None, deleted_at = None,
      deleted_by = None, perm_service = sp_service p, permission_string = sp_permission p, perm_resource = sp_resource p,
      perm_action = sp_action p, perm_plane = pl, permission_name_th = name_th p, permission_name_en = name_en p, is_manual = False\<rparr>"

definition scanned_update :: "scanned_permission \<Rightarrow> permission \<Rightarrow> permission" where
  "scanned_update p r =
     (let r' = (if sp_name p \<noteq> None then r\<lparr>permission_name_th := name_th p, permission_name_en := name_en p\<rparr> else r)
      in r'\<lparr>perm_resource := sp_resource p, perm_action := sp_action p, is_deleted := False, deleted_at := None, deleted_reason := None\<rparr>)"

definition removed_row :: "nat \<Rightarrow> string \<Rightarrow> permission \<Rightarrow> permission" where
  "removed_row now reason r = r\<lparr>is_deleted := True, deleted_at := Some now, deleted_reason := Some reason\<rparr>"

definition remove_rows :: "nat \<Rightarrow> string \<Rightarrow> permission list \<Rightarrow> permission list \<Rightarrow> permission list" where
  "remove_rows now reason removed t =
     fold (\<lambda>d t. fst (repo_update (\<lambda>r. perm_key r = perm_key d \<and> \<not> is_manual r) (removed_row now reason) t)) removed t"

section \<open>The command\<close>

text \<open>\<open>INSERT ... ON CONFLICT (service, permission) DO UPDATE\<close>; \<open>new_ids\<close> gives the keys the database
  generates.\<close>

definition upsert :: "(string \<Rightarrow> string) \<Rightarrow> plane \<Rightarrow> scanned_permission \<Rightarrow> permission list \<Rightarrow> permission list" where
  "upsert new_ids pl p t =
     (if \<exists>r \<in> set t. perm_key r = identity p
      then map (\<lambda>r. if perm_key r = identity p then scanned_update p r else r) t
      else t @ [scanned_row (new_ids (sp_key p)) pl p])"

definition cli_syncPlane ::
    "nat \<Rightarrow> (string \<Rightarrow> string) \<Rightarrow> plane \<Rightarrow> scanned_permission list \<Rightarrow> string \<Rightarrow> permission list \<Rightarrow> permission list \<times> plane_diff" where
  "cli_syncPlane now new_ids pl scanned removedReason t =
     (let existingRows = filter (\<lambda>r. \<not> is_deleted r \<and> perm_plane r = pl \<and> \<not> is_manual r) t;
          diff = diff_of scanned existingRows
      in (remove_rows now removedReason (pd_removed diff) (fold (upsert new_ids pl) scanned t), diff))"

record permission_sync_log =
  psl_added :: "(string \<times> string \<times> plane) list"
  psl_removed :: "(string \<times> string) list"
  added_count :: nat
  removed_count :: nat
  unchanged_count :: nat
  triggered_by :: string

definition sync_log :: "plane_diff \<Rightarrow> plane_diff \<Rightarrow> string \<Rightarrow> permission_sync_log" where
  "sync_log apiDiff uiDiff who =
     (let added = pd_added apiDiff @ pd_added uiDiff; removed = pd_removed apiDiff @ pd_removed uiDiff;
          unchanged = pd_unchanged apiDiff @ pd_unchanged uiDiff in
      \<lparr>psl_added = map (\<lambda>p. (sp_service p, sp_permission p, sp_plane p)) added, psl_removed = map perm_key removed,
       added_count = length added, removed_count = length removed, unchanged_count = length unchanged, triggered_by = who\<rparr>)"

definition api_reason :: string where
  "api_reason = ''no longer declared via @RequirePermission()''"

definition ui_reason :: string where
  "ui_reason = ''no longer declared via data-permission attribute''"

definition sync_main ::
    "nat \<Rightarrow> (string \<Rightarrow> string) \<Rightarrow> string \<Rightarrow> scanned_permission list \<Rightarrow> scanned_permission list
      \<Rightarrow> permission list \<times> permission_sync_log list \<Rightarrow> permission list \<times> permission_sync_log list" where
  "sync_main now new_ids host apiScanned uiScanned s =
     (case s of (t, logs) \<Rightarrow>
        (let (t1, apiDiff) = cli_syncPlane now new_ids ApiPlane apiScanned api_reason t;
             (t2, uiDiff) = cli_syncPlane now new_ids UiPlane uiScanned ui_reason t1
         in (t2, logs @ [sync_log apiDiff uiDiff host])))"

section \<open>The twin in the service\<close>

fun apply_scanned ::
    "(permission list \<Rightarrow> permission \<Rightarrow> driver_error option) \<Rightarrow> (string \<Rightarrow> string) \<Rightarrow> plane \<Rightarrow> scanned_permission list
      \<Rightarrow> permission list \<Rightarrow> permission list result" where
  "apply_scanned chk new_ids pl [] t = Inr t"
| "apply_scanned chk new_ids pl (p # ps) t =
     (case repo_findOne (\<lambda>r. perm_key r = identity p) t of
        Some existingRow \<Rightarrow> apply_scanned chk new_ids pl ps (fst (repo_update (\<lambda>r. eid r = eid existingRow) (scanned_update p) t))
      | None \<Rightarrow>
          (let r = scanned_row (new_ids (sp_key p)) pl p in
           case chk t r of
             Some e \<Rightarrow> Inl (QueryFailedError e)
           | None \<Rightarrow> apply_scanned chk new_ids pl ps (t @ [r])))"

definition syncPlane ::
    "(permission list \<Rightarrow> permission \<Rightarrow> driver_error option) \<Rightarrow> nat \<Rightarrow> (string \<Rightarrow> string) \<Rightarrow> plane \<Rightarrow> scanned_permission list
      \<Rightarrow> string \<Rightarrow> permission list \<Rightarrow> (permission list \<times> plane_diff) result" where
  "syncPlane chk now new_ids pl scanned removedReason t =
     (let existingRows = repo_find (\<lambda>r. perm_plane r = pl \<and> \<not> is_manual r \<and> \<not> is_deleted r) t;
          diff = diff_of scanned existingRows
      in case apply_scanned chk new_ids pl scanned t of
           Inl e \<Rightarrow> Inl e
         | Inr t' \<Rightarrow> Inr (remove_rows now removedReason (pd_removed diff) t', diff))"

definition runSync ::
    "(permission list \<Rightarrow> permission \<Rightarrow> driver_error option) \<Rightarrow> nat \<Rightarrow> (string \<Rightarrow> string) \<Rightarrow> string \<Rightarrow> scanned_permission list
      \<Rightarrow> scanned_permission list \<Rightarrow> permission list \<times> permission_sync_log list \<Rightarrow> (permission list \<times> permission_sync_log list) result" where
  "runSync chk now new_ids triggeredBy apiScanned uiScanned s =
     (case s of (t, logs) \<Rightarrow>
        (case syncPlane chk now new_ids ApiPlane apiScanned api_reason t of
           Inl e \<Rightarrow> Inl e
         | Inr (t1, apiDiff) \<Rightarrow>
             (case syncPlane chk now new_ids UiPlane uiScanned ui_reason t1 of
                Inl e \<Rightarrow> Inl e
              | Inr (t2, uiDiff) \<Rightarrow> Inr (t2, logs @ [sync_log apiDiff uiDiff triggeredBy]))))"

section \<open>Administration\<close>

record create_permission_dto =
  cp_service :: string
  cp_permission :: string
  cp_name_th :: string
  cp_name_en :: string

text \<open>\<open>const [resource, action] = permission.split(':')\<close>; the request validation lets only texts with both
  parts through.\<close>

definition split_permission_text :: "string \<Rightarrow> string \<times> string" where
  "split_permission_text s =
     (let parts = js_split (CHR '':'') s in (hd parts, case tl parts of [] \<Rightarrow> [] | a # _ \<Rightarrow> a))"

definition manual_row :: "create_permission_dto \<Rightarrow> permission" where
  "manual_row dto =
     \<lparr>eid = [], created_by = None, updated_by = None, is_deleted = False, deleted_reason = None, deleted_at = None, deleted_by = None,
      perm_service = cp_service dto, permission_string = cp_permission dto, perm_resource = fst (split_permission_text (cp_permission dto)),
      perm_action = snd (split_permission_text (cp_permission dto)), perm_plane = UiPlane, permission_name_th = cp_name_th dto,
      permission_name_en = cp_name_en dto, is_manual = True\<rparr>"

definition createManual where
  "createManual tableName chk new_id dto user t = base_create tableName chk new_id (manual_row dto) user t"

record update_permission_dto =
  upd_service :: "string option"
  upd_permission :: "string option"
  upd_name_th :: "string option"
  upd_name_en :: "string option"

text \<open>The merge of the patch; an undefined column stays.\<close>

definition permission_patch :: "update_permission_dto \<Rightarrow> permission \<Rightarrow> permission" where
  "permission_patch dto r =
     (let r1 = r\<lparr>permission_name_th := (case upd_name_th dto of None \<Rightarrow> permission_name_th r | Some n \<Rightarrow> n),
                permission_name_en := (case upd_name_en dto of None \<Rightarrow> permission_name_en r | Some n \<Rightarrow> n),
                perm_service := (case upd_service dto of None \<Rightarrow> perm_service r | Some s \<Rightarrow> s)\<rparr>
      in case upd_permission dto of
           None \<Rightarrow> r1
         | Some p \<Rightarrow> r1\<lparr>permission_string := p, perm_resource := fst (split_permission_text p), perm_action := snd (split_permission_text p)\<rparr>)"

definition updateManual where
  "updateManual tableName chk i dto user t =
     (case base_findById tableName i t of
        Inl e \<Rightarrow> Inl e
      | Inr existing \<Rightarrow>
          if (upd_service dto \<noteq> None \<or> upd_permission dto \<noteq> None) \<and> \<not> is_manual existing
          then Inl (ForbiddenException ''This permission is synced from code - edit the @RequirePermission()/data-permission source and run permissions:sync instead of changing service/permission here.'')
          else base_update tableName chk i (permission_patch dto) user t)"

definition removeManual where
  "removeManual tableName now i user t =
     (case base_findById tableName i t of
        Inl e \<Rightarrow> Inl e
      | Inr existing \<Rightarrow>
          if \<not> is_manual existing
          then Inl (BadRequestException ''This permission is synced from code and cannot be deleted here - remove the @RequirePermission()/data-permission usage from source and run permissions:sync.'')
          else base_delete tableName now i True user t)"

section \<open>The catalogue as a map\<close>

definition cat :: "permission list \<Rightarrow> string \<times> string \<Rightarrow> permission option" where
  "cat t k = List.find (\<lambda>r. perm_key r = k) t"

definition catalogue_ok :: "permission list \<Rightarrow> bool" where
  "catalogue_ok t \<longleftrightarrow> distinct (map perm_key t) \<and> (\<forall>r \<in> set t. match_permission (permission_string r) \<noteq> None)"

definition scan_ok :: "scanned_permission list \<Rightarrow> bool" where
  "scan_ok ps \<longleftrightarrow> distinct (map identity ps) \<and> (\<forall>p \<in> set ps. match_permission (sp_permission p) \<noteq> None)"

lemma cat_Some: "cat t k = Some r \<Longrightarrow> r \<in> set t \<and> perm_key r = k"
  by (auto simp: cat_def find_Some_iff)

lemma cat_None: "cat t k = None \<longleftrightarrow> k \<notin> perm_key ` set t"
  by (auto simp: cat_def find_None_iff)

lemma cat_mem: "distinct (map perm_key t) \<Longrightarrow> r \<in> set t \<Longrightarrow> cat t (perm_key r) = Some r"
  by (induction t) (auto simp: cat_def)

lemma cat_iff: "distinct (map perm_key t) \<Longrightarrow> cat t k = Some r \<longleftrightarrow> r \<in> set t \<and> perm_key r = k"
  using cat_mem cat_Some by blast

lemma cat_append: "cat (t @ u) k = (case cat t k of None \<Rightarrow> cat u k | Some r \<Rightarrow> Some r)"
  by (induction t) (auto simp: cat_def)

lemma cat_map: "(\<And>r. r \<in> set t \<Longrightarrow> perm_key (f r) = perm_key r) \<Longrightarrow> cat (map f t) k = map_option f (cat t k)"
  by (induction t) (auto simp: cat_def)

lemma cat_eqI:
  assumes "map perm_key t = map perm_key u" and "distinct (map perm_key t)" and "\<And>k. cat t k = cat u k"
  shows "t = u"
proof (rule nth_equalityI)
  show "length t = length u" using assms(1) by (metis length_map)
  fix i assume i: "i < length t"
  then have i': "i < length u" using assms(1) by (metis length_map)
  have "perm_key (t ! i) = perm_key (u ! i)" using arg_cong [OF assms(1), of "\<lambda>x. x ! i"] i i' by simp
  moreover have "cat t (perm_key (t ! i)) = Some (t ! i)" "cat u (perm_key (u ! i)) = Some (u ! i)"
    using cat_mem [OF assms(2)] cat_mem [of u] assms(1,2) i i' by auto
  ultimately show "t ! i = u ! i" using assms(3) by (metis option.inject)
qed

lemma scanned_row_simps [simp]:
  "perm_key (scanned_row i pl p) = identity p" "eid (scanned_row i pl p) = i" "\<not> is_deleted (scanned_row i pl p)"
  "perm_plane (scanned_row i pl p) = pl" "\<not> is_manual (scanned_row i pl p)" "deleted_at (scanned_row i pl p) = None"
  by (simp_all add: scanned_row_def perm_key_def)

lemma scanned_update_simps [simp]:
  "perm_key (scanned_update p r) = perm_key r" "eid (scanned_update p r) = eid r" "\<not> is_deleted (scanned_update p r)"
  "perm_plane (scanned_update p r) = perm_plane r" "is_manual (scanned_update p r) = is_manual r" "deleted_at (scanned_update p r) = None"
  by (simp_all add: scanned_update_def Let_def perm_key_def)

lemma scanned_update_idem [simp]:
  "scanned_update p (scanned_update p r) = scanned_update p r" "scanned_update p (scanned_row i pl p) = scanned_row i pl p"
  by (simp_all add: scanned_update_def scanned_row_def Let_def)

lemma removed_row_simps [simp]:
  "perm_key (removed_row now reason r) = perm_key r" "eid (removed_row now reason r) = eid r" "is_deleted (removed_row now reason r)"
  "perm_plane (removed_row now reason r) = perm_plane r" "is_manual (removed_row now reason r) = is_manual r"
  "deleted_at (removed_row now reason r) = Some now" "removed_row now reason (removed_row now reason r) = removed_row now reason r"
  by (simp_all add: removed_row_def perm_key_def)

text \<open>The row an upsert leaves for a scanned permission.\<close>

definition entry :: "(string \<Rightarrow> string) \<Rightarrow> plane \<Rightarrow> scanned_permission \<Rightarrow> permission option \<Rightarrow> permission" where
  "entry new_ids pl p old = (case old of None \<Rightarrow> scanned_row (new_ids (sp_key p)) pl p | Some r \<Rightarrow> scanned_update p r)"

lemma cat_upsert:
  "cat (upsert new_ids pl p t) k = (if k = identity p then Some (entry new_ids pl p (cat t k)) else cat t k)"
proof (cases "\<exists>r \<in> set t. perm_key r = identity p")
  case True
  then have "identity p \<in> perm_key ` set t" by force
  then obtain r where r: "cat t (identity p) = Some r" using cat_None [of t "identity p"] by (cases "cat t (identity p)") auto
  have "cat (upsert new_ids pl p t) k = map_option (\<lambda>r. if perm_key r = identity p then scanned_update p r else r) (cat t k)"
    using True unfolding upsert_def by (simp add: cat_map)
  then show ?thesis using r cat_Some [of t k] by (cases "cat t k") (auto simp: entry_def)
next
  case False
  then have "cat t (identity p) = None" by (auto simp: cat_None)
  moreover have "upsert new_ids pl p t = t @ [scanned_row (new_ids (sp_key p)) pl p]" using False by (simp add: upsert_def)
  ultimately show ?thesis by (auto simp: cat_append entry_def split: option.split) (auto simp: cat_def)
qed

lemma upsert_keys:
  "map perm_key (upsert new_ids pl p t) = map perm_key t @ (if identity p \<in> perm_key ` set t then [] else [identity p])"
proof (cases "\<exists>r \<in> set t. perm_key r = identity p")
  case True
  then have "identity p \<in> perm_key ` set t" by force
  then show ?thesis using True by (simp add: upsert_def)
next
  case False
  then have "identity p \<notin> perm_key ` set t" by force
  then show ?thesis using False by (simp add: upsert_def)
qed

lemma fold_upsert:
  assumes "distinct (map identity ps)"
  shows "cat (fold (upsert new_ids pl) ps t) k =
      (case List.find (\<lambda>p. identity p = k) ps of Some p \<Rightarrow> Some (entry new_ids pl p (cat t k)) | None \<Rightarrow> cat t k)"
  using assms
proof (induction ps arbitrary: t)
  case (Cons p ps)
  have "identity p \<notin> identity ` set ps" using Cons.prems by simp
  then have "List.find (\<lambda>q. identity q = identity p) ps = None" by (auto simp only: find_None_iff intro: rev_image_eqI)
  then show ?case using Cons by (auto simp: cat_upsert split: option.split)
qed simp

lemma fold_upsert_keys:
  "distinct (map perm_key t) \<Longrightarrow> \<exists>new. map perm_key (fold (upsert new_ids pl) ps t) = map perm_key t @ new
     \<and> distinct (map perm_key t @ new) \<and> set new \<subseteq> identity ` set ps \<and> (identity ` set ps \<subseteq> perm_key ` set t \<longrightarrow> new = [])"
proof (induction ps arbitrary: t)
  case (Cons p ps)
  let ?u = "upsert new_ids pl p t"
  have d: "distinct (map perm_key ?u)" using Cons.prems by (auto simp: upsert_keys)
  obtain new where new: "map perm_key (fold (upsert new_ids pl) ps ?u) = map perm_key ?u @ new" "distinct (map perm_key ?u @ new)"
      "set new \<subseteq> identity ` set ps" "identity ` set ps \<subseteq> perm_key ` set ?u \<longrightarrow> new = []"
    using Cons.IH [OF d] by blast
  let ?n = "(if identity p \<in> perm_key ` set t then [] else [identity p]) @ new"
  have s: "perm_key ` set t \<subseteq> perm_key ` set ?u" using arg_cong [OF upsert_keys, of set new_ids pl p t] by auto
  have "identity ` set (p # ps) \<subseteq> perm_key ` set t \<longrightarrow> ?n = []" using new(4) subset_trans [OF _ s, of "identity ` set ps"] by simp
  then show ?case using new(1-3) by (intro exI [of _ ?n]) (auto simp: upsert_keys split: if_splits)
qed simp

lemma remove_rows_map:
  "remove_rows now reason ds t =
     map (\<lambda>r. if perm_key r \<in> perm_key ` set ds \<and> \<not> is_manual r then removed_row now reason r else r) t"
proof (induction ds arbitrary: t)
  case (Cons d ds)
  show ?case using Cons [of "fst (repo_update (\<lambda>r. perm_key r = perm_key d \<and> \<not> is_manual r) (removed_row now reason) t)"]
    by (auto simp: remove_rows_def repo_update_def)
qed (simp add: remove_rows_def)

section \<open>What one plane's pass does\<close>

text \<open>The pass as a function on the catalogue map: scanned keys get their entry, and a live synced row
  of the plane without a declaration is soft-deleted.\<close>

definition stale :: "plane \<Rightarrow> permission \<Rightarrow> bool" where
  "stale pl r \<longleftrightarrow> \<not> is_deleted r \<and> perm_plane r = pl \<and> \<not> is_manual r"

definition plane_spec ::
    "nat \<Rightarrow> (string \<Rightarrow> string) \<Rightarrow> plane \<Rightarrow> scanned_permission list \<Rightarrow> string
      \<Rightarrow> (string \<times> string \<Rightarrow> permission option) \<Rightarrow> string \<times> string \<Rightarrow> permission option" where
  "plane_spec now new_ids pl scanned reason m k =
     (case List.find (\<lambda>p. identity p = k) scanned of
        Some p \<Rightarrow> Some (entry new_ids pl p (m k))
      | None \<Rightarrow> map_option (\<lambda>r. if stale pl r then removed_row now reason r else r) (m k))"

lemma key_in_scan:
  assumes "scan_ok ps" and "match_permission (permission_string r) \<noteq> None"
  shows "catalogue_key r \<in> set (map sp_key ps) \<longleftrightarrow> perm_key r \<in> identity ` set ps"
proof
  assume "catalogue_key r \<in> set (map sp_key ps)"
  then obtain p where p: "p \<in> set ps" "scan_key (perm_service r) (permission_string r) = scan_key (sp_service p) (sp_permission p)"
    by (auto simp: catalogue_key_def sp_key_def)
  then have "perm_key r = identity p" using scan_key_inject [OF assms(2) _ p(2)] assms(1) by (simp add: scan_ok_def perm_key_def)
  then show "perm_key r \<in> identity ` set ps" using p(1) by blast
qed (force simp: catalogue_key_def sp_key_def perm_key_def)

lemma key_in_catalogue:
  assumes "\<forall>r \<in> set rs. match_permission (permission_string r) \<noteq> None" and "match_permission (sp_permission p) \<noteq> None"
  shows "sp_key p \<in> set (map catalogue_key rs) \<longleftrightarrow> identity p \<in> perm_key ` set rs"
proof
  assume "sp_key p \<in> set (map catalogue_key rs)"
  then obtain r where r: "r \<in> set rs" "scan_key (sp_service p) (sp_permission p) = scan_key (perm_service r) (permission_string r)"
    by (auto simp: catalogue_key_def sp_key_def)
  then have "identity p = perm_key r" using scan_key_inject [OF assms(2) _ r(2)] assms(1) by (simp add: perm_key_def)
  then show "identity p \<in> perm_key ` set rs" using r(1) by blast
qed (force simp: catalogue_key_def sp_key_def perm_key_def)

lemma diff_removed:
  assumes "scan_ok ps" and "\<forall>r \<in> set rs. match_permission (permission_string r) \<noteq> None"
  shows "pd_removed (diff_of ps rs) = filter (\<lambda>r. perm_key r \<notin> identity ` set ps) rs"
proof -
  have "filter (\<lambda>r. catalogue_key r \<notin> set (map sp_key ps)) rs = filter (\<lambda>r. perm_key r \<notin> identity ` set ps) rs"
    by (rule filter_cong [OF refl]) (use key_in_scan [OF assms(1)] assms(2) in blast)
  then show ?thesis by (simp add: diff_of_def Let_def)
qed

lemma diff_added:
  assumes "scan_ok ps" and "\<forall>r \<in> set rs. match_permission (permission_string r) \<noteq> None"
  shows "pd_added (diff_of ps rs) = filter (\<lambda>p. identity p \<notin> perm_key ` set rs) ps"
    and "pd_unchanged (diff_of ps rs) = filter (\<lambda>p. identity p \<in> perm_key ` set rs) ps"
proof -
  have k: "sp_key p \<in> set (map catalogue_key rs) \<longleftrightarrow> identity p \<in> perm_key ` set rs" if "p \<in> set ps" for p
    by (rule key_in_catalogue [OF assms(2)]) (use assms(1) that in \<open>simp add: scan_ok_def\<close>)
  have "filter (\<lambda>p. sp_key p \<notin> set (map catalogue_key rs)) ps = filter (\<lambda>p. identity p \<notin> perm_key ` set rs) ps"
    by (rule filter_cong [OF refl]) (use k in blast)
  then show "pd_added (diff_of ps rs) = filter (\<lambda>p. identity p \<notin> perm_key ` set rs) ps" by (simp add: diff_of_def Let_def)
  have "filter (\<lambda>p. sp_key p \<in> set (map catalogue_key rs)) ps = filter (\<lambda>p. identity p \<in> perm_key ` set rs) ps"
    by (rule filter_cong [OF refl]) (use k in blast)
  then show "pd_unchanged (diff_of ps rs) = filter (\<lambda>p. identity p \<in> perm_key ` set rs) ps" by (simp add: diff_of_def Let_def)
qed

lemma plane_refines:
  assumes "catalogue_ok t" and "scan_ok scanned"
  shows "cat (fst (cli_syncPlane now new_ids pl scanned reason t)) = plane_spec now new_ids pl scanned reason (cat t)"
proof
  fix k
  let ?ex = "filter (stale pl) t" and ?u = "fold (upsert new_ids pl) scanned t"
  have d: "distinct (map perm_key t)" and w: "\<forall>r \<in> set ?ex. match_permission (permission_string r) \<noteq> None"
    using assms(1) by (auto simp: catalogue_ok_def)
  let ?gone = "filter (\<lambda>r. perm_key r \<notin> identity ` set scanned) ?ex"
  have e: "cat (fst (cli_syncPlane now new_ids pl scanned reason t)) k =
      map_option (\<lambda>r. if perm_key r \<in> perm_key ` set ?gone \<and> \<not> is_manual r then removed_row now reason r else r) (cat ?u k)"
    using diff_removed [OF assms(2) w] by (simp add: cli_syncPlane_def Let_def remove_rows_map cat_map stale_def [abs_def])
  show "cat (fst (cli_syncPlane now new_ids pl scanned reason t)) k = plane_spec now new_ids pl scanned reason (cat t) k"
  proof (cases "List.find (\<lambda>p. identity p = k) scanned")
    case None
    then have n: "k \<notin> identity ` set scanned" by (auto simp: find_None_iff)
    have u: "cat ?u k = cat t k" using fold_upsert [of scanned] assms(2) None by (simp add: scan_ok_def)
    have g: "perm_key r \<in> perm_key ` set ?gone \<and> \<not> is_manual r \<longleftrightarrow> stale pl r" if r: "cat t k = Some r" for r
    proof
      assume "perm_key r \<in> perm_key ` set ?gone \<and> \<not> is_manual r"
      then obtain q where q: "q \<in> set t" "stale pl q" "perm_key q = perm_key r" by auto
      then have "q = r" using cat_Some [OF r] cat_mem [OF d q(1)] r by simp
      then show "stale pl r" using q(2) by simp
    next
      assume "stale pl r"
      then show "perm_key r \<in> perm_key ` set ?gone \<and> \<not> is_manual r" using cat_Some [OF r] n by (auto simp: stale_def)
    qed
    show ?thesis using e u g None by (cases "cat t k") (simp_all add: plane_spec_def)
  next
    case (Some p)
    then have p: "p \<in> set scanned" "identity p = k" by (auto simp: find_Some_iff)
    have u: "cat ?u k = Some (entry new_ids pl p (cat t k))" using fold_upsert [of scanned] assms(2) Some by (simp add: scan_ok_def)
    then have "perm_key (entry new_ids pl p (cat t k)) \<in> identity ` set scanned" using cat_Some [OF u] p by auto
    then show ?thesis using e u Some by (auto simp: plane_spec_def)
  qed
qed

lemma plane_keys:
  assumes "catalogue_ok t" and "scan_ok scanned"
  shows "\<exists>new. map perm_key (fst (cli_syncPlane now new_ids pl scanned reason t)) = map perm_key t @ new
    \<and> distinct (map perm_key t @ new) \<and> set new \<subseteq> identity ` set scanned \<and> (identity ` set scanned \<subseteq> perm_key ` set t \<longrightarrow> new = [])"
proof -
  have "map perm_key (fst (cli_syncPlane now new_ids pl scanned reason t)) = map perm_key (fold (upsert new_ids pl) scanned t)"
    by (simp add: cli_syncPlane_def Let_def remove_rows_map)
  then show ?thesis using fold_upsert_keys [of t new_ids pl scanned] assms(1) by (simp add: catalogue_ok_def)
qed

lemma plane_ok:
  assumes "catalogue_ok t" and "scan_ok scanned"
  shows "catalogue_ok (fst (cli_syncPlane now new_ids pl scanned reason t))"
proof -
  let ?u = "fst (cli_syncPlane now new_ids pl scanned reason t)"
  obtain new where new: "map perm_key ?u = map perm_key t @ new" "distinct (map perm_key t @ new)" "set new \<subseteq> identity ` set scanned"
    using plane_keys [OF assms] by blast
  have "match_permission (permission_string r) \<noteq> None" if "r \<in> set ?u" for r
  proof -
    have "perm_key r \<in> perm_key ` set t \<union> identity ` set scanned"
      using arg_cong [OF new(1), of set] new(3) that by auto
    then show ?thesis using assms by (auto simp: catalogue_ok_def scan_ok_def perm_key_def)
  qed
  then show ?thesis using new(1,2) by (simp add: catalogue_ok_def)
qed

section \<open>The whole synchronisation\<close>

text \<open>What the scans of a source tree satisfy together with the catalogue: every permission of it has
  two word parts, no pair of service and permission is declared in both planes, and none has moved
  from one plane to the other since it was inserted.\<close>

definition sync_ready :: "scanned_permission list \<Rightarrow> scanned_permission list \<Rightarrow> permission list \<Rightarrow> bool" where
  "sync_ready api ui t \<longleftrightarrow> catalogue_ok t \<and> scan_ok api \<and> scan_ok ui
     \<and> (\<forall>p \<in> set api. identity p \<notin> identity ` set ui)
     \<and> (\<forall>r \<in> set t. \<not> is_manual r \<longrightarrow> (perm_key r \<in> identity ` set api \<longrightarrow> perm_plane r = ApiPlane)
          \<and> (perm_key r \<in> identity ` set ui \<longrightarrow> perm_plane r = UiPlane))"

text \<open>The command's result for a key: the entry of its declaration, or a stale row removed.\<close>

definition swept :: "nat \<Rightarrow> permission \<Rightarrow> permission" where
  "swept now r = (if is_deleted r \<or> is_manual r then r
     else removed_row now (case perm_plane r of ApiPlane \<Rightarrow> api_reason | UiPlane \<Rightarrow> ui_reason) r)"

lemma sync_main_fst:
  "fst (sync_main now new_ids host api ui (t, logs)) =
     fst (cli_syncPlane now new_ids UiPlane ui ui_reason (fst (cli_syncPlane now new_ids ApiPlane api api_reason t)))"
  by (simp add: sync_main_def case_prod_beta)

lemma sync_main_cat:
  assumes "catalogue_ok t" and "scan_ok api" and "scan_ok ui"
  shows "cat (fst (sync_main now new_ids host api ui (t, logs))) k =
     plane_spec now new_ids UiPlane ui ui_reason (plane_spec now new_ids ApiPlane api api_reason (cat t)) k"
  by (simp add: sync_main_fst plane_refines [OF plane_ok [OF assms(1,2)] assms(3)] plane_refines [OF assms(1,2)])

lemma find_identity: "List.find (\<lambda>p. identity p = k) ps = None \<longleftrightarrow> k \<notin> identity ` set ps"
  by (auto simp: find_None_iff)

lemma find_declared:
  assumes "scan_ok ps" and "p \<in> set ps"
  shows "List.find (\<lambda>q. identity q = identity p) ps = Some p"
proof (cases "List.find (\<lambda>q. identity q = identity p) ps")
  case None
  then have "identity p \<notin> identity ` set ps" by (simp only: find_identity not_False_eq_True)
  then show ?thesis using imageI [OF assms(2), of identity] by simp
next
  case (Some q)
  then have q: "q \<in> set ps" "identity q = identity p" by (auto simp: find_Some_iff)
  then have "q = p" using assms by (auto simp: scan_ok_def distinct_map dest!: inj_onD [of identity _ q p])
  then show ?thesis using Some by simp
qed

lemma entry_simps [simp]:
  "\<not> is_deleted (entry new_ids pl p old)" "deleted_at (entry new_ids pl p old) = None"
  "is_manual (entry new_ids pl p old) \<longleftrightarrow> (\<exists>r. old = Some r \<and> is_manual r)"
  "scanned_update p (entry new_ids pl p old) = entry new_ids pl p old"
  by (cases old; simp add: entry_def)+

lemma swept_simps [simp]:
  "perm_key (swept now r) = perm_key r" "eid (swept now r) = eid r" "is_manual (swept now r) = is_manual r"
  "perm_plane (swept now r) = perm_plane r" "is_deleted (swept now r) \<longleftrightarrow> is_deleted r \<or> \<not> is_manual r"
  by (auto simp: swept_def)

lemma sync_main_rows:
  assumes "sync_ready api ui t"
  shows "p \<in> set api \<Longrightarrow> cat (fst (sync_main now new_ids host api ui (t, logs))) (identity p) = Some (entry new_ids ApiPlane p (cat t (identity p)))"
    and "p \<in> set ui \<Longrightarrow> cat (fst (sync_main now new_ids host api ui (t, logs))) (identity p) = Some (entry new_ids UiPlane p (cat t (identity p)))"
    and "k \<notin> identity ` set api \<Longrightarrow> k \<notin> identity ` set ui \<Longrightarrow> cat (fst (sync_main now new_ids host api ui (t, logs))) k = map_option (swept now) (cat t k)"
proof -
  have ok: "catalogue_ok t" "scan_ok api" "scan_ok ui" using assms by (simp_all add: sync_ready_def)
  have apart: "identity p \<notin> identity ` set ui" if "p \<in> set api" for p using assms that unfolding sync_ready_def by blast
  have st: "(perm_key r \<in> identity ` set api \<longrightarrow> perm_plane r = ApiPlane) \<and> (perm_key r \<in> identity ` set ui \<longrightarrow> perm_plane r = UiPlane)"
    if "cat t (perm_key r) = Some r" "\<not> is_manual r" for r
    using assms cat_Some [OF that(1)] that(2) unfolding sync_ready_def by blast
  show "cat (fst (sync_main now new_ids host api ui (t, logs))) (identity p) = Some (entry new_ids ApiPlane p (cat t (identity p)))" if p: "p \<in> set api"
  proof -
    have "List.find (\<lambda>q. identity q = identity p) ui = None" using apart [OF p] by (simp only: find_identity not_False_eq_True)
    moreover have "\<not> stale UiPlane (entry new_ids ApiPlane p (cat t (identity p)))"
    proof (cases "cat t (identity p)")
      case (Some r)
      then have "perm_key r = identity p" using cat_Some by blast
      then have "\<not> is_manual r \<longrightarrow> perm_plane r = ApiPlane" using st [of r] Some imageI [OF p, of identity] by simp
      then show ?thesis using Some by (auto simp: stale_def entry_def)
    qed (simp add: stale_def entry_def)
    ultimately show ?thesis using find_declared [OF ok(2) p] by (simp add: sync_main_cat [OF ok] plane_spec_def)
  qed
  show "cat (fst (sync_main now new_ids host api ui (t, logs))) (identity p) = Some (entry new_ids UiPlane p (cat t (identity p)))" if p: "p \<in> set ui"
  proof -
    have "identity p \<notin> identity ` set api"
    proof
      assume "identity p \<in> identity ` set api"
      then obtain q where "q \<in> set api" "identity p = identity q" by blast
      then show False using apart [of q] imageI [OF p, of identity] by simp
    qed
    then have n: "List.find (\<lambda>q. identity q = identity p) api = None" by (simp only: find_identity not_False_eq_True)
    have "\<not> stale ApiPlane r" if r: "cat t (identity p) = Some r" for r
      using st [of r] cat_Some [OF r] r imageI [OF p, of identity] by (auto simp: stale_def)
    then have "map_option (\<lambda>r. if stale ApiPlane r then removed_row now api_reason r else r) (cat t (identity p)) = cat t (identity p)"
      by (cases "cat t (identity p)") auto
    then show ?thesis using n find_declared [OF ok(3) p] by (simp add: sync_main_cat [OF ok] plane_spec_def)
  qed
  show "cat (fst (sync_main now new_ids host api ui (t, logs))) k = map_option (swept now) (cat t k)"
    if k: "k \<notin> identity ` set api" "k \<notin> identity ` set ui"
  proof -
    have "List.find (\<lambda>q. identity q = k) api = None" "List.find (\<lambda>q. identity q = k) ui = None" using k by (simp_all only: find_identity not_False_eq_True)
    then show ?thesis
      by (cases "cat t k") (auto simp: sync_main_cat [OF ok] plane_spec_def stale_def swept_def split: plane.splits)
  qed
qed

lemma sync_main_ok:
  assumes "sync_ready api ui t"
  shows "catalogue_ok (fst (sync_main now new_ids host api ui (t, logs)))"
  using assms by (simp add: sync_main_fst plane_ok sync_ready_def)

text \<open>A table that already is what the scan asks for is a fixed point.\<close>

lemma pass_fixed:
  assumes ok: "catalogue_ok t" "scan_ok scanned"
    and declared: "\<And>p. p \<in> set scanned \<Longrightarrow> \<exists>r. cat t (identity p) = Some r \<and> scanned_update p r = r"
    and known: "\<And>r. r \<in> set t \<Longrightarrow> stale pl r \<Longrightarrow> perm_key r \<in> identity ` set scanned"
  shows "fst (cli_syncPlane now new_ids pl scanned reason t) = t" and "pd_removed (snd (cli_syncPlane now new_ids pl scanned reason t)) = []"
proof -
  let ?u = "fst (cli_syncPlane now new_ids pl scanned reason t)"
  have d: "distinct (map perm_key t)" using ok(1) by (simp add: catalogue_ok_def)
  have "identity ` set scanned \<subseteq> perm_key ` set t"
  proof
    fix k assume "k \<in> identity ` set scanned"
    then obtain p where "p \<in> set scanned" "k = identity p" by blast
    then show "k \<in> perm_key ` set t" using declared [of p] cat_None [of t k] by auto
  qed
  then have keys: "map perm_key ?u = map perm_key t" using plane_keys [OF ok] by fastforce
  have "plane_spec now new_ids pl scanned reason (cat t) k = cat t k" for k
  proof (cases "List.find (\<lambda>p. identity p = k) scanned")
    case None
    then have k: "k \<notin> identity ` set scanned" using find_identity [of k scanned] by blast
    have "\<not> stale pl r" if "cat t k = Some r" for r using known [of r] cat_Some [OF that] k by metis
    then show ?thesis using None by (cases "cat t k") (simp_all add: plane_spec_def)
  next
    case (Some p)
    then have "p \<in> set scanned" "identity p = k" by (auto simp: find_Some_iff)
    then obtain r where "cat t k = Some r" "scanned_update p r = r" using declared [of p] by auto
    then show ?thesis using Some by (simp add: plane_spec_def entry_def)
  qed
  then show "?u = t" by (intro cat_eqI [OF keys]) (use keys d in \<open>simp_all add: plane_refines [OF ok]\<close>)
  let ?ex = "filter (stale pl) t"
  have w: "\<forall>r \<in> set ?ex. match_permission (permission_string r) \<noteq> None" using ok(1) by (simp add: catalogue_ok_def)
  have "filter (\<lambda>r. perm_key r \<notin> identity ` set scanned) ?ex = []" using known by (auto simp: filter_empty_conv)
  then show "pd_removed (snd (cli_syncPlane now new_ids pl scanned reason t)) = []"
    using diff_removed [OF ok(2) w] by (simp add: cli_syncPlane_def Let_def stale_def [abs_def])
qed

lemma pass_adds_nothing:
  assumes ok: "catalogue_ok t" "scan_ok scanned"
    and held: "\<And>p. p \<in> set scanned \<Longrightarrow> \<exists>r. cat t (identity p) = Some r \<and> stale pl r"
  shows "pd_added (snd (cli_syncPlane now new_ids pl scanned reason t)) = []"
proof -
  let ?ex = "filter (stale pl) t"
  have w: "\<forall>r \<in> set ?ex. match_permission (permission_string r) \<noteq> None" using ok(1) by (simp add: catalogue_ok_def)
  have "identity p \<in> perm_key ` set ?ex" if p: "p \<in> set scanned" for p
  proof -
    obtain r where r: "cat t (identity p) = Some r" "stale pl r" using held [OF p] by blast
    then have "r \<in> set ?ex" "perm_key r = identity p" using cat_Some [OF r(1)] by auto
    then show ?thesis by (metis imageI)
  qed
  then have "filter (\<lambda>p. identity p \<notin> perm_key ` set ?ex) scanned = []" by (simp only: filter_empty_conv not_not) blast
  then show ?thesis using diff_added(1) [OF ok(2) w] by (simp add: cli_syncPlane_def Let_def stale_def [abs_def])
qed

text \<open>The table the command leaves, in the terms of the two lemmas.\<close>

lemma sync_main_settled:
  assumes "sync_ready api ui t" and u: "u = fst (sync_main now new_ids host api ui (t, logs))"
  shows "p \<in> set api \<Longrightarrow> \<exists>r. cat u (identity p) = Some r \<and> scanned_update p r = r \<and> ((\<forall>r. cat t (identity p) = Some r \<longrightarrow> \<not> is_manual r) \<longrightarrow> stale ApiPlane r)"
    and "p \<in> set ui \<Longrightarrow> \<exists>r. cat u (identity p) = Some r \<and> scanned_update p r = r \<and> ((\<forall>r. cat t (identity p) = Some r \<longrightarrow> \<not> is_manual r) \<longrightarrow> stale UiPlane r)"
    and "r \<in> set u \<Longrightarrow> stale ApiPlane r \<Longrightarrow> perm_key r \<in> identity ` set api"
    and "r \<in> set u \<Longrightarrow> stale UiPlane r \<Longrightarrow> perm_key r \<in> identity ` set ui"
proof -
  have st: "(perm_key r \<in> identity ` set api \<longrightarrow> perm_plane r = ApiPlane) \<and> (perm_key r \<in> identity ` set ui \<longrightarrow> perm_plane r = UiPlane)"
    if "cat t k = Some r" "\<not> is_manual r" for r k
    using assms(1) cat_Some [OF that(1)] that(2) unfolding sync_ready_def by blast
  have plane: "perm_plane (entry new_ids pl p (cat t (identity p))) = pl"
    if "\<forall>r. cat t (identity p) = Some r \<longrightarrow> \<not> is_manual r" "pl = ApiPlane \<and> p \<in> set api \<or> pl = UiPlane \<and> p \<in> set ui" for pl p
  proof (cases "cat t (identity p)")
    case (Some r)
    then have "perm_key r = identity p" using cat_Some by blast
    then show ?thesis using Some st [OF Some] that imageI [of p _ identity] by (auto simp: entry_def)
  qed (simp add: entry_def)
  note rows = sync_main_rows [OF assms(1), of _ now new_ids host logs, folded u]
  show "\<exists>r. cat u (identity p) = Some r \<and> scanned_update p r = r \<and> ((\<forall>r. cat t (identity p) = Some r \<longrightarrow> \<not> is_manual r) \<longrightarrow> stale ApiPlane r)"
    if "p \<in> set api" for p using rows(1) [OF that] plane [of p ApiPlane] that by (auto simp: stale_def)
  show "\<exists>r. cat u (identity p) = Some r \<and> scanned_update p r = r \<and> ((\<forall>r. cat t (identity p) = Some r \<longrightarrow> \<not> is_manual r) \<longrightarrow> stale UiPlane r)"
    if "p \<in> set ui" for p using rows(2) [OF that] plane [of p UiPlane] that by (auto simp: stale_def)
  have d: "distinct (map perm_key u)" using sync_main_ok [OF assms(1)] unfolding u catalogue_ok_def by blast
  have live: "perm_key r \<in> identity ` set api \<and> perm_plane r = ApiPlane \<or> perm_key r \<in> identity ` set ui \<and> perm_plane r = UiPlane"
    if r: "r \<in> set u" "\<not> is_deleted r" "\<not> is_manual r" for r
  proof -
    have c: "cat u (perm_key r) = Some r" by (rule cat_mem [OF d r(1)])
    consider p where "p \<in> set api" "perm_key r = identity p" | p where "p \<in> set ui" "perm_key r = identity p"
      | "perm_key r \<notin> identity ` set api" "perm_key r \<notin> identity ` set ui" by blast
    then show ?thesis
    proof cases
      case (1 p)
      then have "r = entry new_ids ApiPlane p (cat t (identity p))" using rows(1) [OF 1(1)] c by simp
      then show ?thesis using plane [of p ApiPlane] 1 r(3) by (auto simp: rev_image_eqI)
    next
      case (2 p)
      then have "r = entry new_ids UiPlane p (cat t (identity p))" using rows(2) [OF 2(1)] c by simp
      then show ?thesis using plane [of p UiPlane] 2 r(3) by (auto simp: rev_image_eqI)
    next
      case 3
      then have "map_option (swept now) (cat t (perm_key r)) = Some r" using rows(3) [OF 3] c by simp
      then show ?thesis using r(2,3) by auto
    qed
  qed
  show "perm_key r \<in> identity ` set api" if "r \<in> set u" "stale ApiPlane r" for r using live [OF that(1)] that(2) by (auto simp: stale_def)
  show "perm_key r \<in> identity ` set ui" if "r \<in> set u" "stale UiPlane r" for r using live [OF that(1)] that(2) by (auto simp: stale_def)
qed

text \<open>The three kinds of keys.\<close>

lemma key_cases:
  assumes "\<And>p. p \<in> set api \<Longrightarrow> P (identity p)" and "\<And>p. p \<in> set ui \<Longrightarrow> P (identity p)"
    and "k \<notin> identity ` set api \<Longrightarrow> k \<notin> identity ` set ui \<Longrightarrow> P k"
  shows "P k"
  using assms by (cases "k \<in> identity ` set api"; cases "k \<in> identity ` set ui") blast+

lemma sync_live:
  assumes "sync_ready api ui t"
  shows "(\<exists>r. cat (fst (sync_main now new_ids host api ui (t, logs))) k = Some r \<and> \<not> is_deleted r)
     \<longleftrightarrow> k \<in> identity ` set (api @ ui) \<or> (\<exists>r. cat t k = Some r \<and> is_manual r \<and> \<not> is_deleted r)"
proof (rule key_cases [of api _ ui k])
  assume n: "k \<notin> identity ` set api" "k \<notin> identity ` set ui"
  then have "k \<notin> identity ` set (api @ ui)" by (simp only: set_append image_Un Un_iff not_False_eq_True simp_thms)
  then show ?thesis using sync_main_rows(3) [OF assms n] by auto
qed (use sync_main_rows(1,2) [OF assms] in auto)

lemma sync_keeps_row:
  assumes "sync_ready api ui t"
  shows "cat t k = Some r \<longrightarrow> (\<exists>r'. cat (fst (sync_main now new_ids host api ui (t, logs))) k = Some r' \<and> eid r' = eid r \<and> is_manual r' = is_manual r)"
proof (rule key_cases [of api _ ui k])
  assume n: "k \<notin> identity ` set api" "k \<notin> identity ` set ui"
  show ?thesis using sync_main_rows(3) [OF assms n] by simp
qed (use sync_main_rows(1,2) [OF assms] in \<open>auto simp: entry_def\<close>)

lemma sync_keeps_manual:
  assumes "sync_ready api ui t" and "r \<in> set t" and "is_manual r" and "perm_key r \<notin> identity ` set (api @ ui)"
  shows "r \<in> set (fst (sync_main now new_ids host api ui (t, logs)))"
proof -
  have "perm_key r \<notin> identity ` set api" "perm_key r \<notin> identity ` set ui"
    using assms(4) by (simp_all only: set_append image_Un Un_iff not_False_eq_True simp_thms de_Morgan_disj)
  moreover have "cat t (perm_key r) = Some r" using assms(1,2) by (simp add: cat_mem sync_ready_def catalogue_ok_def)
  ultimately have "cat (fst (sync_main now new_ids host api ui (t, logs))) (perm_key r) = Some r"
    using sync_main_rows(3) [OF assms(1)] assms(3) by (simp add: swept_def)
  then show ?thesis using cat_Some by blast
qed

text \<open>A second run on the same sources.\<close>

lemma sync_again:
  assumes "sync_ready api ui t" and s: "sync_main now new_ids host api ui (t, logs) = (u, logs')"
  shows "\<exists>log. sync_main now2 new_ids2 host2 api ui (u, logs') = (u, logs' @ [log]) \<and> removed_count log = 0
     \<and> ((\<forall>r \<in> set t. is_manual r \<longrightarrow> perm_key r \<notin> identity ` set (api @ ui)) \<longrightarrow> added_count log = 0)"
proof -
  have u: "u = fst (sync_main now new_ids host api ui (t, logs))" using s by simp
  have ok: "catalogue_ok u" "scan_ok api" "scan_ok ui" using sync_main_ok [OF assms(1)] assms(1) unfolding u by (simp_all add: sync_ready_def)
  note settled = sync_main_settled [OF assms(1) u]
  have a: "fst (cli_syncPlane now2 new_ids2 ApiPlane api api_reason u) = u" "pd_removed (snd (cli_syncPlane now2 new_ids2 ApiPlane api api_reason u)) = []"
    by (rule pass_fixed [OF ok(1,2)]; use settled in blast)+
  have b: "fst (cli_syncPlane now2 new_ids2 UiPlane ui ui_reason u) = u" "pd_removed (snd (cli_syncPlane now2 new_ids2 UiPlane ui ui_reason u)) = []"
    by (rule pass_fixed [OF ok(1,3)]; use settled in blast)+
  let ?log = "sync_log (snd (cli_syncPlane now2 new_ids2 ApiPlane api api_reason u)) (snd (cli_syncPlane now2 new_ids2 UiPlane ui ui_reason u)) host2"
  have "added_count ?log = 0" if m: "\<forall>r \<in> set t. is_manual r \<longrightarrow> perm_key r \<notin> identity ` set (api @ ui)"
  proof -
    have n: "\<forall>r. cat t (identity p) = Some r \<longrightarrow> \<not> is_manual r" if p: "p \<in> set (api @ ui)" for p
      using m cat_Some imageI [OF p, of identity] by metis
    have "pd_added (snd (cli_syncPlane now2 new_ids2 ApiPlane api api_reason u)) = []"
      by (rule pass_adds_nothing [OF ok(1,2)]) (use settled(1) n in \<open>meson UnI1 set_append [THEN equalityD2, THEN subsetD]\<close>)
    moreover have "pd_added (snd (cli_syncPlane now2 new_ids2 UiPlane ui ui_reason u)) = []"
      by (rule pass_adds_nothing [OF ok(1,3)]) (use settled(2) n in \<open>meson UnI2 set_append [THEN equalityD2, THEN subsetD]\<close>)
    ultimately show ?thesis by (simp add: sync_log_def)
  qed
  moreover have "removed_count ?log = 0" by (simp add: sync_log_def a(2) b(2))
  moreover have "sync_main now2 new_ids2 host2 api ui (u, logs') = (u, logs' @ [?log])"
    by (simp add: sync_main_def case_prod_beta a(1) b(1))
  ultimately show ?thesis by blast
qed


section \<open>The two programs agree\<close>

text \<open>A table the repository's view of which is complete for the scan: primary keys are distinct,
  generated ones are new, and no declared permission is soft-deleted.\<close>

definition twin_ready :: "(string \<Rightarrow> string) \<Rightarrow> scanned_permission list \<Rightarrow> permission list \<Rightarrow> bool" where
  "twin_ready new_ids ps t \<longleftrightarrow> distinct (map eid t @ map (\<lambda>p. new_ids (sp_key p)) ps)
     \<and> (\<forall>r \<in> set t. visible r \<longleftrightarrow> \<not> is_deleted r) \<and> (\<forall>r \<in> set t. perm_key r \<in> identity ` set ps \<longrightarrow> \<not> is_deleted r)"

lemma findOne_cat:
  assumes "distinct (map perm_key t)" and "\<And>r. r \<in> set t \<Longrightarrow> perm_key r = k \<Longrightarrow> visible r"
  shows "repo_findOne (\<lambda>r. perm_key r = k) t = cat t k"
  unfolding repo_findOne_def cat_def using assms(2) by (induction t) auto

lemma update_is_upsert:
  assumes "distinct (map perm_key t)" and "distinct (map eid t)" and "cat t (identity p) = Some r"
  shows "fst (repo_update (\<lambda>x. eid x = eid r) (scanned_update p) t) = upsert new_ids pl p t"
proof -
  have r: "r \<in> set t" "perm_key r = identity p" using cat_Some [OF assms(3)] by auto
  have "eid x = eid r \<longleftrightarrow> perm_key x = identity p" if "x \<in> set t" for x
    using cat_mem [OF assms(1) that] cat_mem [OF assms(1) r(1)] assms(2) r that by (auto simp: distinct_map dest: inj_onD)
  then show ?thesis using r by (auto simp: repo_update_def upsert_def)
qed

lemma upsert_eids:
  "map eid (upsert new_ids pl p t) = map eid t @ (if identity p \<in> perm_key ` set t then [] else [new_ids (sp_key p)])"
proof (cases "\<exists>r \<in> set t. perm_key r = identity p")
  case True
  then have "identity p \<in> perm_key ` set t" by force
  then show ?thesis using True by (simp add: upsert_def)
next
  case False
  then have "identity p \<notin> perm_key ` set t" by force
  then show ?thesis using False by (simp add: upsert_def)
qed

lemma upsert_twin_ready:
  assumes "twin_ready new_ids (p # ps) t" and "distinct (map identity (p # ps))"
  shows "twin_ready new_ids ps (upsert new_ids pl p t)"
proof -
  have d: "distinct (map eid (upsert new_ids pl p t) @ map (\<lambda>p. new_ids (sp_key p)) ps)"
    using assms(1) by (auto simp: upsert_eids twin_ready_def)
  have "(visible r \<longleftrightarrow> \<not> is_deleted r) \<and> (perm_key r \<in> identity ` set ps \<longrightarrow> \<not> is_deleted r)" if m: "r \<in> set (upsert new_ids pl p t)" for r
  proof -
    consider "r \<in> set t" | q where "r = scanned_update p q" | "r = scanned_row (new_ids (sp_key p)) pl p"
      using m by (auto simp: upsert_def split: if_splits)
    then show ?thesis
    proof cases
      case 1
      have "perm_key r \<in> identity ` set (p # ps)" if "perm_key r \<in> identity ` set ps" using that by simp
      then show ?thesis using assms(1) 1 unfolding twin_ready_def by blast
    qed (simp_all add: visible_def)
  qed
  then show ?thesis using d unfolding twin_ready_def by blast
qed

lemma apply_is_fold:
  assumes "\<And>t r. perm_key r \<notin> perm_key ` set t \<Longrightarrow> eid r \<notin> eid ` set t \<Longrightarrow> chk t r = None"
    and "distinct (map identity ps)" and "twin_ready new_ids ps t" and "distinct (map perm_key t)"
  shows "apply_scanned chk new_ids pl ps t = Inr (fold (upsert new_ids pl) ps t)"
  using assms(2-4)
proof (induction ps arbitrary: t)
  case (Cons p ps)
  have next_ok: "twin_ready new_ids ps (upsert new_ids pl p t)" "distinct (map identity ps)" "distinct (map perm_key (upsert new_ids pl p t))"
    using upsert_twin_ready [OF Cons.prems(2,1)] Cons.prems by (auto simp: upsert_keys)
  note rest = Cons.IH [OF next_ok(2,1,3)]
  have f: "repo_findOne (\<lambda>r. perm_key r = identity p) t = cat t (identity p)"
    using Cons.prems(2) by (intro findOne_cat [OF Cons.prems(3)]) (auto simp: twin_ready_def)
  show ?case
  proof (cases "cat t (identity p)")
    case (Some r)
    have "distinct (map eid t)" using Cons.prems(2) by (simp add: twin_ready_def)
    then show ?thesis using f Some rest update_is_upsert [OF Cons.prems(3) _ Some] by simp
  next
    case None
    then have k: "identity p \<notin> perm_key ` set t" by (simp add: cat_None)
    have n: "chk t (scanned_row (new_ids (sp_key p)) pl p) = None"
      by (rule assms(1)) (use k Cons.prems(2) in \<open>auto simp: twin_ready_def\<close>)
    have "upsert new_ids pl p t = t @ [scanned_row (new_ids (sp_key p)) pl p]" using k by (force simp: upsert_def)
    then show ?thesis using f None rest n by simp
  qed
qed simp

lemma syncPlane_is_cli:
  assumes chk: "\<And>t r. perm_key r \<notin> perm_key ` set t \<Longrightarrow> eid r \<notin> eid ` set t \<Longrightarrow> chk t r = None"
    and "scan_ok ps" and "twin_ready new_ids ps t" and "catalogue_ok t"
  shows "syncPlane chk now new_ids pl ps reason t = Inr (cli_syncPlane now new_ids pl ps reason t)"
proof -
  have "repo_find (\<lambda>r. perm_plane r = pl \<and> \<not> is_manual r \<and> \<not> is_deleted r) t = filter (\<lambda>r. \<not> is_deleted r \<and> perm_plane r = pl \<and> \<not> is_manual r) t"
    unfolding repo_find_def by (rule filter_cong) (use assms(3) in \<open>auto simp: twin_ready_def\<close>)
  moreover have "apply_scanned chk new_ids pl ps t = Inr (fold (upsert new_ids pl) ps t)"
    using assms(2-4) by (intro apply_is_fold [OF chk]) (simp_all add: scan_ok_def catalogue_ok_def)
  ultimately show ?thesis by (simp add: syncPlane_def cli_syncPlane_def Let_def)
qed

lemma fold_upsert_twin:
  "twin_ready new_ids (ps @ qs) t \<Longrightarrow> distinct (map identity (ps @ qs)) \<Longrightarrow> twin_ready new_ids qs (fold (upsert new_ids pl) ps t)"
proof (induction ps arbitrary: t)
  case (Cons p ps)
  have "twin_ready new_ids (ps @ qs) (upsert new_ids pl p t)" using upsert_twin_ready [of new_ids p "ps @ qs" t pl] Cons.prems by simp
  then show ?case using Cons.IH [of "upsert new_ids pl p t"] Cons.prems(2) by simp
qed simp

lemma remove_twin_ready:
  assumes "twin_ready new_ids qs t" and "\<And>d. d \<in> set ds \<Longrightarrow> perm_key d \<notin> identity ` set qs"
  shows "twin_ready new_ids qs (remove_rows now reason ds t)"
proof -
  have "map eid (remove_rows now reason ds t) = map eid t" by (simp add: remove_rows_map)
  moreover have "(visible r \<longleftrightarrow> \<not> is_deleted r) \<and> (perm_key r \<in> identity ` set qs \<longrightarrow> \<not> is_deleted r)" if "r \<in> set (remove_rows now reason ds t)" for r
  proof -
    consider "r \<in> set t" | q where "r = removed_row now reason q" "perm_key q \<in> perm_key ` set ds"
      using \<open>r \<in> _\<close> by (auto simp: remove_rows_map)
    then show ?thesis
    proof cases
      case 2
      then obtain d where "d \<in> set ds" "perm_key q = perm_key d" by blast
      then have "perm_key r \<notin> identity ` set qs" using assms(2) [of d] 2(1) by simp
      then show ?thesis using 2(1) by (simp add: visible_def)
    qed (use assms(1) in \<open>simp add: twin_ready_def\<close>)
  qed
  ultimately show ?thesis using assms(1) unfolding twin_ready_def by simp
qed

lemma pass_twin_ready:
  assumes "sync_ready api ui t" and "twin_ready new_ids (api @ ui) t"
  shows "twin_ready new_ids ui (fst (cli_syncPlane now new_ids ApiPlane api api_reason t))"
proof -
  let ?ex = "filter (stale ApiPlane) t"
  have ok: "scan_ok api" "catalogue_ok t" using assms(1) by (simp_all add: sync_ready_def)
  have w: "\<forall>r \<in> set ?ex. match_permission (permission_string r) \<noteq> None" using ok(2) by (simp add: catalogue_ok_def)
  have "distinct (map identity (api @ ui))" using assms(1) by (auto simp: sync_ready_def scan_ok_def)
  then have u: "twin_ready new_ids ui (fold (upsert new_ids ApiPlane) api t)" by (rule fold_upsert_twin [OF assms(2)])
  have gone: "perm_key d \<notin> identity ` set ui" if "d \<in> set (pd_removed (diff_of api ?ex))" for d
    using that assms(1) unfolding diff_removed [OF ok(1) w] sync_ready_def stale_def by auto
  have "fst (cli_syncPlane now new_ids ApiPlane api api_reason t) =
      remove_rows now api_reason (pd_removed (diff_of api ?ex)) (fold (upsert new_ids ApiPlane) api t)"
    by (simp add: cli_syncPlane_def Let_def stale_def [abs_def])
  then show ?thesis using remove_twin_ready [OF u gone] by simp
qed


text \<open>Where a declared permission is soft-deleted they differ: under a unique constraint on service and
  permission the transaction of the service fails on it.\<close>

lemma runSync_redeclared:
  assumes "catalogue_ok t" and "cat t (identity p) = Some r" and "\<not> visible r"
    and "\<And>t r. perm_key r \<in> perm_key ` set t \<Longrightarrow> eid r \<notin> eid ` set t \<Longrightarrow> chk t r = Some e"
    and "new_ids (sp_key p) \<notin> eid ` set t"
  shows "runSync chk now new_ids who (p # ps) ui (t, logs) = Inl (QueryFailedError e)"
proof -
  have d: "distinct (map perm_key t)" using assms(1) by (simp add: catalogue_ok_def)
  have "repo_findOne (\<lambda>r. perm_key r = identity p) t = None"
    using assms(2,3) cat_mem [OF d] by (fastforce simp: repo_findOne_def find_None_iff)
  moreover have "identity p \<in> perm_key ` set t" using assms(2) cat_None [of t "identity p"] by auto
  ultimately have "apply_scanned chk new_ids ApiPlane (p # ps) t = Inl (QueryFailedError e)"
    using assms(4) [of "scanned_row (new_ids (sp_key p)) ApiPlane p" t] assms(5) by simp
  then show ?thesis by (simp add: runSync_def syncPlane_def Let_def)
qed

section \<open>Administration leaves synced rows alone\<close>

inductive admin_step :: "(permission list \<Rightarrow> permission \<Rightarrow> driver_error option) \<Rightarrow> permission list \<Rightarrow> permission list \<Rightarrow> bool" for chk where
  create: "createManual ''permissions'' chk new_id dto user t = Inr (t', e) \<Longrightarrow> new_id \<notin> eid ` set t \<Longrightarrow> admin_step chk t t'"
| update: "updateManual ''permissions'' chk i upd user t = Inr (t', e) \<Longrightarrow> admin_step chk t t'"
| remove: "removeManual ''permissions'' now i user t = Inr t' \<Longrightarrow> admin_step chk t t'"

text \<open>A synced row may only get other display names (and the stamp of who gave them).\<close>

definition renamed :: "permission \<Rightarrow> permission \<Rightarrow> bool" where
  "renamed r r' \<longleftrightarrow> (\<exists>th en w. r' = r\<lparr>permission_name_th := th, permission_name_en := en, updated_by := w\<rparr>)"

definition synced_kept :: "permission list \<Rightarrow> permission list \<Rightarrow> bool" where
  "synced_kept t u \<longleftrightarrow> (\<forall>i r. row t i = Some r \<and> \<not> is_manual r \<longrightarrow> (\<exists>r'. row u i = Some r' \<and> renamed r r'))
     \<and> (\<forall>i r. row u i = Some r \<and> \<not> is_manual r \<longrightarrow> (\<exists>r'. row t i = Some r' \<and> \<not> is_manual r'))
     \<and> (\<forall>i r. row t i = Some r \<longrightarrow> (\<exists>r'. row u i = Some r' \<and> perm_plane r' = perm_plane r))
     \<and> (\<forall>i r. row u i = Some r \<and> row t i = None \<longrightarrow> is_manual r \<and> perm_plane r = UiPlane)"

lemma renamed_refl: "renamed r r"
  unfolding renamed_def by (intro exI [of _ "permission_name_th r"] exI [of _ "permission_name_en r"] exI [of _ "updated_by r"]) simp

lemma renamed_trans: "renamed a b \<Longrightarrow> renamed b c \<Longrightarrow> renamed a c"
proof -
  assume "renamed a b" "renamed b c"
  then obtain th en w th' en' w' where "b = a\<lparr>permission_name_th := th, permission_name_en := en, updated_by := w\<rparr>"
    "c = b\<lparr>permission_name_th := th', permission_name_en := en', updated_by := w'\<rparr>" unfolding renamed_def by blast
  then have "c = a\<lparr>permission_name_th := th', permission_name_en := en', updated_by := w'\<rparr>" by simp
  then show ?thesis unfolding renamed_def by blast
qed

lemma renamed_manual: "renamed a b \<Longrightarrow> is_manual b = is_manual a \<and> perm_plane b = perm_plane a"
  by (auto simp: renamed_def)

lemma stamp_renamed: "renamed r (stamp_updated user (r\<lparr>permission_name_th := th, permission_name_en := en\<rparr>))"
proof -
  have "stamp_updated user (r\<lparr>permission_name_th := th, permission_name_en := en\<rparr>) =
      r\<lparr>permission_name_th := th, permission_name_en := en, updated_by := updated_by (stamp_updated user r)\<rparr>"
    by (cases user) simp_all
  then show ?thesis unfolding renamed_def by blast
qed

lemma synced_kept_trans:
  assumes tv: "synced_kept t v" and vw: "synced_kept v w"
  shows "synced_kept t w"
  unfolding synced_kept_def
proof (intro conjI allI impI; (elim conjE)?)
  fix i r assume "row t i = Some r" "\<not> is_manual r"
  then obtain r' where "row v i = Some r'" "renamed r r'" "\<not> is_manual r'" using tv renamed_manual unfolding synced_kept_def by blast
  then show "\<exists>r'. row w i = Some r' \<and> renamed r r'" using vw renamed_trans unfolding synced_kept_def by blast
next
  fix i r assume "row w i = Some r" "\<not> is_manual r"
  then obtain r' where "row v i = Some r'" "\<not> is_manual r'" using vw unfolding synced_kept_def by blast
  then show "\<exists>r'. row t i = Some r' \<and> \<not> is_manual r'" using tv unfolding synced_kept_def by blast
next
  fix i r assume "row t i = Some r"
  then obtain r' where "row v i = Some r'" "perm_plane r' = perm_plane r" using tv unfolding synced_kept_def by blast
  then show "\<exists>r'. row w i = Some r' \<and> perm_plane r' = perm_plane r" using vw unfolding synced_kept_def by metis
next
  fix i r assume a: "row w i = Some r" "row t i = None"
  have "is_manual r \<and> perm_plane r = UiPlane"
  proof (cases "row v i")
    case None
    then show ?thesis using a(1) vw unfolding synced_kept_def by blast
  next
    case (Some x)
    then have x: "is_manual x" "perm_plane x = UiPlane" using a(2) tv unfolding synced_kept_def by blast+
    have "perm_plane r = perm_plane x" using vw Some a(1) unfolding synced_kept_def by fastforce
    moreover have "is_manual r" using vw Some a(1) x(1) unfolding synced_kept_def by fastforce
    ultimately show ?thesis using x by simp
  qed
  then show "is_manual r" "perm_plane r = UiPlane" by simp_all
qed

text \<open>A row replaced in place, by a rename when it is synced and by another row added by hand otherwise.\<close>

lemma synced_kept_put:
  assumes "row t (eid e) = Some r" and "\<not> is_manual r \<longrightarrow> renamed r e" and "is_manual r \<longrightarrow> is_manual e \<and> perm_plane e = perm_plane r"
  shows "synced_kept t (put_row e t)"
  unfolding synced_kept_def row_put_row using assms renamed_refl renamed_manual [of r e] by auto

lemma create_kept:
  assumes "createManual ''permissions'' chk new_id dto user t = Inr (t', e)" and "new_id \<notin> eid ` set t" and "keys_ok t"
  shows "keys_ok t' \<and> synced_kept t t'"
proof -
  let ?e = "stamp_created user ((manual_row dto)\<lparr>eid := new_id\<rparr>)"
  have m: "is_manual ?e \<and> perm_plane ?e = UiPlane" by (cases user) (simp_all add: manual_row_def)
  have t': "t' = put_row ?e t"
    using assms(1) by (auto simp: createManual_def base_create_def executeDbOperation_Inr createEntity_def Let_def repo_save_def split: option.splits sum.splits)
  have "row t new_id = None" using assms(2) by (simp add: row_None)
  then show ?thesis using m assms(3) renamed_refl unfolding t' synced_kept_def row_put_row by auto
qed

lemma update_kept:
  assumes "updateManual ''permissions'' chk i upd user t = Inr (t', e)" and "keys_ok t"
  shows "keys_ok t' \<and> synced_kept t t'"
proof -
  obtain r where r: "row t i = Some r" "softDeleteFilter r" "upd_service upd \<noteq> None \<or> upd_permission upd \<noteq> None \<Longrightarrow> is_manual r"
      "base_update ''permissions'' chk i (permission_patch upd) user t = Inr (t', e)"
    using assms by (auto simp: updateManual_def base_findById_def findEntityById_row split: option.splits if_splits sum.splits)
  have k: "eid r = i" by (rule row_key [OF r(1)])
  let ?e = "stamp_updated user (permission_patch upd r)"
  have ke: "eid ?e = i" by (simp add: k permission_patch_def Let_def split: option.split)
  have "(permission_patch upd r)\<lparr>eid := i\<rparr> = permission_patch upd r" using ke by simp
  then have t': "t' = put_row ?e t"
    using r(1,4) assms(2) by (auto simp: base_update_def executeDbOperation_Inr preload_row repo_save_def split: option.splits sum.splits if_splits)
  have man: "is_manual ?e = is_manual r \<and> perm_plane ?e = perm_plane r" by (cases user) (simp_all add: permission_patch_def Let_def split: option.split)
  have "renamed r ?e" if "\<not> is_manual r"
  proof -
    have "upd_service upd = None" "upd_permission upd = None" using r(3) that by blast+
    then have "\<exists>th en. permission_patch upd r = r\<lparr>permission_name_th := th, permission_name_en := en\<rparr>"
      by (cases r) (auto simp: permission_patch_def)
    then show ?thesis using stamp_renamed [of r user] by auto
  qed
  then have "synced_kept t t'" unfolding t' using man r(1) ke by (intro synced_kept_put [of t ?e r]) auto
  then show ?thesis using t' assms(2) by simp
qed

lemma remove_kept:
  assumes "removeManual ''permissions'' now i user t = Inr t'" and "keys_ok t"
  shows "keys_ok t' \<and> synced_kept t t'"
proof -
  obtain r where r: "row t i = Some r" "is_manual r" "t' = fst (repo_update (\<lambda>r. eid r = i) (soft_deleted now user) t)"
    using assms by (auto simp: removeManual_def base_findById_def findEntityById_row base_delete_def deleteEntity_def case_prod_beta
      split: option.splits if_splits sum.splits)
  have m: "is_manual (soft_deleted now user x) = is_manual x" "perm_plane (soft_deleted now user x) = perm_plane x" for x :: permission
    by (cases user; simp add: soft_deleted_def)+
  have at_i: "eid x = i \<Longrightarrow> row t j = Some x \<Longrightarrow> x = r" for x j using r(1) row_key by fastforce
  have rows: "row t' j = map_option (\<lambda>x. if eid x = i then soft_deleted now user x else x) (row t j)" for j
    unfolding r(3) by (rule update_row) simp
  have "keys_ok t'" unfolding r(3) using assms(2) by simp
  moreover have "synced_kept t t'"
    unfolding synced_kept_def rows using at_i r(2) renamed_refl m by (auto split: if_splits)
  ultimately show ?thesis by blast
qed

text \<open>administration never touches what the code declares. However permissions are created, edited and deleted through
  the service, a row that was synced from code stays in place with its identity, plane and liveness, and only its display
  names may change; every row that appears is marked as added by hand and is of the \<open>ui\<close> plane.\<close>

theorem synced_identity_protected:
  assumes "(admin_step chk)\<^sup>*\<^sup>* t u" and "keys_ok t"
  shows "keys_ok u \<and> synced_kept t u"
  using assms(1)
proof (induction rule: rtranclp_induct)
  case base
  then show ?case using assms(2) renamed_refl unfolding synced_kept_def by auto
next
  case (step v w)
  then have k: "keys_ok v" and tv: "synced_kept t v" by auto
  have vw: "keys_ok w \<and> synced_kept v w"
    using step(2) by cases (use create_kept update_kept remove_kept k in blast)+
  moreover have "synced_kept t w"
    using synced_kept_trans [OF tv] vw by blast
  ultimately show ?case by blast
qed

section \<open>A small catalogue\<close>

definition sample_permission :: "string \<Rightarrow> string \<Rightarrow> plane \<Rightarrow> bool \<Rightarrow> permission" where
  "sample_permission i p pl manual =
     \<lparr>eid = i, created_by = None, updated_by = None, is_deleted = False, deleted_reason = None, deleted_at = None, deleted_by = None,
      perm_service = ''iam'', permission_string = p, perm_resource = ''users'', perm_action = ''read'', perm_plane = pl,
      permission_name_th = ''x'', permission_name_en = ''x'', is_manual = manual\<rparr>"

definition sample_catalogue :: "permission list" where
  "sample_catalogue = [sample_permission ''1'' ''users:read'' ApiPlane False, sample_permission ''2'' ''users:drop'' ApiPlane False,
     sample_permission ''3'' ''page:help'' UiPlane True]"

definition sample_scanned :: "string \<Rightarrow> plane \<Rightarrow> scanned_permission" where
  "sample_scanned p pl = \<lparr>sp_service = ''iam'', sp_permission = p, sp_resource = ''users'', sp_action = ''read'', sp_name = None, sp_plane = pl\<rparr>"

definition sample_api :: "scanned_permission list" where
  "sample_api = [sample_scanned ''users:read'' ApiPlane, sample_scanned ''users:create'' ApiPlane]"

definition sample_ui :: "scanned_permission list" where
  "sample_ui = [sample_scanned ''page:home'' UiPlane]"

definition sample_unique :: "permission list \<Rightarrow> permission \<Rightarrow> driver_error option" where
  "sample_unique t r = (if perm_key r \<in> perm_key ` set t \<or> eid r \<in> eid ` set t
     then Some \<lparr>de_code = Some ''23505'', de_constraint = None, de_detail = None, de_table = None, de_column = None, de_message = None\<rparr> else None)"

lemma sample_ready: "sync_ready sample_api sample_ui sample_catalogue"
  by code_simp

lemma sample_twin_ready: "twin_ready id (sample_api @ sample_ui) sample_catalogue"
  by code_simp



theorem synced_identity_protected_witness:
  "\<exists>u. (admin_step sample_unique)\<^sup>*\<^sup>* sample_catalogue u \<and> length u = 4 \<and> synced_kept sample_catalogue u"
proof -
  let ?dto = "\<lparr>cp_service = ''iam'', cp_permission = ''page:new'', cp_name_th = ''n'', cp_name_en = ''n''\<rparr>"
  obtain u e where u: "createManual ''permissions'' sample_unique ''9'' ?dto NoActor sample_catalogue = Inr (u, e)" "length u = 4"
    by (simp add: createManual_def base_create_def createEntity_def repo_save_def sample_unique_def sample_catalogue_def sample_permission_def
      manual_row_def perm_key_def put_row_def executeDbOperation_def Let_def)
  have s: "(admin_step sample_unique)\<^sup>*\<^sup>* sample_catalogue u"
    using u(1) by (intro r_into_rtranclp create [OF u(1)]) (simp add: sample_catalogue_def sample_permission_def)
  have "keys_ok sample_catalogue" by code_simp
  then have "synced_kept sample_catalogue u" using synced_identity_protected [OF s] by blast
  then show ?thesis using s u(2) by blast
qed

end
