(* ===== verification/Rpc_Transport.thy ===== *)
theory Rpc_Transport
  imports Base_Service
begin

text \<open>
  How errors and calls travel between the services: the two global exception filters
  (\<open>libs/common/src/utils/http-exception/all-exceptions-filter.util.ts\<close> for HTTP and
  \<open>rpc-exceptions-filter.util.ts\<close> for messages), the two readers of a received RPC error
  (\<open>rpc-error-handler.util.ts\<close> and \<open>libs/common/src/services/microservice-client.service.ts\<close>) and
  the RPC client itself with its cache and its trace context. What the framework puts on the wire for an exception is
  a parameter, as are the digest and the JSON text of the cache key. Numbers are integers (status codes);
  a status code that is no number, which the types exclude, counts
  as out of range; a property that is missing reads as undefined; log lines are left out.
\<close>

section \<open>Values and exceptions\<close>

datatype jvalue = JUndef | JNull | JBool bool | JNum int | JStr string | JArr "jvalue list" | JObj "(string \<times> jvalue) list"

fun get_prop :: "jvalue \<Rightarrow> string \<Rightarrow> jvalue" where
  "get_prop (JObj ob) k = (case map_of ob k of None \<Rightarrow> JUndef | Some v \<Rightarrow> v)"
| "get_prop _ k = JUndef"

fun has_prop :: "jvalue \<Rightarrow> string \<Rightarrow> bool" where
  "has_prop (JObj ob) k \<longleftrightarrow> map_of ob k \<noteq> None"
| "has_prop _ k \<longleftrightarrow> False"

text \<open>\<open>a ?? b\<close>.\<close>

definition nullish :: "jvalue \<Rightarrow> bool" where
  "nullish v \<longleftrightarrow> v = JUndef \<or> v = JNull"

definition coalesce :: "jvalue \<Rightarrow> jvalue \<Rightarrow> jvalue" where
  "coalesce a b = (if nullish a then b else a)"

fun is_object :: "jvalue \<Rightarrow> bool" where
  "is_object (JArr _) \<longleftrightarrow> True"
| "is_object (JObj _) \<longleftrightarrow> True"
| "is_object _ \<longleftrightarrow> False"

fun is_array :: "jvalue \<Rightarrow> bool" where
  "is_array (JArr _) \<longleftrightarrow> True"
| "is_array _ \<longleftrightarrow> False"

fun elements :: "jvalue \<Rightarrow> jvalue list" where
  "elements (JArr xs) = xs"
| "elements _ = []"

text \<open>What a handler can throw. An HTTP exception has its status, its response (a text or an object) and
  its message; an \<open>RpcException\<close> has its error; a failed query its driver error and message.\<close>

datatype exc =
    InvalidParameterException "(jvalue \<times> jvalue) list"
  | ValidationException "(string \<times> string list) list"
  | RpcException jvalue
  | HttpExc int jvalue string
  | QueryFailed driver_error string
  | ErrorExc string
  | ThrownValue jvalue

section \<open>The filter of messages\<close>

definition str_opt :: "string option \<Rightarrow> jvalue" where
  "str_opt s = (case s of None \<Rightarrow> JUndef | Some m \<Rightarrow> JStr m)"

definition envelope :: "jvalue \<Rightarrow> jvalue \<Rightarrow> jvalue list \<Rightarrow> string \<Rightarrow> jvalue" where
  "envelope code message errors timestamp =
     JObj [(''status'', JObj [(''code'', code), (''message'', message)]), (''errors'', JArr errors), (''meta'', JObj [(''timestamp'', JStr timestamp)])]"

definition error_object :: "jvalue \<Rightarrow> jvalue \<Rightarrow> jvalue \<Rightarrow> jvalue" where
  "error_object code title detail = JObj [(''code'', code), (''title'', title), (''detail'', detail)]"

definition sourced_error :: "jvalue \<Rightarrow> string \<Rightarrow> jvalue \<Rightarrow> string \<Rightarrow> jvalue \<Rightarrow> jvalue" where
  "sourced_error code title detail k src =
     JObj [(''code'', code), (''title'', JStr title), (''detail'', detail), (''source'', JObj [(k, src)])]"

definition field_pointer :: "string \<Rightarrow> jvalue" where
  "field_pointer field = JStr (''/data/attributes/'' @ field)"

text \<open>\<open>RpcExceptionsFilter.isRpcErrorPayload\<close>, which \<open>rpc-error-handler.util.ts\<close> repeats.\<close>

definition isRpcErrorPayload :: "jvalue \<Rightarrow> bool" where
  "isRpcErrorPayload ob \<longleftrightarrow> is_object ob \<and> is_object (get_prop ob ''status'') \<and> has_prop (get_prop ob ''status'') ''code''
     \<and> has_prop (get_prop ob ''status'') ''message'' \<and> is_array (get_prop ob ''errors'')
     \<and> (is_object (get_prop ob ''meta'') \<or> get_prop ob ''meta'' = JNull)"

text \<open>The message an \<open>RpcException\<close> takes from an error that is neither a text nor an object.\<close>

definition unexpected :: "string \<Rightarrow> string \<Rightarrow> jvalue" where
  "unexpected timestamp m =
     envelope (JNum 500) (JStr ''Internal Server Error'') [error_object (JNum 500) (JStr ''An unexpected error occurred'') (JStr m)] timestamp"

fun formatException :: "string \<Rightarrow> exc \<Rightarrow> jvalue" where
  "formatException timestamp (InvalidParameterException errors) =
     envelope (JNum 400002) (JStr ''Invalid Parameters'')
       (map (\<lambda>(message, field). sourced_error (JNum 400002) ''Invalid Parameter Format'' (coalesce message (JStr ''Invalid parameter value''))
          ''parameter'' (coalesce field (JStr ''unknown''))) errors) timestamp"
| "formatException timestamp (ValidationException errors) =
     envelope (JNum 400001) (JStr ''Validation Failed'')
       (concat (map (\<lambda>(field, messages). map (\<lambda>m. sourced_error (JNum 400001) ''Invalid Input'' (JStr m) ''pointer'' (field_pointer field)) messages) errors))
       timestamp"
| "formatException timestamp (RpcException error) =
     (if isRpcErrorPayload error then error
      else if is_object error then
        (let statusCode = coalesce (get_prop error ''status_code'') (coalesce (get_prop error ''statusCode'') (JNum 500));
             message = coalesce (get_prop error ''message'') (JStr ''RPC Error'')
         in envelope statusCode message [error_object statusCode message (coalesce (get_prop error ''error'') message)] timestamp)
      else case error of
        JStr m \<Rightarrow> envelope (JNum 500) (JStr m) [error_object (JNum 500) (JStr ''RPC Error'') (JStr m)] timestamp
      | _ \<Rightarrow> unexpected timestamp ''Rpc Exception'')"
| "formatException timestamp (HttpExc status response message) =
     envelope (JNum status) (JStr message)
       [error_object (JNum status) (JStr message)
          (case response of JStr m \<Rightarrow> JStr m | r \<Rightarrow> coalesce (get_prop r ''message'') (JStr ''An error occurred''))] timestamp"
| "formatException timestamp (QueryFailed d message) = unexpected timestamp message"
| "formatException timestamp (ErrorExc m) = unexpected timestamp m"
| "formatException timestamp (ThrownValue v) = unexpected timestamp ''Unknown error''"

section \<open>The filter of HTTP requests\<close>

definition HTTP_ERROR_META :: "int \<Rightarrow> (string \<times> string) option" where
  "HTTP_ERROR_META = map_of
     [(400, ''BAD_REQUEST'', ''Invalid Request''), (401, ''UNAUTHORIZED'', ''Unauthorized''), (403, ''FORBIDDEN'', ''Access Denied''),
      (404, ''NOT_FOUND'', ''Not Found''), (409, ''CONFLICT'', ''Duplicate Record''), (422, ''UNPROCESSABLE_ENTITY'', ''Unprocessable Request''),
      (429, ''TOO_MANY_REQUESTS'', ''Too Many Requests''), (500, ''INTERNAL_SERVER_ERROR'', ''Server Error''),
      (503, ''SERVICE_UNAVAILABLE'', ''Service Unavailable'')]"

definition unhandled_response :: "string \<Rightarrow> int \<times> jvalue" where
  "unhandled_response timestamp =
     (500, envelope (JNum 500) (JStr ''Internal Server Error'')
        [error_object (JStr ''INTERNAL_SERVER_ERROR'') (JStr ''An unexpected error occurred'') (JStr ''Please try again later or contact support.'')] timestamp)"

definition http_response :: "string \<Rightarrow> int \<Rightarrow> jvalue \<Rightarrow> string \<Rightarrow> int \<times> jvalue" where
  "http_response timestamp status errorResponse message =
     (let code = (case HTTP_ERROR_META status of None \<Rightarrow> JNum status | Some (c, t) \<Rightarrow> JStr c);
          title = (case HTTP_ERROR_META status of None \<Rightarrow> JStr ''An error occurred'' | Some (c, t) \<Rightarrow> JStr t);
          detail = JStr ''An error occurred''
      in case errorResponse of
           JStr m \<Rightarrow> (status, envelope (JNum status) (JStr message) [error_object code title (JStr m)] timestamp)
         | r \<Rightarrow>
           if is_object r
           then (status, envelope (coalesce (get_prop r ''status'') (JNum status)) (JStr message)
             [error_object (coalesce (get_prop r ''code'') code) (coalesce (get_prop r ''title'') title)
                (coalesce (get_prop r ''detail'') (coalesce (get_prop r ''message'') detail))] timestamp)
           else (status, envelope (JNum status) (JStr message) [error_object code title detail] timestamp))"

fun allExceptions_catch :: "string \<Rightarrow> exc \<Rightarrow> int \<times> jvalue" where
  "allExceptions_catch timestamp (InvalidParameterException errors) =
     (400, envelope (JNum 400002) (JStr ''Invalid Parameters'')
        (map (\<lambda>(message, field). sourced_error (JStr ''INVALID_PARAMETER_FORMAT'') ''Invalid Parameter Format'' message ''parameter'' field) errors) timestamp)"
| "allExceptions_catch timestamp (ValidationException errors) =
     (400, envelope (JNum 400001) (JStr ''Validation Failed'')
        (concat (map (\<lambda>(field, messages). map (\<lambda>m. sourced_error (JStr ''VALIDATION_ERROR'') ''Invalid Input'' (JStr m) ''pointer'' (field_pointer field)) messages) errors))
        timestamp)"
| "allExceptions_catch timestamp (HttpExc status errorResponse message) = http_response timestamp status errorResponse message"
| "allExceptions_catch timestamp (QueryFailed d message) =
     (422, envelope (JNum 422) (JStr ''Database Query Error'')
        [error_object (JStr ''QUERY_FAILED'') (JStr ''Database Operation Failed'') (coalesce (str_opt (de_detail d)) (coalesce (str_opt (de_message d)) (JStr message)))]
        timestamp)"
| "allExceptions_catch timestamp (RpcException error) = unhandled_response timestamp"
| "allExceptions_catch timestamp (ErrorExc m) = unhandled_response timestamp"
| "allExceptions_catch timestamp (ThrownValue v) = unhandled_response timestamp"

section \<open>Reading a received error\<close>

text \<open>What the framework builds for \<open>new BadRequestException(body)\<close> and its siblings: a text becomes an object
  with the message, the name of the status and the status; an object is the response itself, its \<open>message\<close> the message.\<close>

fun body_message :: "string \<Rightarrow> jvalue \<Rightarrow> string" where
  "body_message name (JStr m) = m"
| "body_message name r = (case get_prop r ''message'' of JStr m \<Rightarrow> m | _ \<Rightarrow> name)"

definition new_exception :: "int \<Rightarrow> string \<Rightarrow> jvalue \<Rightarrow> exc" where
  "new_exception status name body =
     HttpExc status
       (case body of JStr m \<Rightarrow> JObj [(''message'', JStr m), (''error'', JStr name), (''statusCode'', JNum status)] | _ \<Rightarrow> body)
       (body_message (name @ '' Exception'') body)"

text \<open>\<open>new HttpException(body, status)\<close>: a text stays a text.\<close>

definition new_HttpException :: "jvalue \<Rightarrow> int \<Rightarrow> exc" where
  "new_HttpException body status = HttpExc status body (body_message ''Http Exception'' body)"

text \<open>\<open>rpc-error-handler.util.ts\<close>.\<close>

definition extractRpcPayload :: "jvalue \<Rightarrow> jvalue option" where
  "extractRpcPayload error =
     (if isRpcErrorPayload error then Some error
      else if is_object error \<and> has_prop error ''error'' \<and> has_prop error ''message'' \<and> isRpcErrorPayload (get_prop error ''error'')
      then Some (get_prop error ''error'') else None)"

definition httpExceptionFor :: "jvalue \<Rightarrow> jvalue \<Rightarrow> jvalue \<Rightarrow> exc" where
  "httpExceptionFor code detail message =
     (if code = JNum 400 then new_exception 400 ''Bad Request'' detail
      else if code = JNum 401 then new_exception 401 ''Unauthorized'' detail
      else if code = JNum 403 then new_exception 403 ''Forbidden'' detail
      else if code = JNum 404 then new_exception 404 ''Not Found'' detail
      else if code = JNum 409 then new_exception 409 ''Conflict'' detail
      else if code = JNum 422 then new_exception 422 ''Unprocessable Entity'' detail
      else new_HttpException (JObj [(''message'', message), (''detail'', detail)])
             (case code of JNum n \<Rightarrow> (if 400 \<le> n \<and> n < 500 then n else 500) | _ \<Rightarrow> 500))"

definition first_element :: "jvalue \<Rightarrow> jvalue" where
  "first_element v = (case elements v of [] \<Rightarrow> JUndef | x # _ \<Rightarrow> x)"

text \<open>An error the client caught: the framework's \<open>TimeoutError\<close>, an \<open>Error\<close>, an HTTP exception, or a plain value
  from the wire.\<close>

datatype caught = Timeout | CaughtError string | CaughtHttp exc | CaughtValue jvalue

definition caught_message :: "(jvalue \<Rightarrow> string) \<Rightarrow> caught \<Rightarrow> string" where
  "caught_message to_text c = (case c of Timeout \<Rightarrow> ''Timeout has occurred'' | CaughtError m \<Rightarrow> m | CaughtHttp (HttpExc s r m) \<Rightarrow> m
     | CaughtHttp _ \<Rightarrow> [] | CaughtValue v \<Rightarrow> to_text v)"

definition handler_handleRpcError :: "(jvalue \<Rightarrow> string) \<Rightarrow> caught \<Rightarrow> exc" where
  "handler_handleRpcError to_text c =
     (case (case c of CaughtValue v \<Rightarrow> extractRpcPayload v | _ \<Rightarrow> None) of
        Some payload \<Rightarrow>
          (let message = get_prop (get_prop payload ''status'') ''message'';
               detail = coalesce (get_prop (first_element (get_prop payload ''errors'')) ''detail'') message
           in httpExceptionFor (get_prop (get_prop payload ''status'') ''code'') detail message)
      | None \<Rightarrow> new_exception 503 ''Service Unavailable'' (JStr (''Upstream service unavailable: '' @ caught_message to_text c)))"

section \<open>The RPC client\<close>

text \<open>\<open>MicroserviceClientService.isRpcErrorPayload\<close> asks for less than the filter's predicate: no message and no
  \<open>meta\<close>.\<close>

definition client_isRpcErrorPayload :: "jvalue \<Rightarrow> bool" where
  "client_isRpcErrorPayload v \<longleftrightarrow> is_object v \<and> has_prop v ''status'' \<and> is_object (get_prop v ''status'')
     \<and> has_prop (get_prop v ''status'') ''code'' \<and> has_prop v ''errors'' \<and> is_array (get_prop v ''errors'')"

definition isRpcErrorResponse :: "jvalue \<Rightarrow> bool" where
  "isRpcErrorResponse v \<longleftrightarrow> is_object v \<and> (has_prop v ''status_code'' \<or> has_prop v ''statusCode'') \<and> has_prop v ''message''
     \<and> (case coalesce (get_prop v ''status_code'') (get_prop v ''statusCode'') of JNum n \<Rightarrow> 400 \<le> n | _ \<Rightarrow> False)"

text \<open>The exception for a status; \<open>conflict\<close> tells whether 409 has a branch of its own.\<close>

definition exception_for_status :: "bool \<Rightarrow> jvalue \<Rightarrow> jvalue \<Rightarrow> exc" where
  "exception_for_status conflict statusCode body =
     (if statusCode = JNum 400 then new_exception 400 ''Bad Request'' body
      else if statusCode = JNum 401 then new_exception 401 ''Unauthorized'' body
      else if statusCode = JNum 403 then new_exception 403 ''Forbidden'' body
      else if statusCode = JNum 404 then new_exception 404 ''Not Found'' body
      else if conflict \<and> statusCode = JNum 409 then new_exception 409 ''Conflict'' body
      else case statusCode of
             JNum n \<Rightarrow> (if 400 \<le> n \<and> n < 500 then new_HttpException body n else new_exception 500 ''Internal Server Error'' body)
           | _ \<Rightarrow> new_exception 500 ''Internal Server Error'' body)"

definition handleRpcErrorPayload :: "jvalue \<Rightarrow> exc" where
  "handleRpcErrorPayload error =
     (let statusCode = get_prop (get_prop error ''status'') ''code'';
          message = get_prop (get_prop error ''status'') ''message'';
          firstError = first_element (get_prop error ''errors'');
          detailMessage = coalesce (get_prop firstError ''detail'') message;
          exceptionBody = (case get_prop firstError ''code'' of
              JNum n \<Rightarrow> JObj [(''code'', JNum n), (''message'', detailMessage)]
            | JStr c \<Rightarrow> JObj [(''code'', JStr c), (''message'', detailMessage)]
            | _ \<Rightarrow> detailMessage)
      in exception_for_status True statusCode exceptionBody)"

definition client_handleRpcError :: "jvalue \<Rightarrow> exc" where
  "client_handleRpcError error =
     exception_for_status False (coalesce (get_prop error ''status_code'') (JNum 500)) (coalesce (get_prop error ''message'') (JStr ''Internal server error''))"

lemma size_member: "(k, v) \<in> set ob \<Longrightarrow> size v < size (JObj ob)"
  by (induction ob) auto

text \<open>The payload of a call normalised for the cache key: keys sorted, undefined values dropped.\<close>

function normalizePayload :: "jvalue \<Rightarrow> jvalue" where
  "normalizePayload JUndef = JNull"
| "normalizePayload JNull = JNull"
| "normalizePayload (JBool b) = JBool b"
| "normalizePayload (JNum n) = JNum n"
| "normalizePayload (JStr s) = JStr s"
| "normalizePayload (JArr xs) = JArr (map normalizePayload xs)"
| "normalizePayload (JObj ob) =
     JObj (map (\<lambda>(k, v). (k, normalizePayload v)) (filter (\<lambda>(k, v). v \<noteq> JUndef) (sort_key fst ob)))"
  by pat_completeness auto

termination
  by (relation "measure size") (auto simp: less_Suc_eq_le intro: size_list_estimation' dest: size_member)

text \<open>The stored responses: key, text and expiry. The digest and the two directions of JSON are parameters; \<open>JSON.parse\<close>
  of a text that is none throws, which counts as a miss.\<close>

record rpc_env =
  digest24 :: "string \<Rightarrow> string"
  to_json :: "jvalue \<Rightarrow> string"
  of_json :: "string \<Rightarrow> jvalue option"
  cache_up :: bool
  rpc_clock :: nat

type_synonym rpc_cache = "string \<Rightarrow> (string \<times> nat) option"

record cache_options =
  co_enabled :: bool
  co_ttl :: "nat option"
  co_keyPrefix :: "string option"

definition generateCacheKey :: "rpc_env \<Rightarrow> string \<Rightarrow> jvalue \<Rightarrow> string option \<Rightarrow> string" where
  "generateCacheKey env cmd payload keyPrefix =
     (let prefix = (case keyPrefix of None \<Rightarrow> js_replace_char (CHR ''.'') (CHR '':'') cmd | Some p \<Rightarrow> p)
      in ''microservice:'' @ prefix @ '':'' @ digest24 env (to_json env (normalizePayload payload)))"

definition rpc_cache_get :: "rpc_env \<Rightarrow> string \<Rightarrow> rpc_cache \<Rightarrow> jvalue option" where
  "rpc_cache_get env k c =
     (if cache_up env then (case c k of Some (v, expiry) \<Rightarrow> (if rpc_clock env < expiry then of_json env v else None) | None \<Rightarrow> None) else None)"

definition rpc_cache_set :: "rpc_env \<Rightarrow> string \<Rightarrow> nat \<Rightarrow> jvalue \<Rightarrow> rpc_cache \<Rightarrow> rpc_cache" where
  "rpc_cache_set env k ttl v c = (if cache_up env then c(k \<mapsto> (to_json env v, rpc_clock env + ttl)) else c)"

text \<open>The outcome of the call: a value, no value before completion, or an error.\<close>

datatype outcome = Emitted jvalue | Completed | Rejected caught

definition fallback :: "jvalue \<Rightarrow> jvalue" where
  "fallback defaultValue = (if nullish defaultValue then JNull else defaultValue)"

definition on_error :: "jvalue \<Rightarrow> caught \<Rightarrow> exc + jvalue" where
  "on_error defaultValue error =
     (case error of
        Timeout \<Rightarrow> Inr (fallback defaultValue)
      | CaughtValue v \<Rightarrow>
          (if client_isRpcErrorPayload v then Inl (handleRpcErrorPayload v)
           else if isRpcErrorResponse v then Inl (client_handleRpcError v)
           else Inr (fallback defaultValue))
      | CaughtHttp e \<Rightarrow> Inl e
      | CaughtError m \<Rightarrow> Inr (fallback defaultValue))"

definition sendWithContext ::
    "rpc_env \<Rightarrow> outcome \<Rightarrow> string \<Rightarrow> jvalue \<Rightarrow> jvalue \<Rightarrow> cache_options option \<Rightarrow> rpc_cache \<Rightarrow> (exc + jvalue) \<times> rpc_cache" where
  "sendWithContext env call cmd payload defaultValue cacheOptions c =
     (let caching = (case cacheOptions of Some co \<Rightarrow> co_enabled co | None \<Rightarrow> False);
          key = generateCacheKey env cmd payload (Option.bind cacheOptions co_keyPrefix);
          ttl = (case Option.bind cacheOptions co_ttl of None \<Rightarrow> 300 | Some n \<Rightarrow> n)
      in case (if caching then rpc_cache_get env key c else None) of
           Some cachedResult \<Rightarrow> (Inr cachedResult, c)
         | None \<Rightarrow>
             (case call of
                Rejected e \<Rightarrow> (on_error defaultValue e, c)
              | _ \<Rightarrow>
                let result = (case call of Emitted v \<Rightarrow> v | _ \<Rightarrow> defaultValue)
                in (Inr result, if caching \<and> \<not> nullish result then rpc_cache_set env key ttl result c else c)))"

text \<open>How the call of a service ends: it is answered, it never arrives, or its answer is lost. The handler takes the state of the
  service from \<open>before\<close> to \<open>after\<close>.\<close>

datatype delivery = Answered | RequestLost | AnswerLost

definition call_service :: "rpc_env \<Rightarrow> delivery \<Rightarrow> string \<Rightarrow> jvalue \<Rightarrow> jvalue \<Rightarrow> outcome \<Rightarrow> 's \<Rightarrow> 's \<Rightarrow> (exc + jvalue) \<times> 's" where
  "call_service env delivery cmd payload defaultValue reply before after =
     (fst (sendWithContext env (case delivery of Answered \<Rightarrow> reply | _ \<Rightarrow> Rejected Timeout) cmd payload defaultValue None (\<lambda>_. None)),
      if delivery = RequestLost then before else after)"

text \<open>The copy for the log: the spread turns an array into an object with its indices as keys.\<close>

definition sanitizePayloadForLog :: "jvalue \<Rightarrow> jvalue" where
  "sanitizePayloadForLog payload =
     (case payload of
        JObj ob \<Rightarrow>
          (case map_of ob ''file'' of
             Some (JObj f) \<Rightarrow>
               (if has_prop (JObj f) ''buffer''
                then JObj (map (\<lambda>(k, v). if k = ''file'' then (k, JObj (map (\<lambda>(l, w). if l = ''buffer'' then (l, JStr ''<Buffer omitted>'') else (l, w)) f)) else (k, v)) ob)
                else payload)
           | _ \<Rightarrow> payload)
      | JArr xs \<Rightarrow> JObj (map (\<lambda>i. (show_nat i, xs ! i)) [0..<length xs])
      | _ \<Rightarrow> payload)"

subsection \<open>The call context\<close>

record call_trace =
  correlation_id :: string
  trace_id :: string
  parent_span_id :: "string option"
  span_id :: string

record call_user =
  cu_id :: "string option"
  cu_roles :: "string list option"
  cu_ip :: "string option"
  cu_agent :: "string option"

text \<open>A header is one text or several.\<close>

datatype header = One string | Many "string list"

definition asString :: "header option \<Rightarrow> string option" where
  "asString h = (case h of Some (One s) \<Rightarrow> Some s | _ \<Rightarrow> None)"

definition or_NA :: "string option \<Rightarrow> string option \<Rightarrow> string" where
  "or_NA a b = (case a of Some s \<Rightarrow> s | None \<Rightarrow> (case b of Some s \<Rightarrow> s | None \<Rightarrow> ''N/A''))"

definition client_header :: "header option \<Rightarrow> string option" where
  "client_header h = (case h of None \<Rightarrow> Some ''N/A'' | Some (One s) \<Rightarrow> Some s | Some (Many _) \<Rightarrow> None)"

definition createCallContext ::
    "(string \<Rightarrow> header option) \<Rightarrow> call_trace option \<Rightarrow> (string option \<times> string list option) \<Rightarrow> string \<Rightarrow> call_user \<times> call_trace" where
  "createCallContext headers inboundTrace userSession new_span =
     (\<lparr>cu_id = fst userSession, cu_roles = snd userSession, cu_ip = client_header (headers ''x-client-ip''),
       cu_agent = client_header (headers ''x-client-user-agent'')\<rparr>,
      \<lparr>correlation_id = or_NA (asString (headers ''x-correlation-id'')) (map_option correlation_id inboundTrace),
       trace_id = or_NA (asString (headers ''x-trace-id'')) (map_option trace_id inboundTrace),
       parent_span_id = (case asString (headers ''x-span-id'') of Some s \<Rightarrow> Some s | None \<Rightarrow> map_option span_id inboundTrace),
       span_id = new_span\<rparr>)"

section \<open>An error crosses a service boundary\<close>

text \<open>What the caller of a handler that throws \<open>e\<close> gets, when the filter of messages runs and its payload arrives as
  a plain value.\<close>

definition hop :: "string \<Rightarrow> jvalue \<Rightarrow> exc \<Rightarrow> exc + jvalue" where
  "hop timestamp defaultValue e = on_error defaultValue (CaughtValue (formatException timestamp e))"

lemma envelope_props [simp]:
  "get_prop (envelope c m es t) ''status'' = JObj [(''code'', c), (''message'', m)]" "get_prop (envelope c m es t) ''errors'' = JArr es"
  "get_prop (envelope c m es t) ''meta'' = JObj [(''timestamp'', JStr t)]"
  "is_object (envelope c m es t)" "has_prop (envelope c m es t) ''status''" "has_prop (envelope c m es t) ''errors''"
  by (simp_all add: envelope_def)

lemma envelope_recognised [simp]: "isRpcErrorPayload (envelope c m es t)" "client_isRpcErrorPayload (envelope c m es t)"
  by (simp_all add: isRpcErrorPayload_def client_isRpcErrorPayload_def)

lemma error_object_props [simp]:
  "get_prop (error_object c t d) ''code'' = c" "get_prop (error_object c t d) ''title'' = t" "get_prop (error_object c t d) ''detail'' = d"
  by (simp_all add: error_object_def)

lemma sourced_error_props [simp]:
  "get_prop (sourced_error c t d k src) ''code'' = c" "get_prop (sourced_error c t d k src) ''detail'' = d"
  by (simp_all add: sourced_error_def)

lemma coalesce_simps [simp]: "coalesce (JStr s) v = JStr s" "coalesce (JNum n) v = JNum n" "coalesce JUndef v = v"
  by (simp_all add: coalesce_def nullish_def)

text \<open>The detail a filter reads from a response.\<close>

definition response_detail :: "jvalue \<Rightarrow> jvalue" where
  "response_detail r = (case r of JStr m \<Rightarrow> JStr m | r \<Rightarrow> coalesce (get_prop r ''message'') (JStr ''An error occurred''))"

text \<open>The status that survives a hop.\<close>

definition hop_status :: "int \<Rightarrow> int" where
  "hop_status n = (if 400 \<le> n \<and> n < 500 then n else 500)"

lemma exception_for_status_True:
  "exception_for_status True (JNum n) (JObj [(''code'', c), (''message'', JStr d)]) =
     HttpExc (hop_status n) (JObj [(''code'', c), (''message'', JStr d)]) d"
  by (simp add: exception_for_status_def new_exception_def new_HttpException_def hop_status_def)

lemma hop_http:
  assumes "response_detail response = JStr d"
  shows "hop ts dv (HttpExc status response m) = Inl (HttpExc (hop_status status) (JObj [(''code'', JNum status), (''message'', JStr d)]) d)"
  using assms
  by (simp add: hop_def on_error_def handleRpcErrorPayload_def first_element_def exception_for_status_True response_detail_def [symmetric] split: jvalue.splits)

lemma hop_unexpected:
  "hop ts dv (ErrorExc m) = Inl (HttpExc 500 (JObj [(''code'', JNum 500), (''message'', JStr m)]) m)"
  by (simp add: hop_def on_error_def handleRpcErrorPayload_def first_element_def exception_for_status_True unexpected_def hop_status_def)

text \<open>An exception that crosses several services, each handler letting the exception of its client through.\<close>

fun hops :: "(string \<times> jvalue) list \<Rightarrow> exc \<Rightarrow> exc + jvalue" where
  "hops [] e = Inl e"
| "hops ((ts, dv) # hs) e = (case hop ts dv e of Inl e' \<Rightarrow> hops hs e' | Inr v \<Rightarrow> Inr v)"

lemma hop_status_idem [simp]: "hop_status (hop_status n) = hop_status n"
  by (simp add: hop_status_def)

lemma hops_http:
  "hs \<noteq> [] \<Longrightarrow> response_detail response = JStr d \<Longrightarrow>
     \<exists>c. hops hs (HttpExc status response m) = Inl (HttpExc (hop_status status) (JObj [(''code'', JNum c), (''message'', JStr d)]) d)
       \<and> (c = status \<or> c = hop_status status)"
proof (induction hs arbitrary: status response m)
  case (Cons h hs)
  obtain ts dv where h: "h = (ts, dv)" by (cases h)
  let ?r = "JObj [(''code'', JNum status), (''message'', JStr d)]"
  have e: "hops (h # hs) (HttpExc status response m) = hops hs (HttpExc (hop_status status) ?r d)"
    using hop_http [OF Cons.prems(2), of ts dv status m] by (simp add: h)
  show ?case
  proof (cases "hs = []")
    case False
    have "response_detail ?r = JStr d" by (simp add: response_detail_def)
    then show ?thesis using Cons.IH [OF False, of ?r "hop_status status" d] e by auto
  qed (use e in simp)
qed simp


lemma hops_answered: "hs \<noteq> [] \<Longrightarrow> response_detail response = JStr d \<Longrightarrow> \<exists>e. hops hs (HttpExc status response m) = Inl e"
  using hops_http by blast

text \<open>The error of the database layer as an exception: the object with its code, or the text.\<close>

fun kind_status :: "exc_kind \<Rightarrow> int \<times> string" where
  "kind_status BadRequest = (400, ''Bad Request'')"
| "kind_status Unauthorized = (401, ''Unauthorized'')"
| "kind_status Forbidden = (403, ''Forbidden'')"
| "kind_status NotFound = (404, ''Not Found'')"
| "kind_status Conflict = (409, ''Conflict'')"
| "kind_status InternalServerError = (500, ''Internal Server Error'')"

definition thrown_kind :: "exc_kind \<Rightarrow> string option \<Rightarrow> string \<Rightarrow> exc" where
  "thrown_kind k c m = (case kind_status k of (status, name) \<Rightarrow>
     new_exception status name (case c of None \<Rightarrow> JStr m | Some code \<Rightarrow> JObj [(''code'', JStr code), (''message'', JStr m)]))"

text \<open>The errors of the other theories as exceptions.\<close>

fun exc_of :: "js_error \<Rightarrow> exc" where
  "exc_of (HttpException k c m) = thrown_kind k c m"
| "exc_of (QueryFailedError d) = QueryFailed d (case de_message d of None \<Rightarrow> [] | Some m \<Rightarrow> m)"
| "exc_of (PlainError m) = ErrorExc m"
| "exc_of (EntityPropertyNotFoundError m) = ErrorExc m"
| "exc_of OptimisticLockVersionMismatchError = ErrorExc []"

text \<open>The exceptions of the services keep their kind and message; a code of theirs is replaced by the status.\<close>

lemma hop_thrown_kind:
  "hop ts dv (thrown_kind k c m) = Inl (HttpExc (fst (kind_status k)) (JObj [(''code'', JNum (fst (kind_status k))), (''message'', JStr m)]) m)"
proof -
  obtain status name where s: "kind_status k = (status, name)" by fastforce
  have n: "hop_status status = status" using s by (cases k) (auto simp: hop_status_def)
  obtain response msg where e: "thrown_kind k c m = HttpExc status response msg" "response_detail response = JStr m"
    by (cases c) (auto simp: thrown_kind_def s new_exception_def response_detail_def)
  show ?thesis using hop_http [OF e(2), of ts dv status msg] by (simp add: s e(1) n)
qed

lemma validation_crosses_as_500:
  "hop ts dv (ValidationException ((field, d # ds) # es)) = Inl (HttpExc 500 (JObj [(''code'', JNum 400001), (''message'', JStr d)]) d)"
  by (simp add: hop_def on_error_def handleRpcErrorPayload_def first_element_def exception_for_status_True hop_status_def)

lemma wrapped_payload_swallowed:
  "on_error dv (CaughtValue (JObj [(''error'', envelope c m es t), (''message'', JStr x)])) = Inr (fallback dv)"
  "\<exists>status response msg. handler_handleRpcError to_text (CaughtValue (JObj [(''error'', envelope (JNum c') m es t), (''message'', JStr x)])) = HttpExc status response msg \<and> status = hop_status c'"
  by (auto simp: on_error_def client_isRpcErrorPayload_def isRpcErrorResponse_def handler_handleRpcError_def extractRpcPayload_def
    isRpcErrorPayload_def Let_def httpExceptionFor_def new_exception_def new_HttpException_def hop_status_def envelope_def)

lemma legacy_statusCode_crosses_as_500:
  "on_error dv (CaughtValue (JObj [(''statusCode'', JNum 404), (''message'', JStr m)])) =
     Inl (HttpExc 500 (JObj [(''message'', JStr m), (''error'', JStr ''Internal Server Error''), (''statusCode'', JNum 500)]) m)"
  by (simp add: on_error_def client_isRpcErrorPayload_def isRpcErrorResponse_def client_handleRpcError_def exception_for_status_def new_exception_def)

section \<open>The cache\<close>

text \<open>Payloads that mean the same: objects are compared key by key, whatever the order of their keys, and an
  undefined property is as good as none.\<close>

definition present :: "(string \<times> jvalue) list \<Rightarrow> string \<Rightarrow> jvalue option" where
  "present ob k = (case map_of ob k of Some v \<Rightarrow> (if v = JUndef then None else Some v) | None \<Rightarrow> None)"

inductive same_json :: "jvalue \<Rightarrow> jvalue \<Rightarrow> bool" where
  same_refl: "same_json v v"
| same_arr: "list_all2 same_json xs ys \<Longrightarrow> same_json (JArr xs) (JArr ys)"
| same_obj: "distinct (map fst a) \<Longrightarrow> distinct (map fst b) \<Longrightarrow> (\<And>k. rel_option same_json (present a k) (present b k)) \<Longrightarrow> same_json (JObj a) (JObj b)"

abbreviation normal_entries :: "(string \<times> jvalue) list \<Rightarrow> (string \<times> jvalue) list" where
  "normal_entries ob \<equiv> map (\<lambda>(k, v). (k, normalizePayload v)) (filter (\<lambda>(k, v). v \<noteq> JUndef) (sort_key fst ob))"

lemma normal_entries_keys:
  assumes "distinct (map fst ob)"
  shows "sorted (map fst (normal_entries ob)) \<and> distinct (map fst (normal_entries ob))"
proof -
  have e: "map fst (normal_entries ob) = map fst (filter (\<lambda>(k, v). v \<noteq> JUndef) (sort_key fst ob))"
    by (simp add: comp_def case_prod_beta)
  have "distinct (map fst (sort_key fst ob))" using assms by (simp add: distinct_map)
  then have "distinct (map fst (filter (\<lambda>(k, v). v \<noteq> JUndef) (sort_key fst ob)))" by (rule distinct_map_filter)
  moreover have "sorted (map fst (filter (\<lambda>(k, v). v \<noteq> JUndef) (sort_key fst ob)))" by (rule sorted_filter) simp
  ultimately show ?thesis unfolding e by blast
qed

lemma normal_entries_mem:
  assumes "distinct (map fst ob)"
  shows "(k, w) \<in> set (normal_entries ob) \<longleftrightarrow> map_option normalizePayload (present ob k) = Some w"
proof
  assume "(k, w) \<in> set (normal_entries ob)"
  then obtain v where v: "(k, v) \<in> set ob" "v \<noteq> JUndef" "w = normalizePayload v"
    unfolding set_map set_filter set_sort by auto
  then have "map_of ob k = Some v" using assms by simp
  then show "map_option normalizePayload (present ob k) = Some w" using v by (simp add: present_def)
next
  assume "map_option normalizePayload (present ob k) = Some w"
  then obtain v where v: "map_of ob k = Some v" "v \<noteq> JUndef" "w = normalizePayload v"
    by (auto simp: present_def split: option.splits if_splits)
  then have "(k, v) \<in> set (filter (\<lambda>(k, v). v \<noteq> JUndef) (sort_key fst ob))" using map_of_SomeD [OF v(1)] by simp
  then show "(k, w) \<in> set (normal_entries ob)" unfolding set_map v(3) by (rule rev_image_eqI) simp
qed

lemma normal_entries_eq:
  assumes "distinct (map fst a)" and "distinct (map fst b)"
    and "\<And>k. map_option normalizePayload (present a k) = map_option normalizePayload (present b k)"
  shows "normal_entries a = normal_entries b"
proof -
  have s: "set (normal_entries a) = set (normal_entries b)"
  proof (rule set_eqI)
    fix e :: "string \<times> jvalue"
    obtain k w where "e = (k, w)" by fastforce
    then show "e \<in> set (normal_entries a) \<longleftrightarrow> e \<in> set (normal_entries b)"
      using normal_entries_mem [OF assms(1), of k w] normal_entries_mem [OF assms(2), of k w] assms(3) [of k] by simp
  qed
  have "inj_on fst (set (normal_entries a) \<union> set (normal_entries b))"
    using normal_entries_keys [OF assms(1)] unfolding s [symmetric] Un_absorb distinct_map by blast
  then show ?thesis
    using map_sorted_distinct_set_unique [of fst "normal_entries a" "normal_entries b"] normal_entries_keys [OF assms(1)] normal_entries_keys [OF assms(2)] s
    by blast
qed

lemma same_normal: "same_json p q \<Longrightarrow> normalizePayload p = normalizePayload q"
proof (induction rule: same_json.induct)
  case (same_arr xs ys)
  then have "map normalizePayload xs = map normalizePayload ys" by (induction rule: list_all2_induct) auto
  then show ?case by simp
next
  case (same_obj a b)
  have "map_option normalizePayload (present a k) = map_option normalizePayload (present b k)" for k
    using same_obj.IH [of k] by (cases "present a k"; cases "present b k") auto
  then show ?case using normal_entries_eq [OF same_obj.hyps(1,2)] by simp
qed simp

text \<open>the cache answers for the service. A call whose caching is on and that returns a value is remembered: for its
  lifetime every call of the same command with a payload that means the same returns that value whatever the
  service would do now, and nothing else that is cached is affected. Errors, timeouts and empty results are
  never remembered.\<close>

theorem rpc_cache_serves:
  assumes "cache_up env" and "cacheOptions = \<lparr>co_enabled = True, co_ttl = ttl, co_keyPrefix = pre\<rparr>"
    and "c (generateCacheKey env cmd payload pre) = None"
    and "sendWithContext env call cmd payload dv (Some cacheOptions) c = (r, c')"
  shows "(\<forall>v. call = Emitted v \<and> \<not> nullish v \<and> of_json env (to_json env v) = Some v \<longrightarrow> r = Inr v
            \<and> (\<forall>t payload' call' dv'. t < rpc_clock env + (case ttl of None \<Rightarrow> 300 | Some n \<Rightarrow> n) \<and> same_json payload payload' \<longrightarrow>
                sendWithContext (env\<lparr>rpc_clock := t\<rparr>) call' cmd payload' dv' (Some cacheOptions) c' = (Inr v, c')))
     \<and> (\<forall>e. call = Rejected e \<longrightarrow> r = on_error dv e \<and> c' = c)
     \<and> (call = Emitted JNull \<longrightarrow> r = Inr JNull \<and> c' = c)
     \<and> (\<forall>k. k \<noteq> generateCacheKey env cmd payload pre \<longrightarrow> c' k = c k)"
proof (intro conjI allI impI; (elim conjE)?)
  let ?key = "generateCacheKey env cmd payload pre"
  have miss: "rpc_cache_get env ?key c = None" using assms(3) by (simp add: rpc_cache_get_def)
  note run = assms(4) [unfolded sendWithContext_def assms(2) Let_def, simplified miss, simplified]
  fix v assume v: "call = Emitted v" "\<not> nullish v" "of_json env (to_json env v) = Some v"
  show "r = Inr v" using run v miss by (auto split: if_splits)
next
  let ?key = "generateCacheKey env cmd payload pre"
  fix v t payload' call' dv'
  assume v: "call = Emitted v" "\<not> nullish v" "of_json env (to_json env v) = Some v" and t: "t < rpc_clock env + (case ttl of None \<Rightarrow> 300 | Some n \<Rightarrow> n)" and s: "same_json payload payload'"
  have miss: "rpc_cache_get env ?key c = None" using assms(3) by (simp add: rpc_cache_get_def)
  have c': "c' = c(?key \<mapsto> (to_json env v, rpc_clock env + (case ttl of None \<Rightarrow> 300 | Some n \<Rightarrow> n)))"
    using assms(4) v miss assms(1) by (auto simp: sendWithContext_def assms(2) rpc_cache_set_def split: option.splits)
  have "generateCacheKey (env\<lparr>rpc_clock := t\<rparr>) cmd payload' pre = ?key" using same_normal [OF s] by (simp add: generateCacheKey_def)
  then have "rpc_cache_get (env\<lparr>rpc_clock := t\<rparr>) (generateCacheKey (env\<lparr>rpc_clock := t\<rparr>) cmd payload' pre) c' = Some v"
    using c' t assms(1) v(3) by (simp add: rpc_cache_get_def)
  then show "sendWithContext (env\<lparr>rpc_clock := t\<rparr>) call' cmd payload' dv' (Some cacheOptions) c' = (Inr v, c')"
    by (simp add: sendWithContext_def assms(2))
next
  have miss: "rpc_cache_get env (generateCacheKey env cmd payload pre) c = None" using assms(3) by (simp add: rpc_cache_get_def)
  show "r = on_error dv e" "c' = c" if "call = Rejected e" for e using assms(4) that miss by (auto simp: sendWithContext_def assms(2))
  show "r = Inr JNull" "c' = c" if "call = Emitted JNull" using assms(4) that miss by (auto simp: sendWithContext_def assms(2) nullish_def)
  show "c' k = c k" if "k \<noteq> generateCacheKey env cmd payload pre" for k
    using assms(4) that miss by (auto simp: sendWithContext_def assms(2) rpc_cache_set_def Let_def split: outcome.splits if_splits)
qed

section \<open>The trace of a chain of calls\<close>

text \<open>The contexts along a chain: the first is built from an HTTP request, every other from the context its handler
  received; \<open>spans\<close> are the generated ids.\<close>

fun call_chain :: "(string \<Rightarrow> header option) \<Rightarrow> call_trace option \<Rightarrow> (string option \<times> string list option) \<Rightarrow> string list \<Rightarrow> call_trace list" where
  "call_chain headers inbound session [] = []"
| "call_chain headers inbound session (span # spans) =
     (let t = snd (createCallContext headers inbound session span) in t # call_chain (\<lambda>_. None) (Some t) (None, None) spans)"

text \<open>What links a chain whose caller had the ids \<open>c\<close> and \<open>i\<close> and the span \<open>s\<close>.\<close>

definition linked :: "string \<Rightarrow> string \<Rightarrow> string option \<Rightarrow> string list \<Rightarrow> call_trace list \<Rightarrow> bool" where
  "linked c i s spans ts \<longleftrightarrow> map correlation_id ts = replicate (length spans) c \<and> map trace_id ts = replicate (length spans) i
     \<and> map span_id ts = spans \<and> map parent_span_id ts = take (length spans) (s # map Some spans)"

lemma chain_inbound: "linked (correlation_id t) (trace_id t) (Some (span_id t)) spans (call_chain (\<lambda>_. None) (Some t) session spans)"
proof (induction spans arbitrary: t session)
  case (Cons s spans)
  let ?t = "snd (createCallContext (\<lambda>_. None) (Some t) session s)"
  have "correlation_id ?t = correlation_id t" "trace_id ?t = trace_id t" "span_id ?t = s" "parent_span_id ?t = Some (span_id t)"
    by (simp_all add: createCallContext_def or_NA_def asString_def)
  then show ?case using Cons.IH [of ?t "(None, None)"] by (simp add: Let_def linked_def)
qed (simp add: linked_def)

text \<open>one trace across services. In a chain of calls that starts with an HTTP request, every message carries the
  correlation and trace ids of the request (\<open>N/A\<close> for an absent one), its own span, and as its parent the
  span of the call before it, the first one that of the request.\<close>

theorem trace_chain:
  "linked (or_NA (asString (headers ''x-correlation-id'')) None) (or_NA (asString (headers ''x-trace-id'')) None)
     (asString (headers ''x-span-id'')) spans (call_chain headers None session spans)"
proof (cases spans)
  case (Cons s rest)
  let ?t = "snd (createCallContext headers None session s)"
  have "correlation_id ?t = or_NA (asString (headers ''x-correlation-id'')) None" "trace_id ?t = or_NA (asString (headers ''x-trace-id'')) None"
    "span_id ?t = s" "parent_span_id ?t = asString (headers ''x-span-id'')"
    by (simp_all add: createCallContext_def split: option.split)
  then show ?thesis using chain_inbound [of ?t rest "(None, None)"] by (simp add: Cons Let_def linked_def)
qed (simp add: linked_def)

section \<open>Examples\<close>


text \<open>JSON of numbers, to have an instance of the parameters.\<close>

definition sample_env :: rpc_env where
  "sample_env = \<lparr>digest24 = id, to_json = (\<lambda>v. case v of JNum n \<Rightarrow> show_nat (nat n) | _ \<Rightarrow> ''null''),
     of_json = (\<lambda>s. Some (if s = ''null'' then JNull else JNum (int (digits_val s)))), cache_up = True, rpc_clock = 0\<rparr>"

theorem rpc_cache_serves_witness:
  "\<exists>c'. sendWithContext sample_env (Emitted (JNum 7)) ''stock.count'' (JObj [(''id'', JNum 1), (''warehouse'', JUndef)]) JNull
        (Some \<lparr>co_enabled = True, co_ttl = None, co_keyPrefix = None\<rparr>) (\<lambda>_. None) = (Inr (JNum 7), c')
     \<and> sendWithContext (sample_env\<lparr>rpc_clock := 299\<rparr>) (Rejected Timeout) ''stock.count'' (JObj [(''id'', JNum 1)]) JNull
        (Some \<lparr>co_enabled = True, co_ttl = None, co_keyPrefix = None\<rparr>) c' = (Inr (JNum 7), c')"
proof -
  let ?co = "\<lparr>co_enabled = True, co_ttl = None, co_keyPrefix = None\<rparr>" and ?p = "JObj [(''id'', JNum 1), (''warehouse'', JUndef)]"
  obtain r c' where run: "sendWithContext sample_env (Emitted (JNum 7)) ''stock.count'' ?p JNull (Some ?co) (\<lambda>_. None) = (r, c')" by fastforce
  have up: "cache_up sample_env" by (simp add: sample_env_def)
  have js: "of_json sample_env (to_json sample_env (JNum 7)) = Some (JNum 7)" by (simp add: sample_env_def) code_simp
  have same: "same_json ?p (JObj [(''id'', JNum 1)])"
    by (rule same_obj) (auto simp: present_def intro: same_refl)
  have clk: "rpc_clock sample_env = 0" by (simp add: sample_env_def)
  note all = rpc_cache_serves [OF up refl refl run]
  have "r = Inr (JNum 7)" using all js by (simp add: nullish_def)
  moreover have "sendWithContext (sample_env\<lparr>rpc_clock := 299\<rparr>) (Rejected Timeout) ''stock.count'' (JObj [(''id'', JNum 1)]) JNull (Some ?co) c' = (Inr (JNum 7), c')"
    using all js same clk by (simp add: nullish_def)
  ultimately show ?thesis using run by blast
qed

end
