(* ===== verification/Identity_Admin.thy ===== *)
theory Identity_Admin
  imports Auth_Service Rpc_Transport "HOL-Library.Multiset"
begin

text \<open>
  The administration of identities: \<open>users.service.ts\<close>, \<open>roles.service.ts\<close> and \<open>policies.service.ts\<close> of
  \<open>apps/iam/src/modules\<close>, each on top of the generic CRUD service, with the push of permission changes into live
  sessions and the credential calls to the authentication service. The join tables are saved by the ORM, which
  inserts missing pairs and removes superfluous ones in one transaction; the audit entries are saved after that,
  outside of it. Constraints of the database and generated keys are parameters. The controllers only soft-delete.
  Messages in Thai are rendered in English.
\<close>

section \<open>Temporary passwords\<close>

definition UPPER :: string where "UPPER = ''ABCDEFGHJKLMNPQRSTUVWXYZ''"
definition LOWER :: string where "LOWER = ''abcdefghijkmnpqrstuvwxyz''"
definition DIGITS :: string where "DIGITS = ''23456789''"
definition SYMBOLS :: string where "SYMBOLS = ''!@#$%^&*''"
definition ALL_CHARS :: string where "ALL_CHARS = UPPER @ LOWER @ DIGITS @ SYMBOLS"

text \<open>\<open>rnd k n\<close> is the value of the \<open>k\<close>-th call of \<open>randomInt(n)\<close>.\<close>

definition pick :: "(nat \<Rightarrow> nat \<Rightarrow> nat) \<Rightarrow> nat \<Rightarrow> string \<Rightarrow> char" where
  "pick rnd k charset = charset ! rnd k (length charset)"

definition swap :: "nat \<Rightarrow> nat \<Rightarrow> 'a list \<Rightarrow> 'a list" where
  "swap i j xs = xs[i := xs ! j, j := xs ! i]"

text \<open>The loop from \<open>i\<close> down to 1; \<open>k\<close> is the index of the next random call.\<close>

fun shuffle_from :: "(nat \<Rightarrow> nat \<Rightarrow> nat) \<Rightarrow> nat \<Rightarrow> nat \<Rightarrow> 'a list \<Rightarrow> 'a list" where
  "shuffle_from rnd k 0 chars = chars"
| "shuffle_from rnd k (Suc i) chars = shuffle_from rnd (k + 1) i (swap (Suc i) (rnd k (Suc i + 1)) chars)"

definition generateTempPassword :: "(nat \<Rightarrow> nat \<Rightarrow> nat) \<Rightarrow> nat \<Rightarrow> string" where
  "generateTempPassword rnd len =
     (let required = [pick rnd 0 UPPER, pick rnd 1 LOWER, pick rnd 2 DIGITS, pick rnd 3 SYMBOLS];
          chars = required @ map (\<lambda>k. pick rnd (4 + k) ALL_CHARS) [0..<len - 4]
      in shuffle_from rnd (4 + (len - 4)) (length chars - 1) chars)"

section \<open>Links and their audit\<close>

datatype audit_action = Attached | Detached

record audit_entry =
  au_owner :: string
  au_other :: string
  au_action :: audit_action
  au_by :: "string option"

record admin_env =
  link_chk :: "(string \<times> string) list \<Rightarrow> string \<times> string \<Rightarrow> driver_error option"
  audit_chk :: "audit_entry list \<Rightarrow> driver_error option"
  user_chk :: "user list \<Rightarrow> user \<Rightarrow> driver_error option"
  statement_chk :: "policy_statement list \<Rightarrow> policy_statement \<Rightarrow> driver_error option"
  target_chk :: "statement_target list \<Rightarrow> statement_target \<Rightarrow> driver_error option"
  action_chk :: "statement_action list \<Rightarrow> statement_action \<Rightarrow> driver_error option"
  condition_chk :: "statement_condition list \<Rightarrow> statement_condition \<Rightarrow> driver_error option"

record admin_state =
  adm_db :: iam_db
  adm_store :: redis
  user_role_audit :: "audit_entry list"
  role_policy_audit :: "audit_entry list"

fun insert_links ::
    "((string \<times> string) list \<Rightarrow> string \<times> string \<Rightarrow> driver_error option) \<Rightarrow> string \<Rightarrow> string list \<Rightarrow> (string \<times> string) list
      \<Rightarrow> (string \<times> string) list result" where
  "insert_links chk owner [] links = Inr links"
| "insert_links chk owner (i # ids) links =
     (case chk links (owner, i) of
        Some e \<Rightarrow> Inl (QueryFailedError e)
      | None \<Rightarrow> insert_links chk owner ids (links @ [(owner, i)]))"

text \<open>\<open>save\<close> of an owner whose relation was assigned \<open>mapRelations(ids)\<close>.\<close>

definition save_relation ::
    "((string \<times> string) list \<Rightarrow> string \<times> string \<Rightarrow> driver_error option) \<Rightarrow> string \<Rightarrow> string list \<Rightarrow> (string \<times> string) list
      \<Rightarrow> (string \<times> string) list result" where
  "save_relation chk owner ids links =
     (case insert_links chk owner (filter (\<lambda>i. (owner, i) \<notin> set links) ids) links of
        Inl e \<Rightarrow> Inl e
      | Inr links' \<Rightarrow> Inr (filter (\<lambda>(x, i). x = owner \<longrightarrow> i \<in> set ids) links'))"

definition audit_entries :: "string \<Rightarrow> string list \<Rightarrow> string list \<Rightarrow> string option \<Rightarrow> audit_entry list" where
  "audit_entries owner previousIds ids currentUserId =
     (let attached = filter (\<lambda>i. i \<notin> set previousIds) ids; detached = filter (\<lambda>i. i \<notin> set ids) previousIds
      in map (\<lambda>i. \<lparr>au_owner = owner, au_other = i, au_action = Attached, au_by = currentUserId\<rparr>) attached
       @ map (\<lambda>i. \<lparr>au_owner = owner, au_other = i, au_action = Detached, au_by = currentUserId\<rparr>) detached)"

text \<open>The body of both relation updates after the owner was found.\<close>

definition replace_relation ::
    "admin_env \<Rightarrow> string \<Rightarrow> string \<Rightarrow> string list \<Rightarrow> string list \<Rightarrow> string option \<Rightarrow> (string \<times> string) list \<Rightarrow> audit_entry list
      \<Rightarrow> (string \<times> string) list \<times> audit_entry list \<times> unit result" where
  "replace_relation env tableName owner previousIds ids currentUserId links log =
     (case save_relation (link_chk env) owner ids links of
        Inl e \<Rightarrow> (links, log, executeDbOperation tableName (Inl e))
      | Inr links' \<Rightarrow>
          (let entries = audit_entries owner previousIds ids currentUserId in
           if entries = [] then (links', log, Inr ())
           else case audit_chk env entries of
                  Some e \<Rightarrow> (links', log, executeDbOperation tableName (Inl (QueryFailedError e)))
                | None \<Rightarrow> (links', log @ entries, Inr ())))"

definition assignRoles ::
    "admin_env \<Rightarrow> string \<Rightarrow> string \<Rightarrow> string list \<Rightarrow> string option \<Rightarrow> admin_state \<Rightarrow> admin_state \<times> unit result" where
  "assignRoles env today userId roleIds currentUserId s =
     (let db = adm_db s in
      case repo_findOne (\<lambda>u. eid u = userId) (users_table db) of
        None \<Rightarrow> (s, executeDbOperation ''users'' (Inl (NotFoundException (''User '' @ userId @ '' not found''))))
      | Some user \<Rightarrow>
          (let previousIds = js_set (map eid (load_relation (users_roles db) userId (roles_table db)));
               (links, log, r) = replace_relation env ''users'' userId previousIds roleIds currentUserId (users_roles db) (user_role_audit s);
               s1 = s\<lparr>adm_db := db\<lparr>users_roles := links\<rparr>, user_role_audit := log\<rparr>
           in case r of
                Inl e \<Rightarrow> (s1, Inl e)
              | Inr _ \<Rightarrow> (s1\<lparr>adm_store := syncUser (adm_db s1) today userId (adm_store s1)\<rparr>, Inr ())))"

definition findRoleIds :: "iam_db \<Rightarrow> string \<Rightarrow> string list" where
  "findRoleIds db userId =
     (case repo_findOne (\<lambda>u. eid u = userId) (users_table db) of
        None \<Rightarrow> [] | Some user \<Rightarrow> map eid (load_relation (users_roles db) userId (roles_table db)))"

definition roles_attachPolicies ::
    "admin_env \<Rightarrow> string \<Rightarrow> string \<Rightarrow> string list \<Rightarrow> string option \<Rightarrow> admin_state \<Rightarrow> admin_state \<times> unit result" where
  "roles_attachPolicies env today roleId policyIds currentUserId s =
     (let db = adm_db s in
      case repo_findOne (\<lambda>r. eid r = roleId) (roles_table db) of
        None \<Rightarrow> (s, executeDbOperation ''roles'' (Inl (NotFoundException (''Role '' @ roleId @ '' not found''))))
      | Some role \<Rightarrow>
          (let previousIds = js_set (map eid (load_relation (roles_policies db) roleId (policies_table db)));
               (links, log, r) = replace_relation env ''roles'' roleId previousIds policyIds currentUserId (roles_policies db) (role_policy_audit s);
               s1 = s\<lparr>adm_db := db\<lparr>roles_policies := links\<rparr>, role_policy_audit := log\<rparr>
           in case r of
                Inl e \<Rightarrow> (s1, Inl e)
              | Inr _ \<Rightarrow> (s1\<lparr>adm_store := syncUsersByRole (adm_db s1) today roleId (adm_store s1)\<rparr>, Inr ())))"

definition roles_findPolicyIds :: "iam_db \<Rightarrow> string \<Rightarrow> string list" where
  "roles_findPolicyIds db roleId =
     (case repo_findOne (\<lambda>r. eid r = roleId) (roles_table db) of
        None \<Rightarrow> [] | Some role \<Rightarrow> map eid (load_relation (roles_policies db) roleId (policies_table db)))"

section \<open>Deleting roles and policies\<close>

definition role_delete :: "nat \<Rightarrow> string \<Rightarrow> actor \<Rightarrow> admin_state \<Rightarrow> admin_state result" where
  "role_delete now i user s =
     (let db = adm_db s in
      if filter (\<lambda>(u, r). r = i) (users_roles db) \<noteq> []
      then Inl (ConflictException ''This role cannot be deleted: users are attached to it.'')
      else case base_delete ''roles'' now i True user (roles_table db) of
             Inl e \<Rightarrow> Inl e | Inr t \<Rightarrow> Inr (s\<lparr>adm_db := db\<lparr>roles_table := t\<rparr>\<rparr>))"

definition policy_delete :: "nat \<Rightarrow> string \<Rightarrow> actor \<Rightarrow> admin_state \<Rightarrow> admin_state result" where
  "policy_delete now i user s =
     (let db = adm_db s in
      if filter (\<lambda>(r, p). p = i) (roles_policies db) \<noteq> []
      then Inl (ConflictException ''This policy cannot be deleted: roles are attached to it.'')
      else case base_delete ''policies'' now i True user (policies_table db) of
             Inl e \<Rightarrow> Inl e | Inr t \<Rightarrow> Inr (s\<lparr>adm_db := db\<lparr>policies_table := t\<rparr>\<rparr>))"

section \<open>Statements\<close>

record condition_input =
  ci_operator :: condition_operator
  ci_key :: string
  ci_value :: string

text \<open>\<open>conditions\<close> may be left out of a request.\<close>

record statement_input =
  si_effect :: statement_effect
  si_plane :: plane
  si_service :: "string list"
  si_resource :: "string list"
  si_permission_ids :: "string list"
  si_conditions :: "condition_input list option"

definition delete_statements :: "string \<Rightarrow> iam_db \<Rightarrow> iam_db" where
  "delete_statements policyId db =
     (let gone = map eid (filter (\<lambda>s. policy_id s = policyId) (statements_table db)) in
      db\<lparr>statements_table := fst (repo_delete (\<lambda>s. policy_id s = policyId) (statements_table db)),
         targets_table := filter (\<lambda>t. tgt_statement_id t \<notin> set gone) (targets_table db),
         actions_table := filter (\<lambda>a. act_statement_id a \<notin> set gone) (actions_table db),
         conditions_table := filter (\<lambda>c. cond_statement_id c \<notin> set gone) (conditions_table db)\<rparr>)"

definition new_base :: "string \<Rightarrow> string option \<Rightarrow> base_entity" where
  "new_base i userId = \<lparr>eid = i, created_by = userId, updated_by = userId, is_deleted = False, deleted_reason = None, deleted_at = None, deleted_by = None\<rparr>"

definition new_statement :: "string \<Rightarrow> string option \<Rightarrow> string \<Rightarrow> statement_input \<Rightarrow> policy_statement" where
  "new_statement i userId policyId input =
     base_entity.extend (new_base i userId) (policy_statement.fields policyId (si_effect input) (si_plane input))"

definition new_target :: "string option \<Rightarrow> string \<Rightarrow> string \<times> string \<times> string \<Rightarrow> statement_target" where
  "new_target userId statement_id e = (case e of (i, service, resource) \<Rightarrow>
     base_entity.extend (new_base i userId) (statement_target.fields statement_id service resource))"

definition new_action :: "string option \<Rightarrow> string \<Rightarrow> string \<times> string \<Rightarrow> statement_action" where
  "new_action userId statement_id e = (case e of (i, permissionId) \<Rightarrow>
     base_entity.extend (new_base i userId) (statement_action.fields statement_id permissionId))"

definition new_condition :: "string option \<Rightarrow> string \<Rightarrow> string \<times> condition_input \<Rightarrow> statement_condition" where
  "new_condition userId statement_id e = (case e of (i, c) \<Rightarrow>
     base_entity.extend (new_base i userId) (statement_condition.fields statement_id (ci_operator c) (ci_key c) (ci_value c)))"

text \<open>The rows of an input with the generated keys \<open>gen n\<close>, \<open>gen (n + 1)\<close>, ...\<close>

definition keyed :: "(nat \<Rightarrow> string) \<Rightarrow> nat \<Rightarrow> 'a list \<Rightarrow> (string \<times> 'a) list" where
  "keyed gen n xs = zip (map gen [n..<n + length xs]) xs"

definition input_targets :: "statement_input \<Rightarrow> (string \<times> string) list" where
  "input_targets input = concat (map (\<lambda>service. map (\<lambda>resource. (service, resource)) (si_resource input)) (si_service input))"

definition add_statement ::
    "admin_env \<Rightarrow> (nat \<Rightarrow> string) \<Rightarrow> string \<Rightarrow> string option \<Rightarrow> statement_input \<Rightarrow> nat \<times> iam_db \<Rightarrow> (nat \<times> iam_db) result" where
  "add_statement env gen policyId userId input st =
     (case st of (n, db) \<Rightarrow>
      let stmt = new_statement (gen n) userId policyId input;
          targets = map (new_target userId (gen n)) (keyed gen (n + 1) (input_targets input));
          n1 = n + 1 + length (input_targets input);
          actions = map (new_action userId (gen n)) (keyed gen n1 (si_permission_ids input));
          n2 = n1 + length (si_permission_ids input)
      in case repo_save (statement_chk env) stmt (statements_table db) of Inl e \<Rightarrow> Inl e | Inr ts \<Rightarrow>
         (case repo_save_all (target_chk env) targets (targets_table db) of Inl e \<Rightarrow> Inl e | Inr tt \<Rightarrow>
         (case repo_save_all (action_chk env) actions (actions_table db) of Inl e \<Rightarrow> Inl e | Inr ta \<Rightarrow>
         (case si_conditions input of
            None \<Rightarrow> Inl (PlainError ''Cannot read properties of undefined (reading 'length')'')
          | Some cs \<Rightarrow>
             (case (if cs = [] then Inr (conditions_table db)
                    else repo_save_all (condition_chk env) (map (new_condition userId (gen n)) (keyed gen n2 cs)) (conditions_table db)) of
                Inl e \<Rightarrow> Inl e
              | Inr tc \<Rightarrow> Inr (n2 + length cs, db\<lparr>statements_table := ts, targets_table := tt, actions_table := ta, conditions_table := tc\<rparr>))))))"

fun add_statements ::
    "admin_env \<Rightarrow> (nat \<Rightarrow> string) \<Rightarrow> string \<Rightarrow> string option \<Rightarrow> statement_input list \<Rightarrow> nat \<times> iam_db \<Rightarrow> (nat \<times> iam_db) result" where
  "add_statements env gen policyId userId [] st = Inr st"
| "add_statements env gen policyId userId (input # inputs) st =
     (case add_statement env gen policyId userId input st of Inl e \<Rightarrow> Inl e | Inr st' \<Rightarrow> add_statements env gen policyId userId inputs st')"

definition setStatements ::
    "admin_env \<Rightarrow> (nat \<Rightarrow> string) \<Rightarrow> string \<Rightarrow> string \<Rightarrow> statement_input list \<Rightarrow> string option \<Rightarrow> admin_state \<Rightarrow> admin_state \<times> unit result" where
  "setStatements env gen today policyId statements userId s =
     (case executeDbOperation ''policies'' (add_statements env gen policyId userId statements (0, delete_statements policyId (adm_db s))) of
        Inl e \<Rightarrow> (s, Inl e)
      | Inr (n, db) \<Rightarrow> (s\<lparr>adm_db := db, adm_store := syncUsersByPolicy db today policyId (adm_store s)\<rparr>, Inr ()))"

record expanded_statement =
  es_id :: string
  es_effect :: statement_effect
  es_plane :: plane
  es_targets :: "(string \<times> string) list"
  es_permissions :: "string list"
  es_conditions :: "condition_input list"

definition expand_statement :: "iam_db \<Rightarrow> policy_statement \<Rightarrow> expanded_statement" where
  "expand_statement db statement =
     \<lparr>es_id = eid statement, es_effect = effect statement, es_plane = stmt_plane statement,
      es_targets = map (\<lambda>t. (tgt_service t, tgt_resource t)) (repo_find (\<lambda>t. tgt_statement_id t = eid statement) (targets_table db)),
      es_permissions = concat (map (\<lambda>a. map permission_string (repo_find (\<lambda>p. eid p = permission_id a) (permissions_table db)))
        (repo_find (\<lambda>a. act_statement_id a = eid statement) (actions_table db))),
      es_conditions = map (\<lambda>c. \<lparr>ci_operator = operator c, ci_key = condition_key c, ci_value = condition_value c\<rparr>)
        (repo_find (\<lambda>c. cond_statement_id c = eid statement) (conditions_table db))\<rparr>"

definition getStatements :: "string \<Rightarrow> iam_db \<Rightarrow> expanded_statement list" where
  "getStatements policyId db = map (expand_statement db) (repo_find (\<lambda>s. policy_id s = policyId) (statements_table db))"

section \<open>Users and their credentials\<close>

definition credential_payload :: "string \<Rightarrow> string \<Rightarrow> string \<Rightarrow> string \<Rightarrow> string option \<Rightarrow> jvalue" where
  "credential_payload userId uname password who_key who =
     JObj [(''user_id'', JStr userId), (''username'', JStr uname), (''password'', JStr password), (who_key, str_opt who)]"

text \<open>A call to the authentication service: \<open>handled\<close> is the new state of that service, or what its handler throws; \<open>wire\<close> gives
  what the framework hands to the caller for an exception.\<close>

definition call_auth ::
    "rpc_env \<Rightarrow> (exc \<Rightarrow> caught) \<Rightarrow> delivery \<Rightarrow> string \<Rightarrow> jvalue \<Rightarrow> auth_state result \<Rightarrow> auth_state \<Rightarrow> (exc + jvalue) \<times> auth_state" where
  "call_auth env wire delivery cmd payload handled a =
     call_service env delivery cmd payload JNull
       (case handled of Inl e \<Rightarrow> Rejected (wire (exc_of e)) | Inr _ \<Rightarrow> Emitted (JObj [(''success'', JBool True)]))
       a (case handled of Inl e \<Rightarrow> a | Inr x \<Rightarrow> x)"

definition truthy_success :: "jvalue \<Rightarrow> bool" where
  "truthy_success v \<longleftrightarrow> get_prop v ''success'' = JBool True"

record calling =
  c_rpc :: rpc_env
  c_wire :: "exc \<Rightarrow> caught"
  c_delivery :: delivery
  c_auth :: auth_env
  c_rnd :: randoms

definition users_create ::
    "admin_env \<Rightarrow> calling \<Rightarrow> string \<Rightarrow> (nat \<Rightarrow> nat \<Rightarrow> nat) \<Rightarrow> user \<Rightarrow> actor \<Rightarrow> admin_state \<times> auth_state \<Rightarrow> (admin_state \<times> auth_state) \<times> (exc + user \<times> string)" where
  "users_create env call new_id randomInt data currentUser st =
     (case st of (s, a) \<Rightarrow>
      (case base_create ''users'' (user_chk env) new_id data currentUser (users_table (adm_db s)) of
         Inl e \<Rightarrow> ((s, a), Inl (exc_of e))
       | Inr (t, user) \<Rightarrow>
           (let s1 = s\<lparr>adm_db := (adm_db s)\<lparr>users_table := t\<rparr>\<rparr>;
                tempPassword = generateTempPassword randomInt 12;
                createdBy = extractUserId currentUser;
                (result, a') = call_auth (c_rpc call) (c_wire call) (c_delivery call) ''auth.credentials.create-initial''
                  (credential_payload (eid user) (username user) tempPassword ''created_by'' createdBy)
                  (createInitialCredential (c_auth call) (c_rnd call) (eid user) (username user) tempPassword createdBy a) a
            in case result of
                 Inl e \<Rightarrow> ((s1, a'), Inl e)
               | Inr v \<Rightarrow> ((s1, a'), Inr (user, tempPassword)))))"

definition users_resetPassword ::
    "calling \<Rightarrow> (nat \<Rightarrow> nat \<Rightarrow> nat) \<Rightarrow> string \<Rightarrow> actor \<Rightarrow> admin_state \<times> auth_state \<Rightarrow> (admin_state \<times> auth_state) \<times> (exc + string)" where
  "users_resetPassword call randomInt userId currentUser st =
     (case st of (s, a) \<Rightarrow>
      (case base_findById ''users'' userId (users_table (adm_db s)) of
         Inl e \<Rightarrow> ((s, a), Inl (exc_of e))
       | Inr user \<Rightarrow>
           (let tempPassword = generateTempPassword randomInt 12;
                resetBy = extractUserId currentUser;
                (result, a') = call_auth (c_rpc call) (c_wire call) (c_delivery call) ''auth.credentials.reset-password''
                  (credential_payload (eid user) (username user) tempPassword ''reset_by'' resetBy)
                  (resetPassword (c_auth call) (c_rnd call) (eid user) (username user) tempPassword resetBy a) a
            in case result of
                 Inl e \<Rightarrow> ((s, a'), Inl e)
               | Inr v \<Rightarrow> if truthy_success v then ((s, a'), Inr tempPassword)
                   else ((s, a'), Inl (thrown_kind InternalServerError None ''Failed to reset password - please try again.'')))))"

section \<open>Temporary passwords are strong\<close>

lemma swap_mset: "i < length xs \<Longrightarrow> j < length xs \<Longrightarrow> mset (swap i j xs) = mset xs"
  unfolding swap_def by (rule mset_swap)

lemma shuffle_mset:
  assumes "\<And>k n. 0 < n \<Longrightarrow> rnd k n < n"
  shows "i < length xs \<Longrightarrow> mset (shuffle_from rnd k i xs) = mset xs"
proof (induction i arbitrary: k xs)
  case (Suc i)
  have j: "rnd k (Suc i + 1) < length xs" using assms [of "Suc i + 1" k] Suc.prems by simp
  have l: "i < length (swap (Suc i) (rnd k (Suc i + 1)) xs)" using Suc.prems by (simp add: swap_def)
  show ?case using Suc.IH [OF l, of "k + 1"] swap_mset [OF Suc.prems j] by simp
qed simp

lemma pick_mem: "(\<And>k n. 0 < n \<Longrightarrow> rnd k n < n) \<Longrightarrow> charset \<noteq> [] \<Longrightarrow> pick rnd k charset \<in> set charset"
  by (simp add: pick_def)

lemma password_mset:
  assumes "\<And>k n. 0 < n \<Longrightarrow> rnd k n < n"
  shows "mset (generateTempPassword rnd len) = mset ([pick rnd 0 UPPER, pick rnd 1 LOWER, pick rnd 2 DIGITS, pick rnd 3 SYMBOLS] @ map (\<lambda>k. pick rnd (4 + k) ALL_CHARS) [0..<len - 4])"
  unfolding generateTempPassword_def Let_def by (rule shuffle_mset [OF assms]) simp_all

lemma password_length: "(\<And>k n. 0 < n \<Longrightarrow> rnd k n < n) \<Longrightarrow> length (generateTempPassword rnd len) = max 4 len"
  using mset_eq_length [OF password_mset, of rnd len] by simp

text \<open>a temporary password has the asked length (at least four), contains a capital, a small letter, a
  digit and a symbol, and uses only characters that are easy to tell apart.\<close>

theorem temp_password_strong:
  assumes "\<And>k n. 0 < n \<Longrightarrow> rnd k n < n"
  shows "length (generateTempPassword rnd len) = max 4 len
    \<and> (\<exists>c \<in> set (generateTempPassword rnd len). c \<in> set UPPER) \<and> (\<exists>c \<in> set (generateTempPassword rnd len). c \<in> set LOWER)
    \<and> (\<exists>c \<in> set (generateTempPassword rnd len). c \<in> set DIGITS) \<and> (\<exists>c \<in> set (generateTempPassword rnd len). c \<in> set SYMBOLS)
    \<and> set (generateTempPassword rnd len) \<subseteq> set ALL_CHARS - set ''0O1lI''"
proof -
  let ?req = "[pick rnd 0 UPPER, pick rnd 1 LOWER, pick rnd 2 DIGITS, pick rnd 3 SYMBOLS]"
  let ?cs = "?req @ map (\<lambda>k. pick rnd (4 + k) ALL_CHARS) [0..<len - 4]"
  have e: "set (generateTempPassword rnd len) = set ?cs" using mset_eq_setD [OF password_mset [OF assms]] .
  have p: "pick rnd 0 UPPER \<in> set UPPER" "pick rnd 1 LOWER \<in> set LOWER" "pick rnd 2 DIGITS \<in> set DIGITS" "pick rnd 3 SYMBOLS \<in> set SYMBOLS"
    "\<And>k. pick rnd k ALL_CHARS \<in> set ALL_CHARS"
    by (rule pick_mem [OF assms]; simp add: UPPER_def LOWER_def DIGITS_def SYMBOLS_def ALL_CHARS_def)+
  have sub: "set UPPER \<subseteq> set ALL_CHARS" "set LOWER \<subseteq> set ALL_CHARS" "set DIGITS \<subseteq> set ALL_CHARS" "set SYMBOLS \<subseteq> set ALL_CHARS"
    by (auto simp: ALL_CHARS_def)
  have plain: "set ALL_CHARS \<inter> set ''0O1lI'' = {}" by (simp add: ALL_CHARS_def UPPER_def LOWER_def DIGITS_def SYMBOLS_def)
  have "set ?cs \<subseteq> set ALL_CHARS" using p sub by auto
  then show ?thesis using p plain password_length [OF assms] unfolding e by auto
qed

theorem temp_password_strong_witness:
  "length (generateTempPassword (\<lambda>k n. k mod n) 12) = 12 \<and> (\<exists>c \<in> set (generateTempPassword (\<lambda>k n. k mod n) 12). c \<in> set DIGITS)"
  using temp_password_strong [of "\<lambda>k n. k mod n" 12] by simp

section \<open>Replacing a relation\<close>

lemma insert_links_set: "insert_links chk owner ids links = Inr links' \<Longrightarrow> links' = links @ map (Pair owner) ids"
  by (induction chk owner ids links rule: insert_links.induct) (auto split: option.splits)

lemma save_relation_set:
  "save_relation chk owner ids links = Inr links' \<Longrightarrow> (x, i) \<in> set links' \<longleftrightarrow> (if x = owner then i \<in> set ids else (x, i) \<in> set links)"
  by (auto simp: save_relation_def split: sum.splits dest!: insert_links_set)

lemma audit_kinds:
  "au_other ` {e \<in> set (audit_entries owner prev ids w). au_action e = Attached} = set ids - set prev"
  "au_other ` {e \<in> set (audit_entries owner prev ids w). au_action e = Detached} = set prev - set ids"
proof -
  define mk where "mk k i = \<lparr>au_owner = owner, au_other = i, au_action = k, au_by = w\<rparr>" for k i
  have mk: "au_other (mk k i) = i" "au_action (mk k i) = k" for k i by (simp_all add: mk_def)
  have e: "audit_entries owner prev ids w = map (mk Attached) (filter (\<lambda>i. i \<notin> set prev) ids) @ map (mk Detached) (filter (\<lambda>i. i \<notin> set ids) prev)"
    by (simp add: audit_entries_def Let_def mk_def [abs_def])
  show "au_other ` {e \<in> set (audit_entries owner prev ids w). au_action e = Attached} = set ids - set prev"
    "au_other ` {e \<in> set (audit_entries owner prev ids w). au_action e = Detached} = set prev - set ids"
    unfolding e by (auto simp: mk intro!: rev_image_eqI)
qed

lemma replace_relation_ok:
  assumes "replace_relation env tn owner prev ids by' links log = (links', log', Inr ())"
  shows "(x, i) \<in> set links' \<longleftrightarrow> (if x = owner then i \<in> set ids else (x, i) \<in> set links)" and "log' = log @ audit_entries owner prev ids by'"
  using assms save_relation_set
  by (auto simp: replace_relation_def Let_def executeDbOperation_def map_driver_error_def split: sum.splits if_splits option.splits js_error.splits)

section \<open>Whose permissions a change can touch\<close>

definition user_roles :: "iam_db \<Rightarrow> string \<Rightarrow> role list" where
  "user_roles db u = repo_find (\<lambda>r. eid r \<in> set (user_roleIds db u)) (roles_table db)"

lemma resolve_parts:
  "resolveForUser db today u =
     \<lparr>res_roles = map role_code (user_roles db u), res_permissions = fst (computeAllowDenyConditional (user_statements db today u)),
      res_conditional = snd (computeAllowDenyConditional (user_statements db today u))\<rparr>"
proof -
  have "res_roles (resolveForUser db today u) = map role_code (user_roles db u)"
    by (auto simp: resolveForUser_def Let_def user_roles_def repo_find_def split: prod.splits)
  then show ?thesis by (simp add: resolveForUser_statements permission_resolution.equality)
qed

lemma resolve_eqI:
  assumes "user_roles db' u = user_roles db u" and "user_statements db' today u = user_statements db today u"
  shows "resolveForUser db' today u = resolveForUser db today u"
  by (simp add: resolve_parts assms)

lemma user_policyIds_roles: "user_policyIds db u = roles_policyIds db (user_roles db u)"
  by (simp add: user_policyIds_def user_roles_def)

lemma load_relation_cong:
  "(\<And>i. (x, i) \<in> set links' \<longleftrightarrow> (x, i) \<in> set links) \<Longrightarrow> load_relation links' x t = load_relation links x t"
  by (simp add: load_relation_def)

text \<open>Changing the roles of one user.\<close>

lemma resolve_other_user:
  assumes "\<And>x i. x \<noteq> userId \<Longrightarrow> (x, i) \<in> set links \<longleftrightarrow> (x, i) \<in> set (users_roles db)" and "u \<noteq> userId"
  shows "resolveForUser (db\<lparr>users_roles := links\<rparr>) today u = resolveForUser db today u"
proof -
  let ?db = "db\<lparr>users_roles := links\<rparr>"
  have l: "load_relation links u (roles_table db) = load_relation (users_roles db) u (roles_table db)"
    by (rule load_relation_cong) (rule assms(1) [OF assms(2)])
  have r: "user_roleIds ?db u = user_roleIds db u"
  proof (cases "repo_findOne (\<lambda>x. eid x = u) (users_table db)")
    case (Some x)
    then have "eid x = u" by (auto simp: repo_findOne_def dest: find_Some_iff_mem)
    then show ?thesis using l Some by (simp add: user_roleIds_def)
  qed (simp add: user_roleIds_def)
  then have ro: "user_roles ?db u = user_roles db u" by (simp add: user_roles_def)
  moreover have "user_statements ?db today u = user_statements db today u"
    by (simp add: user_statements_def full_view_def activePolicies_def user_policyIds_roles ro roles_policyIds_def)
  ultimately show ?thesis by (rule resolve_eqI)
qed

text \<open>Changing the policies of a role.\<close>

lemma resolve_without_role:
  assumes "\<And>x i. x \<noteq> roleId \<Longrightarrow> (x, i) \<in> set links \<longleftrightarrow> (x, i) \<in> set (roles_policies db)" and "roleId \<notin> set (user_roleIds db u)"
  shows "resolveForUser (db\<lparr>roles_policies := links\<rparr>) today u = resolveForUser db today u"
proof -
  let ?db = "db\<lparr>roles_policies := links\<rparr>"
  have ri: "user_roleIds ?db u = user_roleIds db u" by (simp add: user_roleIds_def split: option.split)
  then have ro: "user_roles ?db u = user_roles db u" by (simp add: user_roles_def)
  have "load_relation links (eid r) (policies_table db) = load_relation (roles_policies db) (eid r) (policies_table db)" if "r \<in> set (user_roles db u)" for r
  proof (rule load_relation_cong)
    have "eid r \<noteq> roleId" using that assms(2) by (auto simp: user_roles_def mem_repo_find)
    then show "(eid r, i) \<in> set links \<longleftrightarrow> (eid r, i) \<in> set (roles_policies db)" for i by (rule assms(1))
  qed
  then have "roles_policyIds ?db (user_roles db u) = roles_policyIds db (user_roles db u)"
    by (simp add: roles_policyIds_def cong: map_cong)
  then have "user_statements ?db today u = user_statements db today u"
    by (simp add: user_statements_def full_view_def activePolicies_def user_policyIds_roles ro)
  then show ?thesis by (rule resolve_eqI [OF ro])
qed

text \<open>Deleting a role or policy that nothing refers to.\<close>

lemma repo_find_other:
  assumes "\<And>r. eid r = i \<Longrightarrow> \<not> P r" and "\<And>r. eid (f r) = eid r"
  shows "repo_find P (fst (repo_update (\<lambda>r. eid r = i) f t)) = repo_find P t"
proof -
  have "\<not> P (f r)" if "eid r = i" for r using assms(1) [of "f r"] assms(2) [of r] that by simp
  then show ?thesis using assms(1) by (induction t) (auto simp: repo_find_def repo_update_def)
qed

lemma resolve_role_deleted:
  assumes "\<And>u. (u, i) \<notin> set (users_roles db)" and "\<And>r. eid (f r) = eid r"
  shows "resolveForUser (db\<lparr>roles_table := fst (repo_update (\<lambda>r. eid r = i) f (roles_table db))\<rparr>) today u = resolveForUser db today u"
proof -
  let ?db = "db\<lparr>roles_table := fst (repo_update (\<lambda>r. eid r = i) f (roles_table db))\<rparr>"
  have l: "load_relation (users_roles db) x (roles_table ?db) = load_relation (users_roles db) x (roles_table db)" for x
    unfolding load_relation_def using repo_find_other [of i "\<lambda>r. (x, eid r) \<in> set (users_roles db)" f] assms by simp
  have ri: "user_roleIds ?db u = user_roleIds db u" using l by (simp add: user_roleIds_def split: option.split)
  have "i \<notin> set (user_roleIds db u)" using assms(1) by (auto simp: mem_user_roleIds)
  then have ro: "user_roles ?db u = user_roles db u"
    unfolding user_roles_def ri using repo_find_other [of i "\<lambda>r. eid r \<in> set (user_roleIds db u)" f] assms(2) by auto
  have "user_statements ?db today u = user_statements db today u"
    by (simp add: user_statements_def full_view_def activePolicies_def user_policyIds_roles ro roles_policyIds_def)
  then show ?thesis by (rule resolve_eqI [OF ro])
qed

lemma resolve_policy_deleted:
  assumes "\<And>r. (r, i) \<notin> set (roles_policies db)" and "\<And>r. eid (f r) = eid r"
  shows "resolveForUser (db\<lparr>policies_table := fst (repo_update (\<lambda>r. eid r = i) f (policies_table db))\<rparr>) today u = resolveForUser db today u"
proof -
  let ?db = "db\<lparr>policies_table := fst (repo_update (\<lambda>r. eid r = i) f (policies_table db))\<rparr>"
  have l: "load_relation (roles_policies db) x (policies_table ?db) = load_relation (roles_policies db) x (policies_table db)" for x
    unfolding load_relation_def using repo_find_other [of i "\<lambda>r. (x, eid r) \<in> set (roles_policies db)" f] assms by simp
  have "user_roleIds ?db u = user_roleIds db u" by (simp add: user_roleIds_def split: option.split)
  then have ro: "user_roles ?db u = user_roles db u" by (simp add: user_roles_def)
  have pi: "user_policyIds ?db u = user_policyIds db u" using l by (simp add: user_policyIds_roles ro roles_policyIds_def)
  have "i \<notin> set (user_policyIds db u)" using assms(1) by (auto simp: mem_user_policyIds)
  then have "activePolicies ?db today (user_policyIds db u) = activePolicies db today (user_policyIds db u)"
    unfolding activePolicies_def using repo_find_other [of i "\<lambda>p. eid p \<in> set (user_policyIds db u) \<and> is_active p" f] assms(2) by auto
  then have "user_statements ?db today u = user_statements db today u"
    unfolding user_statements_def pi by (simp add: full_view_def)
  then show ?thesis by (rule resolve_eqI [OF ro])
qed

section \<open>Sessions stay current\<close>

text \<open>Every live session carries what the tables give its user.\<close>

definition current :: "iam_db \<Rightarrow> string \<Rightarrow> redis \<Rightarrow> bool" where
  "current db today r \<longleftrightarrow> (\<forall>j d. session_get j r = Some d \<and> 0 < session_ttl j r \<longrightarrow> merge_permissions (resolveForUser db today (sd_user_id d)) d = d)"

lemma syncUsers_ok: "sessions_ok r \<Longrightarrow> sessions_ok (syncUsers db today us r) \<and> session_ttl j (syncUsers db today us r) = session_ttl j r"
  by (induction us arbitrary: r) (simp_all add: syncUsers_def syncUser_view)

lemma current_synced:
  assumes "sessions_ok r" and "current db today r"
    and "\<And>u. u \<notin> set us \<Longrightarrow> resolveForUser db' today u = resolveForUser db today u"
  shows "sessions_ok (syncUsers db' today us r) \<and> current db' today (syncUsers db' today us r)"
proof (intro conjI)
  show "sessions_ok (syncUsers db' today us r)" using syncUsers_ok [OF assms(1)] by blast
  show "current db' today (syncUsers db' today us r)"
    unfolding current_def
  proof (intro allI impI; elim conjE)
    fix j d' assume d': "session_get j (syncUsers db' today us r) = Some d'" "0 < session_ttl j (syncUsers db' today us r)"
    then obtain d where d: "session_get j r = Some d" using syncUsers_view [OF assms(1), of j db' today us] by (auto split: option.splits)
    have t: "0 < session_ttl j r" using d'(2) syncUsers_ok [OF assms(1)] by simp
    then have "merge_permissions (resolveForUser db today (sd_user_id d)) d = d" using assms(2) d unfolding current_def by blast
    moreover have "d' = (if sd_user_id d \<in> set us then merge_permissions (resolveForUser db' today (sd_user_id d)) d else d)"
      using syncUsers_view [OF assms(1), of j db' today us] d d'(1) t by simp
    ultimately show "merge_permissions (resolveForUser db' today (sd_user_id d')) d' = d'" using assms(3) by auto
  qed
qed

lemma users_with_role_mem: "u \<in> eid ` set (users_with_role db ids) \<longleftrightarrow> (\<exists>i \<in> set ids. i \<in> set (user_roleIds db u))"
  unfolding users_with_role_def mem_user_roleIds by (auto simp: image_iff mem_repo_find mem_load_relation Bex_def)

lemma policy_users:
  "u \<in> eid ` set (users_with_role db (map eid (repo_find (\<lambda>ro. \<exists>p \<in> set (load_relation (roles_policies db) (eid ro) (policies_table db)). eid p = policyId)
       (roles_table db)))) \<longleftrightarrow> policyId \<in> set (user_policyIds db u)"
  unfolding users_with_role_mem mem_user_policyIds by (auto simp: mem_repo_find mem_load_relation Bex_def)

lemma syncUsersByPolicy_users:
  "\<exists>us. syncUsersByPolicy db today policyId r = syncUsers db today us r \<and> (\<forall>u. u \<in> set us \<longleftrightarrow> policyId \<in> set (user_policyIds db u))"
proof -
  let ?roles = "repo_find (\<lambda>ro. \<exists>p \<in> set (load_relation (roles_policies db) (eid ro) (policies_table db)). eid p = policyId) (roles_table db)"
  show ?thesis
  proof (cases "?roles = []")
    case True
    have "policyId \<notin> set (user_policyIds db u)" for u using policy_users [of u db policyId] unfolding True by (simp add: users_with_role_mem)
    then show ?thesis using True by (intro exI [of _ "[]"]) (simp add: syncUsersByPolicy_def syncUsers_def)
  next
    case False
    then show ?thesis using policy_users [of _ db policyId]
      by (intro exI [of _ "js_set (map eid (users_with_role db (map eid ?roles)))"]) (simp add: syncUsersByPolicy_def Let_def)
  qed
qed

text \<open>A push brings the sessions of the users it affects up to date and leaves the others; a change of the tables that cannot touch
  anybody else then keeps every session current. The three pushes of the session service are instances.\<close>

locale permission_push =
  fixes push :: "iam_db \<Rightarrow> string \<Rightarrow> redis \<Rightarrow> redis" and affected :: "iam_db \<Rightarrow> string set"
  assumes push_users: "\<exists>us. push db today r = syncUsers db today us r \<and> set us = affected db"
begin

lemma keeps_current:
  assumes "sessions_ok r" and "current db today r" and "\<And>u. u \<notin> affected db' \<Longrightarrow> resolveForUser db' today u = resolveForUser db today u"
  shows "sessions_ok (push db' today r) \<and> current db' today (push db' today r)"
proof -
  obtain us where us: "push db' today r = syncUsers db' today us r" "set us = affected db'" using push_users by blast
  show ?thesis unfolding us(1) by (rule current_synced [OF assms(1,2)]) (use assms(3) us(2) in simp)
qed

end

interpretation user_push: permission_push "\<lambda>db today r. syncUser db today userId r" "\<lambda>_. {userId}" for userId
proof
  show "\<exists>us. syncUser db today userId r = syncUsers db today us r \<and> set us = {userId}" for db today r
    by (intro exI [of _ "[userId]"]) (simp add: syncUsers_def)
qed

interpretation role_push: permission_push "\<lambda>db today r. syncUsersByRole db today roleId r" "\<lambda>db. {u. roleId \<in> set (user_roleIds db u)}" for roleId
proof
  have "eid ` set (users_with_role db [roleId]) = {u. roleId \<in> set (user_roleIds db u)}" for db
    using users_with_role_mem [of _ db "[roleId]"] by auto
  then show "\<exists>us. syncUsersByRole db today roleId r = syncUsers db today us r \<and> set us = {u. roleId \<in> set (user_roleIds db u)}" for db today r
    by (intro exI [of _ "map eid (users_with_role db [roleId])"]) (simp add: syncUsersByRole_def)
qed

interpretation policy_push: permission_push "\<lambda>db today r. syncUsersByPolicy db today policyId r" "\<lambda>db. {u. policyId \<in> set (user_policyIds db u)}" for policyId
proof
  show "\<exists>us. syncUsersByPolicy db today policyId r = syncUsers db today us r \<and> set us = {u. policyId \<in> set (user_policyIds db u)}" for db today r
    using syncUsersByPolicy_users [of db today policyId r] by blast
qed

section \<open>Replacing the statements of a policy\<close>

lemma keyed_simps [simp]:
  "map fst (keyed gen n xs) = map gen [n..<n + length xs]" "map snd (keyed gen n xs) = xs" "length (keyed gen n xs) = length xs"
  by (simp_all add: keyed_def)

lemma keyed_keys: "fst ` set (keyed gen n xs) = gen ` {n..<n + length xs}"
  unfolding set_map [symmetric] keyed_simps(1) by simp

lemma new_rows [simp]:
  "eid (new_statement i w p input) = i" "policy_id (new_statement i w p input) = p" "effect (new_statement i w p input) = si_effect input"
  "stmt_plane (new_statement i w p input) = si_plane input" "visible (new_statement i w p input)"
  "eid (new_target w sid e) = fst e" "tgt_statement_id (new_target w sid e) = sid" "(tgt_service (new_target w sid e), tgt_resource (new_target w sid e)) = snd e" "visible (new_target w sid e)"
  "eid (new_action w sid a) = fst a" "act_statement_id (new_action w sid a) = sid" "permission_id (new_action w sid a) = snd a" "visible (new_action w sid a)"
  "eid (new_condition w sid c) = fst c" "cond_statement_id (new_condition w sid c) = sid" "visible (new_condition w sid c)"
  "\<lparr>ci_operator = operator (new_condition w sid c), ci_key = condition_key (new_condition w sid c), ci_value = condition_value (new_condition w sid c)\<rparr> = snd c"
  by (auto simp: new_statement_def new_target_def new_action_def new_condition_def new_base_def visible_def base_entity.defs policy_statement.defs
      statement_target.defs statement_action.defs statement_condition.defs split: prod.splits)

text \<open>The keys still to be generated are used nowhere.\<close>

definition fresh_ids :: "(nat \<Rightarrow> string) \<Rightarrow> nat \<Rightarrow> iam_db \<Rightarrow> bool" where
  "fresh_ids gen n db \<longleftrightarrow> inj gen \<and> (\<forall>m \<ge> n. gen m \<notin> eid ` set (statements_table db) \<and> gen m \<notin> eid ` set (targets_table db)
     \<and> gen m \<notin> eid ` set (actions_table db) \<and> gen m \<notin> eid ` set (conditions_table db)
     \<and> gen m \<notin> tgt_statement_id ` set (targets_table db) \<and> gen m \<notin> act_statement_id ` set (actions_table db)
     \<and> gen m \<notin> cond_statement_id ` set (conditions_table db))"

abbreviation extended :: "iam_db \<Rightarrow> policy_statement list \<Rightarrow> statement_target list \<Rightarrow> statement_action list \<Rightarrow> statement_condition list \<Rightarrow> iam_db" where
  "extended db ss ts as cs \<equiv> db\<lparr>statements_table := statements_table db @ ss, targets_table := targets_table db @ ts,
     actions_table := actions_table db @ as, conditions_table := conditions_table db @ cs\<rparr>"

lemma keyed_fresh:
  assumes "inj gen" and "\<And>m. m \<ge> n \<Longrightarrow> gen m \<notin> eid ` set t" and "n \<le> k" and "\<And>e. eid (f e) = fst e"
  shows "distinct (map eid (map f (keyed gen k xs))) \<and> eid ` set (map f (keyed gen k xs)) \<inter> eid ` set t = {}"
proof -
  have "map eid (map f (keyed gen k xs)) = map gen [k..<k + length xs]"
    using assms(4) by (simp add: comp_def flip: keyed_simps(1))
  then have e: "eid ` set (map f (keyed gen k xs)) = gen ` {k..<k + length xs}" by (metis set_map set_upt)
  have d: "distinct (map eid (map f (keyed gen k xs)))"
    unfolding \<open>map eid (map f (keyed gen k xs)) = _\<close> using assms(1) by (simp add: distinct_map inj_on_def inj_def)
  have "gen m \<notin> eid ` set t" if "m \<in> {k..<k + length xs}" for m by (rule assms(2)) (use assms(3) that in simp)
  then have "gen ` {k..<k + length xs} \<inter> eid ` set t = {}" by blast
  then show ?thesis using d unfolding e by blast
qed

lemma add_statement_ok:
  assumes "add_statement env gen p w input (n, db) = Inr (n', db')" and "fresh_ids gen n db"
  shows "\<exists>cs. si_conditions input = Some cs \<and> n' = n + 1 + length (input_targets input) + length (si_permission_ids input) + length cs
    \<and> db' = extended db [new_statement (gen n) w p input] (map (new_target w (gen n)) (keyed gen (n + 1) (input_targets input)))
        (map (new_action w (gen n)) (keyed gen (n + 1 + length (input_targets input)) (si_permission_ids input)))
        (map (new_condition w (gen n)) (keyed gen (n + 1 + length (input_targets input) + length (si_permission_ids input)) cs))"
proof -
  let ?n1 = "n + 1 + length (input_targets input)"
  let ?n2 = "?n1 + length (si_permission_ids input)"
  let ?ts = "map (new_target w (gen n)) (keyed gen (n + 1) (input_targets input))" and ?as = "map (new_action w (gen n)) (keyed gen ?n1 (si_permission_ids input))"
  obtain ts tt ta tc cs where r: "repo_save (statement_chk env) (new_statement (gen n) w p input) (statements_table db) = Inr ts"
      "repo_save_all (target_chk env) ?ts (targets_table db) = Inr tt" "repo_save_all (action_chk env) ?as (actions_table db) = Inr ta"
      "si_conditions input = Some cs"
      "(if cs = [] then Inr (conditions_table db) else repo_save_all (condition_chk env) (map (new_condition w (gen n)) (keyed gen ?n2 cs)) (conditions_table db)) = Inr tc"
      "n' = ?n2 + length cs" "db' = db\<lparr>statements_table := ts, targets_table := tt, actions_table := ta, conditions_table := tc\<rparr>"
    using assms(1) unfolding add_statement_def Let_def prod.case by (auto split: sum.splits option.splits)
  have inj: "inj gen" and f: "\<And>m. m \<ge> n \<Longrightarrow> gen m \<notin> eid ` set (statements_table db)" "\<And>m. m \<ge> n \<Longrightarrow> gen m \<notin> eid ` set (targets_table db)"
    "\<And>m. m \<ge> n \<Longrightarrow> gen m \<notin> eid ` set (actions_table db)" "\<And>m. m \<ge> n \<Longrightarrow> gen m \<notin> eid ` set (conditions_table db)"
    using assms(2) by (auto simp: fresh_ids_def)
  have s: "ts = statements_table db @ [new_statement (gen n) w p input]"
    using r(1) f(1) [of n] by (auto simp: repo_save_def put_row_def split: option.splits)
  have t: "tt = targets_table db @ ?ts"
    using keyed_fresh [OF inj f(2), where k = "n + 1" and f = "new_target w (gen n)" and xs = "input_targets input"] by (intro repo_save_all_fresh [OF r(2)]) simp_all
  have a: "ta = actions_table db @ ?as"
    using keyed_fresh [OF inj f(3), where k = ?n1 and f = "new_action w (gen n)" and xs = "si_permission_ids input"] by (intro repo_save_all_fresh [OF r(3)]) simp_all
  have c: "tc = conditions_table db @ map (new_condition w (gen n)) (keyed gen ?n2 cs)"
  proof (cases "cs = []")
    case True
    then show ?thesis using r(5) by (simp add: keyed_def)
  next
    case False
    then have "repo_save_all (condition_chk env) (map (new_condition w (gen n)) (keyed gen ?n2 cs)) (conditions_table db) = Inr tc" using r(5) by simp
    then show ?thesis
      using keyed_fresh [OF inj f(4), where k = ?n2 and f = "new_condition w (gen n)" and xs = cs] by (intro repo_save_all_fresh) simp_all
  qed
  show ?thesis using r(4,6,7) s t a c by auto
qed

text \<open>Rows appended for one statement are invisible from every other.\<close>

lemma extended_other:
  assumes "\<forall>t \<in> set ts. tgt_statement_id t = sid" and "\<forall>a \<in> set as. act_statement_id a = sid" and "\<forall>c \<in> set cs. cond_statement_id c = sid"
    and "eid s \<noteq> sid"
  shows "expand_statement (extended db ss ts as cs) s = expand_statement db s" and "full_view (extended db ss ts as cs) s = full_view db s"
proof -
  have n: "filter (\<lambda>t. Q t \<and> tgt_statement_id t = eid s) ts = []" "filter (\<lambda>a. R a \<and> act_statement_id a = eid s) as = []"
    "filter (\<lambda>c. S c \<and> cond_statement_id c = eid s) cs = []" for Q R S
    using assms by (auto simp: filter_empty_conv)
  show "expand_statement (extended db ss ts as cs) s = expand_statement db s"
    by (simp add: expand_statement_def repo_find_def n)
  have e: "list_ex (\<lambda>c. cond_statement_id c = eid s) (filter visible cs) = False" using assms by (auto simp: list_ex_iff)
  have n': "filter (\<lambda>t. tgt_statement_id t = eid s \<and> Q t) ts = []" "filter (\<lambda>a. act_statement_id a = eid s \<and> R a) as = []"
    "filter (\<lambda>c. cond_statement_id c = eid s \<and> S c) cs = []" for Q R S
    using assms by (auto simp: filter_empty_conv)
  show "full_view (extended db ss ts as cs) s = full_view db s"
    by (simp add: full_view_def resolve_statement_def n n' e conj_commute map_filter_def)
qed

definition expected :: "iam_db \<Rightarrow> string \<Rightarrow> statement_input \<Rightarrow> expanded_statement" where
  "expected db i input =
     \<lparr>es_id = i, es_effect = si_effect input, es_plane = si_plane input, es_targets = input_targets input,
      es_permissions = concat (map (\<lambda>q. map permission_string (repo_find (\<lambda>p. eid p = q) (permissions_table db))) (si_permission_ids input)),
      es_conditions = (case si_conditions input of None \<Rightarrow> [] | Some cs \<Rightarrow> cs)\<rparr>"

lemma extended_new:
  assumes "sid \<notin> tgt_statement_id ` set (targets_table db)" and "sid \<notin> act_statement_id ` set (actions_table db)"
    and "sid \<notin> cond_statement_id ` set (conditions_table db)" and "si_conditions input = Some (map snd kc)"
    and "map snd kt = input_targets input" and "map snd ka = si_permission_ids input"
  shows "expand_statement (extended db ss (map (new_target w sid) kt) (map (new_action w sid) ka) (map (new_condition w sid) kc))
      (new_statement sid w p input) = expected db sid input"
proof -
  have o: "filter (\<lambda>t. visible t \<and> tgt_statement_id t = sid) (targets_table db) = []"
    "filter (\<lambda>a. visible a \<and> act_statement_id a = sid) (actions_table db) = []"
    "filter (\<lambda>c. visible c \<and> cond_statement_id c = sid) (conditions_table db) = []"
    using assms(1-3) unfolding filter_empty_conv by (metis imageI)+
  have n: "filter (\<lambda>t. visible t \<and> tgt_statement_id t = sid) (map (new_target w sid) kt) = map (new_target w sid) kt"
    "filter (\<lambda>a. visible a \<and> act_statement_id a = sid) (map (new_action w sid) ka) = map (new_action w sid) ka"
    "filter (\<lambda>c. visible c \<and> cond_statement_id c = sid) (map (new_condition w sid) kc) = map (new_condition w sid) kc"
    by (simp_all add: filter_id_conv)
  have t: "map (\<lambda>t. (tgt_service t, tgt_resource t)) (map (new_target w sid) kt) = input_targets input"
    unfolding assms(5) [symmetric] by simp
  have q: "map (\<lambda>a. F (permission_id a)) (map (new_action w sid) ka) = map F (si_permission_ids input)" for F :: "string \<Rightarrow> string list"
    unfolding assms(6) [symmetric] by simp
  have c: "map (\<lambda>c. \<lparr>ci_operator = operator c, ci_key = condition_key c, ci_value = condition_value c\<rparr>) (map (new_condition w sid) kc) = map snd kc"
    by simp
  let ?e = "extended db ss (map (new_target w sid) kt) (map (new_action w sid) ka) (map (new_condition w sid) kc)"
  have e: "targets_table ?e = targets_table db @ map (new_target w sid) kt" "actions_table ?e = actions_table db @ map (new_action w sid) ka"
    "conditions_table ?e = conditions_table db @ map (new_condition w sid) kc" "permissions_table ?e = permissions_table db" by simp_all
  show ?thesis
    unfolding expand_statement_def expected_def repo_find_def new_rows assms(4) option.case
    by (simp only: e filter_append o n append_Nil t q [of "\<lambda>i. map permission_string (filter (\<lambda>r. visible r \<and> eid r = i) (permissions_table db))"] c)
qed

lemma fresh_after:
  assumes "add_statement env gen p w input (n, db) = Inr (n', db')" and "fresh_ids gen n db"
  shows "fresh_ids gen n' db'"
proof -
  obtain cs where cs: "n' = n + 1 + length (input_targets input) + length (si_permission_ids input) + length cs"
    "db' = extended db [new_statement (gen n) w p input] (map (new_target w (gen n)) (keyed gen (n + 1) (input_targets input)))
        (map (new_action w (gen n)) (keyed gen (n + 1 + length (input_targets input)) (si_permission_ids input)))
        (map (new_condition w (gen n)) (keyed gen (n + 1 + length (input_targets input) + length (si_permission_ids input)) cs))"
    using add_statement_ok [OF assms] by blast
  have inj: "gen a = gen b \<longleftrightarrow> a = b" for a b using assms(2) by (auto simp: fresh_ids_def inj_def)
  have t: "gen m \<notin> fst ` set (keyed gen (n + 1) (input_targets input))"
    "gen m \<notin> fst ` set (keyed gen (n + 1 + length (input_targets input)) (si_permission_ids input))"
    "gen m \<notin> fst ` set (keyed gen (n + 1 + length (input_targets input) + length (si_permission_ids input)) cs)" if "n' \<le> m" for m
    using that by (auto simp: keyed_keys inj cs(1))
  have o: "gen m \<noteq> gen n" "n \<le> m" if "n' \<le> m" for m using that by (auto simp: inj cs(1))
  show ?thesis
    unfolding fresh_ids_def
  proof (intro conjI allI impI)
    show "inj gen" using assms(2) by (simp add: fresh_ids_def)
    fix m assume m: "n' \<le> m"
    show "gen m \<notin> eid ` set (statements_table db')" "gen m \<notin> eid ` set (targets_table db')" "gen m \<notin> eid ` set (actions_table db')"
      "gen m \<notin> eid ` set (conditions_table db')" "gen m \<notin> tgt_statement_id ` set (targets_table db')"
      "gen m \<notin> act_statement_id ` set (actions_table db')" "gen m \<notin> cond_statement_id ` set (conditions_table db')"
      using assms(2) t [OF m] o [OF m] unfolding fresh_ids_def cs(2) by (simp_all add: image_Un image_image image_constant_conv)
  qed
qed

text \<open>What adding statements does to the tables.\<close>

definition adds_statements :: "string \<Rightarrow> iam_db \<Rightarrow> expanded_statement list \<Rightarrow> iam_db \<Rightarrow> bool" where
  "adds_statements p db es db' \<longleftrightarrow> getStatements p db' = getStatements p db @ es \<and> (\<forall>q. q \<noteq> p \<longrightarrow> getStatements q db' = getStatements q db)
     \<and> (\<forall>S. p \<notin> S \<longrightarrow> map (full_view db') (repo_find (\<lambda>s. policy_id s \<in> S) (statements_table db')) = map (full_view db) (repo_find (\<lambda>s. policy_id s \<in> S) (statements_table db)))
     \<and> (keys_ok (statements_table db) \<longrightarrow> keys_ok (statements_table db'))
     \<and> (\<exists>a b c d. db' = db\<lparr>statements_table := a, targets_table := b, actions_table := c, conditions_table := d\<rparr>)"

lemma add_statement_adds:
  assumes "add_statement env gen p w input (n, db) = Inr (n', db')" and "fresh_ids gen n db"
  shows "adds_statements p db [expected db (gen n) input] db'"
proof -
  obtain cs where cs: "si_conditions input = Some cs"
    "db' = extended db [new_statement (gen n) w p input] (map (new_target w (gen n)) (keyed gen (n + 1) (input_targets input)))
        (map (new_action w (gen n)) (keyed gen (n + 1 + length (input_targets input)) (si_permission_ids input)))
        (map (new_condition w (gen n)) (keyed gen (n + 1 + length (input_targets input) + length (si_permission_ids input)) cs))"
    (is "db' = extended db [?s] ?ts ?as ?cs") using add_statement_ok [OF assms] by blast
  have f: "gen n \<notin> eid ` set (statements_table db)" "gen n \<notin> tgt_statement_id ` set (targets_table db)"
    "gen n \<notin> act_statement_id ` set (actions_table db)" "gen n \<notin> cond_statement_id ` set (conditions_table db)"
    using assms(2) by (auto simp: fresh_ids_def)
  have other: "expand_statement db' s = expand_statement db s" "full_view db' s = full_view db s" if "s \<in> set (statements_table db)" for s
  proof -
    have "eid s \<noteq> gen n" using f(1) that by (metis imageI)
    then show "expand_statement db' s = expand_statement db s" "full_view db' s = full_view db s"
      unfolding cs(2) by (auto intro!: extended_other [where sid = "gen n"])
  qed
  have new: "expand_statement db' ?s = expected db (gen n) input" unfolding cs(2) using cs(1) by (intro extended_new f(2-4)) simp_all
  have st: "statements_table db' = statements_table db @ [?s]" by (simp add: cs(2))
  have "getStatements p db' = getStatements p db @ [expected db (gen n) input]"
    using other(1) new by (simp add: getStatements_def st repo_find_def)
  moreover have "getStatements q db' = getStatements q db" if "q \<noteq> p" for q
    using other(1) that by (simp add: getStatements_def st repo_find_def)
  moreover have "map (full_view db') (repo_find (\<lambda>s. policy_id s \<in> S) (statements_table db')) = map (full_view db) (repo_find (\<lambda>s. policy_id s \<in> S) (statements_table db))"
    if "p \<notin> S" for S using other(2) that by (simp add: st repo_find_def)
  moreover have "keys_ok (statements_table db')" if "keys_ok (statements_table db)" using that f(1) by (simp add: st keys_ok_def)
  ultimately show ?thesis unfolding adds_statements_def cs(2) by blast
qed

lemma adds_refl: "adds_statements p db [] db"
proof -
  have "db = db\<lparr>statements_table := statements_table db, targets_table := targets_table db, actions_table := actions_table db, conditions_table := conditions_table db\<rparr>" by simp
  then have "\<exists>a b c d. db = db\<lparr>statements_table := a, targets_table := b, actions_table := c, conditions_table := d\<rparr>" by blast
  then show ?thesis unfolding adds_statements_def by blast
qed

lemma adds_trans:
  assumes "adds_statements p a xs b" and "adds_statements p b ys c"
  shows "adds_statements p a (xs @ ys) c"
proof -
  obtain a1 a2 a3 a4 where "b = a\<lparr>statements_table := a1, targets_table := a2, actions_table := a3, conditions_table := a4\<rparr>"
    using assms(1) unfolding adds_statements_def by blast
  moreover obtain b1 b2 b3 b4 where "c = b\<lparr>statements_table := b1, targets_table := b2, actions_table := b3, conditions_table := b4\<rparr>"
    using assms(2) unfolding adds_statements_def by blast
  ultimately have "c = a\<lparr>statements_table := b1, targets_table := b2, actions_table := b3, conditions_table := b4\<rparr>" by simp
  then have "\<exists>x1 x2 x3 x4. c = a\<lparr>statements_table := x1, targets_table := x2, actions_table := x3, conditions_table := x4\<rparr>" by blast
  moreover have "getStatements p c = getStatements p a @ (xs @ ys)" using assms unfolding adds_statements_def by simp
  moreover have "\<forall>q. q \<noteq> p \<longrightarrow> getStatements q c = getStatements q a" using assms unfolding adds_statements_def by simp
  ultimately show ?thesis using assms unfolding adds_statements_def by simp
qed

lemma expected_same: "permissions_table db' = permissions_table db \<Longrightarrow> expected db' i input = expected db i input"
  by (simp add: expected_def)

lemma add_statements_adds:
  "add_statements env gen p w inputs (n, db) = Inr (n', db') \<Longrightarrow> fresh_ids gen n db \<Longrightarrow>
     \<exists>ids. length ids = length inputs \<and> adds_statements p db (map2 (expected db) ids inputs) db'"
proof (induction inputs arbitrary: n db)
  case Nil
  then show ?case using adds_refl by simp
next
  case (Cons input inputs)
  obtain n1 db1 where a: "add_statement env gen p w input (n, db) = Inr (n1, db1)" "add_statements env gen p w inputs (n1, db1) = Inr (n', db')"
    using Cons.prems(1) by (auto split: sum.splits)
  have s: "adds_statements p db [expected db (gen n) input] db1" by (rule add_statement_adds [OF a(1) Cons.prems(2)])
  then have perms: "permissions_table db1 = permissions_table db" unfolding adds_statements_def by auto
  obtain ids where ids: "length ids = length inputs" "adds_statements p db1 (map2 (expected db1) ids inputs) db'"
    using Cons.IH [OF a(2) fresh_after [OF a(1) Cons.prems(2)]] by blast
  have "expected db1 = expected db" using expected_same [OF perms] by (intro ext)
  then show ?case using adds_trans [OF s ids(2)] ids(1) by (intro exI [of _ "gen n # ids"]) simp
qed

lemma deleted_other:
  assumes "keys_ok (statements_table db)" and "s \<in> set (statements_table db)" and "policy_id s \<noteq> p"
  shows "expand_statement (delete_statements p db) s = expand_statement db s" and "full_view (delete_statements p db) s = full_view db s"
proof -
  define gone where "gone = set (map eid (filter (\<lambda>s. policy_id s = p) (statements_table db)))"
  have g: "eid s \<notin> gone" using keys_eq [OF assms(1) _ assms(2)] assms(3) by (auto simp: gone_def)
  have f: "filter (\<lambda>x. Q x \<and> k x = eid s \<and> k x \<notin> gone) xs = filter (\<lambda>x. Q x \<and> k x = eid s) xs" for Q k and xs :: "'z list"
    using g by (intro filter_cong) auto
  have f': "filter (\<lambda>x. k x \<notin> gone \<and> Q x \<and> k x = eid s) xs = filter (\<lambda>x. Q x \<and> k x = eid s) xs" for Q k and xs :: "'z list"
    using g by (intro filter_cong) auto
  have d: "targets_table (delete_statements p db) = filter (\<lambda>t. tgt_statement_id t \<notin> gone) (targets_table db)"
    "actions_table (delete_statements p db) = filter (\<lambda>a. act_statement_id a \<notin> gone) (actions_table db)"
    "conditions_table (delete_statements p db) = filter (\<lambda>c. cond_statement_id c \<notin> gone) (conditions_table db)"
    "permissions_table (delete_statements p db) = permissions_table db"
    by (simp_all add: delete_statements_def Let_def gone_def)
  show "expand_statement (delete_statements p db) s = expand_statement db s"
    unfolding expand_statement_def repo_find_def d filter_filter by (simp only: f f' conj_assoc)
  have ff: "filter (\<lambda>x. k x = eid s) (filter visible (filter (\<lambda>x. k x \<notin> gone) xs)) = filter (\<lambda>x. k x = eid s) (filter visible xs)"
    for k and xs :: "'y base_entity_scheme list"
    using g by (simp add: filter_filter) (auto intro!: filter_cong)
  have ex: "list_ex (\<lambda>x. k x = eid s) (filter visible (filter (\<lambda>x. k x \<notin> gone) xs)) = list_ex (\<lambda>x. k x = eid s) (filter visible xs)"
    for k and xs :: "'y base_entity_scheme list"
    using g by (auto simp: list_ex_iff)
  show "full_view (delete_statements p db) s = full_view db s"
    unfolding full_view_def resolve_statement_def d by (simp only: ff ex)
qed

lemma delete_statements_ok:
  assumes "keys_ok (statements_table db)"
  shows "getStatements p (delete_statements p db) = []" and "q \<noteq> p \<Longrightarrow> getStatements q (delete_statements p db) = getStatements q db"
    and "p \<notin> S \<Longrightarrow> map (full_view (delete_statements p db)) (repo_find (\<lambda>s. policy_id s \<in> S) (statements_table (delete_statements p db)))
       = map (full_view db) (repo_find (\<lambda>s. policy_id s \<in> S) (statements_table db))"
    and "keys_ok (statements_table (delete_statements p db))" and "fresh_ids gen n db \<Longrightarrow> fresh_ids gen n (delete_statements p db)"
proof -
  have st: "statements_table (delete_statements p db) = filter (\<lambda>s. policy_id s \<noteq> p) (statements_table db)"
    by (simp add: delete_statements_def Let_def repo_delete_def)
  show "getStatements p (delete_statements p db) = []" by (auto simp: getStatements_def st repo_find_def filter_empty_conv)
  show "getStatements q (delete_statements p db) = getStatements q db" if "q \<noteq> p"
  proof -
    have "repo_find (\<lambda>s. policy_id s = q) (statements_table (delete_statements p db)) = repo_find (\<lambda>s. policy_id s = q) (statements_table db)"
      using that unfolding st repo_find_def filter_filter by (intro filter_cong) auto
    then show ?thesis unfolding getStatements_def using deleted_other(1) [OF assms] that by (auto simp: mem_repo_find)
  qed
  show "map (full_view (delete_statements p db)) (repo_find (\<lambda>s. policy_id s \<in> S) (statements_table (delete_statements p db)))
       = map (full_view db) (repo_find (\<lambda>s. policy_id s \<in> S) (statements_table db))" if "p \<notin> S"
  proof -
    have "repo_find (\<lambda>s. policy_id s \<in> S) (statements_table (delete_statements p db)) = repo_find (\<lambda>s. policy_id s \<in> S) (statements_table db)"
      using that unfolding st repo_find_def filter_filter by (intro filter_cong) auto
    moreover have "policy_id s \<noteq> p" if "s \<in> set (repo_find (\<lambda>s. policy_id s \<in> S) (statements_table db))" for s
      using that \<open>p \<notin> S\<close> by (auto simp: mem_repo_find)
    ultimately show ?thesis using deleted_other(2) [OF assms] by (auto simp: mem_repo_find)
  qed
  show "keys_ok (statements_table (delete_statements p db))" using assms delete_keys unfolding delete_statements_def Let_def by simp
  show "fresh_ids gen n (delete_statements p db)" if "fresh_ids gen n db"
    using that unfolding fresh_ids_def delete_statements_def Let_def repo_delete_def by auto
qed

text \<open>What \<open>setStatements\<close> does when it succeeds.\<close>

lemma setStatements_ok:
  assumes "setStatements env gen today p inputs w s = (s', Inr ())" and "keys_ok (statements_table (adm_db s))" and "fresh_ids gen 0 (adm_db s)"
  shows "\<exists>ids. length ids = length inputs \<and> adm_store s' = syncUsersByPolicy (adm_db s') today p (adm_store s)
     \<and> getStatements p (adm_db s') = map2 (expected (adm_db s)) ids inputs
     \<and> (\<forall>q. q \<noteq> p \<longrightarrow> getStatements q (adm_db s') = getStatements q (adm_db s))
     \<and> (\<forall>S. p \<notin> S \<longrightarrow> map (full_view (adm_db s')) (repo_find (\<lambda>s. policy_id s \<in> S) (statements_table (adm_db s')))
          = map (full_view (adm_db s)) (repo_find (\<lambda>s. policy_id s \<in> S) (statements_table (adm_db s))))
     \<and> keys_ok (statements_table (adm_db s'))
     \<and> (\<exists>a b c d. adm_db s' = (adm_db s)\<lparr>statements_table := a, targets_table := b, actions_table := c, conditions_table := d\<rparr>)
     \<and> user_role_audit s' = user_role_audit s \<and> role_policy_audit s' = role_policy_audit s"
proof -
  let ?d = "delete_statements p (adm_db s)"
  obtain n db' where r: "add_statements env gen p w inputs (0, ?d) = Inr (n, db')"
      "s' = s\<lparr>adm_db := db', adm_store := syncUsersByPolicy db' today p (adm_store s)\<rparr>"
    using assms(1) by (auto simp: setStatements_def executeDbOperation_Inr split: sum.splits)
  obtain ids where ids: "length ids = length inputs" "adds_statements p ?d (map2 (expected ?d) ids inputs) db'"
    using add_statements_adds [OF r(1) delete_statements_ok(5) [OF assms(2,3)]] by blast
  have ex: "expected ?d = expected (adm_db s)" by (intro ext expected_same) (simp add: delete_statements_def Let_def)
  have "\<exists>a b c d. db' = (adm_db s)\<lparr>statements_table := a, targets_table := b, actions_table := c, conditions_table := d\<rparr>"
    using ids(2) unfolding adds_statements_def by (auto simp: delete_statements_def Let_def)
  then show ?thesis
    using ids delete_statements_ok [OF assms(2), where p = p] unfolding adds_statements_def ex r(2) by auto
qed

text \<open>C27: what is written is what is read. After the statements of a policy were set, reading them gives one statement per input,
  in order, with the input's effect and plane, the targets of all services and resources, the names of the catalogued
  permissions and the conditions; the statements of every other policy are unchanged.\<close>

theorem statements_roundtrip:
  assumes "setStatements env gen today p inputs w s = (s', Inr ())" and "keys_ok (statements_table (adm_db s))" and "fresh_ids gen 0 (adm_db s)"
  shows "map (\<lambda>e. (es_effect e, es_plane e, es_targets e, es_conditions e)) (getStatements p (adm_db s'))
       = map (\<lambda>i. (si_effect i, si_plane i, input_targets i, case si_conditions i of None \<Rightarrow> [] | Some cs \<Rightarrow> cs)) inputs
     \<and> map es_permissions (getStatements p (adm_db s'))
       = map (\<lambda>i. concat (map (\<lambda>q. map permission_string (repo_find (\<lambda>r. eid r = q) (permissions_table (adm_db s)))) (si_permission_ids i))) inputs
     \<and> (\<forall>q. q \<noteq> p \<longrightarrow> getStatements q (adm_db s') = getStatements q (adm_db s))"
proof -
  obtain ids where ids: "length ids = length inputs" "getStatements p (adm_db s') = map2 (expected (adm_db s)) ids inputs"
      "\<forall>q. q \<noteq> p \<longrightarrow> getStatements q (adm_db s') = getStatements q (adm_db s)"
    using setStatements_ok [OF assms] by blast
  have m: "map f (map2 (expected (adm_db s)) ids inputs) = map (\<lambda>i. f (expected (adm_db s) [] i)) inputs"
    if "\<And>a b i. f (expected (adm_db s) a i) = f (expected (adm_db s) b i)" for f
    using ids(1) by (induction ids inputs rule: list_induct2) (auto intro: that)
  have a: "map (\<lambda>e. (es_effect e, es_plane e, es_targets e, es_conditions e)) (map2 (expected (adm_db s)) ids inputs)
       = map (\<lambda>i. (si_effect i, si_plane i, input_targets i, case si_conditions i of None \<Rightarrow> [] | Some cs \<Rightarrow> cs)) inputs"
    by (subst m) (simp_all add: expected_def)
  have b: "map es_permissions (map2 (expected (adm_db s)) ids inputs)
       = map (\<lambda>i. concat (map (\<lambda>q. map permission_string (repo_find (\<lambda>r. eid r = q) (permissions_table (adm_db s)))) (si_permission_ids i))) inputs"
    by (subst m) (simp_all add: expected_def)
  show ?thesis using ids(3) a b unfolding ids(2) by blast
qed

section \<open>Every administrative change reaches the sessions\<close>

text \<open>A successful operation of an administrator.\<close>

inductive admin_op :: "admin_env \<Rightarrow> string \<Rightarrow> admin_state \<Rightarrow> admin_state \<Rightarrow> bool" for env today where
  op_assign: "assignRoles env today userId roleIds w s = (s', Inr ()) \<Longrightarrow> admin_op env today s s'"
| op_attach: "roles_attachPolicies env today roleId policyIds w s = (s', Inr ()) \<Longrightarrow> admin_op env today s s'"
| op_statements: "setStatements env gen today policyId inputs w s = (s', Inr ()) \<Longrightarrow> fresh_ids gen 0 (adm_db s) \<Longrightarrow> admin_op env today s s'"
| op_role_delete: "role_delete now i user s = Inr s' \<Longrightarrow> admin_op env today s s'"
| op_policy_delete: "policy_delete now i user s = Inr s' \<Longrightarrow> admin_op env today s s'"

definition admin_inv :: "string \<Rightarrow> admin_state \<Rightarrow> bool" where
  "admin_inv today s \<longleftrightarrow> keys_ok (statements_table (adm_db s)) \<and> sessions_ok (adm_store s) \<and> current (adm_db s) today (adm_store s)"

lemma assignRoles_ok:
  assumes "assignRoles env today userId roleIds w s = (s', Inr ())"
  shows "\<exists>links log. s' = s\<lparr>adm_db := (adm_db s)\<lparr>users_roles := links\<rparr>, user_role_audit := log, adm_store := syncUser ((adm_db s)\<lparr>users_roles := links\<rparr>) today userId (adm_store s)\<rparr>
     \<and> (\<forall>x i. (x, i) \<in> set links \<longleftrightarrow> (if x = userId then i \<in> set roleIds else (x, i) \<in> set (users_roles (adm_db s))))
     \<and> log = user_role_audit s @ audit_entries userId (js_set (map eid (load_relation (users_roles (adm_db s)) userId (roles_table (adm_db s))))) roleIds w
     \<and> (\<exists>user. repo_findOne (\<lambda>u. eid u = userId) (users_table (adm_db s)) = Some user)"
proof -
  let ?prev = "js_set (map eid (load_relation (users_roles (adm_db s)) userId (roles_table (adm_db s))))"
  obtain user where u: "repo_findOne (\<lambda>u. eid u = userId) (users_table (adm_db s)) = Some user"
    using assms by (cases "repo_findOne (\<lambda>u. eid u = userId) (users_table (adm_db s))") (auto simp: assignRoles_def Let_def executeDbOperation_def)
  obtain links log r where r: "replace_relation env ''users'' userId ?prev roleIds w (users_roles (adm_db s)) (user_role_audit s) = (links, log, r)"
    by (metis prod_cases3)
  have "r = Inr ()" "s' = s\<lparr>adm_db := (adm_db s)\<lparr>users_roles := links\<rparr>, user_role_audit := log, adm_store := syncUser ((adm_db s)\<lparr>users_roles := links\<rparr>) today userId (adm_store s)\<rparr>"
    using assms unfolding assignRoles_def Let_def u option.case r prod.case by (auto split: sum.splits)
  then show ?thesis using replace_relation_ok [of env "''users''" userId ?prev roleIds w "users_roles (adm_db s)" "user_role_audit s" links log] r u by auto
qed

lemma attachPolicies_ok:
  assumes "roles_attachPolicies env today roleId policyIds w s = (s', Inr ())"
  shows "\<exists>links log. s' = s\<lparr>adm_db := (adm_db s)\<lparr>roles_policies := links\<rparr>, role_policy_audit := log, adm_store := syncUsersByRole ((adm_db s)\<lparr>roles_policies := links\<rparr>) today roleId (adm_store s)\<rparr>
     \<and> (\<forall>x i. (x, i) \<in> set links \<longleftrightarrow> (if x = roleId then i \<in> set policyIds else (x, i) \<in> set (roles_policies (adm_db s))))
     \<and> log = role_policy_audit s @ audit_entries roleId (js_set (map eid (load_relation (roles_policies (adm_db s)) roleId (policies_table (adm_db s))))) policyIds w
     \<and> (\<exists>role. repo_findOne (\<lambda>u. eid u = roleId) (roles_table (adm_db s)) = Some role)"
proof -
  let ?prev = "js_set (map eid (load_relation (roles_policies (adm_db s)) roleId (policies_table (adm_db s))))"
  obtain role where u: "repo_findOne (\<lambda>u. eid u = roleId) (roles_table (adm_db s)) = Some role"
    using assms by (cases "repo_findOne (\<lambda>u. eid u = roleId) (roles_table (adm_db s))") (auto simp: roles_attachPolicies_def Let_def executeDbOperation_def)
  obtain links log r where r: "replace_relation env ''roles'' roleId ?prev policyIds w (roles_policies (adm_db s)) (role_policy_audit s) = (links, log, r)"
    by (metis prod_cases3)
  have "r = Inr ()" "s' = s\<lparr>adm_db := (adm_db s)\<lparr>roles_policies := links\<rparr>, role_policy_audit := log, adm_store := syncUsersByRole ((adm_db s)\<lparr>roles_policies := links\<rparr>) today roleId (adm_store s)\<rparr>"
    using assms unfolding roles_attachPolicies_def Let_def u option.case r prod.case by (auto split: sum.splits)
  then show ?thesis using replace_relation_ok [of env "''roles''" roleId ?prev policyIds w "roles_policies (adm_db s)" "role_policy_audit s" links log] r u by auto
qed

lemma role_delete_ok:
  assumes "role_delete now i user s = Inr s'"
  shows "(\<forall>u. (u, i) \<notin> set (users_roles (adm_db s)))
     \<and> s' = s\<lparr>adm_db := (adm_db s)\<lparr>roles_table := fst (repo_update (\<lambda>r. eid r = i) (soft_deleted now user) (roles_table (adm_db s)))\<rparr>\<rparr>"
  using assms by (auto simp: role_delete_def Let_def base_delete_def deleteEntity_def case_prod_beta filter_empty_conv split: if_splits sum.splits)

lemma policy_delete_ok:
  assumes "policy_delete now i user s = Inr s'"
  shows "(\<forall>r. (r, i) \<notin> set (roles_policies (adm_db s)))
     \<and> s' = s\<lparr>adm_db := (adm_db s)\<lparr>policies_table := fst (repo_update (\<lambda>r. eid r = i) (soft_deleted now user) (policies_table (adm_db s)))\<rparr>\<rparr>"
  using assms by (auto simp: policy_delete_def Let_def base_delete_def deleteEntity_def case_prod_beta filter_empty_conv split: if_splits sum.splits)

lemma current_same:
  "current db today r \<Longrightarrow> (\<And>u. resolveForUser db' today u = resolveForUser db today u) \<Longrightarrow> current db' today r"
  unfolding current_def by simp

lemma resolve_other_policy:
  assumes "\<And>S. p \<notin> S \<Longrightarrow> map (full_view db') (repo_find (\<lambda>s. policy_id s \<in> S) (statements_table db')) = map (full_view db) (repo_find (\<lambda>s. policy_id s \<in> S) (statements_table db))"
    and db': "db' = db\<lparr>statements_table := a, targets_table := b, actions_table := c, conditions_table := d\<rparr>" and "p \<notin> set (user_policyIds db' u)"
  shows "resolveForUser db' today u = resolveForUser db today u"
proof -
  have ri: "user_roleIds db' u = user_roleIds db u" by (simp add: db' user_roleIds_def split: option.split)
  have ro: "user_roles db' u = user_roles db u" unfolding user_roles_def ri by (simp add: db')
  have pi: "user_policyIds db' u = user_policyIds db u" unfolding user_policyIds_roles ro by (simp add: db' roles_policyIds_def)
  have act: "activePolicies db' today ids = activePolicies db today ids" for ids by (simp add: db' activePolicies_def)
  have "p \<notin> eid ` set (activePolicies db' today (user_policyIds db' u))"
    using assms(3) by (auto simp: activePolicies_def mem_repo_find)
  then have "user_statements db' today u = user_statements db today u"
    unfolding user_statements_def act pi by (rule assms(1))
  then show ?thesis by (rule resolve_eqI [OF ro])
qed

lemma admin_op_inv:
  assumes "admin_op env today s s'" and "admin_inv today s"
  shows "admin_inv today s'"
  using assms(1)
proof cases
  case (op_assign userId roleIds w)
  obtain links log where o: "s' = s\<lparr>adm_db := (adm_db s)\<lparr>users_roles := links\<rparr>, user_role_audit := log, adm_store := syncUser ((adm_db s)\<lparr>users_roles := links\<rparr>) today userId (adm_store s)\<rparr>"
      "\<forall>x i. (x, i) \<in> set links \<longleftrightarrow> (if x = userId then i \<in> set roleIds else (x, i) \<in> set (users_roles (adm_db s)))"
    using assignRoles_ok [OF op_assign] by blast
  have "resolveForUser ((adm_db s)\<lparr>users_roles := links\<rparr>) today u = resolveForUser (adm_db s) today u" if "u \<notin> {userId}" for u
    using that o(2) by (intro resolve_other_user [where userId = userId]) auto
  then show ?thesis using assms(2) user_push.keeps_current [of "adm_store s" "adm_db s" today userId] unfolding admin_inv_def o(1) by simp
next
  case (op_attach roleId policyIds w)
  obtain links log where o: "s' = s\<lparr>adm_db := (adm_db s)\<lparr>roles_policies := links\<rparr>, role_policy_audit := log, adm_store := syncUsersByRole ((adm_db s)\<lparr>roles_policies := links\<rparr>) today roleId (adm_store s)\<rparr>"
      "\<forall>x i. (x, i) \<in> set links \<longleftrightarrow> (if x = roleId then i \<in> set policyIds else (x, i) \<in> set (roles_policies (adm_db s)))"
    using attachPolicies_ok [OF op_attach] by blast
  let ?db = "(adm_db s)\<lparr>roles_policies := links\<rparr>"
  have "resolveForUser ?db today u = resolveForUser (adm_db s) today u" if "u \<notin> {u. roleId \<in> set (user_roleIds ?db u)}" for u
  proof -
    have "user_roleIds ?db u = user_roleIds (adm_db s) u" by (simp add: user_roleIds_def split: option.split)
    then show ?thesis using that o(2) by (intro resolve_without_role [where roleId = roleId]) auto
  qed
  then show ?thesis using assms(2) role_push.keeps_current [where r = "adm_store s" and db = "adm_db s" and db' = ?db and today = today] unfolding admin_inv_def o(1) by simp
next
  case (op_statements gen policyId inputs w)
  have k: "keys_ok (statements_table (adm_db s))" using assms(2) by (simp add: admin_inv_def)
  obtain a b c d where o: "adm_store s' = syncUsersByPolicy (adm_db s') today policyId (adm_store s)" "keys_ok (statements_table (adm_db s'))"
      "\<And>S. policyId \<notin> S \<Longrightarrow> map (full_view (adm_db s')) (repo_find (\<lambda>s. policy_id s \<in> S) (statements_table (adm_db s')))
          = map (full_view (adm_db s)) (repo_find (\<lambda>s. policy_id s \<in> S) (statements_table (adm_db s)))"
      "adm_db s' = (adm_db s)\<lparr>statements_table := a, targets_table := b, actions_table := c, conditions_table := d\<rparr>"
    using setStatements_ok [OF op_statements(1) k op_statements(2)] by blast
  have "resolveForUser (adm_db s') today u = resolveForUser (adm_db s) today u" if "u \<notin> {u. policyId \<in> set (user_policyIds (adm_db s') u)}" for u
    by (rule resolve_other_policy [OF o(3,4)]) (use that in auto)
  then show ?thesis
    using assms(2) policy_push.keeps_current [where r = "adm_store s" and db = "adm_db s" and db' = "adm_db s'" and today = today] o(2) unfolding admin_inv_def o(1) by simp
next
  case (op_role_delete now i user)
  then show ?thesis using assms(2) role_delete_ok [OF op_role_delete] resolve_role_deleted [of i "adm_db s" "soft_deleted now user" today]
    by (auto simp: admin_inv_def intro: current_same)
next
  case (op_policy_delete now i user)
  then show ?thesis using assms(2) policy_delete_ok [OF op_policy_delete] resolve_policy_deleted [of i "adm_db s" "soft_deleted now user" today]
    by (auto simp: admin_inv_def intro: current_same)
qed


section \<open>Relations and deletions\<close>

text \<open>assigning roles replaces them exactly. When the assignment succeeds the user has exactly the given roles and nobody else's
  roles change; the audit log gains one entry per role that was attached or detached, in that order, and no other; an unknown or
  deleted user is refused and nothing changes.\<close>

theorem assign_roles_exact:
  "(assignRoles env today userId roleIds w s = (s', Inr ()) \<longrightarrow>
      (\<forall>x i. (x, i) \<in> set (users_roles (adm_db s')) \<longleftrightarrow> (if x = userId then i \<in> set roleIds else (x, i) \<in> set (users_roles (adm_db s))))
      \<and> set (findRoleIds (adm_db s') userId) = {i \<in> set roleIds. \<exists>r \<in> set (roles_table (adm_db s)). visible r \<and> eid r = i}
      \<and> (\<exists>entries. user_role_audit s' = user_role_audit s @ entries
           \<and> au_other ` {e \<in> set entries. au_action e = Attached} = set roleIds - set (findRoleIds (adm_db s) userId)
           \<and> au_other ` {e \<in> set entries. au_action e = Detached} = set (findRoleIds (adm_db s) userId) - set roleIds))
   \<and> (repo_findOne (\<lambda>u. eid u = userId) (users_table (adm_db s)) = None \<longrightarrow>
        assignRoles env today userId roleIds w s = (s, Inl (NotFoundException (''User '' @ userId @ '' not found''))))"
proof (intro conjI impI)
  assume "assignRoles env today userId roleIds w s = (s', Inr ())"
  then obtain links log user where o: "s' = s\<lparr>adm_db := (adm_db s)\<lparr>users_roles := links\<rparr>, user_role_audit := log, adm_store := syncUser ((adm_db s)\<lparr>users_roles := links\<rparr>) today userId (adm_store s)\<rparr>"
      "\<forall>x i. (x, i) \<in> set links \<longleftrightarrow> (if x = userId then i \<in> set roleIds else (x, i) \<in> set (users_roles (adm_db s)))"
      "log = user_role_audit s @ audit_entries userId (js_set (map eid (load_relation (users_roles (adm_db s)) userId (roles_table (adm_db s))))) roleIds w"
      "repo_findOne (\<lambda>u. eid u = userId) (users_table (adm_db s)) = Some user"
    using assignRoles_ok by blast
  show "\<forall>x i. (x, i) \<in> set (users_roles (adm_db s')) \<longleftrightarrow> (if x = userId then i \<in> set roleIds else (x, i) \<in> set (users_roles (adm_db s)))"
    using o(1,2) by simp
  show "set (findRoleIds (adm_db s') userId) = {i \<in> set roleIds. \<exists>r \<in> set (roles_table (adm_db s)). visible r \<and> eid r = i}"
    using o(2,4) unfolding findRoleIds_def o(1) by (auto simp: mem_load_relation image_iff)
  show "\<exists>entries. user_role_audit s' = user_role_audit s @ entries
      \<and> au_other ` {e \<in> set entries. au_action e = Attached} = set roleIds - set (findRoleIds (adm_db s) userId)
      \<and> au_other ` {e \<in> set entries. au_action e = Detached} = set (findRoleIds (adm_db s) userId) - set roleIds"
  proof (intro exI conjI)
    let ?es = "audit_entries userId (js_set (map eid (load_relation (users_roles (adm_db s)) userId (roles_table (adm_db s))))) roleIds w"
    show "user_role_audit s' = user_role_audit s @ ?es" using o(1,3) by simp
    show "au_other ` {e \<in> set ?es. au_action e = Attached} = set roleIds - set (findRoleIds (adm_db s) userId)"
      "au_other ` {e \<in> set ?es. au_action e = Detached} = set (findRoleIds (adm_db s) userId) - set roleIds"
      using o(4) by (simp_all add: audit_kinds findRoleIds_def)
  qed
next
  assume "repo_findOne (\<lambda>u. eid u = userId) (users_table (adm_db s)) = None"
  then show "assignRoles env today userId roleIds w s = (s, Inl (NotFoundException (''User '' @ userId @ '' not found'')))"
    by (simp add: assignRoles_def Let_def executeDbOperation_def)
qed

text \<open>nobody loses access by a deletion. A role some user has and a policy some role has cannot be deleted; a deletion that succeeds
  leaves the resolved permissions of every user as they were.\<close>

theorem deletion_keeps_access:
  "((u, i) \<in> set (users_roles (adm_db s)) \<longrightarrow> (\<exists>m. role_delete now i user s = Inl (ConflictException m)))
   \<and> ((r, i) \<in> set (roles_policies (adm_db s)) \<longrightarrow> (\<exists>m. policy_delete now i user s = Inl (ConflictException m)))
   \<and> (role_delete now i user s = Inr s' \<or> policy_delete now i user s = Inr s' \<longrightarrow> resolveForUser (adm_db s') today x = resolveForUser (adm_db s) today x)"
proof (intro conjI impI)
  show "\<exists>m. role_delete now i user s = Inl (ConflictException m)" if "(u, i) \<in> set (users_roles (adm_db s))"
    using that by (auto simp: role_delete_def Let_def filter_empty_conv)
  show "\<exists>m. policy_delete now i user s = Inl (ConflictException m)" if "(r, i) \<in> set (roles_policies (adm_db s))"
    using that by (auto simp: policy_delete_def Let_def filter_empty_conv)
  show "resolveForUser (adm_db s') today x = resolveForUser (adm_db s) today x" if "role_delete now i user s = Inr s' \<or> policy_delete now i user s = Inr s'"
    using that role_delete_ok [of now i user s s'] policy_delete_ok [of now i user s s'] resolve_role_deleted [of i "adm_db s" "soft_deleted now user" today x]
      resolve_policy_deleted [of i "adm_db s" "soft_deleted now user" today x] by auto
qed

section \<open>New users and new passwords\<close>

lemma put_row_self: "r \<in> set (put_row r t)"
  by (auto simp: put_row_def image_iff)

definition provisioned :: "auth_env \<Rightarrow> string \<Rightarrow> string \<Rightarrow> string \<Rightarrow> auth_state \<Rightarrow> bool" where
  "provisioned env user uname pw a \<longleftrightarrow> (\<exists>c \<in> set (credentials a). cr_user_id c = user \<and> cr_username c = uname
     \<and> password_hash c = bcrypt_hash env pw \<and> must_change_password c \<and> cr_is_active c)"

lemma createInitialCredential_stored:
  assumes "createInitialCredential env rnd user uname pw w a = Inr a'"
  shows "provisioned env user uname pw a'"
proof -
  let ?c = "new_credential (rnd_id rnd) user uname (bcrypt_hash env pw) True w"
  have "credentials a' = put_row ?c (credentials a)"
    using assms by (auto simp: createInitialCredential_def save_credential_def repo_save_def writeSecurityLog_def split: sum.splits option.splits)
  then have "?c \<in> set (credentials a')" using put_row_self [of ?c "credentials a"] by simp
  then show ?thesis unfolding provisioned_def by (rule bexI [rotated]) (simp add: new_credential_def)
qed

lemma resetPassword_stored:
  assumes "resetPassword env rnd user uname pw w a = Inr a'"
  shows "provisioned env user uname pw a'"
proof -
  let ?c = "case repo_findOne (\<lambda>c. cr_user_id c = user) (credentials a) of
      Some c \<Rightarrow> c\<lparr>cr_username := uname, password_hash := bcrypt_hash env pw, cr_is_active := True, must_change_password := True, updated_by := w\<rparr>
    | None \<Rightarrow> new_credential (rnd_id rnd) user uname (bcrypt_hash env pw) True w"
  have "credentials a' = put_row ?c (credentials a)"
    using assms unfolding resetPassword_def Let_def by (auto simp: save_credential_def repo_save_def writeSecurityLog_def split: sum.splits option.splits)
  then have "?c \<in> set (credentials a')" using put_row_self [of ?c "credentials a"] by simp
  moreover have "cr_user_id c = user" if "repo_findOne (\<lambda>c. cr_user_id c = user) (credentials a) = Some c" for c
    using that by (auto simp: repo_findOne_def dest: find_Some_iff_mem)
  ultimately show ?thesis unfolding provisioned_def by (intro bexI [of _ ?c]) (auto simp: new_credential_def split: option.split)
qed

lemma call_auth_success:
  assumes "call_auth env wire delivery cmd payload handled a = (Inr v, a')" and "truthy_success v"
  shows "handled = Inr a'"
  using assms by (auto simp: call_auth_def call_service_def Let_def sendWithContext_def on_error_def fallback_def truthy_success_def nullish_def
      split: sum.splits delivery.splits caught.splits if_splits)

lemma handler_error_thrown: "\<exists>x. on_error dv (CaughtValue (formatException ts (exc_of e))) = Inl x"
proof -
  have "\<exists>c m es t. formatException ts (exc_of e) = envelope c m es t"
    by (cases e) (auto simp: thrown_kind_def new_exception_def unexpected_def split: prod.split)
  then show ?thesis by (auto simp: on_error_def)
qed

lemma call_auth_answered:
  assumes "call_auth env wire Answered cmd payload handled a = (Inr v, a')" and "\<And>e. wire e = CaughtValue (formatException ts e)"
  shows "handled = Inr a'"
proof (cases handled)
  case (Inl e)
  obtain x where "on_error JNull (CaughtValue (formatException ts (exc_of e))) = Inl x" using handler_error_thrown by blast
  then show ?thesis using assms(1) Inl by (simp add: call_auth_def call_service_def assms(2) sendWithContext_def)
qed (use assms(1) in \<open>simp add: call_auth_def call_service_def Let_def\<close>)

text \<open>creating a user. The row is stored whatever becomes of the credential. When the authentication service answers and
  the creation reports success, the returned password is strong and is the one the new credential holds, to be
  changed at the first login; a failing credential is reported as an error.\<close>

theorem create_user_outcomes:
  assumes "users_create env call new_id randomInt data currentUser (s, a) = ((s', a'), r)"
    and "base_create ''users'' (user_chk env) new_id data currentUser (users_table (adm_db s)) = Inr (t, user)"
    and "\<And>e. c_wire call e = CaughtValue (formatException ts e)" and "\<And>k n. 0 < n \<Longrightarrow> randomInt k n < n"
  shows "users_table (adm_db s') = t \<and> user \<in> set t
    \<and> (c_delivery call = Answered \<longrightarrow> (case r of
         Inr (u, pw) \<Rightarrow> u = user \<and> pw = generateTempPassword randomInt 12 \<and> length pw = 12 \<and> provisioned (c_auth call) (eid user) (username user) pw a'
       | Inl e \<Rightarrow> a' = a \<and> \<not> is_ok (createInitialCredential (c_auth call) (c_rnd call) (eid user) (username user) (generateTempPassword randomInt 12) (extractUserId currentUser) a)))"
proof (intro conjI impI)
  let ?pw = "generateTempPassword randomInt 12"
  let ?h = "createInitialCredential (c_auth call) (c_rnd call) (eid user) (username user) ?pw (extractUserId currentUser) a"
  let ?call = "call_auth (c_rpc call) (c_wire call) (c_delivery call) ''auth.credentials.create-initial''
      (credential_payload (eid user) (username user) ?pw ''created_by'' (extractUserId currentUser)) ?h a"
  have run: "((s', a'), r) = (case ?call of (Inl e, a') \<Rightarrow> ((s\<lparr>adm_db := (adm_db s)\<lparr>users_table := t\<rparr>\<rparr>, a'), Inl e)
      | (Inr v, a') \<Rightarrow> ((s\<lparr>adm_db := (adm_db s)\<lparr>users_table := t\<rparr>\<rparr>, a'), Inr (user, ?pw)))"
    using assms(1,2) by (simp add: users_create_def Let_def case_prod_beta split: sum.splits)
  show "users_table (adm_db s') = t" using run by (auto split: prod.splits sum.splits)
  show "user \<in> set t"
    using assms(2) put_row_self by (auto simp: base_create_def executeDbOperation_Inr createEntity_def Let_def repo_save_def split: sum.splits option.splits)
  assume d: "c_delivery call = Answered"
  show "case r of Inr (u, pw) \<Rightarrow> u = user \<and> pw = ?pw \<and> length pw = 12 \<and> provisioned (c_auth call) (eid user) (username user) pw a'
       | Inl e \<Rightarrow> a' = a \<and> \<not> is_ok ?h"
  proof (cases ?call)
    case (Pair res a1)
    show ?thesis
    proof (cases res)
      case (Inr v)
      then have "?h = Inr a1" using call_auth_answered [OF _ assms(3)] Pair d by simp
      moreover have "length ?pw = 12" using password_length [OF assms(4)] by simp
      ultimately show ?thesis using run Pair Inr createInitialCredential_stored by simp
    next
      case (Inl e)
      then have "\<not> is_ok ?h" "a1 = a"
        using Pair d by (auto simp: call_auth_def call_service_def sendWithContext_def Let_def split: sum.splits)
      then show ?thesis using run Pair Inl by simp
    qed
  qed
qed

text \<open>resetting a password. When the administrator is shown a new password, it is the one the user's credential now holds, to be
  changed at the next login; the identity tables are never touched.\<close>

theorem reset_password_outcomes:
  assumes "users_resetPassword call randomInt userId currentUser (s, a) = ((s', a'), r)"
  shows "s' = s \<and> (\<forall>pw. r = Inr pw \<longrightarrow> (\<exists>user. base_findById ''users'' userId (users_table (adm_db s)) = Inr user
     \<and> provisioned (c_auth call) (eid user) (username user) pw a'))"
proof (cases "base_findById ''users'' userId (users_table (adm_db s))")
  case (Inl e)
  then show ?thesis using assms by (auto simp: users_resetPassword_def)
next
  case (Inr user)
  let ?pw = "generateTempPassword randomInt 12"
  let ?call = "call_auth (c_rpc call) (c_wire call) (c_delivery call) ''auth.credentials.reset-password''
      (credential_payload (eid user) (username user) ?pw ''reset_by'' (extractUserId currentUser))
      (resetPassword (c_auth call) (c_rnd call) (eid user) (username user) ?pw (extractUserId currentUser) a) a"
  obtain res a1 where c: "?call = (res, a1)" by fastforce
  have run: "((s', a'), r) = (case res of Inl e \<Rightarrow> ((s, a1), Inl e)
      | Inr v \<Rightarrow> if truthy_success v then ((s, a1), Inr ?pw) else ((s, a1), Inl (thrown_kind InternalServerError None ''Failed to reset password - please try again.'')))"
    using assms Inr c by (simp add: users_resetPassword_def Let_def)
  show ?thesis
  proof (cases "\<exists>v. res = Inr v \<and> truthy_success v")
    case True
    then obtain v where v: "res = Inr v" "truthy_success v" by blast
    have "resetPassword (c_auth call) (c_rnd call) (eid user) (username user) ?pw (extractUserId currentUser) a = Inr a1"
      using call_auth_success [of _ _ _ _ _ _ a v a1] c v by blast
    then show ?thesis using resetPassword_stored run v Inr by simp
  qed (use run in \<open>auto split: sum.splits\<close>)
qed

section \<open>Where a change does not reach the sessions\<close>

text \<open>The audit entries are saved after the roles, outside their transaction: if that fails the roles have changed, the
  request reports an error, and the sessions keep the old permissions.\<close>

lemma audit_failure_unsynced:
  assumes "repo_findOne (\<lambda>u. eid u = userId) (users_table (adm_db s)) = Some user" and "save_relation (link_chk env) userId roleIds (users_roles (adm_db s)) = Inr links"
    and "set roleIds \<noteq> set (findRoleIds (adm_db s) userId)" and "\<And>es. audit_chk env es = Some e"
  shows "\<exists>x. assignRoles env today userId roleIds w s = (s\<lparr>adm_db := (adm_db s)\<lparr>users_roles := links\<rparr>\<rparr>, Inl x)"
proof -
  let ?prev = "js_set (map eid (load_relation (users_roles (adm_db s)) userId (roles_table (adm_db s))))"
  have "audit_entries userId ?prev roleIds w \<noteq> []"
  proof
    assume "audit_entries userId ?prev roleIds w = []"
    then have "set roleIds = set ?prev" using audit_kinds [of userId ?prev roleIds w] by auto
    then show False using assms(1,3) by (simp add: findRoleIds_def)
  qed
  then show ?thesis
    using assms(1,2,4) by (auto simp: assignRoles_def replace_relation_def Let_def executeDbOperation_def)
qed

lemma statements_need_conditions: "si_conditions input = None \<Longrightarrow> add_statement env gen p w input (n, db) \<noteq> Inr x"
  by (auto simp: add_statement_def Let_def split: sum.splits)

text \<open>Switching a policy off is an update of the generic service, which pushes nothing: the tables give the user nothing
  any more, and the sessions are as they were.\<close>

lemma deactivation_not_pushed:
  "\<exists>t e. base_update ''policies'' (\<lambda>_ _. None) ''p'' (\<lambda>r. r\<lparr>is_active := False\<rparr>) NoActor (policies_table example_iam) = Inr (t, e)
     \<and> res_permissions (resolveForUser (example_iam\<lparr>policies_table := t\<rparr>) ''2025-01-01'' ''u'') = []
     \<and> res_permissions (resolveForUser example_iam ''2025-01-01'' ''u'') = [''doc:read'']"
proof -
  obtain t e where u: "base_update ''policies'' (\<lambda>_ _. None) ''p'' (\<lambda>r. r\<lparr>is_active := False\<rparr>) NoActor (policies_table example_iam) = Inr (t, e)"
      "\<forall>r \<in> set t. \<not> is_active r"
    by (simp add: base_update_def executeDbOperation_def preload_def repo_findOne_def repo_save_def put_row_def visible_def iam_eval)
  have "activePolicies (example_iam\<lparr>policies_table := t\<rparr>) today ids = []" for today ids
    using u(2) by (auto simp: activePolicies_def repo_find_def filter_empty_conv)
  then have "user_statements (example_iam\<lparr>policies_table := t\<rparr>) today x = []" for today x by (simp add: user_statements_def)
  then have "res_permissions (resolveForUser (example_iam\<lparr>policies_table := t\<rparr>) ''2025-01-01'' ''u'') = []"
    by (simp add: resolveForUser_statements)
  then show ?thesis using u(1) by (simp add: example_iam_resolved)
qed

section \<open>Examples\<close>

definition admin_sample_env :: admin_env where
  "admin_sample_env = \<lparr>link_chk = (\<lambda>_ _. None), audit_chk = (\<lambda>_. None), user_chk = (\<lambda>_ _. None), statement_chk = (\<lambda>_ _. None),
     target_chk = (\<lambda>_ _. None), action_chk = (\<lambda>_ _. None), condition_chk = (\<lambda>_ _. None)\<rparr>"

definition admin_sample :: admin_state where
  "admin_sample = \<lparr>adm_db = example_iam, adm_store = session_create ''j'' (merge_permissions (resolveForUser example_iam ''2025-01-01'' ''u'') example_session) 900 empty_redis,
     user_role_audit = [], role_policy_audit = []\<rparr>"

lemma admin_sample_inv: "admin_inv ''2025-01-01'' admin_sample"
proof -
  let ?d = "merge_permissions (resolveForUser example_iam ''2025-01-01'' ''u'') example_session"
  have "sessions_ok (session_create ''j'' ?d 900 empty_redis)" by (rule create_ok [OF empty_redis_ok example_fresh])
  moreover have "keys_ok (statements_table example_iam)" by (simp add: keys_ok_def iam_eval)
  moreover have "current example_iam ''2025-01-01'' (session_create ''j'' ?d 900 empty_redis)"
    by (auto simp: current_def create_view example_session_def merge_permissions_def split: if_splits)
  ultimately show ?thesis by (simp add: admin_inv_def admin_sample_def)
qed

lemma admin_sample_assign: "\<exists>s'. assignRoles admin_sample_env ''2025-01-01'' ''u'' [] None admin_sample = (s', Inr ())"
proof -
  obtain user where u: "repo_findOne (\<lambda>u. eid u = ''u'') (users_table example_iam) = Some user"
    by (simp add: repo_findOne_def visible_def iam_eval)
  show ?thesis by (simp add: assignRoles_def Let_def admin_sample_def u replace_relation_def save_relation_def admin_sample_env_def)
qed


theorem assign_roles_exact_witness:
  "\<exists>s'. assignRoles admin_sample_env ''2025-01-01'' ''u'' [] None admin_sample = (s', Inr ()) \<and> set (findRoleIds (adm_db s') ''u'') = {}"
proof -
  obtain s' where a: "assignRoles admin_sample_env ''2025-01-01'' ''u'' [] None admin_sample = (s', Inr ())" using admin_sample_assign by blast
  show ?thesis using assign_roles_exact [of admin_sample_env "''2025-01-01''" "''u''" "[]" None admin_sample s'] a by auto
qed

theorem deletion_keeps_access_witness: "\<exists>m. role_delete 5 ''r'' NoActor admin_sample = Inl (ConflictException m)"
proof -
  have "(''u'', ''r'') \<in> set (users_roles (adm_db admin_sample))" by (simp add: admin_sample_def example_iam_def)
  then show ?thesis using deletion_keeps_access [of "''u''" "''r''" admin_sample 5 NoActor] by blast
qed

definition sample_gen :: "nat \<Rightarrow> string" where
  "sample_gen n = ''g-'' @ show_nat n"

lemma sample_gen_fresh: "fresh_ids sample_gen 0 example_iam"
  by (auto simp: fresh_ids_def sample_gen_def inj_def iam_eval)

definition sample_input :: statement_input where
  "sample_input = \<lparr>si_effect = Deny, si_plane = ApiPlane, si_service = [''dms'', ''crm''], si_resource = [''doc''], si_permission_ids = [''q2''], si_conditions = Some []\<rparr>"

lemma unchecked_saves: "repo_save (\<lambda>_ _. None) r t = Inr (put_row r t)" "\<exists>t'. repo_save_all (\<lambda>_ _. None) rs t = Inr t'"
  using save_all_unchecked [of rs t] by (auto simp: repo_save_def) (metis Inr_Inl_False sumE)

lemma unchecked_add:
  assumes "si_conditions input = Some []"
  shows "\<exists>st. add_statement admin_sample_env gen p w input (n, db) = Inr st"
proof -
  obtain tt where "repo_save_all (\<lambda>_ _. None) (map (new_target w (gen n)) (keyed gen (n + 1) (input_targets input))) (targets_table db) = Inr tt"
    using unchecked_saves(2) by blast
  moreover obtain ta where "repo_save_all (\<lambda>_ _. None) (map (new_action w (gen n)) (keyed gen (n + 1 + length (input_targets input)) (si_permission_ids input))) (actions_table db) = Inr ta"
    using unchecked_saves(2) by blast
  ultimately show ?thesis by (simp add: add_statement_def Let_def admin_sample_env_def unchecked_saves(1) assms)
qed

theorem statements_roundtrip_witness:
  "\<exists>s'. setStatements admin_sample_env sample_gen ''2025-01-01'' ''p'' [sample_input] None admin_sample = (s', Inr ())
     \<and> map es_targets (getStatements ''p'' (adm_db s')) = [[(''dms'', ''doc''), (''crm'', ''doc'')]] \<and> map es_permissions (getStatements ''p'' (adm_db s')) = [[''doc:edit'']]"
proof -
  have "\<exists>st. add_statement admin_sample_env sample_gen ''p'' None sample_input (0, delete_statements ''p'' (adm_db admin_sample)) = Inr st"
    by (rule unchecked_add) (simp add: sample_input_def)
  then obtain s' where r: "setStatements admin_sample_env sample_gen ''2025-01-01'' ''p'' [sample_input] None admin_sample = (s', Inr ())"
    by (auto simp: setStatements_def executeDbOperation_def)
  have k: "keys_ok (statements_table (adm_db admin_sample))" using admin_sample_inv by (simp add: admin_inv_def)
  have f: "fresh_ids sample_gen 0 (adm_db admin_sample)" using sample_gen_fresh by (simp add: admin_sample_def)
  note rt = statements_roundtrip [OF r k f]
  have e: "length (getStatements ''p'' (adm_db s')) = 1" using arg_cong [OF rt [THEN conjunct1], of length] by simp
  then obtain x where x: "getStatements ''p'' (adm_db s') = [x]" by (metis One_nat_def length_0_conv length_Suc_conv)
  have "es_targets x = [(''dms'', ''doc''), (''crm'', ''doc'')]" using rt [THEN conjunct1] unfolding x by (simp add: sample_input_def input_targets_def)
  moreover have "es_permissions x = [''doc:edit'']" using rt [THEN conjunct2, THEN conjunct1] unfolding x
    by (simp add: sample_input_def admin_sample_def repo_find_def visible_def iam_eval)
  ultimately show ?thesis using r x by auto
qed

definition sample_calling :: calling where
  "sample_calling = \<lparr>c_rpc = sample_env, c_wire = (\<lambda>e. CaughtValue (formatException ''t'' e)), c_delivery = Answered, c_auth = example_env, c_rnd = example_rnd\<rparr>"

definition sample_user :: user where
  "sample_user = base_entity.extend (example_base []) (user.fields ''malee'' ''Malee'' None None ActiveStatus None)"

theorem create_user_outcomes_witness:
  "\<exists>s' a' user pw. users_create admin_sample_env sample_calling ''u2'' (\<lambda>k n. k mod n) sample_user NoActor (admin_sample, example_auth) = ((s', a'), Inr (user, pw))
     \<and> length pw = 12 \<and> provisioned example_env ''u2'' ''malee'' pw a'"
proof -
  obtain t user where b: "base_create ''users'' (user_chk admin_sample_env) ''u2'' sample_user NoActor (users_table (adm_db admin_sample)) = Inr (t, user)"
      "eid user = ''u2''" "username user = ''malee''"
    by (simp add: base_create_def createEntity_def executeDbOperation_def repo_save_def admin_sample_env_def sample_user_def iam_eval Let_def)
  obtain s' a' r where run: "users_create admin_sample_env sample_calling ''u2'' (\<lambda>k n. k mod n) sample_user NoActor (admin_sample, example_auth) = ((s', a'), r)"
    by (metis prod.exhaust)
  have ok: "is_ok (createInitialCredential example_env example_rnd x y z w example_auth)" for x y z w
    by (simp add: createInitialCredential_def save_credential_def repo_save_def example_env_def)
  have "c_wire sample_calling e = CaughtValue (formatException ''t'' e)" "c_delivery sample_calling = Answered" "c_auth sample_calling = example_env" "c_rnd sample_calling = example_rnd" for e
    by (simp_all add: sample_calling_def)
  then have "case r of Inr (u, pw) \<Rightarrow> length pw = 12 \<and> provisioned example_env ''u2'' ''malee'' pw a' | Inl e \<Rightarrow> False"
    using create_user_outcomes [OF run b(1), of "''t''"] ok b(2,3) by (simp split: sum.splits prod.splits)
  then show ?thesis using run by (auto split: sum.splits prod.splits)
qed

theorem reset_password_outcomes_witness:
  "\<exists>a' pw. users_resetPassword sample_calling (\<lambda>k n. k mod n) ''u'' NoActor (admin_sample, example_auth) = ((admin_sample, a'), Inr pw)
     \<and> provisioned example_env ''u'' ''somchai'' pw a'"
proof -
  obtain user where u: "base_findById ''users'' ''u'' (users_table (adm_db admin_sample)) = Inr user" "eid user = ''u''" "username user = ''somchai''"
    by (simp add: base_findById_def findEntityById_def repo_findOne_def softDeleteFilter_def visible_def admin_sample_def iam_eval)
  have h: "\<exists>x. resetPassword example_env example_rnd a b c d example_auth = Inr x" for a b c d
    by (simp add: resetPassword_def Let_def save_credential_def repo_save_def example_env_def split: sum.split)
  obtain s' a' r where run: "users_resetPassword sample_calling (\<lambda>k n. k mod n) ''u'' NoActor (admin_sample, example_auth) = ((s', a'), r)"
    by (metis prod.exhaust)
  obtain x where x: "resetPassword example_env example_rnd (eid user) (username user) (generateTempPassword (\<lambda>k n. k mod n) 12) None example_auth = Inr x" using h by blast
  have "r = Inr (generateTempPassword (\<lambda>k n. k mod n) 12)"
    using run u x by (simp add: users_resetPassword_def Let_def sample_calling_def call_auth_def call_service_def sendWithContext_def truthy_success_def)
  then show ?thesis using reset_password_outcomes [OF run] run u by (auto simp: sample_calling_def)
qed

end
