(* ===== verification/Auth_Web.thy ===== *)
theory Auth_Web
  imports Guards
begin

text \<open>
  \<open>apps/auth/src/modules/auth/controllers/auth.controller.ts\<close> and \<open>libs/common/src/utils/auth-cookie.util.ts\<close>: the handlers of the
  browser flow over the auth service, and the cookies they set and clear. The browser is a list of cookies with the rules of RFC 6265 the
  flow rests on: a cookie is replaced or removed by one with the same name, domain and path, is dropped at the end of its lifetime, and is sent to the
  paths below its own. Shown: what a login sets up in browser, session store and database, a logout takes
  down; and for how long a refresh is covered by the CSRF check.
\<close>

section \<open>Cookies\<close>

definition ACCESS_TOKEN_COOKIE :: string where "ACCESS_TOKEN_COOKIE = ''access_token''"
definition REFRESH_TOKEN_COOKIE :: string where "REFRESH_TOKEN_COOKIE = ''refresh_token''"
definition CSRF_TOKEN_COOKIE :: string where "CSRF_TOKEN_COOKIE = ''csrf_token''"

record web_config =
  COOKIE_SECURE :: "bool option"
  COOKIE_DOMAIN :: "string option"
  AUTH_PREFIX_NAME :: "string option"
  AUTH_PREFIX_VERSION :: "string option"

record cookie_base =
  cb_httpOnly :: bool
  cb_secure :: bool
  cb_sameSite :: string
  cb_domain :: "string option"

record cookie =
  wc_name :: string
  wc_value :: string
  wc_options :: cookie_base
  wc_path :: string
  wc_expires :: int

type_synonym jar = "cookie list"

record auth_cookies =
  ac_access_token :: string
  ac_refresh_token :: string
  ac_csrf_token :: string
  ac_accessTtlSeconds :: int
  ac_refreshTtlSeconds :: int
  ac_refreshCookiePath :: string

definition baseCookieOptions :: "web_config \<Rightarrow> cookie_base" where
  "baseCookieOptions cfg = \<lparr>cb_httpOnly = True, cb_secure = (case COOKIE_SECURE cfg of None \<Rightarrow> True | Some b \<Rightarrow> b), cb_sameSite = ''lax'',
     cb_domain = (case COOKIE_DOMAIN cfg of None \<Rightarrow> None | Some d \<Rightarrow> if d = [] then None else Some d)\<rparr>"

text \<open>A cookie is identified by its name, domain and path.\<close>

definition cookie_key :: "cookie \<Rightarrow> string \<times> string option \<times> string" where
  "cookie_key c = (wc_name c, cb_domain (wc_options c), wc_path c)"

definition setCookie :: "int \<Rightarrow> string \<Rightarrow> string \<Rightarrow> cookie_base \<Rightarrow> string \<Rightarrow> int \<Rightarrow> jar \<Rightarrow> jar" where
  "setCookie now name val options path maxAge jar =
     (let c = \<lparr>wc_name = name, wc_value = val, wc_options = options, wc_path = path, wc_expires = now + maxAge * 1000\<rparr>
      in filter (\<lambda>d. cookie_key d \<noteq> cookie_key c) jar @ [c])"

definition clearCookie :: "string \<Rightarrow> cookie_base \<Rightarrow> string \<Rightarrow> jar \<Rightarrow> jar" where
  "clearCookie name options path jar = filter (\<lambda>d. cookie_key d \<noteq> (name, cb_domain options, path)) jar"

definition setAuthCookies :: "int \<Rightarrow> web_config \<Rightarrow> auth_cookies \<Rightarrow> jar \<Rightarrow> jar" where
  "setAuthCookies now cfg cs jar =
     (let base = baseCookieOptions cfg;
          jar1 = setCookie now ACCESS_TOKEN_COOKIE (ac_access_token cs) base ''/'' (ac_accessTtlSeconds cs) jar;
          jar2 = setCookie now REFRESH_TOKEN_COOKIE (ac_refresh_token cs) base (ac_refreshCookiePath cs) (ac_refreshTtlSeconds cs) jar1
      in setCookie now CSRF_TOKEN_COOKIE (ac_csrf_token cs) (base\<lparr>cb_httpOnly := False\<rparr>) ''/'' (ac_accessTtlSeconds cs) jar2)"

definition clearAuthCookies :: "web_config \<Rightarrow> string \<Rightarrow> jar \<Rightarrow> jar" where
  "clearAuthCookies cfg refreshCookiePath jar =
     (let base = baseCookieOptions cfg
      in clearCookie CSRF_TOKEN_COOKIE (base\<lparr>cb_httpOnly := False\<rparr>) ''/''
           (clearCookie REFRESH_TOKEN_COOKIE base refreshCookiePath (clearCookie ACCESS_TOKEN_COOKIE base ''/'' jar)))"

definition path_match :: "string \<Rightarrow> string \<Rightarrow> bool" where
  "path_match cookie_path path \<longleftrightarrow> path = cookie_path
     \<or> is_prefix cookie_path path \<and> (cookie_path \<noteq> [] \<and> last cookie_path = CHR ''/'' \<or> is_prefix (cookie_path @ ''/'') path)"

text \<open>\<open>request.cookies[name]\<close> of a request to a path.\<close>

definition sent_cookie :: "int \<Rightarrow> string \<Rightarrow> jar \<Rightarrow> string \<Rightarrow> string option" where
  "sent_cookie now path jar name =
     map_option wc_value (List.find (\<lambda>c. wc_name c = name \<and> now < wc_expires c \<and> path_match (wc_path c) path) jar)"

section \<open>The handlers\<close>

definition refreshCookiePath :: "web_config \<Rightarrow> string" where
  "refreshCookiePath cfg =
     (let text = (\<lambda>v. case v of None \<Rightarrow> ''undefined'' | Some s \<Rightarrow> s) in ''/'' @ text (AUTH_PREFIX_NAME cfg) @ ''/'' @ text (AUTH_PREFIX_VERSION cfg))"

definition setCookies :: "auth_env \<Rightarrow> web_config \<Rightarrow> int \<Rightarrow> login_result \<Rightarrow> jar \<Rightarrow> jar result" where
  "setCookies env cfg now r jar =
     (case parseDurationToSeconds (case JWT_REFRESH_EXPIRES_IN env of None \<Rightarrow> ''7d'' | Some d \<Rightarrow> d) of
        Inl e \<Rightarrow> Inl e
      | Inr ttl \<Rightarrow> Inr (setAuthCookies now cfg \<lparr>ac_access_token = access_token r, ac_refresh_token = refresh_token_raw r, ac_csrf_token = csrf_token r,
          ac_accessTtlSeconds = expires_in r, ac_refreshTtlSeconds = int ttl, ac_refreshCookiePath = refreshCookiePath cfg\<rparr> jar))"

text \<open>The service's answer, then the cookies.\<close>

definition with_cookies :: "auth_env \<Rightarrow> web_config \<Rightarrow> login_result result \<times> auth_state \<Rightarrow> jar \<Rightarrow> login_result result \<times> auth_state \<times> jar" where
  "with_cookies env cfg answer jar =
     (case answer of
        (Inl e, s) \<Rightarrow> (Inl e, s, jar)
      | (Inr r, s) \<Rightarrow> (case setCookies env cfg (int (now_ms s)) r jar of Inl e \<Rightarrow> (Inl e, s, jar) | Inr jar' \<Rightarrow> (Inr r, s, jar')))"

definition login_handler ::
    "auth_env \<Rightarrow> web_config \<Rightarrow> randoms \<Rightarrow> string \<Rightarrow> string \<Rightarrow> string \<Rightarrow> string option \<Rightarrow> string option \<Rightarrow> auth_state \<times> jar
      \<Rightarrow> login_result result \<times> auth_state \<times> jar" where
  "login_handler env cfg rnd today uname pw ipAddress userAgent st =
     with_cookies env cfg (login env rnd today uname pw ipAddress userAgent (fst st)) (snd st)"

text \<open>\<open>path\<close> is the path of the request, which decides the cookies the browser sends.\<close>

definition presented_token :: "string option \<Rightarrow> string \<Rightarrow> auth_state \<times> jar \<Rightarrow> string option" where
  "presented_token dto_token path st =
     (case dto_token of Some t \<Rightarrow> Some t | None \<Rightarrow> sent_cookie (int (now_ms (fst st))) path (snd st) REFRESH_TOKEN_COOKIE)"

definition refresh_handler ::
    "auth_env \<Rightarrow> web_config \<Rightarrow> randoms \<Rightarrow> string \<Rightarrow> string option \<Rightarrow> string \<Rightarrow> auth_state \<times> jar \<Rightarrow> login_result result \<times> auth_state \<times> jar" where
  "refresh_handler env cfg rnd today dto_token path st =
     (case presented_token dto_token path st of
        Some raw \<Rightarrow>
          (if raw = [] then (Inl (BadRequestException ''Refresh token is required.''), st)
           else with_cookies env cfg (refresh env rnd today raw (fst st)) (snd st))
      | None \<Rightarrow> (Inl (BadRequestException ''Refresh token is required.''), st))"

definition logout_handler ::
    "auth_env \<Rightarrow> web_config \<Rightarrow> user_session \<Rightarrow> string option \<Rightarrow> string \<Rightarrow> auth_state \<times> jar \<Rightarrow> auth_state \<times> jar" where
  "logout_handler env cfg currentUser dto_token path st =
     (logout env (us_jti currentUser) (us_id currentUser) (presented_token dto_token path st) (fst st),
      clearAuthCookies cfg (refreshCookiePath cfg) (snd st))"

definition changePassword_handler :: "auth_env \<Rightarrow> user_session \<Rightarrow> string \<Rightarrow> string \<Rightarrow> string \<Rightarrow> auth_state \<Rightarrow> auth_state result" where
  "changePassword_handler env currentUser current_password new_password confirm_password s =
     (case us_id currentUser of
        Some i \<Rightarrow> (if i = [] then Inl (UnauthorizedException ''Invalid session.'')
                   else changePassword env i current_password new_password confirm_password s)
      | None \<Rightarrow> Inl (UnauthorizedException ''Invalid session.''))"

section \<open>Logging out\<close>

text \<open>The cookies of the flow in a browser are those this configuration sets.\<close>

definition auth_keys :: "web_config \<Rightarrow> (string \<times> string option \<times> string) set" where
  "auth_keys cfg = (let d = cb_domain (baseCookieOptions cfg) in
     {(ACCESS_TOKEN_COOKIE, d, ''/''), (REFRESH_TOKEN_COOKIE, d, refreshCookiePath cfg), (CSRF_TOKEN_COOKIE, d, ''/'')})"

definition own_cookies :: "web_config \<Rightarrow> jar \<Rightarrow> bool" where
  "own_cookies cfg jar \<longleftrightarrow> (\<forall>c \<in> set jar. wc_name c \<in> {ACCESS_TOKEN_COOKIE, REFRESH_TOKEN_COOKIE, CSRF_TOKEN_COOKIE} \<longrightarrow> cookie_key c \<in> auth_keys cfg)"

lemma names_distinct [simp]: "ACCESS_TOKEN_COOKIE \<noteq> REFRESH_TOKEN_COOKIE" "ACCESS_TOKEN_COOKIE \<noteq> CSRF_TOKEN_COOKIE" "REFRESH_TOKEN_COOKIE \<noteq> CSRF_TOKEN_COOKIE"
  "REFRESH_TOKEN_COOKIE \<noteq> ACCESS_TOKEN_COOKIE" "CSRF_TOKEN_COOKIE \<noteq> ACCESS_TOKEN_COOKIE" "CSRF_TOKEN_COOKIE \<noteq> REFRESH_TOKEN_COOKIE"
  by (simp_all add: ACCESS_TOKEN_COOKIE_def REFRESH_TOKEN_COOKIE_def CSRF_TOKEN_COOKIE_def)

lemma set_setCookie:
  "set (setCookie now name val options path maxAge jar) =
     insert \<lparr>wc_name = name, wc_value = val, wc_options = options, wc_path = path, wc_expires = now + maxAge * 1000\<rparr>
       {c \<in> set jar. cookie_key c \<noteq> (name, cb_domain options, path)}"
  by (auto simp: setCookie_def cookie_key_def Let_def)

lemma set_clear: "set (clearAuthCookies cfg (refreshCookiePath cfg) jar) = {c \<in> set jar. cookie_key c \<notin> auth_keys cfg}"
  by (auto simp: clearAuthCookies_def clearCookie_def auth_keys_def Let_def)

lemma own_set:
  assumes "own_cookies cfg jar" and "ac_refreshCookiePath cs = refreshCookiePath cfg"
  shows "own_cookies cfg (setAuthCookies now cfg cs jar)"
  using assms unfolding own_cookies_def by (auto simp: setAuthCookies_def set_setCookie Let_def) (auto simp: cookie_key_def auth_keys_def Let_def)

lemma find_unique:
  assumes "x \<in> set xs" and "P x" and "\<And>y. y \<in> set xs \<Longrightarrow> P y \<Longrightarrow> f y = f x"
  shows "map_option f (List.find P xs) = Some (f x)"
proof (cases "List.find P xs")
  case None
  then show ?thesis using assms(1,2) by (auto simp: find_None_iff_all)
next
  case (Some y)
  then show ?thesis using assms(3) find_Some_iff_mem [OF Some] by simp
qed

text \<open>The refresh token a browser sends back after the cookies were set.\<close>

lemma refresh_token_sent:
  assumes "own_cookies cfg jar" and "ac_refreshCookiePath cs = refreshCookiePath cfg" and "path_match (refreshCookiePath cfg) path"
    and "now' < now + ac_refreshTtlSeconds cs * 1000"
  shows "sent_cookie now' path (setAuthCookies now cfg cs jar) REFRESH_TOKEN_COOKIE = Some (ac_refresh_token cs)"
proof -
  let ?c = "\<lparr>wc_name = REFRESH_TOKEN_COOKIE, wc_value = ac_refresh_token cs, wc_options = baseCookieOptions cfg, wc_path = refreshCookiePath cfg,
     wc_expires = now + ac_refreshTtlSeconds cs * 1000\<rparr>"
  let ?jar = "setAuthCookies now cfg cs jar"
  have mem: "?c \<in> set ?jar" using assms(2) by (simp add: setAuthCookies_def set_setCookie Let_def cookie_key_def)
  have "wc_value d = ac_refresh_token cs" if d: "d \<in> set ?jar" "wc_name d = REFRESH_TOKEN_COOKIE" for d
  proof -
    have "cookie_key d \<in> auth_keys cfg" using own_set [OF assms(1,2), of now] d unfolding own_cookies_def by blast
    then have "cookie_key d = (REFRESH_TOKEN_COOKIE, cb_domain (baseCookieOptions cfg), refreshCookiePath cfg)"
      using d(2) by (auto simp: auth_keys_def cookie_key_def Let_def)
    then show ?thesis using d(1) assms(2) by (auto simp: setAuthCookies_def set_setCookie Let_def cookie_key_def)
  qed
  then have "map_option wc_value (List.find (\<lambda>c. wc_name c = REFRESH_TOKEN_COOKIE \<and> now' < wc_expires c \<and> path_match (wc_path c) path) ?jar)
      = Some (wc_value ?c)"
    using mem assms(3,4) by (intro find_unique) auto
  then show ?thesis by (simp add: sent_cookie_def)
qed

text \<open>A successful login through the handler.\<close>

definition login_cookies :: "web_config \<Rightarrow> login_result \<Rightarrow> nat \<Rightarrow> auth_cookies" where
  "login_cookies cfg r b = \<lparr>ac_access_token = access_token r, ac_refresh_token = refresh_token_raw r, ac_csrf_token = csrf_token r,
     ac_accessTtlSeconds = expires_in r, ac_refreshTtlSeconds = int b, ac_refreshCookiePath = refreshCookiePath cfg\<rparr>"

lemma login_handled:
  assumes "login_handler env cfg rnd today uname pw ip agent (s, jar) = (Inr res, s1, jar1)" and "refresh_ttl env = Inr b"
  shows "login env rnd today uname pw ip agent s = (Inr res, s1)" and "jar1 = setAuthCookies (int (now_ms s1)) cfg (login_cookies cfg res b) jar"
    and "refresh_token_raw res = rnd_refresh rnd" and "now_ms s1 = now_ms s" and "access_ttl env = Inr a \<Longrightarrow> expires_in res = int a"
proof -
  show run: "login env rnd today uname pw ip agent s = (Inr res, s1)" and "jar1 = setAuthCookies (int (now_ms s1)) cfg (login_cookies cfg res b) jar"
    using assms by (auto simp: login_handler_def with_cookies_def setCookies_def login_cookies_def refresh_ttl_def split: sum.splits prod.splits)
  have ok: "fst (login env rnd today uname pw ip agent s) = Inr res" by (simp add: run)
  then show "refresh_token_raw res = rnd_refresh rnd" "access_ttl env = Inr a \<Longrightarrow> expires_in res = int a" unfolding login_Inr by auto
  from ok show "now_ms s1 = now_ms s"
  proof (rule login_Inr_state)
    fix c u a' b'
    assume "store (snd (login env rnd today uname pw ip agent s)) =
       session_create (rnd_jti rnd) (session_of u (resolved_for env (cr_user_id c)) (must_change_password c)) (int a') (store s)"
    then show ?thesis by (simp add: run)
  qed
qed

lemma logout_burns:
  assumes "raw \<noteq> []"
  shows "burnt env raw (logout env jti u (Some raw) s)"
  using assms by (auto simp: burnt_def logout_def Let_def)

lemma logout_session:
  assumes "jti \<noteq> []"
  shows "session_get k (store (logout env (Some jti) u raw s)) = (if k = jti then None else session_get k (store s))"
  using assms by (simp add: logout_def Let_def ss.get_revoke split: option.split)

text \<open>C16: When a browser that logged in logs out again while its refresh cookie lives, without sending the token itself, then the session is gone from the store
  and no other session is touched, the refresh token it was given is refused from then on, and none of the cookies of the flow is left in the browser.\<close>

theorem browser_logout_ends_session:
  assumes "own_cookies cfg jar" and "login_handler env cfg rnd today uname pw ip agent (s, jar) = (Inr res, s1, jar1)"
    and "rnd_jti rnd \<noteq> []" and "rnd_refresh rnd \<noteq> []" and "refresh_ttl env = Inr b" and "ms < b * 1000"
    and "us_jti user = Some (rnd_jti rnd)" and "path_match (refreshCookiePath cfg) path"
    and "logout_handler env cfg user None path (wait ms s1, jar1) = (s2, jar2)"
  shows "session_get k (store s2) = (if k = rnd_jti rnd then None else session_get k (store (wait ms s1)))
    \<and> refresh env rnd' today' (refresh_token_raw res) (wait later s2) = (Inl (UnauthorizedException ''Refresh token is invalid or expired.''), wait later s2)
    \<and> (\<forall>c \<in> set jar2. wc_name c \<notin> {ACCESS_TOKEN_COOKIE, REFRESH_TOKEN_COOKIE, CSRF_TOKEN_COOKIE})"
proof -
  note L = login_handled [OF assms(2,5)]
  have "sent_cookie (int (now_ms (wait ms s1))) path jar1 REFRESH_TOKEN_COOKIE = Some (refresh_token_raw res)"
    unfolding L(2) using refresh_token_sent [OF assms(1), of "login_cookies cfg res b" path "int (now_ms (wait ms s1))" "int (now_ms s1)"] assms(6,8)
    by (simp add: login_cookies_def)
  then have s2: "s2 = logout env (Some (rnd_jti rnd)) (us_id user) (Some (rnd_refresh rnd)) (wait ms s1)"
    and jar2: "jar2 = clearAuthCookies cfg (refreshCookiePath cfg) jar1"
    using assms(7,9) L(3) by (auto simp: logout_handler_def presented_token_def)
  have "burnt env (refresh_token_raw res) (wait later s2)"
    using logout_burns [OF assms(4)] unfolding s2 L(3) burnt_def by simp
  moreover have "own_cookies cfg jar1" unfolding L(2) by (rule own_set [OF assms(1)]) (simp add: login_cookies_def)
  then have "wc_name c \<notin> {ACCESS_TOKEN_COOKIE, REFRESH_TOKEN_COOKIE, CSRF_TOKEN_COOKIE}" if "c \<in> set jar2" for c
    using that unfolding jar2 set_clear own_cookies_def by blast
  ultimately show ?thesis using logout_session [OF assms(3)] burnt_refresh unfolding s2 by blast
qed

section \<open>The CSRF check of a refresh\<close>

text \<open>The cookie of the CSRF check lives as long as the access token, the refresh cookie much longer. In between, the browser still sends the
  refresh token by itself, and the check passes whatever header comes with the request.\<close>

theorem refresh_csrf_gap:
  assumes "own_cookies cfg jar" and "login_handler env cfg rnd today uname pw ip agent (s, jar) = (Inr res, s1, jar1)"
    and "access_ttl env = Inr a" and "refresh_ttl env = Inr b" and "a * 1000 \<le> ms" and "ms < b * 1000" and "path_match (refreshCookiePath cfg) path"
    and "cookies q = sent_cookie (int (now_ms (wait ms s1))) path jar1"
  shows "cookies q REFRESH_TOKEN_COOKIE = Some (refresh_token_raw res) \<and> CsrfGuard rt q = Inr q"
proof -
  note L = login_handled [OF assms(2,4)]
  have "cookies q REFRESH_TOKEN_COOKIE = Some (refresh_token_raw res)"
    unfolding assms(8) L(2) using refresh_token_sent [OF assms(1), of "login_cookies cfg res b" path "int (now_ms (wait ms s1))" "int (now_ms s1)"] assms(6,7)
    by (simp add: login_cookies_def)
  moreover have "wc_expires c \<le> int (now_ms (wait ms s1))" if c: "c \<in> set jar1" "wc_name c = CSRF_TOKEN_COOKIE" for c
  proof -
    have "own_cookies cfg jar1" unfolding L(2) by (rule own_set [OF assms(1)]) (simp add: login_cookies_def)
    then have "cookie_key c = (CSRF_TOKEN_COOKIE, cb_domain (baseCookieOptions cfg), ''/'')"
      using c unfolding own_cookies_def by (auto simp: auth_keys_def cookie_key_def Let_def)
    then have "wc_expires c = int (now_ms s1) + expires_in res * 1000"
      using c(1) unfolding L(2) by (auto simp: setAuthCookies_def set_setCookie Let_def cookie_key_def login_cookies_def)
    then show ?thesis using L(5) [OF assms(3)] assms(5) by simp
  qed
  then have "cookies q CSRF_TOKEN_COOKIE = None" unfolding assms(8) sent_cookie_def by (force simp: find_None_iff_all)
  then have "CsrfGuard rt q = Inr q" by (simp add: CsrfGuard_def CSRF_TOKEN_COOKIE_def)
  ultimately show ?thesis ..
qed

section \<open>A browser\<close>

definition web_sample :: web_config where
  "web_sample = \<lparr>COOKIE_SECURE = None, COOKIE_DOMAIN = Some [], AUTH_PREFIX_NAME = Some ''auth'', AUTH_PREFIX_VERSION = Some ''v1''\<rparr>"

definition web_user :: user_session where
  "web_user = \<lparr>us_id = Some ''u'', us_username = None, us_fullname = None, us_email = None, us_roles = [], us_permissions = [], us_jti = Some ''j'', us_must_change_password = False\<rparr>"

lemma web_login:
  obtains res s1 jar1 where
    "login_handler example_env web_sample example_rnd ''2025-01-01'' ''somchai'' ''secret'' None None (example_auth, []) = (Inr res, s1, jar1)"
proof -
  obtain res s1 where r: "login example_env example_rnd ''2025-01-01'' ''somchai'' ''secret'' None None example_auth = (Inr res, s1)"
    using example_login_ok unfolding is_ok_conv by (metis prod.collapse)
  then show thesis using that example_ttl(2) by (auto simp: login_handler_def with_cookies_def setCookies_def refresh_ttl_def)
qed

lemma web_path: "path_match (refreshCookiePath web_sample) ''/auth/v1/auth/logout''"
  by code_simp

theorem browser_logout_ends_session_witness:
  "\<exists>res s1 jar1. login_handler example_env web_sample example_rnd ''2025-01-01'' ''somchai'' ''secret'' None None (example_auth, []) = (Inr res, s1, jar1)
     \<and> session_get ''j'' (store (fst (logout_handler example_env web_sample web_user None ''/auth/v1/auth/logout'' (wait 60000 s1, jar1)))) = None"
proof -
  obtain res s1 jar1 where r: "login_handler example_env web_sample example_rnd ''2025-01-01'' ''somchai'' ''secret'' None None (example_auth, []) = (Inr res, s1, jar1)"
    by (rule web_login)
  have own: "own_cookies web_sample []" by (simp add: own_cookies_def)
  obtain s2 jar2 where l: "logout_handler example_env web_sample web_user None ''/auth/v1/auth/logout'' (wait 60000 s1, jar1) = (s2, jar2)" by fastforce
  from browser_logout_ends_session [OF own r _ _ example_ttl(2) _ _ web_path l, of "''j''"] r l
  show ?thesis by (auto simp: example_rnd_def web_user_def)
qed

end
