(* ===== verification/Api_Routes.thy ===== *)
theory Api_Routes
  imports Guards
begin

text \<open>
  The HTTP surface of the services: the controllers of \<open>apps/*/src\<close> as tables of endpoints, the
  pages of the identity service included, and the way a request reaches a handler: the template of
  its path, the four guards with the metadata of the decorators, the check of the path parameters
  (\<open>parse-uuid-param.pipe.ts\<close>) and the call into the service layer, with the generic controller
  (\<open>base-controller-operations.util.ts\<close>) resolved. The tables hold verb, path, access metadata,
  status code, checked parameters and the call with its arguments; the decorators of the API
  documentation are left out, and so is what a handler makes of the answer of its service (the
  handlers of the login flow are in \<open>Auth_Web\<close>). The router of Fastify is represented only by the
  documented meaning of a path template on a decoded path, and \<open>isUUID\<close> of class-validator is a
  parameter. Handlers of messages from other services do not pass the guards and are modelled with
  their services.

  The results: two endpoints of one service never both answer one request, so the order in which
  the router tries them is irrelevant; what gets through belongs to a short list of public pages
  or carries an authenticated user with the permission of the endpoint; permissions that open read
  endpoints open nothing else.
\<close>

section \<open>Endpoints\<close>

datatype http_verb = GetVerb | PostVerb | PutVerb | DeleteVerb

text \<open>Where an argument of the service call comes from: a path parameter, the body, a field of it,
  the body with a path parameter put into it, the validated query, a number of the query with its
  default, the session of the caller, its user or token id, a literal, or a local of the handler.\<close>

datatype arg =
    ParamArg string
  | BodyArg
  | BodyFieldArg string
  | BodyWithParamArg string
  | QueryArg
  | QueryNumberArg string nat
  | UserArg
  | UserIdArg
  | UserJtiArg
  | FlagArg bool
  | LocalArg string

text \<open>What a handler does: \<open>super.method(...)\<close> of the generic controller over a service, a method of
  a service, a page template, or something of its own.\<close>

datatype callee =
    Super string string "arg list"
  | Service string string "arg list"
  | Render string
  | Own

record endpoint =
  ep_verb :: http_verb
  ep_path :: string
  ep_route :: route
  ep_code :: "nat option"
  ep_handler :: string
  ep_uuids :: "string list"
  ep_callee :: callee

definition endpoint ::
    "http_verb \<Rightarrow> string \<Rightarrow> route_meta \<Rightarrow> nat option \<Rightarrow> string \<Rightarrow> string list \<Rightarrow> callee \<Rightarrow> endpoint" where
  "endpoint verb path meta code handler uuids c =
     \<lparr>ep_verb = verb, ep_path = path, ep_route = \<lparr>on_handler = meta, on_class = no_meta\<rparr>, ep_code = code,
      ep_handler = handler, ep_uuids = uuids, ep_callee = c\<rparr>"

section \<open>The controllers\<close>

definition AuthController :: "endpoint list" where
  "AuthController =
    [endpoint PostVerb ''auth/login''
       (no_meta\<lparr>m_isPublic := Some True, m_skip_csrf_check := Some True\<rparr>) (Some 200)
       ''login'' [] (Service ''AuthService'' ''login'' [BodyFieldArg ''username'', BodyFieldArg ''password'', LocalArg ''ipAddress'', LocalArg ''userAgent'']),
     endpoint PostVerb ''auth/refresh''
       (no_meta\<lparr>m_isPublic := Some True\<rparr>) (Some 200)
       ''refresh'' [] (Service ''AuthService'' ''refresh'' [LocalArg ''refreshTokenRaw'']),
     endpoint PostVerb ''auth/logout''
       (no_meta\<lparr>m_skip_password_change_check := Some True, m_skip_permission_check := Some True\<rparr>) (Some 204)
       ''logout'' [] (Service ''AuthService'' ''logout'' [UserJtiArg, UserIdArg, LocalArg ''refreshTokenRaw'']),
     endpoint GetVerb ''auth/me''
       (no_meta\<lparr>m_skip_password_change_check := Some True, m_skip_permission_check := Some True\<rparr>) (Some 200)
       ''me'' [] (Own),
     endpoint PostVerb ''auth/change-password''
       (no_meta\<lparr>m_skip_password_change_check := Some True, m_skip_permission_check := Some True\<rparr>) (Some 204)
       ''changePassword'' [] (Service ''AuthService'' ''changePassword'' [UserIdArg, BodyArg]),
     endpoint PostVerb ''auth/credentials''
       (no_meta\<lparr>m_require_permission := Some ''user_account:set_password''\<rparr>) (Some 204)
       ''setCredential'' [] (Service ''AuthService'' ''setCredential'' [BodyArg, UserIdArg])]"

definition LoginHistoriesController :: "endpoint list" where
  "LoginHistoriesController =
    [endpoint GetVerb ''auth/login-histories''
       (no_meta\<lparr>m_require_permission := Some ''login_history:read''\<rparr>) None
       ''findPaginated'' [] (Super ''LoginHistoriesService'' ''findPaginated'' [QueryArg])]"

definition SessionsController :: "endpoint list" where
  "SessionsController =
    [endpoint GetVerb ''auth/sessions''
       (no_meta\<lparr>m_require_permission := Some ''session:read''\<rparr>) None
       ''findActive'' [] (Service ''SessionsService'' ''findActive'' [QueryNumberArg ''page'' 1, QueryNumberArg ''limit'' 20]),
     endpoint GetVerb ''auth/sessions/users/:user_id''
       (no_meta\<lparr>m_require_permission := Some ''session:read''\<rparr>) None
       ''findActiveForUser'' [''user_id''] (Service ''SessionsService'' ''findActiveForUser'' [ParamArg ''user_id'']),
     endpoint DeleteVerb ''auth/sessions/:jti''
       (no_meta\<lparr>m_require_permission := Some ''session:revoke''\<rparr>) (Some 204)
       ''revoke'' [''jti''] (Service ''SessionsService'' ''revoke'' [ParamArg ''jti'', UserIdArg])]"

definition auth_service_endpoints :: "endpoint list" where
  "auth_service_endpoints = AuthController @ LoginHistoriesController @ SessionsController"

definition UsersController :: "endpoint list" where
  "UsersController =
    [endpoint GetVerb ''users/test-graceful-shutdown''
       (no_meta\<lparr>m_isPublic := Some True\<rparr>) (Some 200)
       ''testGracefulShutdown'' [] (Own),
     endpoint PostVerb ''users''
       (no_meta\<lparr>m_require_permission := Some ''user_account:create''\<rparr>) (Some 201)
       ''create'' [] (Super ''UsersService'' ''create'' [BodyArg, UserArg]),
     endpoint GetVerb ''users''
       (no_meta\<lparr>m_require_permission := Some ''user_account:read''\<rparr>) None
       ''findPaginated'' [] (Super ''UsersService'' ''findPaginated'' [QueryArg]),
     endpoint GetVerb ''users/:id''
       (no_meta\<lparr>m_require_permission := Some ''user_account:read''\<rparr>) None
       ''findOne'' [''id''] (Super ''UsersService'' ''findOne'' [ParamArg ''id'']),
     endpoint PutVerb ''users/:id''
       (no_meta\<lparr>m_require_permission := Some ''user_account:create''\<rparr>) (Some 200)
       ''update'' [''id''] (Super ''UsersService'' ''update'' [ParamArg ''id'', BodyArg, UserArg]),
     endpoint GetVerb ''users/:id/roles''
       (no_meta\<lparr>m_require_permission := Some ''user_account:read''\<rparr>) None
       ''findRoles'' [''id''] (Service ''UsersService'' ''findRoleIds'' [ParamArg ''id'']),
     endpoint PutVerb ''users/:id/roles''
       (no_meta\<lparr>m_require_permission := Some ''user_account:assign_role''\<rparr>) (Some 204)
       ''assignRoles'' [''id''] (Service ''UsersService'' ''assignRoles'' [ParamArg ''id'', BodyFieldArg ''role_ids'', UserIdArg]),
     endpoint PostVerb ''users/:id/reset-password''
       (no_meta\<lparr>m_require_permission := Some ''user_account:reset_password''\<rparr>) (Some 200)
       ''resetPassword'' [''id''] (Service ''UsersService'' ''resetPassword'' [ParamArg ''id'', UserArg]),
     endpoint DeleteVerb ''users/:id''
       (no_meta\<lparr>m_require_permission := Some ''user_account:create''\<rparr>) (Some 204)
       ''softDelete'' [''id''] (Super ''UsersService'' ''softDelete'' [ParamArg ''id'', UserArg])]"

definition RolesController :: "endpoint list" where
  "RolesController =
    [endpoint PostVerb ''roles''
       (no_meta\<lparr>m_require_permission := Some ''role:create''\<rparr>) (Some 201)
       ''create'' [] (Super ''RolesService'' ''create'' [BodyArg, UserArg]),
     endpoint GetVerb ''roles''
       (no_meta\<lparr>m_require_permission := Some ''role:read''\<rparr>) None
       ''findPaginated'' [] (Super ''RolesService'' ''findPaginated'' [QueryArg]),
     endpoint GetVerb ''roles/:id''
       (no_meta\<lparr>m_require_permission := Some ''role:read''\<rparr>) None
       ''findOne'' [''id''] (Super ''RolesService'' ''findOne'' [ParamArg ''id'']),
     endpoint PutVerb ''roles/:id''
       (no_meta\<lparr>m_require_permission := Some ''role:update''\<rparr>) (Some 200)
       ''update'' [''id''] (Super ''RolesService'' ''update'' [ParamArg ''id'', BodyArg, UserArg]),
     endpoint GetVerb ''roles/:id/policies''
       (no_meta\<lparr>m_require_permission := Some ''role:read''\<rparr>) None
       ''findPolicies'' [''id''] (Service ''RolesService'' ''findPolicyIds'' [ParamArg ''id'']),
     endpoint PutVerb ''roles/:id/policies''
       (no_meta\<lparr>m_require_permission := Some ''role:update''\<rparr>) (Some 204)
       ''attachPolicies'' [''id''] (Service ''RolesService'' ''attachPolicies'' [ParamArg ''id'', BodyFieldArg ''policy_ids'', UserIdArg]),
     endpoint DeleteVerb ''roles/:id''
       (no_meta\<lparr>m_require_permission := Some ''role:update''\<rparr>) (Some 204)
       ''softDelete'' [''id''] (Super ''RolesService'' ''softDelete'' [ParamArg ''id'', UserArg])]"

definition PoliciesController :: "endpoint list" where
  "PoliciesController =
    [endpoint PostVerb ''policies''
       (no_meta\<lparr>m_require_permission := Some ''policy:create''\<rparr>) (Some 201)
       ''create'' [] (Super ''PoliciesService'' ''create'' [BodyArg, UserArg]),
     endpoint GetVerb ''policies''
       (no_meta\<lparr>m_require_permission := Some ''policy:read''\<rparr>) None
       ''findPaginated'' [] (Super ''PoliciesService'' ''findPaginated'' [QueryArg]),
     endpoint GetVerb ''policies/:id''
       (no_meta\<lparr>m_require_permission := Some ''policy:read''\<rparr>) None
       ''findOne'' [''id''] (Super ''PoliciesService'' ''findOne'' [ParamArg ''id'']),
     endpoint PutVerb ''policies/:id''
       (no_meta\<lparr>m_require_permission := Some ''policy:create''\<rparr>) (Some 200)
       ''update'' [''id''] (Super ''PoliciesService'' ''update'' [ParamArg ''id'', BodyArg, UserArg]),
     endpoint GetVerb ''policies/:id/statements''
       (no_meta\<lparr>m_require_permission := Some ''policy:read''\<rparr>) None
       ''getStatements'' [''id''] (Service ''PoliciesService'' ''getStatements'' [ParamArg ''id'']),
     endpoint PutVerb ''policies/:id/statements''
       (no_meta\<lparr>m_require_permission := Some ''policy:create''\<rparr>) (Some 204)
       ''setStatements'' [''id''] (Service ''PoliciesService'' ''setStatements'' [ParamArg ''id'', BodyFieldArg ''statements'', UserIdArg]),
     endpoint DeleteVerb ''policies/:id''
       (no_meta\<lparr>m_require_permission := Some ''policy:create''\<rparr>) (Some 204)
       ''softDelete'' [''id''] (Super ''PoliciesService'' ''softDelete'' [ParamArg ''id'', UserArg])]"

definition PermissionsController :: "endpoint list" where
  "PermissionsController =
    [endpoint GetVerb ''permissions''
       (no_meta\<lparr>m_require_permission := Some ''permission:read''\<rparr>) None
       ''findPaginated'' [] (Service ''PermissionsService'' ''findPaginated'' [QueryArg]),
     endpoint GetVerb ''permissions/:id''
       (no_meta\<lparr>m_require_permission := Some ''permission:read''\<rparr>) None
       ''findOne'' [''id''] (Service ''PermissionsService'' ''findById'' [ParamArg ''id'']),
     endpoint PostVerb ''permissions''
       (no_meta\<lparr>m_require_permission := Some ''permission:create''\<rparr>) (Some 201)
       ''create'' [] (Service ''PermissionsService'' ''createManual'' [BodyArg, UserArg]),
     endpoint PutVerb ''permissions/:id''
       (no_meta\<lparr>m_require_permission := Some ''permission:update''\<rparr>) (Some 200)
       ''update'' [''id''] (Service ''PermissionsService'' ''updateManual'' [ParamArg ''id'', BodyArg, UserArg]),
     endpoint DeleteVerb ''permissions/:id''
       (no_meta\<lparr>m_require_permission := Some ''permission:delete''\<rparr>) (Some 204)
       ''remove'' [''id''] (Service ''PermissionsService'' ''removeManual'' [ParamArg ''id'', UserArg])]"

definition PermissionSyncsController :: "endpoint list" where
  "PermissionSyncsController =
    [endpoint GetVerb ''permission-syncs''
       (no_meta\<lparr>m_require_permission := Some ''permission_sync:read''\<rparr>) None
       ''findPaginated'' [] (Service ''PermissionSyncLogsService'' ''findPaginated'' [QueryArg]),
     endpoint GetVerb ''permission-syncs/:id''
       (no_meta\<lparr>m_require_permission := Some ''permission_sync:read''\<rparr>) None
       ''findOne'' [''id''] (Service ''PermissionSyncLogsService'' ''findById'' [ParamArg ''id'']),
     endpoint PostVerb ''permission-syncs''
       (no_meta\<lparr>m_require_permission := Some ''permission_sync:create''\<rparr>) (Some 201)
       ''create'' [] (Service ''PermissionsSyncService'' ''runSync'' [LocalArg ''triggeredBy''])]"

definition AccessKeysController :: "endpoint list" where
  "AccessKeysController =
    [endpoint PostVerb ''access-keys''
       (no_meta\<lparr>m_require_permission := Some ''access_key:create''\<rparr>) (Some 201)
       ''issue'' [] (Service ''AccessKeysService'' ''issue'' [BodyArg, UserArg]),
     endpoint GetVerb ''access-keys''
       (no_meta\<lparr>m_require_permission := Some ''access_key:read''\<rparr>) None
       ''findPaginated'' [] (Super ''AccessKeysService'' ''findPaginated'' [QueryArg]),
     endpoint GetVerb ''access-keys/:id''
       (no_meta\<lparr>m_require_permission := Some ''access_key:read''\<rparr>) None
       ''findOne'' [''id''] (Super ''AccessKeysService'' ''findOne'' [ParamArg ''id'']),
     endpoint PutVerb ''access-keys/:id''
       (no_meta\<lparr>m_require_permission := Some ''access_key:update''\<rparr>) (Some 200)
       ''update'' [''id''] (Super ''AccessKeysService'' ''update'' [ParamArg ''id'', BodyArg, UserArg]),
     endpoint GetVerb ''access-keys/:id/policies''
       (no_meta\<lparr>m_require_permission := Some ''access_key:read''\<rparr>) None
       ''findPolicies'' [''id''] (Service ''AccessKeysService'' ''findPolicyIds'' [ParamArg ''id'']),
     endpoint PutVerb ''access-keys/:id/policies''
       (no_meta\<lparr>m_require_permission := Some ''access_key:update''\<rparr>) (Some 204)
       ''attachPolicies'' [''id''] (Service ''AccessKeysService'' ''attachPolicies'' [ParamArg ''id'', BodyFieldArg ''policy_ids'']),
     endpoint DeleteVerb ''access-keys/:id/revoke''
       (no_meta\<lparr>m_require_permission := Some ''access_key:revoke''\<rparr>) (Some 204)
       ''revoke'' [''id''] (Service ''AccessKeysService'' ''revoke'' [ParamArg ''id'', UserArg]),
     endpoint DeleteVerb ''access-keys/:id''
       (no_meta\<lparr>m_require_permission := Some ''access_key:delete''\<rparr>) (Some 204)
       ''softDelete'' [''id''] (Super ''AccessKeysService'' ''softDelete'' [ParamArg ''id'', UserArg])]"

definition ViewsIndexController :: "endpoint list" where
  "ViewsIndexController =
    [endpoint GetVerb ''views''
       (no_meta\<lparr>m_isPublic := Some True\<rparr>) None
       ''index'' [] (Own)]"

definition DashboardViewController :: "endpoint list" where
  "DashboardViewController =
    [endpoint GetVerb ''views/dashboard''
       (no_meta\<lparr>m_isPublic := Some True\<rparr>) None
       ''page'' [] (Render ''pages/dashboard/index'')]"

definition UsersViewController :: "endpoint list" where
  "UsersViewController =
    [endpoint GetVerb ''views/users''
       (no_meta\<lparr>m_isPublic := Some True\<rparr>) None
       ''page'' [] (Render ''pages/users/index''),
     endpoint GetVerb ''views/users/new''
       (no_meta\<lparr>m_isPublic := Some True\<rparr>) None
       ''newPage'' [] (Render ''pages/users/form''),
     endpoint GetVerb ''views/users/:id/edit''
       (no_meta\<lparr>m_isPublic := Some True\<rparr>) None
       ''editPage'' [''id''] (Render ''pages/users/form'')]"

definition RolesViewController :: "endpoint list" where
  "RolesViewController =
    [endpoint GetVerb ''views/roles''
       (no_meta\<lparr>m_isPublic := Some True\<rparr>) None
       ''page'' [] (Render ''pages/roles/index''),
     endpoint GetVerb ''views/roles/new''
       (no_meta\<lparr>m_isPublic := Some True\<rparr>) None
       ''newPage'' [] (Render ''pages/roles/form''),
     endpoint GetVerb ''views/roles/:id/edit''
       (no_meta\<lparr>m_isPublic := Some True\<rparr>) None
       ''editPage'' [''id''] (Render ''pages/roles/form'')]"

definition PoliciesViewController :: "endpoint list" where
  "PoliciesViewController =
    [endpoint GetVerb ''views/policies''
       (no_meta\<lparr>m_isPublic := Some True\<rparr>) None
       ''page'' [] (Render ''pages/policies/index''),
     endpoint GetVerb ''views/policies/new''
       (no_meta\<lparr>m_isPublic := Some True\<rparr>) None
       ''newPage'' [] (Render ''pages/policies/form''),
     endpoint GetVerb ''views/policies/:id/edit''
       (no_meta\<lparr>m_isPublic := Some True\<rparr>) None
       ''editPage'' [''id''] (Render ''pages/policies/form'')]"

definition PermissionsViewController :: "endpoint list" where
  "PermissionsViewController =
    [endpoint GetVerb ''views/permissions''
       (no_meta\<lparr>m_isPublic := Some True\<rparr>) None
       ''page'' [] (Render ''pages/permissions/index'')]"

definition PermissionSyncLogsViewController :: "endpoint list" where
  "PermissionSyncLogsViewController =
    [endpoint GetVerb ''views/permission-sync-logs''
       (no_meta\<lparr>m_isPublic := Some True\<rparr>) None
       ''page'' [] (Render ''pages/permission-sync-logs/index'')]"

definition AccessKeysViewController :: "endpoint list" where
  "AccessKeysViewController =
    [endpoint GetVerb ''views/access-keys''
       (no_meta\<lparr>m_isPublic := Some True\<rparr>) None
       ''page'' [] (Render ''pages/access-keys/index''),
     endpoint GetVerb ''views/access-keys/new''
       (no_meta\<lparr>m_isPublic := Some True\<rparr>) None
       ''newPage'' [] (Render ''pages/access-keys/form''),
     endpoint GetVerb ''views/access-keys/:id/edit''
       (no_meta\<lparr>m_isPublic := Some True\<rparr>) None
       ''editPage'' [''id''] (Render ''pages/access-keys/form'')]"

definition PrintTemplatesViewController :: "endpoint list" where
  "PrintTemplatesViewController =
    [endpoint GetVerb ''views/print-templates''
       (no_meta\<lparr>m_isPublic := Some True\<rparr>) None
       ''page'' [] (Render ''pages/print-templates/index''),
     endpoint GetVerb ''views/print-templates/new''
       (no_meta\<lparr>m_isPublic := Some True\<rparr>) None
       ''newPage'' [] (Render ''pages/print-templates/form''),
     endpoint GetVerb ''views/print-templates/:id/edit''
       (no_meta\<lparr>m_isPublic := Some True\<rparr>) None
       ''editPage'' [''id''] (Render ''pages/print-templates/form'')]"

definition DocumentTypesViewController :: "endpoint list" where
  "DocumentTypesViewController =
    [endpoint GetVerb ''views/document-types''
       (no_meta\<lparr>m_isPublic := Some True\<rparr>) None
       ''page'' [] (Render ''pages/document-types/index''),
     endpoint GetVerb ''views/document-types/new''
       (no_meta\<lparr>m_isPublic := Some True\<rparr>) None
       ''newPage'' [] (Render ''pages/document-types/form''),
     endpoint GetVerb ''views/document-types/:id/edit''
       (no_meta\<lparr>m_isPublic := Some True\<rparr>) None
       ''editPage'' [''id''] (Render ''pages/document-types/form'')]"

definition AuditLogsViewController :: "endpoint list" where
  "AuditLogsViewController =
    [endpoint GetVerb ''views/audit-logs''
       (no_meta\<lparr>m_isPublic := Some True\<rparr>) None
       ''page'' [] (Render ''pages/audit-logs/index'')]"

definition SessionsViewController :: "endpoint list" where
  "SessionsViewController =
    [endpoint GetVerb ''views/sessions''
       (no_meta\<lparr>m_isPublic := Some True\<rparr>) None
       ''page'' [] (Render ''pages/sessions/index'')]"

definition SystemSettingViewController :: "endpoint list" where
  "SystemSettingViewController =
    [endpoint GetVerb ''views/system-setting''
       (no_meta\<lparr>m_isPublic := Some True\<rparr>) None
       ''page'' [] (Render ''pages/system-setting/index'')]"

definition iam_endpoints :: "endpoint list" where
  "iam_endpoints = UsersController @ RolesController @ PoliciesController @ PermissionsController @ PermissionSyncsController @ AccessKeysController @ ViewsIndexController @ DashboardViewController @ UsersViewController @ RolesViewController @ PoliciesViewController @ PermissionsViewController @ PermissionSyncLogsViewController @ AccessKeysViewController @ PrintTemplatesViewController @ DocumentTypesViewController @ AuditLogsViewController @ SessionsViewController @ SystemSettingViewController"

definition UomsController :: "endpoint list" where
  "UomsController =
    [endpoint PostVerb ''uoms''
       (no_meta\<lparr>m_require_permission := Some ''uom:create''\<rparr>) (Some 201)
       ''create'' [] (Super ''UomsService'' ''create'' [BodyArg, UserArg]),
     endpoint GetVerb ''uoms''
       (no_meta\<lparr>m_require_permission := Some ''uom:view''\<rparr>) None
       ''findPaginated'' [] (Super ''UomsService'' ''findPaginated'' [QueryArg]),
     endpoint GetVerb ''uoms/:id''
       (no_meta\<lparr>m_require_permission := Some ''uom:view''\<rparr>) None
       ''findOne'' [''id''] (Super ''UomsService'' ''findOne'' [ParamArg ''id'']),
     endpoint PutVerb ''uoms/:id''
       (no_meta\<lparr>m_require_permission := Some ''uom:update''\<rparr>) (Some 200)
       ''update'' [''id''] (Super ''UomsService'' ''update'' [ParamArg ''id'', BodyArg, UserArg]),
     endpoint DeleteVerb ''uoms/:id''
       (no_meta\<lparr>m_require_permission := Some ''uom:update''\<rparr>) (Some 204)
       ''softDelete'' [''id''] (Super ''UomsService'' ''softDelete'' [ParamArg ''id'', UserArg])]"

definition BrandsController :: "endpoint list" where
  "BrandsController =
    [endpoint PostVerb ''brands''
       (no_meta\<lparr>m_require_permission := Some ''brand:create''\<rparr>) (Some 201)
       ''create'' [] (Super ''BrandsService'' ''create'' [BodyArg, UserArg]),
     endpoint GetVerb ''brands''
       (no_meta\<lparr>m_require_permission := Some ''brand:view''\<rparr>) None
       ''findPaginated'' [] (Super ''BrandsService'' ''findPaginated'' [QueryArg]),
     endpoint GetVerb ''brands/:id''
       (no_meta\<lparr>m_require_permission := Some ''brand:view''\<rparr>) None
       ''findOne'' [''id''] (Super ''BrandsService'' ''findOne'' [ParamArg ''id'']),
     endpoint PutVerb ''brands/:id''
       (no_meta\<lparr>m_require_permission := Some ''brand:update''\<rparr>) (Some 200)
       ''update'' [''id''] (Super ''BrandsService'' ''update'' [ParamArg ''id'', BodyArg, UserArg]),
     endpoint DeleteVerb ''brands/:id''
       (no_meta\<lparr>m_require_permission := Some ''brand:update''\<rparr>) (Some 204)
       ''softDelete'' [''id''] (Super ''BrandsService'' ''softDelete'' [ParamArg ''id'', UserArg])]"

definition ItemGroupsController :: "endpoint list" where
  "ItemGroupsController =
    [endpoint PostVerb ''item-groups''
       (no_meta\<lparr>m_require_permission := Some ''item-group:create''\<rparr>) (Some 201)
       ''create'' [] (Super ''ItemGroupsService'' ''create'' [BodyArg, UserArg]),
     endpoint GetVerb ''item-groups''
       (no_meta\<lparr>m_require_permission := Some ''item-group:view''\<rparr>) None
       ''findPaginated'' [] (Super ''ItemGroupsService'' ''findPaginated'' [QueryArg]),
     endpoint GetVerb ''item-groups/:id''
       (no_meta\<lparr>m_require_permission := Some ''item-group:view''\<rparr>) None
       ''findOne'' [''id''] (Super ''ItemGroupsService'' ''findOne'' [ParamArg ''id'']),
     endpoint PutVerb ''item-groups/:id''
       (no_meta\<lparr>m_require_permission := Some ''item-group:update''\<rparr>) (Some 200)
       ''update'' [''id''] (Super ''ItemGroupsService'' ''update'' [ParamArg ''id'', BodyArg, UserArg]),
     endpoint DeleteVerb ''item-groups/:id''
       (no_meta\<lparr>m_require_permission := Some ''item-group:update''\<rparr>) (Some 204)
       ''softDelete'' [''id''] (Super ''ItemGroupsService'' ''softDelete'' [ParamArg ''id'', UserArg])]"

definition WarehousesController :: "endpoint list" where
  "WarehousesController =
    [endpoint PostVerb ''warehouses''
       (no_meta\<lparr>m_require_permission := Some ''warehouse:create''\<rparr>) (Some 201)
       ''create'' [] (Super ''WarehousesService'' ''create'' [BodyArg, UserArg]),
     endpoint GetVerb ''warehouses''
       (no_meta\<lparr>m_require_permission := Some ''warehouse:view''\<rparr>) None
       ''findPaginated'' [] (Super ''WarehousesService'' ''findPaginated'' [QueryArg]),
     endpoint GetVerb ''warehouses/:id''
       (no_meta\<lparr>m_require_permission := Some ''warehouse:view''\<rparr>) None
       ''findOne'' [''id''] (Super ''WarehousesService'' ''findOne'' [ParamArg ''id'']),
     endpoint PutVerb ''warehouses/:id''
       (no_meta\<lparr>m_require_permission := Some ''warehouse:update''\<rparr>) (Some 200)
       ''update'' [''id''] (Super ''WarehousesService'' ''update'' [ParamArg ''id'', BodyArg, UserArg]),
     endpoint DeleteVerb ''warehouses/:id''
       (no_meta\<lparr>m_require_permission := Some ''warehouse:update''\<rparr>) (Some 204)
       ''softDelete'' [''id''] (Super ''WarehousesService'' ''softDelete'' [ParamArg ''id'', UserArg])]"

definition ItemAttributesController :: "endpoint list" where
  "ItemAttributesController =
    [endpoint PostVerb ''item-attributes''
       (no_meta\<lparr>m_require_permission := Some ''item-attribute:create''\<rparr>) (Some 201)
       ''create'' [] (Super ''ItemAttributesService'' ''create'' [BodyArg, UserArg]),
     endpoint GetVerb ''item-attributes''
       (no_meta\<lparr>m_require_permission := Some ''item-attribute:view''\<rparr>) None
       ''findPaginated'' [] (Super ''ItemAttributesService'' ''findPaginated'' [QueryArg]),
     endpoint GetVerb ''item-attributes/:id''
       (no_meta\<lparr>m_require_permission := Some ''item-attribute:view''\<rparr>) None
       ''findOne'' [''id''] (Super ''ItemAttributesService'' ''findOne'' [ParamArg ''id'']),
     endpoint PutVerb ''item-attributes/:id''
       (no_meta\<lparr>m_require_permission := Some ''item-attribute:update''\<rparr>) (Some 200)
       ''update'' [''id''] (Super ''ItemAttributesService'' ''update'' [ParamArg ''id'', BodyArg, UserArg]),
     endpoint DeleteVerb ''item-attributes/:id''
       (no_meta\<lparr>m_require_permission := Some ''item-attribute:update''\<rparr>) (Some 204)
       ''softDelete'' [''id''] (Super ''ItemAttributesService'' ''softDelete'' [ParamArg ''id'', UserArg])]"

definition ItemAttributeValuesController :: "endpoint list" where
  "ItemAttributeValuesController =
    [endpoint PostVerb ''item-attributes/:attribute_id/values''
       (no_meta\<lparr>m_require_permission := Some ''item-attribute:update''\<rparr>) (Some 201)
       ''create'' [''attribute_id''] (Service ''ItemAttributeValuesService'' ''create'' [BodyWithParamArg ''attribute_id'', UserArg]),
     endpoint GetVerb ''item-attributes/:attribute_id/values''
       (no_meta\<lparr>m_require_permission := Some ''item-attribute:view''\<rparr>) None
       ''findPaginated'' [''attribute_id''] (Service ''ItemAttributeValuesService'' ''findPaginatedByAttributeId'' [ParamArg ''attribute_id'', QueryArg]),
     endpoint GetVerb ''item-attributes/:attribute_id/values/:value_id''
       (no_meta\<lparr>m_require_permission := Some ''item-attribute:view''\<rparr>) None
       ''findOne'' [''value_id''] (Service ''ItemAttributeValuesService'' ''findById'' [ParamArg ''value_id'']),
     endpoint PutVerb ''item-attributes/:attribute_id/values/:value_id''
       (no_meta\<lparr>m_require_permission := Some ''item-attribute:update''\<rparr>) (Some 200)
       ''update'' [''value_id''] (Service ''ItemAttributeValuesService'' ''update'' [ParamArg ''value_id'', BodyArg, UserArg]),
     endpoint DeleteVerb ''item-attributes/:attribute_id/values/:value_id''
       (no_meta\<lparr>m_require_permission := Some ''item-attribute:update''\<rparr>) (Some 204)
       ''softDelete'' [''value_id''] (Service ''ItemAttributeValuesService'' ''delete'' [ParamArg ''value_id'', FlagArg True, UserArg])]"

definition ProductsController :: "endpoint list" where
  "ProductsController =
    [endpoint PostVerb ''products''
       (no_meta\<lparr>m_require_permission := Some ''product:create''\<rparr>) (Some 201)
       ''create'' [] (Super ''ProductsService'' ''create'' [BodyArg, UserArg]),
     endpoint GetVerb ''products''
       (no_meta\<lparr>m_require_permission := Some ''product:view''\<rparr>) None
       ''findPaginated'' [] (Super ''ProductsService'' ''findPaginated'' [QueryArg]),
     endpoint GetVerb ''products/:id''
       (no_meta\<lparr>m_require_permission := Some ''product:view''\<rparr>) None
       ''findOne'' [''id''] (Super ''ProductsService'' ''findOne'' [ParamArg ''id'']),
     endpoint PutVerb ''products/:id''
       (no_meta\<lparr>m_require_permission := Some ''product:update''\<rparr>) (Some 200)
       ''update'' [''id''] (Super ''ProductsService'' ''update'' [ParamArg ''id'', BodyArg, UserArg]),
     endpoint DeleteVerb ''products/:id''
       (no_meta\<lparr>m_require_permission := Some ''product:update''\<rparr>) (Some 204)
       ''softDelete'' [''id''] (Super ''ProductsService'' ''softDelete'' [ParamArg ''id'', UserArg]),
     endpoint PostVerb ''products/:id/generate-variants''
       (no_meta\<lparr>m_require_permission := Some ''product:update''\<rparr>) (Some 201)
       ''generateVariants'' [''id''] (Service ''ProductsService'' ''generateVariants'' [ParamArg ''id'', BodyArg, UserArg])]"

definition ItemVariantAttributesController :: "endpoint list" where
  "ItemVariantAttributesController =
    [endpoint GetVerb ''products/:product_id/variant-attributes''
       (no_meta\<lparr>m_require_permission := Some ''product:view''\<rparr>) None
       ''findPaginated'' [''product_id''] (Service ''ItemVariantAttributesService'' ''findPaginatedByVariantProductId'' [ParamArg ''product_id'', QueryArg])]"

definition UomConversionFactorsController :: "endpoint list" where
  "UomConversionFactorsController =
    [endpoint PostVerb ''products/:product_id/uom-conversions''
       (no_meta\<lparr>m_require_permission := Some ''product:update''\<rparr>) (Some 201)
       ''create'' [''product_id''] (Service ''UomConversionFactorsService'' ''create'' [BodyWithParamArg ''product_id'', UserArg]),
     endpoint GetVerb ''products/:product_id/uom-conversions''
       (no_meta\<lparr>m_require_permission := Some ''product:view''\<rparr>) None
       ''findPaginated'' [''product_id''] (Service ''UomConversionFactorsService'' ''findPaginatedByProductId'' [ParamArg ''product_id'', QueryArg]),
     endpoint GetVerb ''products/:product_id/uom-conversions/:conversion_id''
       (no_meta\<lparr>m_require_permission := Some ''product:view''\<rparr>) None
       ''findOne'' [''conversion_id''] (Service ''UomConversionFactorsService'' ''findById'' [ParamArg ''conversion_id'']),
     endpoint PutVerb ''products/:product_id/uom-conversions/:conversion_id''
       (no_meta\<lparr>m_require_permission := Some ''product:update''\<rparr>) (Some 200)
       ''update'' [''conversion_id''] (Service ''UomConversionFactorsService'' ''update'' [ParamArg ''conversion_id'', BodyArg, UserArg]),
     endpoint DeleteVerb ''products/:product_id/uom-conversions/:conversion_id''
       (no_meta\<lparr>m_require_permission := Some ''product:update''\<rparr>) (Some 204)
       ''softDelete'' [''conversion_id''] (Service ''UomConversionFactorsService'' ''delete'' [ParamArg ''conversion_id'', FlagArg True, UserArg])]"

definition ReorderLevelsController :: "endpoint list" where
  "ReorderLevelsController =
    [endpoint PostVerb ''products/:product_id/reorder-levels''
       (no_meta\<lparr>m_require_permission := Some ''product:update''\<rparr>) (Some 201)
       ''create'' [''product_id''] (Service ''ReorderLevelsService'' ''create'' [BodyWithParamArg ''product_id'', UserArg]),
     endpoint GetVerb ''products/:product_id/reorder-levels''
       (no_meta\<lparr>m_require_permission := Some ''product:view''\<rparr>) None
       ''findPaginated'' [''product_id''] (Service ''ReorderLevelsService'' ''findPaginatedByProductId'' [ParamArg ''product_id'', QueryArg]),
     endpoint GetVerb ''products/:product_id/reorder-levels/:reorder_level_id''
       (no_meta\<lparr>m_require_permission := Some ''product:view''\<rparr>) None
       ''findOne'' [''reorder_level_id''] (Service ''ReorderLevelsService'' ''findById'' [ParamArg ''reorder_level_id'']),
     endpoint PutVerb ''products/:product_id/reorder-levels/:reorder_level_id''
       (no_meta\<lparr>m_require_permission := Some ''product:update''\<rparr>) (Some 200)
       ''update'' [''reorder_level_id''] (Service ''ReorderLevelsService'' ''update'' [ParamArg ''reorder_level_id'', BodyArg, UserArg]),
     endpoint DeleteVerb ''products/:product_id/reorder-levels/:reorder_level_id''
       (no_meta\<lparr>m_require_permission := Some ''product:update''\<rparr>) (Some 204)
       ''softDelete'' [''reorder_level_id''] (Service ''ReorderLevelsService'' ''delete'' [ParamArg ''reorder_level_id'', FlagArg True, UserArg])]"

definition inventory_endpoints :: "endpoint list" where
  "inventory_endpoints = UomsController @ BrandsController @ ItemGroupsController @ WarehousesController @ ItemAttributesController @ ItemAttributeValuesController @ ProductsController @ ItemVariantAttributesController @ UomConversionFactorsController @ ReorderLevelsController"

definition PrintController :: "endpoint list" where
  "PrintController =
    [endpoint PostVerb ''invoices/mock-pdf''
       (no_meta\<lparr>m_require_permission := Some ''report:print_invoice''\<rparr>) (Some 201)
       ''printMockInvoice'' [] (Service ''InvoicePrintService'' ''printMockInvoice'' [BodyArg])]"

definition PrintTemplatesController :: "endpoint list" where
  "PrintTemplatesController =
    [endpoint PostVerb ''print-templates''
       (no_meta\<lparr>m_require_permission := Some ''report:print_template_create''\<rparr>) (Some 201)
       ''create'' [] (Super ''PrintTemplatesService'' ''create'' [BodyArg, UserArg]),
     endpoint GetVerb ''print-templates''
       (no_meta\<lparr>m_require_permission := Some ''report:print_template_read''\<rparr>) None
       ''findPaginated'' [] (Super ''PrintTemplatesService'' ''findPaginated'' [QueryArg]),
     endpoint GetVerb ''print-templates/:id''
       (no_meta\<lparr>m_require_permission := Some ''report:print_template_read''\<rparr>) None
       ''findOne'' [''id''] (Super ''PrintTemplatesService'' ''findOne'' [ParamArg ''id'']),
     endpoint PutVerb ''print-templates/:id''
       (no_meta\<lparr>m_require_permission := Some ''report:print_template_update''\<rparr>) (Some 200)
       ''update'' [''id''] (Super ''PrintTemplatesService'' ''update'' [ParamArg ''id'', BodyArg, UserArg]),
     endpoint DeleteVerb ''print-templates/:id''
       (no_meta\<lparr>m_require_permission := Some ''report:print_template_delete''\<rparr>) (Some 204)
       ''softDelete'' [''id''] (Super ''PrintTemplatesService'' ''softDelete'' [ParamArg ''id'', UserArg]),
     endpoint PostVerb ''print-templates/preview''
       (no_meta\<lparr>m_require_permission := Some ''report:print_template_render''\<rparr>) (Some 200)
       ''preview'' [] (Service ''PrintTemplatesService'' ''previewRender'' [BodyFieldArg ''html_content'', BodyFieldArg ''paper_size'', BodyFieldArg ''orientation'', BodyFieldArg ''template_engine'', BodyFieldArg ''params'', BodyFieldArg ''js_content'']),
     endpoint PostVerb ''print-templates/:id/render''
       (no_meta\<lparr>m_require_permission := Some ''report:print_template_render''\<rparr>) (Some 201)
       ''render'' [''id''] (Service ''PrintTemplatesService'' ''render'' [ParamArg ''id'', BodyFieldArg ''params''])]"

definition DocumentTypesController :: "endpoint list" where
  "DocumentTypesController =
    [endpoint PostVerb ''document-types''
       (no_meta\<lparr>m_require_permission := Some ''report:document_type_create''\<rparr>) (Some 201)
       ''create'' [] (Super ''DocumentTypesService'' ''create'' [BodyArg, UserArg]),
     endpoint GetVerb ''document-types''
       (no_meta\<lparr>m_require_permission := Some ''report:document_type_read''\<rparr>) None
       ''findPaginated'' [] (Super ''DocumentTypesService'' ''findPaginated'' [QueryArg]),
     endpoint GetVerb ''document-types/:id''
       (no_meta\<lparr>m_require_permission := Some ''report:document_type_read''\<rparr>) None
       ''findOne'' [''id''] (Super ''DocumentTypesService'' ''findOne'' [ParamArg ''id'']),
     endpoint PutVerb ''document-types/:id''
       (no_meta\<lparr>m_require_permission := Some ''report:document_type_update''\<rparr>) (Some 200)
       ''update'' [''id''] (Super ''DocumentTypesService'' ''update'' [ParamArg ''id'', BodyArg, UserArg]),
     endpoint DeleteVerb ''document-types/:id''
       (no_meta\<lparr>m_require_permission := Some ''report:document_type_delete''\<rparr>) (Some 204)
       ''softDelete'' [''id''] (Super ''DocumentTypesService'' ''softDelete'' [ParamArg ''id'', UserArg]),
     endpoint GetVerb ''document-types/:id/running-number''
       (no_meta\<lparr>m_require_permission := Some ''report:document_type_running_number_read''\<rparr>) None
       ''getRunningNumberStatus'' [''id''] (Service ''DocumentTypesService'' ''getRunningNumberStatus'' [ParamArg ''id'']),
     endpoint PostVerb ''document-types/:id/running-number/next''
       (no_meta\<lparr>m_require_permission := Some ''report:document_type_running_number_generate''\<rparr>) (Some 201)
       ''generateNextRunningNumber'' [''id''] (Service ''DocumentTypesService'' ''generateNextRunningNumber'' [ParamArg ''id''])]"

definition report_endpoints :: "endpoint list" where
  "report_endpoints = PrintController @ PrintTemplatesController @ DocumentTypesController"

definition SuppliersController :: "endpoint list" where
  "SuppliersController =
    [endpoint PostVerb ''suppliers''
       (no_meta\<lparr>m_require_permission := Some ''supplier:create''\<rparr>) (Some 201)
       ''create'' [] (Super ''SuppliersService'' ''create'' [BodyArg, UserArg]),
     endpoint GetVerb ''suppliers''
       (no_meta\<lparr>m_require_permission := Some ''supplier:view''\<rparr>) None
       ''findPaginated'' [] (Super ''SuppliersService'' ''findPaginated'' [QueryArg]),
     endpoint GetVerb ''suppliers/:id''
       (no_meta\<lparr>m_require_permission := Some ''supplier:view''\<rparr>) None
       ''findOne'' [''id''] (Super ''SuppliersService'' ''findOne'' [ParamArg ''id'']),
     endpoint PutVerb ''suppliers/:id''
       (no_meta\<lparr>m_require_permission := Some ''supplier:update''\<rparr>) (Some 200)
       ''update'' [''id''] (Super ''SuppliersService'' ''update'' [ParamArg ''id'', BodyArg, UserArg]),
     endpoint DeleteVerb ''suppliers/:id''
       (no_meta\<lparr>m_require_permission := Some ''supplier:update''\<rparr>) (Some 204)
       ''softDelete'' [''id''] (Super ''SuppliersService'' ''softDelete'' [ParamArg ''id'', UserArg])]"

definition supplier_endpoints :: "endpoint list" where
  "supplier_endpoints = SuppliersController"

definition api_services :: "(string \<times> endpoint list) list" where
  "api_services =
     [(''auth'', auth_service_endpoints), (''iam'', iam_endpoints), (''inventory-bc'', inventory_endpoints),
      (''report-bc'', report_endpoints), (''supplier-bc'', supplier_endpoints)]"

definition api_endpoints :: "endpoint list" where
  "api_endpoints = concat (map snd api_services)"

section \<open>How a request reaches a handler\<close>

text \<open>The methods of the generic controller: each forwards to its service, \<open>findOne\<close> as \<open>findById\<close>,
  and the two deletions as \<open>delete\<close> with the flag of a soft deletion.\<close>

definition BaseControllerOperations :: "string \<Rightarrow> string \<Rightarrow> arg list \<Rightarrow> callee" where
  "BaseControllerOperations service m args =
     (if m = ''findOne'' then Service service ''findById'' args
      else if m = ''softDelete'' then
        (case args of i # rest \<Rightarrow> Service service ''delete'' (i # FlagArg True # rest) | [] \<Rightarrow> Own)
      else if m = ''delete'' then
        (case args of i # rest \<Rightarrow> Service service ''delete'' (i # FlagArg False # rest) | [] \<Rightarrow> Own)
      else Service service m args)"

definition service_call :: "endpoint \<Rightarrow> callee" where
  "service_call e = (case ep_callee e of Super s m args \<Rightarrow> BaseControllerOperations s m args | c \<Rightarrow> c)"

definition verb_name :: "http_verb \<Rightarrow> string" where
  "verb_name v = (case v of GetVerb \<Rightarrow> ''GET'' | PostVerb \<Rightarrow> ''POST'' | PutVerb \<Rightarrow> ''PUT'' | DeleteVerb \<Rightarrow> ''DELETE'')"

definition path_template :: "endpoint \<Rightarrow> string list" where
  "path_template e = js_split (CHR ''/'') (ep_path e)"

definition is_param :: "string \<Rightarrow> bool" where
  "is_param t = is_prefix '':'' t"

text \<open>The part of the path after the global prefix of the service, \<open>setGlobalPrefix(pathURI)\<close>.\<close>

definition local_path :: "string \<Rightarrow> string \<Rightarrow> string option" where
  "local_path pathURI url =
     (let path = hd (js_split (CHR ''?'') url); root = ''/'' @ pathURI @ ''/'' in
      if is_prefix root path then Some (drop (length root) path) else None)"

fun match_path :: "string list \<Rightarrow> string list \<Rightarrow> (string \<times> string) list option" where
  "match_path [] [] = Some []"
| "match_path (t # ts) (s # ss) =
     (if is_param t then map_option ((#) (drop 1 t, s)) (match_path ts ss)
      else if t = s then match_path ts ss else None)"
| "match_path _ _ = None"

definition ParseUuidParamPipe :: "(string \<Rightarrow> bool) \<Rightarrow> string \<Rightarrow> string result" where
  "ParseUuidParamPipe isUUID value' =
     (if isUUID value' then Inr value' else Inl (HttpException BadRequest None ''Invalid Parameter Format''))"

fun parse_params :: "(string \<Rightarrow> bool) \<Rightarrow> (string \<times> string) list \<Rightarrow> string list \<Rightarrow> string list result" where
  "parse_params isUUID binds [] = Inr []"
| "parse_params isUUID binds (field # rest) =
     (case ParseUuidParamPipe isUUID (case map_of binds field of None \<Rightarrow> [] | Some v \<Rightarrow> v) of
        Inl x \<Rightarrow> Inl x
      | Inr v \<Rightarrow> (case parse_params isUUID binds rest of Inl x \<Rightarrow> Inl x | Inr vs \<Rightarrow> Inr (v # vs)))"

text \<open>The surroundings of a request: the prefix of the service, \<open>isUUID\<close>, the verification of
  tokens, the answers of the identity service, the date and time, and the live sessions.\<close>

record api_env =
  ae_prefix :: string
  ae_isUUID :: "string \<Rightarrow> bool"
  ae_jwt_verify :: "string \<Rightarrow> claims option"
  ae_guards :: guard_env
  ae_today :: string
  ae_clock_text :: string
  ae_redis :: redis

text \<open>One endpoint faced with a request: \<open>None\<close> when its verb or template does not fit, else the
  refusal or the call that is made, with the checked parameters and the user of the request.\<close>

definition routed :: "api_env \<Rightarrow> endpoint \<Rightarrow> http_request \<Rightarrow> (string \<times> string) list option" where
  "routed env e q =
     (if req_method q \<noteq> verb_name (ep_verb e) then None
      else case local_path (ae_prefix env) (req_url q) of
        None \<Rightarrow> None
      | Some path \<Rightarrow> match_path (path_template e) (js_split (CHR ''/'') path))"

definition with_params :: "(string \<times> string) list \<Rightarrow> http_request \<Rightarrow> http_request" where
  "with_params binds q = q\<lparr>params := map (\<lambda>(k, v). (k, JString v)) binds\<rparr>"

definition env_chain :: "api_env \<Rightarrow> endpoint \<Rightarrow> http_request \<Rightarrow> guard_redis \<Rightarrow> http_request result \<times> guard_redis" where
  "env_chain env e q g =
     guard_chain (ae_jwt_verify env) (ae_guards env) (ae_today env) (ae_clock_text env) (ae_redis env) (ep_route e) q g"

type_synonym served = "callee \<times> string list \<times> (user_session \<times> string list) option"

definition serve :: "api_env \<Rightarrow> endpoint \<Rightarrow> http_request \<Rightarrow> guard_redis \<Rightarrow> served result option \<times> guard_redis" where
  "serve env e q g =
     (case routed env e q of
        None \<Rightarrow> (None, g)
      | Some binds \<Rightarrow>
          (case env_chain env e (with_params binds q) g of
             (Inl x, g') \<Rightarrow> (Some (Inl x), g')
           | (Inr q', g') \<Rightarrow>
               (Some (case parse_params (ae_isUUID env) binds (ep_uuids e) of
                        Inl x \<Rightarrow> Inl x
                      | Inr vs \<Rightarrow> Inr (service_call e, vs, req_user q')), g')))"

section \<open>Endpoints that exclude each other\<close>

text \<open>Two templates differ at a fixed segment, in length, or one has a fixed segment, too short to
  be a UUID, where the other has a checked parameter.\<close>

fun segments_apart :: "string list \<Rightarrow> string list \<Rightarrow> string list \<Rightarrow> string list \<Rightarrow> bool" where
  "segments_apart us [] vs [] = False"
| "segments_apart us (t # ts) vs (s # ss) =
     ((if is_param t then \<not> is_param s \<and> drop 1 t \<in> set us \<and> length s < 36
       else if is_param s then drop 1 s \<in> set vs \<and> length t < 36
       else t \<noteq> s)
      \<or> segments_apart us ts vs ss)"
| "segments_apart us _ vs _ = True"

type_synonym shape = "http_verb \<times> string list \<times> string list"

definition shape :: "endpoint \<Rightarrow> shape" where
  "shape e = (ep_verb e, ep_uuids e, path_template e)"

fun apart :: "shape \<Rightarrow> shape \<Rightarrow> bool" where
  "apart (verb, us, ts) (verb', vs, ss) = (if verb = verb' then segments_apart us ts vs ss else True)"

fun params_distinct :: "shape \<Rightarrow> bool" where
  "params_distinct (verb, us, ts) = distinct (map (drop 1) (filter is_param ts))"

fun pairwise_apart :: "shape list \<Rightarrow> bool" where
  "pairwise_apart [] = True"
| "pairwise_apart (e # es) = (params_distinct e \<and> list_all (apart e) es \<and> pairwise_apart es)"

lemma parse_params_checked:
  "parse_params isUUID binds fs = Inr vs \<Longrightarrow> f \<in> set fs \<Longrightarrow> isUUID (case map_of binds f of None \<Rightarrow> [] | Some v \<Rightarrow> v)"
  by (induction fs arbitrary: vs) (auto simp: ParseUuidParamPipe_def split: sum.splits if_splits)

lemma match_path_keys: "match_path ts ss = Some b \<Longrightarrow> map fst b = map (drop 1) (filter is_param ts)"
  by (induction ts ss arbitrary: b rule: match_path.induct) (auto split: if_splits)

lemma match_path_ConsD:
  "match_path (t # ts) (y # ys) = Some b \<Longrightarrow> \<exists>b'. match_path ts ys = Some b' \<and> set b' \<subseteq> set b"
  by (auto split: if_splits)

text \<open>A segment that one template fixes and the other reads as a checked parameter decides.\<close>

lemma segments_apart_sound:
  assumes "segments_apart us ts vs ss" and "match_path ts x = Some b" and "match_path ss x = Some c"
    and "\<forall>u \<in> set us. \<forall>v. (u, v) \<in> set b \<longrightarrow> isUUID v" and "\<forall>u \<in> set vs. \<forall>v. (u, v) \<in> set c \<longrightarrow> isUUID v"
    and "\<forall>s. isUUID s \<longrightarrow> length s = 36"
  shows False
  using assms
proof (induction us ts vs ss arbitrary: x b c rule: segments_apart.induct)
  case (2 us t ts vs s ss)
  obtain y ys where x: "x = y # ys" using 2(3) by (cases x) auto
  show ?case
  proof (cases "segments_apart us ts vs ss")
    case True
    obtain b' c' where b': "match_path ts ys = Some b'" "set b' \<subseteq> set b"
        and c': "match_path ss ys = Some c'" "set c' \<subseteq> set c"
      using match_path_ConsD 2(3,4) unfolding x by blast
    show ?thesis using 2(1) [OF True b'(1) c'(1)] 2(5-7) b'(2) c'(2) by blast
  next
    case False
    have bound: "(drop 1 t, y) \<in> set b" if "is_param t" using 2(3) that by (auto simp: x)
    have bound': "(drop 1 s, y) \<in> set c" if "is_param s" using 2(4) that by (auto simp: x)
    have fixed: "t = y" if "\<not> is_param t" using 2(3) that by (simp add: x split: if_splits)
    have fixed': "s = y" if "\<not> is_param s" using 2(4) that by (simp add: x split: if_splits)
    have "is_param t \<and> \<not> is_param s \<and> drop 1 t \<in> set us \<and> length s < 36
        \<or> \<not> is_param t \<and> is_param s \<and> drop 1 s \<in> set vs \<and> length t < 36 \<or> \<not> is_param t \<and> \<not> is_param s \<and> t \<noteq> s"
      using 2(2) False by (simp split: if_splits)
    then consider "drop 1 t \<in> set us" "is_param t" "length y < 36" | "drop 1 s \<in> set vs" "is_param s" "length y < 36"
      using fixed fixed' by auto
    then show ?thesis
    proof cases
      case 1
      then have "length y = 36" using 2(5,7) bound by blast
      then show ?thesis using 1 by simp
    next
      case 2
      then have "length y = 36" using "2.prems"(5,6) bound' by blast
      then show ?thesis using 2 by simp
    qed
  qed
qed (auto elim: match_path.elims)

lemma match_path_map_of:
  assumes "match_path ts ss = Some b" and "distinct (map (drop 1) (filter is_param ts))" and "(u, v) \<in> set b"
  shows "map_of b u = Some v"
  using assms match_path_keys [OF assms(1)] by (simp add: map_of_eq_Some_iff)

lemma apart_exclusive:
  assumes "apart (shape e) (shape f)" and "params_distinct (shape e)" and "params_distinct (shape f)"
    and "routed env e q = Some b" and "parse_params (ae_isUUID env) b (ep_uuids e) = Inr vs"
    and "routed env f q = Some c" and "parse_params (ae_isUUID env) c (ep_uuids f) = Inr ws"
    and uuid: "\<forall>s. ae_isUUID env s \<longrightarrow> length s = 36"
  shows False
proof -
  obtain path where p: "match_path (path_template e) path = Some b" "match_path (path_template f) path = Some c"
      and v: "verb_name (ep_verb e) = verb_name (ep_verb f)"
    using assms(4,6) by (auto simp: routed_def split: if_splits option.splits)
  have "ep_verb e = ep_verb f" using v by (simp add: verb_name_def split: http_verb.splits)
  then have a: "segments_apart (ep_uuids e) (path_template e) (ep_uuids f) (path_template f)"
    using assms(1) by (simp add: shape_def)
  have "\<forall>u \<in> set (ep_uuids e). \<forall>v. (u, v) \<in> set b \<longrightarrow> ae_isUUID env v"
    using parse_params_checked [OF assms(5)] match_path_map_of [OF p(1)] assms(2)
    by (fastforce simp: shape_def)
  moreover have "\<forall>u \<in> set (ep_uuids f). \<forall>v. (u, v) \<in> set c \<longrightarrow> ae_isUUID env v"
    using parse_params_checked [OF assms(7)] match_path_map_of [OF p(2)] assms(3)
    by (fastforce simp: shape_def)
  ultimately show False using segments_apart_sound [OF a p] uuid by blast
qed

lemma pairwise_apart_params: "pairwise_apart es \<Longrightarrow> e \<in> set es \<Longrightarrow> params_distinct e"
  by (induction es) auto

lemma pairwise_apartD:
  "pairwise_apart (map shape es) \<Longrightarrow> e \<in> set es \<Longrightarrow> f \<in> set es
     \<Longrightarrow> e = f \<or> apart (shape e) (shape f) \<or> apart (shape f) (shape e)"
  by (induction es) (auto simp: list_all_iff)

text \<open>The tables, checked service by service.\<close>

lemma auth_apart: "pairwise_apart (map shape auth_service_endpoints)"
  by code_simp

lemma iam_apart: "pairwise_apart (map shape iam_endpoints)"
  by code_simp

lemma inventory_apart: "pairwise_apart (map shape inventory_endpoints)"
  by code_simp

lemma report_apart: "pairwise_apart (map shape report_endpoints)"
  by code_simp

lemma supplier_apart: "pairwise_apart (map shape supplier_endpoints)"
  by code_simp

lemma services_apart: "s \<in> set api_services \<Longrightarrow> pairwise_apart (map shape (snd s))"
  unfolding api_services_def
  using auth_apart iam_apart inventory_apart report_apart supplier_apart by auto

lemma serve_InrD:
  assumes "fst (serve env e q g) = Some (Inr a)"
  shows "\<exists>b vs. routed env e q = Some b \<and> parse_params (ae_isUUID env) b (ep_uuids e) = Inr vs"
  using assms by (auto simp: serve_def split: option.splits prod.splits sum.splits)

section \<open>Who is let in\<close>

text \<open>Endpoints without a login, and endpoints any logged-in user may call.\<close>

definition public_endpoint :: "endpoint \<Rightarrow> bool" where
  "public_endpoint e \<longleftrightarrow>
     (ep_verb e, ep_path e) \<in> set [(PostVerb, ''auth/login''), (PostVerb, ''auth/refresh''), (GetVerb, ''users/test-graceful-shutdown'')]
     \<or> ep_verb e = GetVerb \<and> is_prefix ''views'' (ep_path e)"

definition own_session_endpoint :: "endpoint \<Rightarrow> bool" where
  "own_session_endpoint e \<longleftrightarrow>
     (ep_verb e, ep_path e) \<in> set [(PostVerb, ''auth/logout''), (GetVerb, ''auth/me''), (PostVerb, ''auth/change-password'')]"

definition endpoint_permission :: "endpoint \<Rightarrow> string option" where
  "endpoint_permission e = required_permission (ep_route e)"

text \<open>The metadata of an endpoint is what its entry in the lists above says.\<close>

definition metadata_ok :: "endpoint \<Rightarrow> bool" where
  "metadata_ok e \<longleftrightarrow>
     flag m_isPublic (ep_route e) = public_endpoint e
     \<and> \<not> flag m_isAccessKeyRoute (ep_route e)
     \<and> flag m_skip_permission_check (ep_route e) = own_session_endpoint e
     \<and> flag m_skip_password_change_check (ep_route e) = own_session_endpoint e
     \<and> (public_endpoint e \<or> own_session_endpoint e \<or> endpoint_permission e \<notin> {None, Some []})"

definition read_permissions :: "string list" where
  "read_permissions = List.map_filter endpoint_permission (filter (\<lambda>e. ep_verb e = GetVerb) api_endpoints)"

definition changes_nothing :: "string list \<Rightarrow> endpoint \<Rightarrow> bool" where
  "changes_nothing ps e \<longleftrightarrow> ep_verb e = GetVerb \<or> public_endpoint e \<or> own_session_endpoint e
     \<or> (case endpoint_permission e of None \<Rightarrow> False | Some p \<Rightarrow> \<not> List.member ps p)"

lemma metadata_table: "list_all metadata_ok api_endpoints"
  by code_simp

lemma read_table: "list_all (changes_nothing read_permissions) api_endpoints"
  by code_simp

lemmas endpoint_metadata = metadata_table [unfolded list_all_iff metadata_ok_def, rule_format]

lemma with_params_token [simp]: "extractToken (with_params b q) = extractToken q"
  unfolding with_params_def extractToken_def by (simp cong: option.case_cong header_value.case_cong list.case_cong if_cong)

lemma with_params_frame [simp]:
  "is_http (with_params b q) = is_http q" "csrf_safe rt (with_params b q) = csrf_safe rt q"
  by (simp_all add: with_params_def csrf_safe_def)

lemma jwt_authenticated_frame [simp]:
  "jwt_authenticated jv today r rt (with_params b q) u = jwt_authenticated jv today r rt q u"
  by (simp add: jwt_authenticated_def)

text \<open>The chain on a route for sessions.\<close>

lemma session_chain_Inr:
  assumes "guard_chain jv env today ct r rt q g = (Inr q', g')" and "is_http q"
    and "\<not> flag m_isPublic rt" and "\<not> flag m_isAccessKeyRoute rt"
  shows "\<exists>u. q' = q\<lparr>req_user := Some u\<rparr> \<and> jwt_authenticated jv today r rt q u \<and> authorised env ct rt q u \<and> csrf_safe rt q"
proof -
  obtain q1 q2 q3 where a: "AuthGuard jv today r rt q = Inr q1" and k: "AccessKeyGuard env rt q1 g = (Inr q2, g')"
      and c: "CsrfGuard rt q2 = Inr q3" and p: "PermissionGuard env ct rt q3 = Inr q'"
    using assms(1) unfolding guard_chain_def by (auto split: sum.splits prod.splits)
  obtain u where u: "jwt_authenticated jv today r rt q u" and q1: "q1 = q\<lparr>req_user := Some u\<rparr>"
    using AuthGuard_Inr [OF a assms(2)] assms(3,4) by auto
  have q2: "q2 = q1" using AccessKeyGuard_Inr [OF k] q1 assms(2,4) by simp
  have q3: "q3 = q2" "csrf_safe rt q2" using CsrfGuard_Inr [of q2] c q2 q1 assms(2) by simp_all
  have "q' = q3 \<and> authorised env ct rt q3 u"
    using PermissionGuard_Inr [OF p] assms(2,3) q1 q2 q3 by auto
  then show ?thesis using u q1 q2 q3 by (intro exI [of _ u]) simp
qed

lemma session_chain_admits:
  assumes "is_http q" and "\<not> flag m_isPublic rt" and "\<not> flag m_isAccessKeyRoute rt"
    and "extractToken q = Some token" and "token \<noteq> []" and "jv token = Some p" and "session_get (cl_jti p) r = Some d"
    and "\<not> isExpired today (sd_expired_at d)" and "\<not> sd_must_change_password d" and "cl_sub p \<noteq> []"
    and "csrf_safe rt q" and "required_permission rt = Some perm" and "perm \<noteq> []" and "perm \<in> set (sd_permissions d)"
  shows "guard_chain jv env today ct r rt q g = (Inr (q\<lparr>req_user := Some (session_user p d)\<rparr>), g)"
proof -
  let ?q = "q\<lparr>req_user := Some (session_user p d)\<rparr>"
  have "AuthGuard jv today r rt q = Inr ?q" using assms by (simp add: AuthGuard_def)
  moreover have "AccessKeyGuard env rt ?q g = (Inr ?q, g)" using assms(3) by (simp add: AccessKeyGuard_def)
  moreover have "CsrfGuard rt ?q = Inr ?q" using CsrfGuard_Inr [of ?q rt ?q] assms(1,11) by simp
  moreover have "PermissionGuard env ct rt ?q = Inr ?q"
    using assms by (simp add: PermissionGuard_def session_user_def)
  ultimately show ?thesis by (simp add: guard_chain_def)
qed

lemma serve_session:
  assumes "e \<in> set api_endpoints" and "is_http q" and "\<not> public_endpoint e"
    and "serve env e q g = (Some (Inr (c, vs, who)), g')"
  shows "\<exists>u b. who = Some u \<and> routed env e q = Some b \<and> csrf_safe (ep_route e) q
     \<and> jwt_authenticated (ae_jwt_verify env) (ae_today env) (ae_redis env) (ep_route e) q u
     \<and> authorised (ae_guards env) (ae_clock_text env) (ep_route e) (with_params b q) u"
proof -
  obtain b q' where b: "routed env e q = Some b" and ch: "env_chain env e (with_params b q) g = (Inr q', g')"
      and who: "who = req_user q'"
    using assms(4) by (auto simp: serve_def split: option.splits prod.splits sum.splits)
  show ?thesis
    using session_chain_Inr [OF ch [unfolded env_chain_def]] endpoint_metadata [OF assms(1)] assms(2,3) b who by auto
qed

section \<open>Properties\<close>

text \<open>C6: in one service at most one endpoint carries out a request. Where two templates fit the same
  path, the segment that one of them fixes is no UUID and the other refuses it, so the order in
  which controllers are registered or tried decides nothing.\<close>

theorem endpoints_exclusive:
  assumes "(service, es) \<in> set api_services" and "e \<in> set es" and "f \<in> set es"
    and "\<forall>s. ae_isUUID env s \<longrightarrow> length s = 36"
    and "fst (serve env e q g) = Some (Inr a)" and "fst (serve env f q g') = Some (Inr b)"
  shows "e = f"
proof (rule ccontr)
  assume "e \<noteq> f"
  have p: "pairwise_apart (map shape es)" using services_apart [OF assms(1)] by simp
  have d: "params_distinct (shape e)" "params_distinct (shape f)"
    using pairwise_apart_params [OF p] assms(2,3) by auto
  consider "apart (shape e) (shape f)" | "apart (shape f) (shape e)"
    using pairwise_apartD [OF p assms(2,3)] \<open>e \<noteq> f\<close> by blast
  then show False
    using apart_exclusive [of e f] apart_exclusive [of f e] d serve_InrD [OF assms(5)] serve_InrD [OF assms(6)] assms(4)
    by cases blast+
qed


text \<open>C5: reading rights do not write. A caller whose permissions, conditional ones included, are all
  among those that some read endpoint asks for, or who has none, gets no request carried out that
  is not a read, apart from the login, the refresh, the logout and the change of the own password.\<close>

theorem readers_cannot_write:
  assumes "e \<in> set api_endpoints" and "is_http q" and "serve env e q g = (Some (Inr (c, vs, who)), g')"
    and "case who of None \<Rightarrow> True | Some u \<Rightarrow> set (us_permissions (fst u)) \<union> set (snd u) \<subseteq> set read_permissions"
  shows "ep_verb e = GetVerb \<or> public_endpoint e \<or> own_session_endpoint e"
proof (rule ccontr)
  assume no: "\<not> ?thesis"
  then obtain u b where u: "who = Some u"
      and a: "authorised (ae_guards env) (ae_clock_text env) (ep_route e) (with_params b q) u"
    using serve_session [OF assms(1,2) _ assms(3)] by blast
  obtain p where p: "endpoint_permission e = Some p" "p \<in> set (us_permissions (fst u)) \<union> set (snd u)"
    using a endpoint_metadata [OF assms(1)] no by (auto simp: authorised_def endpoint_permission_def)
  have "p \<notin> set read_permissions"
    using read_table assms(1) no p(1) by (auto simp: list_all_iff changes_nothing_def)
  then show False using p(2) u assms(4) by auto
qed

text \<open>No endpoint is marked for access keys: the guard that verifies signatures never acts, and the
  failure counters stay as they are whatever is sent.\<close>

theorem access_keys_open_nothing:
  "e \<in> set api_endpoints \<Longrightarrow> snd (serve env e q g) = g"
  using endpoint_metadata [of e]
  by (auto simp: serve_def env_chain_def guard_chain_def AccessKeyGuard_def split: option.splits sum.splits)

text \<open>Every deletion an endpoint asks a service for is a soft one.\<close>

theorem deletions_are_soft:
  "list_all (\<lambda>e. case service_call e of
       Service s m args \<Rightarrow> m = ''delete'' \<longrightarrow> args ! 1 = FlagArg True | _ \<Rightarrow> True) api_endpoints"
  by code_simp

section \<open>Concrete requests\<close>

definition some_uuid :: "char \<Rightarrow> string" where
  "some_uuid c = replicate 8 c @ ''-0000-4000-8000-000000000000''"

definition route_session :: "string list \<Rightarrow> session_data" where
  "route_session perms = example_session\<lparr>sd_permissions := perms\<rparr>"

definition route_env :: "string list \<Rightarrow> string \<Rightarrow> api_env" where
  "route_env perms prefix = \<lparr>ae_prefix = prefix, ae_isUUID = (\<lambda>s. length s = 36),
     ae_jwt_verify = (\<lambda>_. Some \<lparr>cl_sub = ''u'', cl_jti = ''j''\<rparr>), ae_guards = example_guard_env,
     ae_today = ''2025-01-01'', ae_clock_text = ''9:00'', ae_redis = session_create ''j'' (route_session perms) 900 empty_redis\<rparr>"

definition route_request :: "http_verb \<Rightarrow> string \<Rightarrow> http_request" where
  "route_request verb url = example_request\<lparr>req_method := verb_name verb, req_url := url\<rparr>"

definition route_user :: "string list \<Rightarrow> user_session \<times> string list" where
  "route_user perms = session_user \<lparr>cl_sub = ''u'', cl_jti = ''j''\<rparr> (route_session perms)"

lemma route_request_view [simp]:
  "extractToken (route_request verb url) = Some ''tok''" "is_http (route_request verb url)"
  "csrf_safe rt (route_request verb url)"
  by (simp_all add: route_request_def extractToken_def csrf_safe_def example_request_def)

lemma route_env_view [simp]:
  "ae_isUUID (route_env perms prefix) = (\<lambda>s. length s = 36)" "ae_today (route_env perms prefix) = ''2025-01-01''"
  "ae_jwt_verify (route_env perms prefix) token = Some \<lparr>cl_sub = ''u'', cl_jti = ''j''\<rparr>"
  "session_get ''j'' (ae_redis (route_env perms prefix)) = Some (route_session perms)"
  by (simp_all add: route_env_def create_view)

text \<open>A caller with the permission is let in.\<close>

lemma serve_admits:
  assumes e: "e \<in> set api_endpoints" and r: "routed (route_env perms prefix) e (route_request verb url) = Some b"
    and p: "endpoint_permission e = Some perm" "perm \<in> set perms" and no: "\<not> public_endpoint e" "\<not> own_session_endpoint e"
    and v: "parse_params (\<lambda>s. length s = 36) b (ep_uuids e) = Inr vs"
  shows "serve (route_env perms prefix) e (route_request verb url) g
     = (Some (Inr (service_call e, vs, Some (route_user perms))), g)"
proof -
  let ?q = "with_params b (route_request verb url)"
  let ?env = "route_env perms prefix"
  have "perm \<noteq> []" using endpoint_metadata [OF e] no p by auto
  then have "env_chain ?env e ?q g = (Inr (?q\<lparr>req_user := Some (route_user perms)\<rparr>), g)"
    unfolding env_chain_def route_user_def
    using endpoint_metadata [OF e] no p
    by (intro session_chain_admits [where token = "''tok''" and perm = perm])
       (simp_all add: endpoint_permission_def route_session_def example_session_def isExpired_def)
  then show ?thesis using r v by (simp add: serve_def)
qed

definition histories_endpoint :: endpoint where
  "histories_endpoint = hd LoginHistoriesController"

definition histories_request :: http_request where
  "histories_request = route_request GetVerb ''/auth/v1/auth/login-histories?limit=5''"

definition histories_env :: api_env where
  "histories_env = route_env [''login_history:read''] ''auth/v1''"

lemma histories_listed: "histories_endpoint \<in> set auth_service_endpoints" "histories_endpoint \<in> set api_endpoints"
  by (simp_all add: histories_endpoint_def LoginHistoriesController_def api_endpoints_def api_services_def auth_service_endpoints_def)

lemma histories_view:
  "endpoint_permission histories_endpoint = Some ''login_history:read''" "\<not> public_endpoint histories_endpoint"
  "\<not> own_session_endpoint histories_endpoint" "ep_uuids histories_endpoint = []"
  "service_call histories_endpoint = Service ''LoginHistoriesService'' ''findPaginated'' [QueryArg]"
  "path_template histories_endpoint = [''auth'', ''login-histories'']" "ep_verb histories_endpoint = GetVerb"
  by code_simp+

lemma histories_routed: "routed histories_env histories_endpoint histories_request = Some []"
proof -
  have "local_path ''auth/v1'' ''/auth/v1/auth/login-histories?limit=5'' = Some ''auth/login-histories''"
    "js_split (CHR ''/'') ''auth/login-histories'' = [''auth'', ''login-histories'']"
    "match_path [''auth'', ''login-histories''] [''auth'', ''login-histories''] = Some []"
    by code_simp+
  then show ?thesis
    by (simp add: routed_def histories_env_def histories_request_def route_env_def route_request_def histories_view)
qed

lemma histories_http: "is_http histories_request"
  by (simp add: histories_request_def)

lemma histories_served:
  "serve histories_env histories_endpoint histories_request g
     = (Some (Inr (Service ''LoginHistoriesService'' ''findPaginated'' [QueryArg], [], Some (route_user [''login_history:read'']))), g)"
  using serve_admits [OF histories_listed(2) histories_routed [unfolded histories_env_def histories_request_def], of _ "[]" g]
    histories_view by (simp add: histories_env_def histories_request_def)

theorem endpoints_exclusive_witness:
  "fst (serve histories_env histories_endpoint histories_request example_guard_redis)
     = Some (Inr (Service ''LoginHistoriesService'' ''findPaginated'' [QueryArg], [], Some (route_user [''login_history:read''])))
   \<and> hd LoginHistoriesController = auth_service_endpoints ! 6"
proof -
  have n: "auth_service_endpoints ! 6 = histories_endpoint"
    by (simp add: auth_service_endpoints_def AuthController_def LoginHistoriesController_def histories_endpoint_def)
  have "histories_endpoint = auth_service_endpoints ! 6"
    using endpoints_exclusive [of "''auth''" auth_service_endpoints histories_endpoint "auth_service_endpoints ! 6" histories_env
        histories_request example_guard_redis _ example_guard_redis]
    by (simp add: n histories_served histories_listed api_services_def histories_env_def)
  then show ?thesis using histories_served [of example_guard_redis] by (simp add: n histories_endpoint_def)
qed


theorem readers_cannot_write_witness:
  "''login_history:read'' \<in> set read_permissions
   \<and> (ep_verb histories_endpoint = GetVerb \<or> public_endpoint histories_endpoint \<or> own_session_endpoint histories_endpoint)"
proof -
  have r: "''login_history:read'' \<in> set read_permissions" by code_simp
  have "ep_verb histories_endpoint = GetVerb \<or> public_endpoint histories_endpoint \<or> own_session_endpoint histories_endpoint"
    by (rule readers_cannot_write [OF histories_listed(2) histories_http histories_served])
       (use r in \<open>simp add: route_user_def session_user_def route_session_def example_session_def\<close>)
  then show ?thesis using r by blast
qed

text \<open>The endpoints for one item of a nested collection check and pass on the id of the item only:
  the id of its parent in the path may be any text, and the call is the same.\<close>

definition value_endpoint :: endpoint where
  "value_endpoint = ItemAttributeValuesController ! 4"

definition value_url :: "string \<Rightarrow> string" where
  "value_url parent = ''/inventory-bc/v1/item-attributes/'' @ parent @ ''/values/'' @ some_uuid (CHR ''a'')"

lemma value_endpoint_view:
  "value_endpoint \<in> set api_endpoints" "endpoint_permission value_endpoint = Some ''item-attribute:update''"
  "\<not> public_endpoint value_endpoint" "\<not> own_session_endpoint value_endpoint" "ep_uuids value_endpoint = [''value_id'']"
  "service_call value_endpoint = Service ''ItemAttributeValuesService'' ''delete'' [ParamArg ''value_id'', FlagArg True, UserArg]"
  "path_template value_endpoint = [''item-attributes'', '':attribute_id'', ''values'', '':value_id'']"
  "ep_verb value_endpoint = DeleteVerb"
  by (simp add: value_endpoint_def ItemAttributeValuesController_def api_endpoints_def api_services_def inventory_endpoints_def)
     code_simp+

theorem nested_parent_ignored:
  assumes "CHR ''/'' \<notin> set parent" and "CHR ''?'' \<notin> set parent"
  shows "fst (serve (route_env [''item-attribute:update''] ''inventory-bc/v1'') value_endpoint
           (route_request DeleteVerb (value_url parent)) g)
     = Some (Inr (Service ''ItemAttributeValuesService'' ''delete'' [ParamArg ''value_id'', FlagArg True, UserArg],
                  [some_uuid (CHR ''a'')], Some (route_user [''item-attribute:update''])))"
proof -
  let ?u = "some_uuid (CHR ''a'')"
  have u: "CHR ''/'' \<notin> set ?u" "CHR ''?'' \<notin> set ?u" "length ?u = 36" by code_simp+
  have "hd (js_split (CHR ''?'') (value_url parent)) = value_url parent"
    using assms(2) u(2) by (subst js_split_no_sep) (auto simp: value_url_def)
  then have l: "local_path ''inventory-bc/v1'' (value_url parent) = Some (''item-attributes/'' @ parent @ ''/values/'' @ ?u)"
    by (simp add: local_path_def value_url_def)
  have "js_split (CHR ''/'') (''item-attributes/'' @ parent @ ''/values/'' @ ?u) = [''item-attributes'', parent, ''values'', ?u]"
    using js_split_append [of "CHR ''/''" "''item-attributes''" "parent @ ''/values/'' @ ?u"]
      js_split_append [of "CHR ''/''" parent "''values/'' @ ?u"] js_split_append [of "CHR ''/''" "''values''" ?u]
      js_split_no_sep [OF assms(1)] js_split_no_sep [OF u(1)] by (simp add: js_split_no_sep)
  then have r: "routed (route_env [''item-attribute:update''] ''inventory-bc/v1'') value_endpoint
      (route_request DeleteVerb (value_url parent)) = Some [(''attribute_id'', parent), (''value_id'', ?u)]"
    using l by (simp add: routed_def route_env_def route_request_def value_endpoint_view is_param_def)
  show ?thesis
    using serve_admits [OF value_endpoint_view(1) r value_endpoint_view(2) _ value_endpoint_view(3,4), of "[?u]" g] u(3)
    by (simp add: value_endpoint_view ParseUuidParamPipe_def)
qed

end
