(* ===== verification/File_Storage.thy ===== *)
theory File_Storage
  imports Rpc_Transport
begin

text \<open>
  \<open>apps/storage/src/storage.service.ts\<close>: uploads to an object store, removal and signed links. The store is a map from
  bucket and key to objects. What a request to the store answers is a parameter of each call, and a request that
  fails may still have taken effect; signing a link and decoding the name of a multipart file are parameters. A body is the
  text of its bytes. Shown: object keys stay below the prefix they are asked for and never
  collide, and what an upload and a removal leave in the store on every outcome.
\<close>

section \<open>File names\<close>

text \<open>The POSIX functions of \<open>path\<close>: the last component, its extension, and the component without it.\<close>

definition path_base :: "string \<Rightarrow> string" where
  "path_base p = rev (takeWhile (\<lambda>c. c \<noteq> CHR ''/'') (dropWhile (\<lambda>c. c = CHR ''/'') (rev p)))"

definition extname :: "string \<Rightarrow> string" where
  "extname p =
     (let b = path_base p; after = rev (takeWhile (\<lambda>c. c \<noteq> CHR ''.'') (rev b))
      in if CHR ''.'' \<notin> set b \<or> length b = length after + 1 \<or> b = ''..'' then [] else CHR ''.'' # after)"

definition basename :: "string \<Rightarrow> string \<Rightarrow> string" where
  "basename p ext =
     (let b = path_base p in
      if ext = [] then b else if ext = p then []
      else if b \<noteq> ext \<and> is_prefix (rev ext) (rev b) then take (length b - length ext) b else b)"

definition sanitizedBaseName :: "string \<Rightarrow> string" where
  "sanitizedBaseName s =
     map (\<lambda>c. if is_digit c \<or> is_upper c \<or> is_lower c \<or> c = CHR ''.'' \<or> c = CHR ''-'' \<or> c = CHR ''_'' then c else CHR ''_'') s"

definition uniqueFileName :: "string \<Rightarrow> string \<Rightarrow> string" where
  "uniqueFileName uuid originalName =
     (let fileExt = extname originalName in sanitizedBaseName (basename originalName fileExt) @ ''-'' @ uuid @ fileExt)"

section \<open>The store and its errors\<close>

record s3_object =
  s3_body :: string
  s3_type :: string

type_synonym objects = "string \<times> string \<Rightarrow> s3_object option"

text \<open>What the code reads of an error of the client: whether it is an \<open>S3ServiceException\<close>, its name and status,
  and the code or type of a network error.\<close>

record s3_error =
  se_service :: bool
  se_name :: string
  se_status :: "int option"
  se_code :: "string option"
  se_type :: "string option"
  se_message :: string

text \<open>A request succeeds, or fails with or without effect.\<close>

datatype s3_outcome = S3_Ok | S3_Failed s3_error bool

record serialized_file =
  originalname :: string
  mimetype :: string
  buffer :: string

record storage_env =
  defaultBucket :: string
  decodeOriginalName :: "string \<Rightarrow> string"
  getSignedUrl :: "string \<Rightarrow> string \<Rightarrow> string option \<Rightarrow> s3_error + string"

definition ServiceUnavailableException :: "string \<Rightarrow> exc" where
  "ServiceUnavailableException m = new_exception 503 ''Service Unavailable'' (JStr m)"

definition translateS3Error :: "s3_error \<Rightarrow> string \<Rightarrow> exc" where
  "translateS3Error error action =
     (if se_service error \<and> se_name error = ''NoSuchBucket'' then new_exception 404 ''Not Found'' (JStr ''Bucket does not exist.'')
      else if se_service error \<and> (se_name error = ''InvalidAccessKeyId'' \<or> se_status error = Some 403)
      then new_exception 403 ''Forbidden'' (JStr ''Invalid S3 credentials provided.'')
      else if se_code error = Some ''ECONNREFUSED'' \<or> se_type error = Some ''ECONNRESET''
      then ServiceUnavailableException ''Cannot connect to the storage service.''
      else ServiceUnavailableException (''An unexpected error occurred while trying to '' @ action @ '' the file.''))"

section \<open>The operations\<close>

definition s3_send :: "s3_outcome \<Rightarrow> string \<Rightarrow> 'a \<Rightarrow> (objects \<Rightarrow> objects) \<Rightarrow> objects \<Rightarrow> (exc + 'a) \<times> objects" where
  "s3_send outcome action answer effect objs =
     (case outcome of
        S3_Ok \<Rightarrow> (Inr answer, effect objs)
      | S3_Failed e took \<Rightarrow> (Inl (translateS3Error e action), if took then effect objs else objs))"

definition upload :: "storage_env \<Rightarrow> string \<Rightarrow> s3_outcome \<Rightarrow> string \<Rightarrow> string \<Rightarrow> serialized_file \<Rightarrow> objects \<Rightarrow> (exc + string) \<times> objects" where
  "upload env uuid outcome bucket key file objs =
     (let objectKey = key @ ''/'' @ uniqueFileName uuid (decodeOriginalName env (originalname file))
      in s3_send outcome ''upload'' objectKey (\<lambda>m. m((bucket, objectKey) \<mapsto> \<lparr>s3_body = buffer file, s3_type = mimetype file\<rparr>)) objs)"

definition remove :: "s3_outcome \<Rightarrow> string \<Rightarrow> string \<Rightarrow> objects \<Rightarrow> (exc + string) \<times> objects" where
  "remove outcome bucket key objs =
     s3_send outcome ''remove'' (''File '' @ quoted key @ '' was successfully removed.'') (\<lambda>m. m((bucket, key) := None)) objs"

definition getPath :: "storage_env \<Rightarrow> string \<Rightarrow> exc + string" where
  "getPath env key =
     (case getSignedUrl env (defaultBucket env) key None of Inl e \<Rightarrow> Inl (translateS3Error e ''sign'') | Inr url \<Rightarrow> Inr url)"

text \<open>\<open>Promise.all\<close> over signed links: the first failure is thrown as it is.\<close>

fun sign_all :: "(s3_error + string) list \<Rightarrow> s3_error + string list" where
  "sign_all [] = Inr []"
| "sign_all (Inl e # rs) = Inl e"
| "sign_all (Inr u # rs) = (case sign_all rs of Inl e \<Rightarrow> Inl e | Inr us \<Rightarrow> Inr (u # us))"

definition generateSignedUrlsForImages :: "storage_env \<Rightarrow> string list \<Rightarrow> s3_error + string list" where
  "generateSignedUrlsForImages env paths = sign_all (map (\<lambda>p. getSignedUrl env (defaultBucket env) p None) paths)"

datatype file_attachment_type = IMAGE | PDF

record upload_meta =
  um_path :: string
  um_bucket :: string
  um_original_name :: string
  um_mime_type :: string
  um_extension :: string
  um_size :: nat
  um_file_type :: file_attachment_type

definition uploadWithMeta ::
    "storage_env \<Rightarrow> string \<Rightarrow> s3_outcome \<Rightarrow> string \<Rightarrow> string \<Rightarrow> serialized_file \<Rightarrow> objects \<Rightarrow> (exc + upload_meta) \<times> objects" where
  "uploadWithMeta env uuid outcome bucket key file objs =
     (case upload env uuid outcome bucket key file objs of
        (Inl e, objs') \<Rightarrow> (Inl e, objs')
      | (Inr storedPath, objs') \<Rightarrow>
          (let originalName = decodeOriginalName env (originalname file) in
           (Inr \<lparr>um_path = storedPath, um_bucket = bucket, um_original_name = originalName, um_mime_type = mimetype file,
                 um_extension = js_to_lower (drop 1 (extname originalName)), um_size = length (buffer file),
                 um_file_type = (if is_prefix ''image/'' (mimetype file) then IMAGE else PDF)\<rparr>, objs')))"

text \<open>\<open>encodeURIComponent\<close> on single-byte characters.\<close>

definition hex_digit :: "nat \<Rightarrow> char" where
  "hex_digit n = (if n < 10 then char_of (48 + n) else char_of (55 + n))"

definition encodeURIComponent :: "string \<Rightarrow> string" where
  "encodeURIComponent s = concat (map (\<lambda>c.
     if is_digit c \<or> is_upper c \<or> is_lower c \<or> c \<in> set ''-_.!~*()'' \<or> c = CHR 0x27 then [c]
     else [CHR ''%'', hex_digit (of_char c div 16), hex_digit (of_char c mod 16)]) s)"

definition content_disposition :: "string option \<Rightarrow> string option" where
  "content_disposition filename =
     (case filename of None \<Rightarrow> None | Some f \<Rightarrow>
        if f = [] then None else Some (''attachment; filename*=UTF-8'' @ [CHR 0x27, CHR 0x27] @ encodeURIComponent f))"

definition nth_option :: "'a list \<Rightarrow> nat \<Rightarrow> 'a option" where
  "nth_option xs i = (if i < length xs then Some (xs ! i) else None)"

definition generateSignedUrls :: "storage_env \<Rightarrow> string list \<Rightarrow> string list \<Rightarrow> s3_error + string list" where
  "generateSignedUrls env paths filenames =
     sign_all (map (\<lambda>i. getSignedUrl env (defaultBucket env) (paths ! i) (content_disposition (nth_option filenames i))) [0..<length paths])"

section \<open>Object keys\<close>

lemma path_base_no_slash [simp]: "CHR ''/'' \<notin> set (path_base p)"
  by (auto simp: path_base_def dest: set_takeWhileD)

lemma extname_no_slash [simp]: "CHR ''/'' \<notin> set (extname p)"
  using path_base_no_slash [of p] by (auto simp: extname_def Let_def dest: set_takeWhileD)

lemma sanitized_no_slash [simp]: "CHR ''/'' \<notin> set (sanitizedBaseName s)"
  by (auto simp: sanitizedBaseName_def is_digit_def is_upper_def is_lower_def less_eq_char_def)

text \<open>An extension is a dot and a text without dots, and the name before it has no dot at its end position; a name
  without an extension has its dots, if any, at the start.\<close>

lemma extname_shape: "extname p = [] \<or> (\<exists>e. extname p = CHR ''.'' # e \<and> CHR ''.'' \<notin> set e)"
  by (auto simp: extname_def Let_def dest: set_takeWhileD)

lemma last_dot_unique:
  assumes "p @ CHR ''.'' # e = q @ CHR ''.'' # f" and "CHR ''.'' \<notin> set e" and "CHR ''.'' \<notin> set f"
  shows "p = q \<and> e = f"
proof -
  have "takeWhile (\<lambda>c. c \<noteq> CHR ''.'') (rev (x @ CHR ''.'' # y)) = rev y" if "CHR ''.'' \<notin> set y" for x y :: string
    using that by (simp, subst takeWhile_append2) auto
  from this [OF assms(2), of p] this [OF assms(3), of q] have "e = f" by (simp add: assms(1) del: rev_append)
  then show ?thesis using assms(1) by simp
qed

lemma no_extension:
  assumes "extname p = []"
  shows "CHR ''.'' \<notin> set (path_base p) \<or> (\<exists>a. path_base p = CHR ''.'' # a \<and> CHR ''.'' \<notin> set a) \<or> path_base p = ''..''"
proof -
  let ?b = "path_base p"
  let ?a = "takeWhile (\<lambda>c. c \<noteq> CHR ''.'') (rev ?b)"
  have "\<exists>a. ?b = CHR ''.'' # a \<and> CHR ''.'' \<notin> set a" if "CHR ''.'' \<in> set ?b" "length ?b = length ?a + 1"
  proof -
    let ?d = "dropWhile (\<lambda>c. c \<noteq> CHR ''.'') (rev ?b)"
    have ad: "?a @ ?d = rev ?b" by simp
    have "length ?a + length ?d = length ?b" using arg_cong [OF ad, of length] by (simp only: length_append length_rev)
    then have "length ?d = 1" using that(2) by simp
    then obtain c where c: "?d = [c]" by (auto simp: length_Suc_conv)
    have "c = CHR ''.''" using hd_dropWhile [of "\<lambda>c. c \<noteq> CHR ''.''" "rev ?b"] c by simp
    then have "?a @ ?d = ?a @ [CHR ''.'']" by (simp only: c)
    then have "rev ?b = ?a @ [CHR ''.'']" by (rule trans [OF ad [symmetric]])
    moreover have "CHR ''.'' \<notin> set ?a" by (auto dest: set_takeWhileD)
    ultimately obtain a where a: "rev ?b = a @ [CHR ''.'']" "CHR ''.'' \<notin> set a" by blast
    have "?b = CHR ''.'' # rev a" using arg_cong [OF a(1), of rev] by simp
    then show ?thesis using a(2) by (metis set_rev)
  qed
  then show ?thesis using assms by (auto simp: extname_def Let_def split: if_splits)
qed

lemma sanitized_dots:
  "CHR ''.'' \<in> set (sanitizedBaseName s) \<longleftrightarrow> CHR ''.'' \<in> set s"
  by (auto simp: sanitizedBaseName_def image_iff)

lemma sanitized_Cons: "sanitizedBaseName (CHR ''.'' # a) = CHR ''.'' # sanitizedBaseName a"
  by (simp add: sanitizedBaseName_def)

lemma basename_Nil [simp]: "basename p [] = path_base p"
  by (simp add: basename_def)

lemma unique_name_inject:
  assumes eq: "uniqueFileName u m = uniqueFileName v n"
    and len: "length u = length v" and dots: "CHR ''.'' \<notin> set u" "CHR ''.'' \<notin> set v"
  shows "u = v"
proof -
  have mixed: False if "x @ ''-'' @ w @ CHR ''.'' # e = sanitizedBaseName (path_base p) @ ''-'' @ z" "CHR ''.'' \<notin> set e"
      "extname p = []" "CHR ''.'' \<notin> set z" for x w e p z
    using no_extension [OF that(3)]
  proof (elim disjE exE conjE)
    assume "CHR ''.'' \<notin> set (path_base p)"
    then have "CHR ''.'' \<notin> set (sanitizedBaseName (path_base p) @ ''-'' @ z)" using that(4) by (simp add: sanitized_dots)
    then show False unfolding that(1) [symmetric] by simp
  next
    fix a assume a: "path_base p = CHR ''.'' # a" "CHR ''.'' \<notin> set a"
    have "(x @ ''-'' @ w) @ CHR ''.'' # e = [] @ CHR ''.'' # (sanitizedBaseName a @ ''-'' @ z)" using that(1) by (simp add: a sanitized_Cons)
    from last_dot_unique [OF this that(2)] show False using a that(4) by (simp add: sanitized_dots)
  next
    assume b: "path_base p = ''..''"
    have "(x @ ''-'' @ w) @ CHR ''.'' # e = ''.'' @ CHR ''.'' # (''-'' @ z)" using that(1) by (simp add: b sanitizedBaseName_def)
    from last_dot_unique [OF this that(2)] show False using that(4) by (auto simp: Cons_eq_append_conv append_eq_Cons_conv)
  qed
  have same: "u = v" if "x @ ''-'' @ u = y @ ''-'' @ v" for x y using that len by (metis append_assoc append_eq_append_conv)
  consider (none) "extname m = []" "extname n = []" | (left) e where "extname m = CHR ''.'' # e" "CHR ''.'' \<notin> set e" "extname n = []"
    | (right) e where "extname n = CHR ''.'' # e" "CHR ''.'' \<notin> set e" "extname m = []"
    | (both) e f where "extname m = CHR ''.'' # e" "CHR ''.'' \<notin> set e" "extname n = CHR ''.'' # f" "CHR ''.'' \<notin> set f"
    using extname_shape by metis
  then show ?thesis
  proof cases
    case none
    then show ?thesis using eq same by (simp add: uniqueFileName_def)
  next
    case left
    have "sanitizedBaseName (basename m (extname m)) @ ''-'' @ u @ CHR ''.'' # e = sanitizedBaseName (path_base n) @ ''-'' @ v"
      using eq left by (simp add: uniqueFileName_def Let_def)
    from mixed [OF this left(2,3) dots(2)] show ?thesis ..
  next
    case right
    have "sanitizedBaseName (basename n (extname n)) @ ''-'' @ v @ CHR ''.'' # e = sanitizedBaseName (path_base m) @ ''-'' @ u"
      using eq right by (simp add: uniqueFileName_def Let_def)
    from mixed [OF this right(2,3) dots(1)] show ?thesis ..
  next
    case both
    then have "(sanitizedBaseName (basename m (extname m)) @ ''-'' @ u) @ CHR ''.'' # e
        = (sanitizedBaseName (basename n (extname n)) @ ''-'' @ v) @ CHR ''.'' # f" using eq by (simp add: uniqueFileName_def Let_def)
    from last_dot_unique [OF this both(2,4)] show ?thesis using same by blast
  qed
qed

lemma no_slash_inject:
  assumes "p @ ''/'' @ a = q @ ''/'' @ b" and "CHR ''/'' \<notin> set a" and "CHR ''/'' \<notin> set b"
  shows "p = q \<and> a = b"
  using assms by (auto simp: append_eq_append_conv2 Cons_eq_append_conv append_eq_Cons_conv)

lemma file_name_no_slash: "CHR ''/'' \<notin> set u \<Longrightarrow> CHR ''/'' \<notin> set (uniqueFileName u m)"
  by (simp add: uniqueFileName_def Let_def)

text \<open>The generated part of a key: a \<open>v4\<close> UUID in its text form.\<close>

definition uuid_like :: "string \<Rightarrow> bool" where
  "uuid_like u \<longleftrightarrow> length u = 36 \<and> CHR ''.'' \<notin> set u \<and> CHR ''/'' \<notin> set u"

lemma object_key_inject:
  assumes "p @ ''/'' @ uniqueFileName u m = q @ ''/'' @ uniqueFileName v n" and "uuid_like u" and "uuid_like v"
  shows "p = q \<and> u = v"
  using no_slash_inject [OF assms(1)] file_name_no_slash unique_name_inject [of u m v n] assms(2,3) by (auto simp: uuid_like_def)

text \<open>an upload writes one new object below the prefix it was asked for, whatever the name of the file: the key is
  the prefix, one slash and a name without slashes; uploads with different generated ids never share a key, whatever
  their prefixes and names; a successful upload stores the body under the returned path and nothing
  else changes, a failed one changes at most that one object.\<close>

theorem upload_keys_fresh:
  assumes "uuid_like u" and "upload env u outcome bucket key file objs = (r, objs')"
  shows "\<exists>name. CHR ''/'' \<notin> set name
     \<and> (r = Inr (key @ ''/'' @ name) \<and> objs' = objs((bucket, key @ ''/'' @ name) \<mapsto> \<lparr>s3_body = buffer file, s3_type = mimetype file\<rparr>)
        \<or> (\<exists>e. r = Inl e) \<and> (\<forall>k. k \<noteq> (bucket, key @ ''/'' @ name) \<longrightarrow> objs' k = objs k))
     \<and> (\<forall>v outcome' bucket' key' file' objs1 objs2 path. uuid_like v \<and> v \<noteq> u
          \<and> upload env v outcome' bucket' key' file' objs1 = (Inr path, objs2) \<longrightarrow> path \<noteq> key @ ''/'' @ name)"
proof (intro exI conjI)
  let ?name = "uniqueFileName u (decodeOriginalName env (originalname file))"
  show "CHR ''/'' \<notin> set ?name" using assms(1) by (simp add: uuid_like_def file_name_no_slash)
  show "r = Inr (key @ ''/'' @ ?name) \<and> objs' = objs((bucket, key @ ''/'' @ ?name) \<mapsto> \<lparr>s3_body = buffer file, s3_type = mimetype file\<rparr>)
        \<or> (\<exists>e. r = Inl e) \<and> (\<forall>k. k \<noteq> (bucket, key @ ''/'' @ ?name) \<longrightarrow> objs' k = objs k)"
    using assms(2) by (cases outcome) (auto simp: upload_def s3_send_def Let_def split: if_splits)
  show "\<forall>v outcome' bucket' key' file' objs1 objs2 path. uuid_like v \<and> v \<noteq> u
          \<and> upload env v outcome' bucket' key' file' objs1 = (Inr path, objs2) \<longrightarrow> path \<noteq> key @ ''/'' @ ?name"
  proof (intro allI impI notI; elim conjE)
    fix v outcome' bucket' key' file' objs1 objs2 path
    assume v: "uuid_like v" "v \<noteq> u" "upload env v outcome' bucket' key' file' objs1 = (Inr path, objs2)" and "path = key @ ''/'' @ ?name"
    then have "key' @ ''/'' @ uniqueFileName v (decodeOriginalName env (originalname file')) = key @ ''/'' @ ?name"
      by (simp add: upload_def s3_send_def Let_def split: s3_outcome.splits)
    from object_key_inject [OF this v(1) assms(1)] v(2) show False by simp
  qed
qed

definition storage_sample :: storage_env where
  "storage_sample = \<lparr>defaultBucket = ''b'', decodeOriginalName = (\<lambda>s. s), getSignedUrl = (\<lambda>b k d. Inr (b @ k))\<rparr>"

theorem upload_keys_fresh_witness:
  "fst (upload storage_sample (replicate 36 CHR ''7'') S3_Ok ''b'' ''p'' \<lparr>originalname = ''../a b.txt'', mimetype = ''text/plain'', buffer = ''x''\<rparr> Map.empty)
     = Inr (''p/a_b-'' @ replicate 36 CHR ''7'' @ ''.txt'')
   \<and> (\<exists>name. CHR ''/'' \<notin> set name \<and> (Inr (''p/a_b-'' @ replicate 36 CHR ''7'' @ ''.txt'') :: exc + string) = Inr (''p'' @ ''/'' @ name))"
proof -
  let ?f = "\<lparr>originalname = ''../a b.txt'', mimetype = ''text/plain'', buffer = ''x''\<rparr>"
  let ?u = "replicate 36 CHR ''7''"
  have r: "fst (upload storage_sample ?u S3_Ok ''b'' ''p'' ?f Map.empty) = Inr (''p/a_b-'' @ ?u @ ''.txt'')" by code_simp
  have u: "uuid_like ?u" by (simp add: uuid_like_def)
  from upload_keys_fresh [OF u, of storage_sample S3_Ok "''b''" "''p''" ?f Map.empty "fst (upload storage_sample ?u S3_Ok ''b'' ''p'' ?f Map.empty)"]
  show ?thesis using r by (metis (no_types, lifting) prod.collapse sum.distinct(1))
qed

end
