(* ===== verification/Template_Text.thy ===== *)
theory Template_Text
  imports Rpc_Transport
begin

text \<open>
  The texts that become printed documents: \<open>String.prototype.replace\<close> with its \<open>$\<close> patterns, \<open>JSON.stringify\<close> and
  \<open>String\<close> as the code uses them; \<open>substituteParameters\<close> of
  \<open>apps/report-bc/src/modules/print-template/services/print-templates.service.ts\<close> and \<open>banded-render.service.ts\<close>. Shown: a flat template has
  its placeholders replaced and nothing else, render data cannot leave its script element; and the \<open>$\<close> and
  \<open>{{\<close> in values that break both. Numbers are integers; members that every object inherits are not looked up.
\<close>

section \<open>Text of values\<close>

definition show_int :: "int \<Rightarrow> string" where
  "show_int n = (if n < 0 then CHR ''-'' # show_nat (nat (- n)) else show_nat (nat n))"

text \<open>\<open>String(v)\<close>.\<close>

fun js_String :: "jvalue \<Rightarrow> string" where
  "js_String JUndef = ''undefined''"
| "js_String JNull = ''null''"
| "js_String (JBool b) = (if b then ''true'' else ''false'')"
| "js_String (JNum n) = show_int n"
| "js_String (JStr s) = s"
| "js_String (JArr xs) = js_join '','' (map (\<lambda>x. if nullish x then [] else js_String x) xs)"
| "js_String (JObj ob) = ''[object Object]''"

text \<open>\<open>JSON.stringify\<close>.\<close>

definition hex_lower :: "nat \<Rightarrow> char" where
  "hex_lower n = (if n < 10 then char_of (48 + n) else char_of (87 + n))"

definition json_char :: "char \<Rightarrow> string" where
  "json_char c =
     (if c = CHR 0x22 then [CHR 0x5C, CHR 0x22] else if c = CHR 0x5C then [CHR 0x5C, CHR 0x5C]
      else if c = CHR 0x08 then CHR 0x5C # ''b'' else if c = CHR 0x09 then CHR 0x5C # ''t''
      else if c = CHR 0x0A then CHR 0x5C # ''n'' else if c = CHR 0x0C then CHR 0x5C # ''f''
      else if c = CHR 0x0D then CHR 0x5C # ''r''
      else if of_char c < (32 :: nat) then CHR 0x5C # ''u00'' @ [hex_lower (of_char c div 16), hex_lower (of_char c mod 16)]
      else [c])"

definition json_text :: "string \<Rightarrow> string" where
  "json_text s = CHR 0x22 # concat (map json_char s) @ [CHR 0x22]"

function json_stringify :: "jvalue \<Rightarrow> string" where
  "json_stringify JUndef = ''null''"
| "json_stringify JNull = ''null''"
| "json_stringify (JBool b) = (if b then ''true'' else ''false'')"
| "json_stringify (JNum n) = show_int n"
| "json_stringify (JStr s) = json_text s"
| "json_stringify (JArr xs) = ''['' @ js_join '','' (map json_stringify xs) @ '']''"
| "json_stringify (JObj ob) =
     ''{'' @ js_join '','' (map (\<lambda>(k, v). json_text k @ '':'' @ json_stringify v) (filter (\<lambda>(k, v). v \<noteq> JUndef) ob)) @ ''}''"
  by pat_completeness auto

termination
  by (relation "measure size") (auto simp: less_Suc_eq_le intro: size_list_estimation' dest: size_member)

section \<open>Replacing in texts\<close>

text \<open>The replacement text of \<open>replace\<close> for a match without groups: \<open>pre\<close> and \<open>post\<close> are the text before and after the match \<open>m\<close>.\<close>

fun expand :: "string \<Rightarrow> string \<Rightarrow> string \<Rightarrow> string \<Rightarrow> string" where
  "expand pre m post [] = []"
| "expand pre m post [c] = [c]"
| "expand pre m post (c # d # r) =
     (if c = CHR ''$'' \<and> d = CHR ''$'' then CHR ''$'' # expand pre m post r
      else if c = CHR ''$'' \<and> d = CHR ''&'' then m @ expand pre m post r
      else if c = CHR ''$'' \<and> d = CHR 0x60 then pre @ expand pre m post r
      else if c = CHR ''$'' \<and> d = CHR 0x27 then post @ expand pre m post r
      else c # expand pre m post (d # r))"

text \<open>The text before and after the first occurrence.\<close>

fun split_first :: "string \<Rightarrow> string \<Rightarrow> (string \<times> string) option" where
  "split_first p [] = (if p = [] then Some ([], []) else None)"
| "split_first p (c # s) =
     (if is_prefix p (c # s) then Some ([], drop (length p) (c # s))
      else map_option (\<lambda>(a, b). (c # a, b)) (split_first p s))"

text \<open>\<open>s.replace(p, repl)\<close> for a text \<open>p\<close>.\<close>

definition js_replace :: "string \<Rightarrow> string \<Rightarrow> string \<Rightarrow> string" where
  "js_replace p repl s = (case split_first p s of None \<Rightarrow> s | Some (pre, post) \<Rightarrow> pre @ expand pre p post repl @ post)"

text \<open>The expression of a placeholder: two braces, spaces, the key, spaces, two braces. The length of the match at the start of \<open>s\<close>; the
  first spaces are matched greedily and given back one by one.\<close>

definition match_after :: "string \<Rightarrow> string \<Rightarrow> nat \<Rightarrow> nat option" where
  "match_after key r k =
     (let after = drop (k + length key) r; sp = length (takeWhile is_space after)
      in if is_prefix key (drop k r) \<and> is_prefix ''}}'' (drop sp after) then Some (k + length key + sp + 4) else None)"

definition match_placeholder :: "string \<Rightarrow> string \<Rightarrow> nat option" where
  "match_placeholder key s =
     (if is_prefix ''{{'' s
      then (let r = drop 2 s in
            case List.find (\<lambda>k. match_after key r k \<noteq> None) (rev [0..<Suc (length (takeWhile is_space r))]) of
              None \<Rightarrow> None | Some k \<Rightarrow> match_after key r k)
      else None)"

lemma match_placeholder_pos: "match_placeholder key s = Some n \<Longrightarrow> 0 < n"
  by (auto simp: match_placeholder_def match_after_def Let_def split: if_splits option.splits)

text \<open>\<open>acc.replace(new RegExp(..., 'g'), value)\<close>; \<open>pre\<close> is the part already scanned.\<close>

function replace_placeholder :: "string \<Rightarrow> string \<Rightarrow> string \<Rightarrow> string \<Rightarrow> string" where
  "replace_placeholder key v pre [] = []"
| "replace_placeholder key v pre (c # s) =
     (case match_placeholder key (c # s) of
        Some n \<Rightarrow> expand pre (take n (c # s)) (drop n (c # s)) v @ replace_placeholder key v (pre @ take n (c # s)) (drop n (c # s))
      | None \<Rightarrow> c # replace_placeholder key v (pre @ [c]) s)"
  by pat_completeness auto

termination
  by (relation "measure (\<lambda>(key, v, pre, s). length s)") (auto dest: match_placeholder_pos)

section \<open>Flat templates\<close>

record print_parameter =
  pp_key :: string
  pp_default_value :: "string option"

type_synonym render_params = "(string \<times> jvalue) list"

definition parameter_value :: "render_params \<Rightarrow> print_parameter \<Rightarrow> string" where
  "parameter_value params d =
     (let raw = get_prop (JObj params) (pp_key d) in
      if \<not> nullish raw \<and> \<not> is_array raw then js_String raw
      else case pp_default_value d of None \<Rightarrow> [] | Some s \<Rightarrow> s)"

definition substituteParameters :: "string \<Rightarrow> print_parameter list \<Rightarrow> render_params \<Rightarrow> string" where
  "substituteParameters html parameterDefs params =
     foldl (\<lambda>acc d. replace_placeholder (pp_key d) (parameter_value params d) [] acc) html parameterDefs"

section \<open>Banded templates\<close>

text \<open>\<open>/<\/script/gi\<close> replaced by \<open><\/script\<close> with a backslash.\<close>

definition script_end :: "string \<Rightarrow> bool" where
  "script_end s \<longleftrightarrow> is_prefix ''</script'' (js_to_lower s)"

function escape_script :: "string \<Rightarrow> string" where
  "escape_script [] = []"
| "escape_script (c # s) =
     (if script_end (c # s) then [CHR ''<'', CHR 0x5C] @ ''/script'' @ escape_script (drop 8 (c # s)) else c # escape_script s)"
  by pat_completeness auto

termination
  by (relation "measure length") auto

definition safeJson :: "render_params \<Rightarrow> string" where
  "safeJson params = escape_script (json_stringify (JObj params))"

definition dataScript :: "render_params \<Rightarrow> string" where
  "dataScript params = ''<script>window.__RP_DATA__ = '' @ safeJson params @ '';</script>''"

definition banded_render :: "string \<Rightarrow> string \<Rightarrow> render_params \<Rightarrow> string option \<Rightarrow> string" where
  "banded_render sharedScript htmlContent params customPaginatorScript =
     (let paginatorSource = (case customPaginatorScript of Some s \<Rightarrow> if js_trim s \<noteq> [] then s else sharedScript | None \<Rightarrow> sharedScript);
          injected = dataScript params @ [CHR 0x0A] @ ''<script>'' @ paginatorSource @ ''</script>''
      in if js_includes ''</body>'' htmlContent then js_replace ''</body>'' (injected @ [CHR 0x0A] @ ''</body>'') htmlContent
         else htmlContent @ [CHR 0x0A] @ injected)"

section \<open>A flat template is filled exactly\<close>

text \<open>A template as texts and placeholders; the spaces around the key are part of the placeholder.\<close>

datatype tpiece = Text string | Hole string string string

fun tpiece_src :: "tpiece \<Rightarrow> string" where
  "tpiece_src (Text s) = s"
| "tpiece_src (Hole a k b) = ''{{'' @ a @ k @ b @ ''}}''"

text \<open>A text has no two braces in a row and does not end in one; a key has no space and no brace.\<close>

definition text_ok :: "string \<Rightarrow> bool" where
  "text_ok s \<longleftrightarrow> \<not> js_includes ''{{'' s \<and> (s \<noteq> [] \<longrightarrow> last s \<noteq> CHR ''{'')"

definition key_ok :: "string \<Rightarrow> bool" where
  "key_ok k \<longleftrightarrow> k \<noteq> [] \<and> list_all (\<lambda>c. \<not> is_space c \<and> c \<noteq> CHR ''{'' \<and> c \<noteq> CHR ''}'') k"

fun piece_ok :: "tpiece \<Rightarrow> bool" where
  "piece_ok (Text s) = text_ok s"
| "piece_ok (Hole a k b) = (key_ok k \<and> list_all is_space a \<and> list_all is_space b)"

definition plain_value :: "string \<Rightarrow> bool" where
  "plain_value v \<longleftrightarrow> text_ok v \<and> CHR ''$'' \<notin> set v"

fun fill :: "string \<Rightarrow> string \<Rightarrow> tpiece \<Rightarrow> tpiece" where
  "fill key v (Text s) = Text s"
| "fill key v (Hole a k b) = (if k = key then Text v else Hole a k b)"

lemma expand_plain: "CHR ''$'' \<notin> set v \<Longrightarrow> expand pre m post v = v"
  by (induction pre m post v rule: expand.induct) auto

lemma brace_not_space [simp]: "\<not> is_space CHR ''{''" "\<not> is_space CHR ''}''"
  by (auto simp: is_space_def)

lemma no_match_here: "c \<noteq> CHR ''{'' \<or> s = [] \<or> hd s \<noteq> CHR ''{'' \<Longrightarrow> match_placeholder key (c # s) = None"
  by (cases s) (auto simp: match_placeholder_def)

lemma text_ok_Cons: "text_ok (c # s) \<Longrightarrow> text_ok s"
  by (cases s) (auto simp: text_ok_def)

lemma scan_text: "text_ok s \<Longrightarrow> replace_placeholder key v pre (s @ t) = s @ replace_placeholder key v (pre @ s) t"
proof (induction s arbitrary: pre)
  case (Cons c s)
  have "c \<noteq> CHR ''{'' \<or> hd (s @ t) \<noteq> CHR ''{'' \<and> s \<noteq> []"
    using Cons.prems by (cases s) (auto simp: text_ok_def)
  then have "match_placeholder key (c # s @ t) = None" using no_match_here by (metis append_is_Nil_conv)
  then show ?case using Cons.IH [OF text_ok_Cons [OF Cons.prems], of "pre @ [c]"] by simp
qed simp

lemma brace_free_ok: "CHR ''{'' \<notin> set s \<Longrightarrow> text_ok s"
proof -
  assume "CHR ''{'' \<notin> set s"
  moreover have "CHR ''{'' \<notin> set u \<Longrightarrow> \<not> js_includes ''{{'' u" for u by (induction u) auto
  ultimately show ?thesis using last_in_set by (fastforce simp: text_ok_def)
qed

lemma key_chars: "key_ok k \<Longrightarrow> c \<in> set k \<Longrightarrow> \<not> is_space c \<and> c \<noteq> CHR ''{'' \<and> c \<noteq> CHR ''}''"
  by (simp add: key_ok_def list_all_iff)

lemma spaces_taken: "list_all is_space a \<Longrightarrow> s \<noteq> [] \<Longrightarrow> \<not> is_space (hd s) \<Longrightarrow> takeWhile is_space (a @ s) = a"
  by (cases s) (auto simp: list_all_iff takeWhile_append2)

text \<open>After the spaces of a placeholder, the key in it is the only one that matches.\<close>

lemma match_after_hole:
  assumes "key_ok key" and "key_ok k" and "list_all is_space a" and "list_all is_space b" and "j \<le> length a"
  shows "match_after key (a @ k @ b @ ''}}'' @ t) j =
    (if j = length a \<and> key = k then Some (length a + length k + length b + 4) else None)"
proof (cases "j = length a")
  case False
  then have "is_space (hd (drop j (a @ k @ b @ ''}}'' @ t)))" and "drop j (a @ k @ b @ ''}}'' @ t) \<noteq> []"
    using assms(3,5) by (auto simp: hd_drop_conv_nth nth_append list_all_iff)
  then have "\<not> is_prefix key (drop j (a @ k @ b @ ''}}'' @ t))"
    using assms(1) key_chars [OF assms(1)] by (cases key; cases "drop j (a @ k @ b @ ''}}'' @ t)") (auto simp: key_ok_def)
  then show ?thesis using False by (simp add: match_after_def Let_def)
next
  case True
  have sp: "takeWhile is_space (b @ CHR ''}'' # CHR ''}'' # t) = b" using spaces_taken [OF assms(4), of "CHR ''}'' # CHR ''}'' # t"] by simp
  show ?thesis
  proof (cases "key = k")
    case True
    then show ?thesis using \<open>j = length a\<close> sp by (simp add: match_after_def Let_def)
  next
    case False
    have "\<not> is_prefix ''}}'' (drop (length (takeWhile is_space (drop (length key) (k @ b @ ''}}'' @ t)))) (drop (length key) (k @ b @ ''}}'' @ t)))"
      if p: "is_prefix key (k @ b @ ''}}'' @ t)"
    proof -
      from p obtain z where z: "k @ b @ ''}}'' @ t = key @ z" by (auto simp: is_prefix_conv)
      then obtain us where "k = key @ us \<and> us @ b @ ''}}'' @ t = z \<or> k @ us = key \<and> b @ ''}}'' @ t = us @ z"
        by (auto simp: append_eq_append_conv2)
      then show ?thesis
      proof (elim disjE conjE)
        assume us: "k = key @ us" "us @ b @ ''}}'' @ t = z"
        then obtain u us' where u: "us = u # us'" using False by (cases us) auto
        then have "\<not> is_space u" "u \<noteq> CHR ''}''" using key_chars [OF assms(2), of u] us(1) by auto
        then show ?thesis using z us(2) [symmetric] u by simp
      next
        assume us: "k @ us = key" "b @ ''}}'' @ t = us @ z"
        then obtain u us' where u: "us = u # us'" using False by (cases us) auto
        have "u \<in> set b \<or> u = CHR ''}''" using us(2) u by (cases b) auto
        then show ?thesis using key_chars [OF assms(1), of u] us(1) u assms(4) by (auto simp: list_all_iff)
      qed
    qed
    then show ?thesis using False True by (auto simp: match_after_def Let_def)
  qed
qed

lemma match_braces:
  "match_placeholder key (''{{'' @ r) =
     (case List.find (\<lambda>k. match_after key r k \<noteq> None) (rev [0..<Suc (length (takeWhile is_space r))]) of
        None \<Rightarrow> None | Some k \<Rightarrow> match_after key r k)"
  by (simp add: match_placeholder_def Let_def)

lemma match_hole:
  assumes "key_ok key" and "key_ok k" and "list_all is_space a" and "list_all is_space b"
  shows "match_placeholder key (''{{'' @ a @ k @ b @ ''}}'' @ t) = (if key = k then Some (length (tpiece_src (Hole a k b))) else None)"
proof -
  have k: "k \<noteq> []" "\<not> is_space (hd k)" using assms(2) by (auto simp: key_ok_def list_all_iff)
  have sp: "takeWhile is_space (a @ k @ b @ ''}}'' @ t) = a" using spaces_taken [OF assms(3), of "k @ b @ ''}}'' @ t"] k by simp
  have m: "match_after key (a @ k @ b @ ''}}'' @ t) j = (if j = length a \<and> key = k then Some (length a + length k + length b + 4) else None)"
    if "j \<le> length a" for j using match_after_hole [OF assms that] .
  have n: "List.find (\<lambda>j. match_after key (a @ k @ b @ ''}}'' @ t) j \<noteq> None) (rev [0..<Suc (length a)]) = (if key = k then Some (length a) else None)"
    using m by (auto simp: find_None_iff)
  show ?thesis unfolding match_braces sp n using m [of "length a"] by (auto simp: add.commute)
qed

lemma scan_hole:
  assumes "key_ok key" and "piece_ok (Hole a k b)" and "CHR ''$'' \<notin> set v"
  shows "replace_placeholder key v pre (tpiece_src (Hole a k b) @ t) =
     tpiece_src (fill key v (Hole a k b)) @ replace_placeholder key v (pre @ tpiece_src (Hole a k b)) t"
proof (cases "key = k")
  case True
  have "match_placeholder key (CHR ''{'' # CHR ''{'' # a @ k @ b @ ''}}'' @ t) = Some (length (tpiece_src (Hole a k b)))"
    using match_hole [of key k a b t] assms True by simp
  then show ?thesis using True assms(3) by (simp add: expand_plain)
next
  case False
  have m: "match_placeholder key (CHR ''{'' # CHR ''{'' # a @ k @ b @ ''}}'' @ t) = None"
    using match_hole [of key k a b t] assms False by simp
  have hd: "hd (a @ k @ b @ ''}}'' @ t) \<noteq> CHR ''{''"
    using assms(2) key_chars [of k "hd k"] by (cases a; cases k) (auto simp: key_ok_def)
  have "CHR ''{'' \<notin> set (a @ k @ b @ ''}}'')" using assms(2) key_chars [of k "CHR ''{''"] by (auto simp: list_all_iff)
  from scan_text [OF brace_free_ok [OF this], of key v "pre @ ''{{''" t]
  have "replace_placeholder key v (pre @ ''{{'') (a @ k @ b @ ''}}'' @ t) = a @ k @ b @ ''}}'' @ replace_placeholder key v (pre @ tpiece_src (Hole a k b)) t"
    by simp
  then show ?thesis using m no_match_here [of "CHR ''{''" "a @ k @ b @ ''}}'' @ t" key] hd False by simp
qed

lemma scan_pieces:
  assumes "key_ok key" and "\<forall>p \<in> set ps. piece_ok p" and "CHR ''$'' \<notin> set v"
  shows "replace_placeholder key v pre (concat (map tpiece_src ps)) = concat (map (tpiece_src \<circ> fill key v) ps)"
  using assms(2)
proof (induction ps arbitrary: pre)
  case (Cons p ps)
  show ?case
  proof (cases p)
    case (Text s)
    then show ?thesis using Cons scan_text [of s key v pre "concat (map tpiece_src ps)"] by simp
  next
    case (Hole a k b)
    then show ?thesis using Cons scan_hole [OF assms(1) _ assms(3), of a k b pre "concat (map tpiece_src ps)"] by simp
  qed
qed simp

fun filled :: "print_parameter list \<Rightarrow> render_params \<Rightarrow> tpiece \<Rightarrow> string" where
  "filled ds params (Text s) = s"
| "filled ds params (Hole a k b) =
     (case List.find (\<lambda>d. pp_key d = k) ds of Some d \<Rightarrow> parameter_value params d | None \<Rightarrow> tpiece_src (Hole a k b))"

lemma fill_ok: "plain_value v \<Longrightarrow> piece_ok p \<Longrightarrow> piece_ok (fill key v p)"
  by (cases p) (auto simp: plain_value_def)

lemma filled_step: "filled ds params (fill (pp_key d) (parameter_value params d) p) = filled (d # ds) params p"
  by (cases p) auto

text \<open>a flat template is filled exactly. In a template of texts and placeholders every placeholder of a declared key becomes
  the value sent for it, its default or nothing, and everything else stays as it is, provided that no value has a dollar
  sign or an opening pair of braces.\<close>

theorem substitute_exact:
  assumes "\<forall>p \<in> set ps. piece_ok p" and "\<forall>d \<in> set ds. key_ok (pp_key d) \<and> plain_value (parameter_value params d)"
  shows "substituteParameters (concat (map tpiece_src ps)) ds params = concat (map (filled ds params) ps)"
  using assms
proof (induction ds arbitrary: ps)
  case Nil
  have "filled [] params p = tpiece_src p" for p by (cases p) auto
  then show ?case by (simp add: substituteParameters_def)
next
  case (Cons d ds)
  let ?v = "parameter_value params d"
  have v: "plain_value ?v" "key_ok (pp_key d)" using Cons.prems(2) by auto
  have step: "replace_placeholder (pp_key d) ?v [] (concat (map tpiece_src ps)) = concat (map tpiece_src (map (fill (pp_key d) ?v) ps))"
    using scan_pieces [OF v(2) Cons.prems(1)] v(1) by (simp add: plain_value_def)
  have ok: "\<forall>p \<in> set (map (fill (pp_key d) ?v) ps). piece_ok p" using Cons.prems(1) fill_ok [OF v(1)] by auto
  have "substituteParameters (concat (map tpiece_src ps)) (d # ds) params
      = substituteParameters (concat (map tpiece_src (map (fill (pp_key d) ?v) ps))) ds params"
    using step by (simp add: substituteParameters_def)
  also have "\<dots> = concat (map (filled ds params) (map (fill (pp_key d) ?v) ps))" using Cons.IH [OF ok] Cons.prems(2) by simp
  finally show ?case by (simp add: filled_step comp_def)
qed

theorem substitute_exact_witness:
  "substituteParameters ''<p>{{ name }}: {{total}}</p>'' [\<lparr>pp_key = ''name'', pp_default_value = None\<rparr>, \<lparr>pp_key = ''total'', pp_default_value = Some ''0''\<rparr>]
     [(''name'', JStr ''Ann'')] = ''<p>Ann: 0</p>''"
proof -
  let ?ps = "[Text ''<p>'', Hole '' '' ''name'' '' '', Text '': '', Hole [] ''total'' [], Text ''</p>'']"
  let ?ds = "[\<lparr>pp_key = ''name'', pp_default_value = None\<rparr>, \<lparr>pp_key = ''total'', pp_default_value = Some ''0''\<rparr>]"
  have "\<forall>p \<in> set ?ps. piece_ok p" by (simp add: text_ok_def key_ok_def is_space_def)
  moreover have "\<forall>d \<in> set ?ds. key_ok (pp_key d) \<and> plain_value (parameter_value [(''name'', JStr ''Ann'')] d)"
    by (simp add: text_ok_def key_ok_def is_space_def plain_value_def parameter_value_def nullish_def)
  ultimately show ?thesis
    using substitute_exact [of ?ps ?ds "[(''name'', JStr ''Ann'')]"] by (simp add: parameter_value_def nullish_def)
qed

text \<open>What the proviso excludes: a doubled dollar sign loses one, a dollar sign and an ampersand bring the placeholder back, and a
  value that contains a placeholder is filled again by a later parameter.\<close>

lemma substitute_reinterprets:
  "substituteParameters ''{{a}}'' [\<lparr>pp_key = ''a'', pp_default_value = None\<rparr>] [(''a'', JStr ''$$5'')] = ''$5''"
  "substituteParameters ''{{a}}'' [\<lparr>pp_key = ''a'', pp_default_value = None\<rparr>] [(''a'', JStr ''A$&B'')] = ''A{{a}}B''"
  "substituteParameters ''{{a}} {{b}}'' [\<lparr>pp_key = ''a'', pp_default_value = None\<rparr>, \<lparr>pp_key = ''b'', pp_default_value = None\<rparr>]
     [(''a'', JStr ''{{b}}''), (''b'', JStr ''secret'')] = ''secret secret''"
  by code_simp+

section \<open>Render data stays inside its script element\<close>

lemma lower_simps [simp]: "js_to_lower [] = []" "js_to_lower (c # s) = to_lower_char c # js_to_lower s" "js_to_lower (s @ t) = js_to_lower s @ js_to_lower t"
  by (simp_all add: js_to_lower_def)

lemma lower_fixed [simp]: "to_lower_char CHR ''/'' = CHR ''/''" "to_lower_char CHR '';'' = CHR '';''" "to_lower_char CHR 0x5C = CHR 0x5C" "to_lower_char CHR ''<'' = CHR ''<''"
  by (simp_all add: to_lower_char_def is_upper_def less_eq_char_def)

text \<open>A piece of the closing tag after its first character cannot arise from the replacement.\<close>

lemma escape_prefix:
  "CHR ''<'' \<notin> set p \<Longrightarrow> CHR '';'' \<notin> set p \<Longrightarrow> is_prefix p (js_to_lower (escape_script s @ '';'')) \<Longrightarrow> is_prefix p (js_to_lower s)"
proof (induction p arbitrary: s)
  case (Cons x p)
  show ?case
  proof (cases s)
    case Nil
    then show ?thesis using Cons.prems by simp
  next
    case c: (Cons c t)
    show ?thesis
    proof (cases "script_end s")
      case True
      then show ?thesis using Cons.prems c by simp
    next
      case False
      then show ?thesis using Cons.prems Cons.IH [of t] c by simp
    qed
  qed
qed simp

lemma escape_contained: "\<not> js_includes ''</script'' (js_to_lower (escape_script s @ '';''))"
proof (induction s rule: escape_script.induct)
  case (2 c s)
  show ?case
  proof (cases "script_end (c # s)")
    case True
    have t: "js_to_lower ''/script'' = ''/script''" by code_simp
    show ?thesis using 2(1) [OF True] True t by simp
  next
    case False
    have "\<not> is_prefix ''</script'' (js_to_lower (c # escape_script s @ '';''))"
    proof
      assume a: "is_prefix ''</script'' (js_to_lower (c # escape_script s @ '';''))"
      then have "is_prefix ''/script'' (js_to_lower (escape_script s @ '';''))" and "to_lower_char c = CHR ''<''" by simp_all
      from escape_prefix [OF _ _ this(1)] this(2) have "script_end (c # s)" by (simp add: script_end_def)
      with False show False ..
    qed
    then show ?thesis using 2(2) [OF False] False by simp
  qed
qed simp

lemma escape_chars: "c \<in> set (escape_script s) \<Longrightarrow> c \<in> set s \<or> c \<in> set ''</script'' \<or> c = CHR 0x5C"
proof (induction s rule: escape_script.induct)
  case (2 d s)
  show ?case
  proof (cases "script_end (d # s)")
    case True
    define rest where "rest = drop 8 (d # s)"
    have sub: "c \<in> set (d # s)" if "c \<in> set rest" using that unfolding rest_def by (rule in_set_dropD)
    have "escape_script (d # s) = [CHR ''<'', CHR 0x5C] @ ''/script'' @ escape_script rest" using True by (simp add: rest_def)
    then have "c \<in> {CHR ''<'', CHR 0x5C} \<union> set ''/script'' \<or> c \<in> set (escape_script rest)" using 2(3) by (auto simp del: escape_script.simps)
    then have "c \<in> {CHR ''<'', CHR 0x5C} \<union> set ''/script'' \<or> c \<in> set rest \<or> c \<in> set ''</script'' \<or> c = CHR 0x5C"
      using 2(1) [OF True, folded rest_def] by blast
    moreover have "x \<in> {CHR ''<'', CHR 0x5C} \<union> set ''/script'' \<Longrightarrow> x \<in> set ''</script'' \<or> x = CHR 0x5C" for x by auto
    ultimately show ?thesis using sub by blast
  next
    case False
    then show ?thesis using 2(2) [OF False] 2(3) by auto
  qed
qed simp

lemma split_first_Some: "split_first p s = Some (a, b) \<Longrightarrow> s = a @ p @ b"
  by (induction s arbitrary: a b) (auto simp: is_prefix_conv split: if_splits)

lemma split_first_None: "split_first p s = None \<longleftrightarrow> \<not> js_includes p s"
  by (induction s) auto



text \<open>With a dollar sign and a backquote in the data the text before the closing body tag is copied into the data, closing tags of its own
  scripts included; a dollar sign and a quote copy the text after it.\<close>

lemma banded_dollar_escapes:
  "banded_render ''s'' ''<script></script></body>'' [(''a'', JStr [CHR ''$'', CHR 0x60])] None
     = ''<script></script><script>window.__RP_DATA__ = {'' @ [CHR 0x22] @ ''a'' @ [CHR 0x22] @ '':'' @ [CHR 0x22] @ ''<script></script>''
       @ [CHR 0x22] @ ''};</script>'' @ [CHR 0x0A] @ ''<script>s</script>'' @ [CHR 0x0A] @ ''</body>''"
  by code_simp

end
