(* ===== verification/Print_Templates.thy ===== *)
theory Print_Templates
  imports File_Storage Template_Text Complex_Main
begin

text \<open>
  \<open>apps/report-bc/src/modules/print-template/services/print-templates.service.ts\<close> and \<open>apps/report-bc/src/modules/print/services/gotenberg.service.ts\<close>: templates whose
  texts live in the object store while their rows in Postgres hold the object's bucket, path and digest. Every call of the
  storage service may fail or lose its answer; removal of a replaced object is not waited for. The digest, the
  renderer and the reading of a signed link are parameters. Columns that no operation reads (names, descriptions, layout
  settings, sample data) are left out. Shown: every row's texts are in the store with the recorded digest in every
  reachable state, what is saved is what is read; and the concurrent update that loses a text.
\<close>

section \<open>Rows and requests\<close>

record print_template = base_entity +
  pt_code :: string
  pt_html_bucket :: string
  pt_html_path :: string
  pt_html_hash :: "string option"
  pt_js_bucket :: "string option"
  pt_js_path :: "string option"
  pt_js_hash :: "string option"
  pt_is_active :: bool
  pt_paper_size :: string
  pt_orientation :: string
  pt_parameters :: "print_parameter list"
  pt_template_engine :: string
  pt_emulated_media_type :: string

text \<open>\<open>js_content\<close> of an update: absent, \<open>null\<close> or a text.\<close>

datatype js_content = JsUnchanged | JsClear | JsText string

record update_template_dto =
  ud_code :: "string option"
  ud_is_active :: "bool option"
  ud_paper_size :: "string option"
  ud_orientation :: "string option"
  ud_parameters :: "print_parameter list option"
  ud_template_engine :: "string option"
  ud_emulated_media_type :: "string option"
  ud_html_content :: "string option"
  ud_js_content :: js_content

text \<open>How a call of the storage service goes: its delivery, the answer of the store, the generated id.\<close>

record storage_call =
  sc_delivery :: delivery
  sc_outcome :: s3_outcome
  sc_uuid :: string

datatype pdf_response = Unreachable | BadStatus nat | PdfBytes string

record pdf_request =
  pr_html :: string
  pr_widthIn :: rat
  pr_heightIn :: rat
  pr_emulatedMediaType :: string
  pr_waitForExpression :: string

record print_env =
  pe_storage :: storage_env
  pe_rpc :: rpc_env
  pe_wire :: "exc \<Rightarrow> caught"
  pe_bucket :: string
  pe_hash :: "string \<Rightarrow> string"
  pe_chk :: "print_template list \<Rightarrow> print_template \<Rightarrow> driver_error option"
  pe_http_get :: "objects \<Rightarrow> string \<Rightarrow> string option"
  pe_paginator :: string
  pe_gotenberg :: "pdf_request \<Rightarrow> pdf_response"

section \<open>Calls of the storage service\<close>

definition upload_json :: "upload_meta \<Rightarrow> jvalue" where
  "upload_json m = JObj [(''path'', JStr (um_path m)), (''bucket'', JStr (um_bucket m)), (''original_name'', JStr (um_original_name m)),
     (''mime_type'', JStr (um_mime_type m)), (''extension'', JStr (um_extension m)), (''size'', JNum (int (um_size m))),
     (''file_type'', JStr (case um_file_type m of IMAGE \<Rightarrow> ''image'' | PDF \<Rightarrow> ''pdf''))]"

definition str_prop :: "jvalue \<Rightarrow> string \<Rightarrow> string" where
  "str_prop v k = (case get_prop v k of JStr s \<Rightarrow> s | _ \<Rightarrow> [])"

definition storage_upload :: "print_env \<Rightarrow> storage_call \<Rightarrow> string \<Rightarrow> serialized_file \<Rightarrow> objects \<Rightarrow> (exc + jvalue) \<times> objects" where
  "storage_upload env call key file objs =
     (case uploadWithMeta (pe_storage env) (sc_uuid call) (sc_outcome call) (pe_bucket env) key file objs of (r, objs') \<Rightarrow>
      call_service (pe_rpc env) (sc_delivery call) ''storage.uploadFileWithMeta''
        (JObj [(''bucket'', JStr (pe_bucket env)), (''key'', JStr key)]) JNull
        (case r of Inl e \<Rightarrow> Rejected (pe_wire env e) | Inr m \<Rightarrow> Emitted (upload_json m)) objs objs')"

definition storage_sign :: "print_env \<Rightarrow> delivery \<Rightarrow> string \<Rightarrow> jvalue \<Rightarrow> exc + jvalue" where
  "storage_sign env delivery path defaultValue =
     fst (call_service (pe_rpc env) delivery ''storage.generateSignedUrls'' (JObj [(''paths'', JArr [JStr path])]) defaultValue
        (case generateSignedUrls (pe_storage env) [path] [] of
           Inl e \<Rightarrow> Rejected (pe_wire env (ErrorExc (se_message e))) | Inr urls \<Rightarrow> Emitted (JArr (map JStr urls))) () ())"

definition STORAGE_KEY_PREFIX :: string where "STORAGE_KEY_PREFIX = ''reports/print-templates''"
definition RENDER_STORAGE_KEY_PREFIX :: string where "RENDER_STORAGE_KEY_PREFIX = ''reports/print-template-renders''"

definition templateStorageKey :: "string \<Rightarrow> string" where
  "templateStorageKey i = STORAGE_KEY_PREFIX @ ''/'' @ i"

definition uploadTemplateAsset ::
    "print_env \<Rightarrow> storage_call \<Rightarrow> string \<Rightarrow> string \<Rightarrow> string \<Rightarrow> string \<Rightarrow> string \<Rightarrow> objects \<Rightarrow> (exc + string \<times> string) \<times> objects" where
  "uploadTemplateAsset env call i filename mime content label objs =
     (case storage_upload env call (templateStorageKey i) \<lparr>originalname = filename, mimetype = mime, buffer = content\<rparr> objs of
        (Inl e, objs') \<Rightarrow> (Inl e, objs')
      | (Inr result, objs') \<Rightarrow>
          (if nullish result
           then (Inl (ServiceUnavailableException (''Failed to store the template '' @ label @ '' - the storage service is unavailable.'')), objs')
           else (Inr (str_prop result ''bucket'', str_prop result ''path''), objs')))"

text \<open>Not waited for, and its errors are only logged: what it leaves of the store.\<close>

definition removeStorageObject :: "print_env \<Rightarrow> storage_call \<Rightarrow> string \<times> string \<Rightarrow> objects \<Rightarrow> objects" where
  "removeStorageObject env call ref objs =
     (case ref of (bucket, key) \<Rightarrow>
       (if sc_delivery call = RequestLost then objs else snd (remove (sc_outcome call) bucket key objs)))"

text \<open>The attempts to read a link: \<open>get k\<close> is what attempt \<open>k\<close> reads.\<close>

fun fetch_from :: "(nat \<Rightarrow> string option) \<Rightarrow> nat \<Rightarrow> nat \<Rightarrow> string option" where
  "fetch_from get attempt 0 = None"
| "fetch_from get attempt (Suc n) = (case get attempt of Some t \<Rightarrow> Some t | None \<Rightarrow> fetch_from get (attempt + 1) n)"

definition fetchTemplateAsset :: "print_env \<Rightarrow> delivery \<Rightarrow> (nat \<Rightarrow> bool) \<Rightarrow> string \<Rightarrow> string \<Rightarrow> objects \<Rightarrow> exc + string" where
  "fetchTemplateAsset env delivery net key label objs =
     (let failed = ServiceUnavailableException (''Failed to load the template '' @ label @ '' - the storage service is unavailable.'') in
      case storage_sign env delivery key JNull of
        Inl e \<Rightarrow> Inl e
      | Inr urls \<Rightarrow>
          (case first_element urls of
             JStr url \<Rightarrow>
               (if url = [] then Inl failed
                else case fetch_from (\<lambda>k. if net k then pe_http_get env objs url else None) 1 5 of None \<Rightarrow> Inl failed | Some t \<Rightarrow> Inr t)
           | _ \<Rightarrow> Inl failed))"

section \<open>Creating, updating and reading templates\<close>

text \<open>\<open>data\<close> is the row of the request without the columns of the texts; an empty \<open>js_content\<close> counts as none.\<close>

definition templates_create ::
    "print_env \<Rightarrow> string \<Rightarrow> storage_call \<Rightarrow> storage_call \<Rightarrow> print_template \<Rightarrow> string \<Rightarrow> string option \<Rightarrow> actor
      \<Rightarrow> print_template list \<times> objects \<Rightarrow> (print_template list \<times> objects) \<times> (exc + print_template)" where
  "templates_create env i html_call js_call data html js user st =
     (case st of (rows, objs) \<Rightarrow>
      (case uploadTemplateAsset env html_call i (pt_code data @ ''.html'') ''text/html'' html ''HTML'' objs of
         (Inl e, objs1) \<Rightarrow> ((rows, objs1), Inl e)
       | (Inr uploadedHtml, objs1) \<Rightarrow>
      (let js' = (case js of Some s \<Rightarrow> if s = [] then None else Some s | None \<Rightarrow> None) in
       case (case js' of None \<Rightarrow> (Inr None, objs1)
             | Some s \<Rightarrow>
                 (case uploadTemplateAsset env js_call i (pt_code data @ ''.js'') ''text/javascript'' s ''JavaScript'' objs1 of
                    (Inl e, objs2) \<Rightarrow> (Inl e, objs2) | (Inr ref, objs2) \<Rightarrow> (Inr (Some ref), objs2))) of
         (Inl e, objs2) \<Rightarrow> ((rows, objs2), Inl e)
       | (Inr uploadedJs, objs2) \<Rightarrow>
      (let entity = stamp_created user (data\<lparr>eid := i, pt_html_bucket := fst uploadedHtml, pt_html_path := snd uploadedHtml,
             pt_html_hash := Some (pe_hash env html), pt_js_bucket := map_option fst uploadedJs, pt_js_path := map_option snd uploadedJs,
             pt_js_hash := map_option (pe_hash env) js'\<rparr>)
       in case executeDbOperation ''print_templates'' (repo_save (pe_chk env) entity rows) of
            Inl e \<Rightarrow> ((rows, objs2), Inl (exc_of e))
          | Inr rows' \<Rightarrow> ((rows', objs2), Inr entity)))))"

text \<open>The columns of a row a request assigns.\<close>

definition assign :: "'a option \<Rightarrow> 'a \<Rightarrow> 'a" where
  "assign new old = (case new of None \<Rightarrow> old | Some v \<Rightarrow> v)"

definition apply_dto :: "update_template_dto \<Rightarrow> print_template \<Rightarrow> print_template" where
  "apply_dto dto r = r\<lparr>pt_code := assign (ud_code dto) (pt_code r), pt_is_active := assign (ud_is_active dto) (pt_is_active r),
     pt_paper_size := assign (ud_paper_size dto) (pt_paper_size r), pt_orientation := assign (ud_orientation dto) (pt_orientation r),
     pt_parameters := assign (ud_parameters dto) (pt_parameters r), pt_template_engine := assign (ud_template_engine dto) (pt_template_engine r),
     pt_emulated_media_type := assign (ud_emulated_media_type dto) (pt_emulated_media_type r)\<rparr>"

text \<open>The object of the script override of a row, if it has one.\<close>

definition js_ref :: "print_template \<Rightarrow> (string \<times> string) option" where
  "js_ref r = (case (pt_js_bucket r, pt_js_path r) of (Some b, Some p) \<Rightarrow> if b \<noteq> [] \<and> p \<noteq> [] then Some (b, p) else None | _ \<Rightarrow> None)"

text \<open>What becomes of the columns of a text, and the object it supersedes.\<close>

record text_columns =
  tc_bucket :: "string option"
  tc_path :: "string option"
  tc_hash :: "string option"
  tc_superseded :: "(string \<times> string) option"

definition next_html :: "print_env \<Rightarrow> storage_call \<Rightarrow> string \<Rightarrow> update_template_dto \<Rightarrow> print_template \<Rightarrow> objects \<Rightarrow> (exc + text_columns) \<times> objects" where
  "next_html env call i dto existing objs =
     (let kept = \<lparr>tc_bucket = Some (pt_html_bucket existing), tc_path = Some (pt_html_path existing), tc_hash = pt_html_hash existing, tc_superseded = None\<rparr> in
      case ud_html_content dto of
        None \<Rightarrow> (Inr kept, objs)
      | Some html \<Rightarrow>
          (let newHash = pe_hash env html in
           if Some newHash = pt_html_hash existing then (Inr kept, objs)
           else case uploadTemplateAsset env call i (assign (ud_code dto) (pt_code existing) @ ''.html'') ''text/html'' html ''HTML'' objs of
                  (Inl e, objs') \<Rightarrow> (Inl e, objs')
                | (Inr (b, p), objs') \<Rightarrow>
                    (Inr \<lparr>tc_bucket = Some b, tc_path = Some p, tc_hash = Some newHash,
                          tc_superseded = Some (pt_html_bucket existing, pt_html_path existing)\<rparr>, objs')))"

definition next_js :: "print_env \<Rightarrow> storage_call \<Rightarrow> string \<Rightarrow> update_template_dto \<Rightarrow> print_template \<Rightarrow> objects \<Rightarrow> (exc + text_columns) \<times> objects" where
  "next_js env call i dto existing objs =
     (let kept = \<lparr>tc_bucket = pt_js_bucket existing, tc_path = pt_js_path existing, tc_hash = pt_js_hash existing, tc_superseded = None\<rparr> in
      case ud_js_content dto of
        JsUnchanged \<Rightarrow> (Inr kept, objs)
      | JsClear \<Rightarrow> (Inr \<lparr>tc_bucket = None, tc_path = None, tc_hash = None, tc_superseded = js_ref existing\<rparr>, objs)
      | JsText js \<Rightarrow>
          (let newHash = pe_hash env js in
           if Some newHash = pt_js_hash existing then (Inr kept, objs)
           else case uploadTemplateAsset env call i (assign (ud_code dto) (pt_code existing) @ ''.js'') ''text/javascript'' js ''JavaScript'' objs of
                  (Inl e, objs') \<Rightarrow> (Inl e, objs')
                | (Inr (b, p), objs') \<Rightarrow>
                    (Inr \<lparr>tc_bucket = Some b, tc_path = Some p, tc_hash = Some newHash, tc_superseded = js_ref existing\<rparr>, objs')))"

definition update_patch :: "update_template_dto \<Rightarrow> text_columns \<Rightarrow> text_columns \<Rightarrow> print_template \<Rightarrow> print_template" where
  "update_patch dto h j r = (apply_dto dto r)\<lparr>pt_html_bucket := assign (tc_bucket h) [], pt_html_path := assign (tc_path h) [], pt_html_hash := tc_hash h,
     pt_js_bucket := tc_bucket j, pt_js_path := tc_path j, pt_js_hash := tc_hash j\<rparr>"

definition remove_superseded :: "print_env \<Rightarrow> storage_call \<Rightarrow> text_columns \<Rightarrow> objects \<Rightarrow> objects" where
  "remove_superseded env call tc objs = (case tc_superseded tc of None \<Rightarrow> objs | Some ref \<Rightarrow> removeStorageObject env call ref objs)"

record update_calls =
  uc_html :: storage_call
  uc_js :: storage_call
  uc_drop_html :: storage_call
  uc_drop_js :: storage_call

text \<open>\<open>update\<close> after it has read the row \<open>existing\<close>.\<close>

definition update_existing ::
    "print_env \<Rightarrow> update_calls \<Rightarrow> string \<Rightarrow> update_template_dto \<Rightarrow> actor \<Rightarrow> print_template
      \<Rightarrow> print_template list \<times> objects \<Rightarrow> (print_template list \<times> objects) \<times> (exc + print_template)" where
  "update_existing env calls i dto user existing st =
     (case st of (rows, objs) \<Rightarrow>
      (case next_html env (uc_html calls) i dto existing objs of
         (Inl e, objs1) \<Rightarrow> ((rows, objs1), Inl e)
       | (Inr h, objs1) \<Rightarrow>
      (case next_js env (uc_js calls) i dto existing objs1 of
         (Inl e, objs2) \<Rightarrow> ((rows, objs2), Inl e)
       | (Inr j, objs2) \<Rightarrow>
      (case preload i (update_patch dto h j) user rows of
         None \<Rightarrow> ((rows, objs2), Inl (exc_of (NotFoundException (not_found_message ''print_templates'' i))))
       | Some entity \<Rightarrow>
      (case executeDbOperation ''print_templates'' (repo_save (pe_chk env) entity rows) of
         Inl e \<Rightarrow> ((rows, objs2), Inl (exc_of e))
       | Inr rows' \<Rightarrow>
           ((rows', remove_superseded env (uc_drop_js calls) j (remove_superseded env (uc_drop_html calls) h objs2)), Inr entity))))))"

definition templates_update ::
    "print_env \<Rightarrow> update_calls \<Rightarrow> string \<Rightarrow> update_template_dto \<Rightarrow> actor \<Rightarrow> print_template list \<times> objects
      \<Rightarrow> (print_template list \<times> objects) \<times> (exc + print_template)" where
  "templates_update env calls i dto user st =
     (case base_findById ''print_templates'' i (fst st) of
        Inl e \<Rightarrow> (st, Inl (exc_of e))
      | Inr existing \<Rightarrow> update_existing env calls i dto user existing st)"

record read_calls =
  rc_html_delivery :: delivery
  rc_html_net :: "nat \<Rightarrow> bool"
  rc_js_delivery :: delivery
  rc_js_net :: "nat \<Rightarrow> bool"

definition templates_findById ::
    "print_env \<Rightarrow> read_calls \<Rightarrow> string \<Rightarrow> print_template list \<times> objects \<Rightarrow> exc + print_template \<times> string \<times> string option" where
  "templates_findById env calls i st =
     (case st of (rows, objs) \<Rightarrow>
      (case base_findById ''print_templates'' i rows of
         Inl e \<Rightarrow> Inl (exc_of e)
       | Inr entity \<Rightarrow>
      (case fetchTemplateAsset env (rc_html_delivery calls) (rc_html_net calls) (pt_html_path entity) ''HTML'' objs of
         Inl e \<Rightarrow> Inl e
       | Inr html \<Rightarrow>
      (case js_ref entity of
         None \<Rightarrow> Inr (entity, html, None)
       | Some (b, p) \<Rightarrow>
           (case fetchTemplateAsset env (rc_js_delivery calls) (rc_js_net calls) p ''JavaScript'' objs of
              Inl e \<Rightarrow> Inl e | Inr js \<Rightarrow> Inr (entity, html, Some js))))))"

section \<open>Rendering\<close>

definition PAPER_DIMENSIONS :: "string \<Rightarrow> (rat \<times> rat) option" where
  "PAPER_DIMENSIONS paper =
     map_of [(''A4'', (827 / 100, 1169 / 100)), (''A5'', (583 / 100, 827 / 100)), (''Letter'', (17 / 2, 11)), (''Legal'', (17 / 2, 14))] paper"

definition resolvePaperDimensions :: "string \<Rightarrow> string \<Rightarrow> rat \<times> rat" where
  "resolvePaperDimensions paperSize orientation =
     (let (w, h) = (case PAPER_DIMENSIONS paperSize of Some d \<Rightarrow> d | None \<Rightarrow> (827 / 100, 1169 / 100))
      in if orientation = ''landscape'' then (h, w) else (w, h))"

definition FONTS_LOADED :: string where
  "FONTS_LOADED = ''document.fonts.status === '' @ quoted ''loaded''"

definition WAIT_FOR_EXPRESSION :: string where
  "WAIT_FOR_EXPRESSION = ''window.__PAGINATION_DONE === true && '' @ FONTS_LOADED"

definition convertHtmlToPdf :: "print_env \<Rightarrow> string \<Rightarrow> rat \<times> rat \<Rightarrow> string option \<Rightarrow> string option \<Rightarrow> exc + string" where
  "convertHtmlToPdf env html paperSize emulatedMediaType waitForExpression =
     (case pe_gotenberg env \<lparr>pr_html = html, pr_widthIn = fst paperSize, pr_heightIn = snd paperSize,
          pr_emulatedMediaType = assign emulatedMediaType ''print'', pr_waitForExpression = assign waitForExpression FONTS_LOADED\<rparr> of
        Unreachable \<Rightarrow> Inl (ServiceUnavailableException ''Cannot connect to the PDF rendering service.'')
      | BadStatus n \<Rightarrow> Inl (ServiceUnavailableException ''The PDF rendering service failed to generate the document.'')
      | PdfBytes b \<Rightarrow> Inr b)"

definition previewRender ::
    "print_env \<Rightarrow> string \<Rightarrow> string option \<Rightarrow> string option \<Rightarrow> string option \<Rightarrow> render_params \<Rightarrow> string option \<Rightarrow> exc + string" where
  "previewRender env html paperSize orientation templateEngine params jsContent =
     (let isBanded = (templateEngine = Some ''banded'');
          renderHtml = (if isBanded then banded_render (pe_paginator env) html params jsContent else html)
      in convertHtmlToPdf env renderHtml (resolvePaperDimensions (assign paperSize ''A4'') (assign orientation ''portrait'')) None
           (if isBanded then Some WAIT_FOR_EXPRESSION else None))"

record render_result =
  rr_template_code :: string
  rr_path :: string
  rr_bucket :: string
  rr_url :: string
  rr_size :: jvalue

definition rendered_html :: "print_env \<Rightarrow> print_template \<Rightarrow> string \<Rightarrow> string option \<Rightarrow> render_params \<Rightarrow> string" where
  "rendered_html env r html js params =
     (if pt_template_engine r = ''banded'' then banded_render (pe_paginator env) html params js
      else substituteParameters html (pt_parameters r) params)"

definition templates_render ::
    "print_env \<Rightarrow> read_calls \<Rightarrow> storage_call \<Rightarrow> delivery \<Rightarrow> string \<Rightarrow> string \<Rightarrow> render_params
      \<Rightarrow> print_template list \<times> objects \<Rightarrow> objects \<times> (exc + render_result)" where
  "templates_render env reads up sign_delivery file_id i params st =
     (case templates_findById env reads i st of
        Inl e \<Rightarrow> (snd st, Inl e)
      | Inr (r, html, js) \<Rightarrow>
      (case convertHtmlToPdf env (rendered_html env r html js params) (resolvePaperDimensions (pt_paper_size r) (pt_orientation r))
              (Some (if pt_emulated_media_type r = ''screen'' then ''screen'' else ''print''))
              (if pt_template_engine r = ''banded'' then Some WAIT_FOR_EXPRESSION else None) of
         Inl e \<Rightarrow> (snd st, Inl e)
       | Inr pdf \<Rightarrow>
      (case storage_upload env up RENDER_STORAGE_KEY_PREFIX
              \<lparr>originalname = pt_code r @ ''-'' @ file_id @ ''.pdf'', mimetype = ''application/pdf'', buffer = pdf\<rparr> (snd st) of
         (Inl e, objs') \<Rightarrow> (objs', Inl e)
       | (Inr result, objs') \<Rightarrow>
      (if nullish result
       then (objs', Inl (ServiceUnavailableException ''Generated the PDF but failed to store it - the storage service is unavailable.''))
       else case storage_sign env sign_delivery (str_prop result ''path'') (JArr []) of
              Inl e \<Rightarrow> (objs', Inl e)
            | Inr urls \<Rightarrow>
                (objs', Inr \<lparr>rr_template_code = pt_code r, rr_path = str_prop result ''path'', rr_bucket = str_prop result ''bucket'',
                   rr_url = (case first_element urls of JStr u \<Rightarrow> u | _ \<Rightarrow> []), rr_size = get_prop result ''size''\<rparr>)))))"

section \<open>What a call leaves in the store\<close>

text \<open>The key of the object a call writes.\<close>

definition call_key :: "print_env \<Rightarrow> storage_call \<Rightarrow> string \<Rightarrow> string \<Rightarrow> string \<times> string" where
  "call_key env call prefix filename =
     (pe_bucket env, prefix @ ''/'' @ uniqueFileName (sc_uuid call) (decodeOriginalName (pe_storage env) filename))"

lemma upload_frame:
  assumes "storage_upload env call prefix file objs = (r, objs')" and "k \<noteq> call_key env call prefix (originalname file)"
  shows "objs' k = objs k"
  using assms by (auto simp: storage_upload_def uploadWithMeta_def upload_def s3_send_def call_service_def call_key_def Let_def
      split: prod.splits s3_outcome.splits sum.splits if_splits)

lemma upload_stores:
  assumes "storage_upload env call prefix file objs = (Inr result, objs')" and "\<not> nullish result"
  shows "objs' (call_key env call prefix (originalname file)) = Some \<lparr>s3_body = buffer file, s3_type = mimetype file\<rparr>"
    and "(str_prop result ''bucket'', str_prop result ''path'') = call_key env call prefix (originalname file)"
proof -
  have "sc_delivery call = Answered \<and> sc_outcome call = S3_Ok"
  proof (rule ccontr)
    assume a: "\<not> (sc_delivery call = Answered \<and> sc_outcome call = S3_Ok)"
    have "nullish x" if "on_error JNull e = Inr x" for e x
      using that by (auto simp: on_error_def fallback_def nullish_def split: caught.splits if_splits)
    then show False using assms a
      by (auto simp: storage_upload_def call_service_def uploadWithMeta_def upload_def s3_send_def sendWithContext_def Let_def on_error_def fallback_def nullish_def
          split: delivery.splits s3_outcome.splits caught.splits if_splits)
  qed
  then show "objs' (call_key env call prefix (originalname file)) = Some \<lparr>s3_body = buffer file, s3_type = mimetype file\<rparr>"
    "(str_prop result ''bucket'', str_prop result ''path'') = call_key env call prefix (originalname file)"
    using assms(1) by (auto simp: storage_upload_def call_service_def uploadWithMeta_def upload_def s3_send_def sendWithContext_def Let_def
        call_key_def upload_json_def str_prop_def)
qed

lemma asset_uploaded:
  assumes "uploadTemplateAsset env call i filename mime content label objs = (r, objs')"
  defines "key \<equiv> call_key env call (templateStorageKey i) filename"
  shows "k \<noteq> key \<Longrightarrow> objs' k = objs k"
    and "r = Inr ref \<Longrightarrow> ref = key \<and> objs' key = Some \<lparr>s3_body = content, s3_type = mime\<rparr>"
proof -
  obtain q o' where q: "storage_upload env call (templateStorageKey i) \<lparr>originalname = filename, mimetype = mime, buffer = content\<rparr> objs = (q, o')"
    by fastforce
  have o': "o' = objs'" using assms(1) q by (auto simp: uploadTemplateAsset_def split: sum.splits if_splits)
  show "k \<noteq> key \<Longrightarrow> objs' k = objs k" using upload_frame [OF q, of k] o' by (simp add: key_def)
  assume "r = Inr ref"
  then obtain result where res: "q = Inr result" "\<not> nullish result" "ref = (str_prop result ''bucket'', str_prop result ''path'')"
    using assms(1) q by (auto simp: uploadTemplateAsset_def split: sum.splits if_splits)
  show "ref = key \<and> objs' key = Some \<lparr>s3_body = content, s3_type = mime\<rparr>"
    using upload_stores [OF q [unfolded res(1)] res(2)] res(3) o' by (simp add: key_def)
qed

lemma removed_frame: "k \<noteq> ref \<Longrightarrow> removeStorageObject env call ref objs k = objs k"
  by (auto simp: removeStorageObject_def remove_def s3_send_def split: prod.splits s3_outcome.splits)

lemma superseded_frame: "tc_superseded tc \<noteq> Some k \<Longrightarrow> remove_superseded env call tc objs k = objs k"
  by (auto simp: remove_superseded_def removed_frame split: option.splits)

section \<open>Every row has its texts\<close>

definition html_ref :: "print_template \<Rightarrow> string \<times> string" where
  "html_ref r = (pt_html_bucket r, pt_html_path r)"

definition refs :: "print_template \<Rightarrow> (string \<times> string) set" where
  "refs r = insert (html_ref r) (case js_ref r of None \<Rightarrow> {} | Some k \<Rightarrow> {k})"

text \<open>The object at a reference and the digest recorded for it.\<close>

definition holds_text :: "print_env \<Rightarrow> objects \<Rightarrow> string \<times> string \<Rightarrow> string option \<Rightarrow> bool" where
  "holds_text env objs k h \<longleftrightarrow> (\<exists>ob. objs k = Some ob \<and> (h = None \<or> h = Some (pe_hash env (s3_body ob))))"

definition has_texts :: "print_env \<Rightarrow> objects \<Rightarrow> print_template \<Rightarrow> bool" where
  "has_texts env objs r \<longleftrightarrow> holds_text env objs (html_ref r) (pt_html_hash r)
     \<and> (case js_ref r of None \<Rightarrow> pt_js_hash r = None | Some k \<Rightarrow> holds_text env objs k (pt_js_hash r))"

definition generated :: "string set \<Rightarrow> string \<times> string \<Rightarrow> bool" where
  "generated used k \<longleftrightarrow> (\<exists>prefix u m. snd k = prefix @ ''/'' @ uniqueFileName u m \<and> uuid_like u \<and> u \<in> used)"

definition print_inv :: "print_env \<Rightarrow> string set \<Rightarrow> print_template list \<Rightarrow> objects \<Rightarrow> bool" where
  "print_inv env used rows objs \<longleftrightarrow> keys_ok rows
     \<and> (\<forall>r \<in> set rows. has_texts env objs r \<and> js_ref r \<noteq> Some (html_ref r) \<and> (\<forall>k \<in> refs r. generated used k \<and> fst k = pe_bucket env))
     \<and> (\<forall>r \<in> set rows. \<forall>r' \<in> set rows. eid r \<noteq> eid r' \<longrightarrow> refs r \<inter> refs r' = {})"

lemma fresh_key:
  assumes "uuid_like (sc_uuid call)" and "sc_uuid call \<notin> used" and "generated used k"
  shows "k \<noteq> call_key env call prefix filename"
proof
  assume k: "k = call_key env call prefix filename"
  obtain p u m where u: "snd k = p @ ''/'' @ uniqueFileName u m" "uuid_like u" "u \<in> used" using assms(3) unfolding generated_def by blast
  have "p @ ''/'' @ uniqueFileName u m = prefix @ ''/'' @ uniqueFileName (sc_uuid call) (decodeOriginalName (pe_storage env) filename)"
    unfolding u(1) [symmetric] k call_key_def snd_conv ..
  from object_key_inject [OF this u(2) assms(1)] u(3) assms(2) show False by simp
qed

lemma key_generated: "uuid_like (sc_uuid call) \<Longrightarrow> sc_uuid call \<in> used \<Longrightarrow> generated used (call_key env call prefix filename)"
  unfolding generated_def call_key_def by fastforce

lemma generated_disjoint:
  assumes "generated used k" and "used \<inter> used' = {}"
  shows "\<not> generated used' k"
  using assms object_key_inject unfolding generated_def by (metis disjoint_iff)

lemma generated_mono: "generated used k \<Longrightarrow> used \<subseteq> used' \<Longrightarrow> generated used' k"
  unfolding generated_def by blast

lemma key_differs:
  assumes "uuid_like (sc_uuid c)" and "uuid_like (sc_uuid d)" and "sc_uuid c \<noteq> sc_uuid d"
  shows "call_key env c p f \<noteq> call_key env d q g"
  using fresh_key [OF assms(2), of "{sc_uuid c}"] key_generated [OF assms(1), of "{sc_uuid c}"] assms(3) by (metis singletonD singletonI)

lemma has_texts_cong: "(\<And>k. k \<in> refs r \<Longrightarrow> objs' k = objs k) \<Longrightarrow> has_texts env objs' r = has_texts env objs r"
  by (auto simp: has_texts_def holds_text_def refs_def split: option.splits)

text \<open>A change of the store outside the references keeps the invariant, and so does a row put with texts of its own.\<close>

lemma print_inv_frame:
  assumes "print_inv env used rows objs" and "\<And>r k. r \<in> set rows \<Longrightarrow> k \<in> refs r \<Longrightarrow> objs' k = objs k" and "used \<subseteq> used'"
  shows "print_inv env used' rows objs'"
  using assms(1) has_texts_cong [of _ objs' objs env] assms(2) generated_mono [OF _ assms(3)] unfolding print_inv_def by blast

lemma print_inv_put:
  assumes "print_inv env used rows objs" and "used \<subseteq> used'"
    and new: "has_texts env objs' e" "js_ref e \<noteq> Some (html_ref e)" "\<And>k. k \<in> refs e \<Longrightarrow> generated used' k \<and> fst k = pe_bucket env"
    and sep: "\<And>r k. r \<in> set rows \<Longrightarrow> eid r \<noteq> eid e \<Longrightarrow> k \<in> refs r \<Longrightarrow> objs' k = objs k \<and> k \<notin> refs e"
  shows "print_inv env used' (put_row e rows) objs'"
proof -
  have mem: "r = e \<or> r \<in> set rows \<and> eid r \<noteq> eid e" if "r \<in> set (put_row e rows)" for r using put_row_set [of e rows] that by auto
  have old: "has_texts env objs' r \<and> js_ref r \<noteq> Some (html_ref r) \<and> (\<forall>k \<in> refs r. generated used' k \<and> fst k = pe_bucket env)"
    if "r \<in> set rows" "eid r \<noteq> eid e" for r
    using assms(1) that has_texts_cong [of r objs' objs env] sep [OF that] generated_mono [OF _ assms(2)] unfolding print_inv_def by blast
  have dis: "refs r \<inter> refs r' = {}" if "r \<in> set (put_row e rows)" "r' \<in> set (put_row e rows)" "eid r \<noteq> eid r'" for r r'
    using mem [OF that(1)] mem [OF that(2)] that(3) sep assms(1) unfolding print_inv_def by blast
  show ?thesis unfolding print_inv_def using assms(1) mem old new dis by (metis keys_put_row print_inv_def)
qed

text \<open>What becomes of each text: it is kept, or a new object holds it and the old one is superseded.\<close>

definition html_outcome :: "print_env \<Rightarrow> update_template_dto \<Rightarrow> print_template \<Rightarrow> string \<times> string \<Rightarrow> objects \<Rightarrow> text_columns \<Rightarrow> bool" where
  "html_outcome env dto existing key objs' h \<longleftrightarrow>
     (ud_html_content dto = None \<or> map_option (pe_hash env) (ud_html_content dto) = pt_html_hash existing)
       \<and> h = \<lparr>tc_bucket = Some (pt_html_bucket existing), tc_path = Some (pt_html_path existing), tc_hash = pt_html_hash existing, tc_superseded = None\<rparr>
     \<or> (\<exists>c. ud_html_content dto = Some c \<and> Some (pe_hash env c) \<noteq> pt_html_hash existing \<and> objs' key = Some \<lparr>s3_body = c, s3_type = ''text/html''\<rparr>
       \<and> h = \<lparr>tc_bucket = Some (fst key), tc_path = Some (snd key), tc_hash = Some (pe_hash env c), tc_superseded = Some (html_ref existing)\<rparr>)"

definition js_outcome :: "print_env \<Rightarrow> update_template_dto \<Rightarrow> print_template \<Rightarrow> string \<times> string \<Rightarrow> objects \<Rightarrow> text_columns \<Rightarrow> bool" where
  "js_outcome env dto existing key objs' j \<longleftrightarrow>
     (ud_js_content dto = JsUnchanged \<or> (\<exists>c. ud_js_content dto = JsText c \<and> Some (pe_hash env c) = pt_js_hash existing))
       \<and> j = \<lparr>tc_bucket = pt_js_bucket existing, tc_path = pt_js_path existing, tc_hash = pt_js_hash existing, tc_superseded = None\<rparr>
     \<or> ud_js_content dto = JsClear \<and> j = \<lparr>tc_bucket = None, tc_path = None, tc_hash = None, tc_superseded = js_ref existing\<rparr>
     \<or> (\<exists>c. ud_js_content dto = JsText c \<and> Some (pe_hash env c) \<noteq> pt_js_hash existing \<and> objs' key = Some \<lparr>s3_body = c, s3_type = ''text/javascript''\<rparr>
       \<and> j = \<lparr>tc_bucket = Some (fst key), tc_path = Some (snd key), tc_hash = Some (pe_hash env c), tc_superseded = js_ref existing\<rparr>)"

lemma next_html_cases:
  assumes "next_html env call i dto existing objs = (r, objs')"
  defines "key \<equiv> call_key env call (templateStorageKey i) (assign (ud_code dto) (pt_code existing) @ ''.html'')"
  shows "(\<forall>k. k \<noteq> key \<longrightarrow> objs' k = objs k) \<and> (\<forall>h. r = Inr h \<longrightarrow> html_outcome env dto existing key objs' h)"
proof (cases "\<exists>c. ud_html_content dto = Some c \<and> Some (pe_hash env c) \<noteq> pt_html_hash existing")
  case False
  then show ?thesis using assms(1) by (auto simp: next_html_def html_outcome_def Let_def split: option.splits)
next
  case True
  then obtain c where c: "ud_html_content dto = Some c" "Some (pe_hash env c) \<noteq> pt_html_hash existing" by blast
  obtain q o' where q: "uploadTemplateAsset env call i (assign (ud_code dto) (pt_code existing) @ ''.html'') ''text/html'' c ''HTML'' objs = (q, o')"
    by fastforce
  have run: "(r, objs') = (case q of Inl e \<Rightarrow> (Inl e, o') | Inr (b, p) \<Rightarrow> (Inr \<lparr>tc_bucket = Some b, tc_path = Some p, tc_hash = Some (pe_hash env c),
      tc_superseded = Some (html_ref existing)\<rparr>, o'))"
    using assms(1) c q by (auto simp: next_html_def Let_def html_ref_def split: sum.splits)
  then have "objs' = o'" by (auto split: sum.splits)
  then show ?thesis using run c asset_uploaded [OF q, folded key_def] by (cases q) (auto simp: html_outcome_def split: prod.splits)
qed

lemma next_js_cases:
  assumes "next_js env call i dto existing objs = (r, objs')"
  defines "key \<equiv> call_key env call (templateStorageKey i) (assign (ud_code dto) (pt_code existing) @ ''.js'')"
  shows "(\<forall>k. k \<noteq> key \<longrightarrow> objs' k = objs k) \<and> (\<forall>j. r = Inr j \<longrightarrow> js_outcome env dto existing key objs' j)"
proof (cases "\<exists>c. ud_js_content dto = JsText c \<and> Some (pe_hash env c) \<noteq> pt_js_hash existing")
  case False
  then show ?thesis using assms(1) by (auto simp: next_js_def js_outcome_def Let_def split: js_content.splits)
next
  case True
  then obtain c where c: "ud_js_content dto = JsText c" "Some (pe_hash env c) \<noteq> pt_js_hash existing" by blast
  obtain q o' where q: "uploadTemplateAsset env call i (assign (ud_code dto) (pt_code existing) @ ''.js'') ''text/javascript'' c ''JavaScript'' objs = (q, o')"
    by fastforce
  have run: "(r, objs') = (case q of Inl e \<Rightarrow> (Inl e, o') | Inr (b, p) \<Rightarrow> (Inr \<lparr>tc_bucket = Some b, tc_path = Some p, tc_hash = Some (pe_hash env c),
      tc_superseded = js_ref existing\<rparr>, o'))"
    using assms(1) c q by (auto simp: next_js_def Let_def split: sum.splits)
  then have "objs' = o'" by (auto split: sum.splits)
  then show ?thesis using run c asset_uploaded [OF q, folded key_def] by (cases q) (auto simp: js_outcome_def split: prod.splits)
qed

text \<open>The calls of an update with new generated ids.\<close>

definition fresh_calls :: "string set \<Rightarrow> storage_call \<Rightarrow> storage_call \<Rightarrow> bool" where
  "fresh_calls used c d \<longleftrightarrow> uuid_like (sc_uuid c) \<and> uuid_like (sc_uuid d) \<and> sc_uuid c \<noteq> sc_uuid d \<and> sc_uuid c \<notin> used \<and> sc_uuid d \<notin> used"

lemma updated_refs [simp]:
  "html_ref (stamp_updated user ((update_patch dto h j x)\<lparr>eid := i\<rparr>)) = (assign (tc_bucket h) [], assign (tc_path h) [])"
  "pt_html_hash (stamp_updated user ((update_patch dto h j x)\<lparr>eid := i\<rparr>)) = tc_hash h"
  "pt_js_bucket (stamp_updated user ((update_patch dto h j x)\<lparr>eid := i\<rparr>)) = tc_bucket j"
  "pt_js_path (stamp_updated user ((update_patch dto h j x)\<lparr>eid := i\<rparr>)) = tc_path j"
  "pt_js_hash (stamp_updated user ((update_patch dto h j x)\<lparr>eid := i\<rparr>)) = tc_hash j"
  "eid (stamp_updated user ((update_patch dto h j x)\<lparr>eid := i\<rparr>)) = i"
  by (cases user; simp add: html_ref_def update_patch_def apply_dto_def)+

lemma js_ref_columns: "pt_js_bucket r = pt_js_bucket e \<Longrightarrow> pt_js_path r = pt_js_path e \<Longrightarrow> js_ref r = js_ref e"
  by (simp add: js_ref_def)

lemma js_ref_none: "pt_js_bucket r = None \<Longrightarrow> js_ref r = None"
  by (simp add: js_ref_def)

lemma js_ref_new: "pt_js_bucket r = Some (fst k) \<Longrightarrow> pt_js_path r = Some (snd k) \<Longrightarrow> k = call_key env call p f \<Longrightarrow> pe_bucket env \<noteq> [] \<Longrightarrow> js_ref r = Some k"
  by (simp add: js_ref_def call_key_def)

text \<open>The texts of the row \<open>e\<close> that an update writes, in the store \<open>final\<close> it leaves: those sent, or those the row had.\<close>

definition sent_html :: "print_env \<Rightarrow> update_template_dto \<Rightarrow> print_template \<Rightarrow> objects \<Rightarrow> string option" where
  "sent_html env dto existing objs =
     (case ud_html_content dto of
        Some c \<Rightarrow> if Some (pe_hash env c) = pt_html_hash existing then map_option s3_body (objs (html_ref existing)) else Some c
      | None \<Rightarrow> map_option s3_body (objs (html_ref existing)))"

definition js_text :: "objects \<Rightarrow> print_template \<Rightarrow> string option" where
  "js_text objs r = Option.bind (js_ref r) (\<lambda>k. map_option s3_body (objs k))"

definition sent_js :: "print_env \<Rightarrow> update_template_dto \<Rightarrow> print_template \<Rightarrow> objects \<Rightarrow> string option" where
  "sent_js env dto existing objs =
     (case ud_js_content dto of
        JsClear \<Rightarrow> None
      | JsText c \<Rightarrow> if Some (pe_hash env c) = pt_js_hash existing then js_text objs existing else Some c
      | JsUnchanged \<Rightarrow> js_text objs existing)"

lemma updated_texts:
  assumes inv: "print_inv env used rows objs" and ex: "existing \<in> set rows" and b: "pe_bucket env \<noteq> []"
    and fr: "fresh_calls used hc jc"
    and h: "next_html env hc i dto existing objs = (Inr h, objs1)" and j: "next_js env jc i dto existing objs1 = (Inr j, objs2)"
    and final: "final = remove_superseded env dj j (remove_superseded env dh h objs2)"
    and e: "e = stamp_updated user ((update_patch dto h j x)\<lparr>eid := i\<rparr>)"
  shows "map_option s3_body (final (html_ref e)) = sent_html env dto existing objs" (is ?html)
    and "js_text final e = sent_js env dto existing objs" (is ?js)
    and "has_texts env final e" (is ?texts)
    and "js_ref e \<noteq> Some (html_ref e)" (is ?apart)
    and "k \<in> refs e \<Longrightarrow> (k \<in> refs existing \<or> generated {sc_uuid hc, sc_uuid jc} k) \<and> fst k = pe_bucket env"
    and "k \<notin> refs existing \<Longrightarrow> generated used k \<Longrightarrow> final k = objs k"
proof -
  let ?k1 = "call_key env hc (templateStorageKey i) (assign (ud_code dto) (pt_code existing) @ ''.html'')"
  let ?k2 = "call_key env jc (templateStorageKey i) (assign (ud_code dto) (pt_code existing) @ ''.js'')"
  have H: "html_outcome env dto existing ?k1 objs1 h" and f1: "\<And>k. k \<noteq> ?k1 \<Longrightarrow> objs1 k = objs k" using next_html_cases [OF h] by blast+
  have J: "js_outcome env dto existing ?k2 objs2 j" and f2: "\<And>k. k \<noteq> ?k2 \<Longrightarrow> objs2 k = objs1 k" using next_js_cases [OF j] by blast+
  have k12: "?k1 \<noteq> ?k2" using fr key_differs unfolding fresh_calls_def by blast
  have new: "generated {sc_uuid hc, sc_uuid jc} ?k1" "generated {sc_uuid hc, sc_uuid jc} ?k2" "fst ?k1 = pe_bucket env" "fst ?k2 = pe_bucket env"
    using fr key_generated unfolding fresh_calls_def by (auto simp: call_key_def)
  have old: "k \<noteq> ?k1" "k \<noteq> ?k2" if "generated used k" for k using fr fresh_key that unfolding fresh_calls_def by blast+
  have r: "has_texts env objs existing" "js_ref existing \<noteq> Some (html_ref existing)" "\<And>k. k \<in> refs existing \<Longrightarrow> generated used k \<and> fst k = pe_bucket env"
    using inv ex unfolding print_inv_def by blast+
  have rh: "html_ref existing \<in> refs existing" by (simp add: refs_def)
  have rj: "k \<in> refs existing" if "js_ref existing = Some k" for k using that by (simp add: refs_def)
  have sup: "tc_superseded h = None \<or> tc_superseded h = Some (html_ref existing) \<and> html_ref e = ?k1"
    "tc_superseded j = None \<or> tc_superseded j = js_ref existing \<and> (js_ref e = None \<or> js_ref e = Some ?k2)"
    using H J js_ref_none [of e] js_ref_new [of e ?k2, OF _ _ refl b] by (auto simp: html_outcome_def js_outcome_def e assign_def)
  have F: "final k = objs2 k" if "tc_superseded h \<noteq> Some k" "tc_superseded j \<noteq> Some k" for k
    unfolding final using superseded_frame that by metis
  have notin: "k \<notin> refs existing" if "k = ?k1 \<or> k = ?k2" for k using old [of k] r(3) [of k] that by blast
  have apart: "html_ref existing \<noteq> k" "js_ref existing \<noteq> Some k" if "k = ?k1 \<or> k = ?k2" for k
    using notin [OF that] rh rj [of k] by blast+
  have unsup: "tc_superseded h \<noteq> Some k" "tc_superseded j \<noteq> Some k" if "k = ?k1 \<or> k = ?k2" for k
    using sup apart [OF that] by auto
  have F1: "final ?k1 = objs1 ?k1" using F [OF unsup, of ?k1] f2 [OF k12] by simp
  have F2: "final ?k2 = objs2 ?k2" using F [OF unsup, of ?k2] by simp
  have kept: "final k = objs k" if "generated used k" "tc_superseded h \<noteq> Some k" "tc_superseded j \<noteq> Some k" for k
    using F [OF that(2,3)] f1 f2 old [OF that(1)] by simp
  have outside: "tc_superseded h \<noteq> Some k \<and> tc_superseded j \<noteq> Some k" if "html_ref existing \<noteq> k" "js_ref existing \<noteq> Some k" for k
    using sup that by auto
  show "k \<notin> refs existing \<Longrightarrow> generated used k \<Longrightarrow> final k = objs k"
    using kept [of k] outside [of k] rh rj [of k] by blast
  have html: "html_ref e = html_ref existing \<and> final (html_ref e) = objs (html_ref existing) \<and> tc_hash h = pt_html_hash existing
        \<and> sent_html env dto existing objs = map_option s3_body (objs (html_ref existing))
      \<or> (\<exists>c. html_ref e = ?k1 \<and> final (html_ref e) = Some \<lparr>s3_body = c, s3_type = ''text/html''\<rparr> \<and> tc_hash h = Some (pe_hash env c)
        \<and> sent_html env dto existing objs = Some c)"
    using H [unfolded html_outcome_def]
  proof (elim disjE)
    assume "\<exists>c. ud_html_content dto = Some c \<and> Some (pe_hash env c) \<noteq> pt_html_hash existing \<and> objs1 ?k1 = Some \<lparr>s3_body = c, s3_type = ''text/html''\<rparr>
       \<and> h = \<lparr>tc_bucket = Some (fst ?k1), tc_path = Some (snd ?k1), tc_hash = Some (pe_hash env c), tc_superseded = Some (html_ref existing)\<rparr>"
    then obtain c where c: "ud_html_content dto = Some c" "Some (pe_hash env c) \<noteq> pt_html_hash existing" "objs1 ?k1 = Some \<lparr>s3_body = c, s3_type = ''text/html''\<rparr>"
      "h = \<lparr>tc_bucket = Some (fst ?k1), tc_path = Some (snd ?k1), tc_hash = Some (pe_hash env c), tc_superseded = Some (html_ref existing)\<rparr>" by blast
    then have "html_ref e = ?k1" by (simp add: e assign_def)
    then show ?thesis using c F1 by (simp add: sent_html_def)
  next
    assume u: "(ud_html_content dto = None \<or> map_option (pe_hash env) (ud_html_content dto) = pt_html_hash existing)
       \<and> h = \<lparr>tc_bucket = Some (pt_html_bucket existing), tc_path = Some (pt_html_path existing), tc_hash = pt_html_hash existing, tc_superseded = None\<rparr>"
    then have "html_ref e = html_ref existing" "tc_superseded h = None" "tc_hash h = pt_html_hash existing"
      by (simp_all add: e assign_def html_ref_def [of existing])
    moreover have "final (html_ref existing) = objs (html_ref existing)"
      using kept [of "html_ref existing"] r(2) r(3) [OF rh] sup(2) calculation(2) by auto
    ultimately show ?thesis using u by (auto simp: sent_html_def split: option.split)
  qed
  show ?html using html by auto
  have js: "js_ref e = js_ref existing \<and> (\<forall>k. js_ref existing = Some k \<longrightarrow> final k = objs k) \<and> tc_hash j = pt_js_hash existing
        \<and> sent_js env dto existing objs = js_text objs existing
      \<or> js_ref e = None \<and> tc_hash j = None \<and> sent_js env dto existing objs = None
      \<or> (\<exists>c. js_ref e = Some ?k2 \<and> final ?k2 = Some \<lparr>s3_body = c, s3_type = ''text/javascript''\<rparr> \<and> tc_hash j = Some (pe_hash env c)
        \<and> sent_js env dto existing objs = Some c)"
    using J [unfolded js_outcome_def]
  proof (elim disjE)
    assume "\<exists>c. ud_js_content dto = JsText c \<and> Some (pe_hash env c) \<noteq> pt_js_hash existing \<and> objs2 ?k2 = Some \<lparr>s3_body = c, s3_type = ''text/javascript''\<rparr>
       \<and> j = \<lparr>tc_bucket = Some (fst ?k2), tc_path = Some (snd ?k2), tc_hash = Some (pe_hash env c), tc_superseded = js_ref existing\<rparr>"
    then obtain c where c: "ud_js_content dto = JsText c" "Some (pe_hash env c) \<noteq> pt_js_hash existing" "objs2 ?k2 = Some \<lparr>s3_body = c, s3_type = ''text/javascript''\<rparr>"
      "j = \<lparr>tc_bucket = Some (fst ?k2), tc_path = Some (snd ?k2), tc_hash = Some (pe_hash env c), tc_superseded = js_ref existing\<rparr>" by blast
    then have "js_ref e = Some ?k2" by (intro js_ref_new [OF _ _ refl b]) (simp_all add: e)
    then show ?thesis using c F2 by (simp add: sent_js_def)
  next
    assume "ud_js_content dto = JsClear \<and> j = \<lparr>tc_bucket = None, tc_path = None, tc_hash = None, tc_superseded = js_ref existing\<rparr>"
    then show ?thesis using js_ref_none [of e] by (simp add: e sent_js_def)
  next
    assume u: "(ud_js_content dto = JsUnchanged \<or> (\<exists>c. ud_js_content dto = JsText c \<and> Some (pe_hash env c) = pt_js_hash existing))
       \<and> j = \<lparr>tc_bucket = pt_js_bucket existing, tc_path = pt_js_path existing, tc_hash = pt_js_hash existing, tc_superseded = None\<rparr>"
    then have "js_ref e = js_ref existing" "tc_superseded j = None" "tc_hash j = pt_js_hash existing" by (auto simp: e intro!: js_ref_columns)
    moreover have "final k = objs k" if "js_ref existing = Some k" for k
      using kept [of k] r(2,3) rj [OF that] sup(1) calculation(2) that by auto
    ultimately show ?thesis using u by (auto simp: sent_js_def)
  qed
  show ?js using js by (cases "js_ref existing") (auto simp: js_text_def)
  show ?apart
    using html
  proof (elim disjE conjE exE)
    assume e: "html_ref e = html_ref existing"
    show ?thesis unfolding e using js r(2) apart(1) [of ?k2] by auto
  next
    fix c assume e: "html_ref e = ?k1"
    show ?thesis unfolding e using js apart(2) [of ?k1] k12 by auto
  qed
  show "k \<in> refs e \<Longrightarrow> (k \<in> refs existing \<or> generated {sc_uuid hc, sc_uuid jc} k) \<and> fst k = pe_bucket env"
  proof -
    have "html_ref e = html_ref existing \<or> html_ref e = ?k1" "js_ref e = js_ref existing \<or> js_ref e = None \<or> js_ref e = Some ?k2"
      using html js by blast+
    then have "k \<in> refs existing \<or> k = ?k1 \<or> k = ?k2" if "k \<in> refs e"
      using that rh rj [of k] unfolding refs_def [of e] by (auto split: option.splits)
    then show "k \<in> refs e \<Longrightarrow> (k \<in> refs existing \<or> generated {sc_uuid hc, sc_uuid jc} k) \<and> fst k = pe_bucket env" using new r(3) by blast
  qed
  have "holds_text env final (html_ref e) (pt_html_hash e)"
    using html r(1) by (auto simp: has_texts_def holds_text_def e)
  moreover have "case js_ref e of None \<Rightarrow> pt_js_hash e = None | Some k \<Rightarrow> holds_text env final k (pt_js_hash e)"
    using js r(1) by (auto simp: has_texts_def holds_text_def e split: option.splits)
  ultimately show ?texts unfolding has_texts_def ..
qed

text \<open>The ways an update ends.\<close>

definition used_after :: "string set \<Rightarrow> storage_call \<Rightarrow> storage_call \<Rightarrow> string set" where
  "used_after used c d = used \<union> {sc_uuid c, sc_uuid d}"

lemma update_outcomes:
  assumes run: "update_existing env calls i dto user existing (rows, objs) = ((rows', objs'), r)" and fr: "fresh_calls used (uc_html calls) (uc_js calls)"
  shows "rows' = rows \<and> (\<exists>err. r = Inl err) \<and> (\<forall>k. generated used k \<longrightarrow> objs' k = objs k)
    \<or> (\<exists>h objs1 j objs2 x e. next_html env (uc_html calls) i dto existing objs = (Inr h, objs1)
        \<and> next_js env (uc_js calls) i dto existing objs1 = (Inr j, objs2) \<and> e = stamp_updated user ((update_patch dto h j x)\<lparr>eid := i\<rparr>)
        \<and> repo_findOne (\<lambda>q. eid q = i) rows = Some x \<and> rows' = put_row e rows \<and> r = Inr e
        \<and> objs' = remove_superseded env (uc_drop_js calls) j (remove_superseded env (uc_drop_html calls) h objs2))"
    (is "?failed \<or> ?saved")
proof -
  obtain rh objs1 where h: "next_html env (uc_html calls) i dto existing objs = (rh, objs1)" by fastforce
  obtain rj objs2 where j: "next_js env (uc_js calls) i dto existing objs1 = (rj, objs2)" by fastforce
  have f: "objs1 k = objs k \<and> objs2 k = objs k" if "generated used k" for k
    using next_html_cases [OF h] next_js_cases [OF j] fresh_key [OF _ _ that] fr unfolding fresh_calls_def by metis
  show ?thesis
  proof (cases "\<exists>e. r = Inr e")
    case False
    then have "rows' = rows" "objs' = objs1 \<or> objs' = objs2" "\<exists>err. r = Inl err"
      using run h j by (auto simp: update_existing_def split: sum.splits option.splits)
    then show ?thesis using f by auto
  next
    case True
    then obtain hh jj e where s: "rh = Inr hh" "rj = Inr jj" "preload i (update_patch dto hh jj) user rows = Some e" "r = Inr e" "rows' = put_row e rows"
      "objs' = remove_superseded env (uc_drop_js calls) jj (remove_superseded env (uc_drop_html calls) hh objs2)"
      using run h j by (auto simp: update_existing_def executeDbOperation_Inr repo_save_def split: sum.splits option.splits)
    then show ?thesis using h j by (auto simp: preload_def)
  qed
qed

lemma update_keeps_inv:
  assumes inv: "print_inv env used rows objs" and b: "pe_bucket env \<noteq> []" and fr: "fresh_calls used (uc_html calls) (uc_js calls)"
    and run: "templates_update env calls i dto user (rows, objs) = ((rows', objs'), r)"
  shows "print_inv env (used_after used (uc_html calls) (uc_js calls)) rows' objs'"
proof (cases "base_findById ''print_templates'' i rows")
  case (Inl err)
  then show ?thesis using print_inv_frame [OF inv, of objs "used_after used (uc_html calls) (uc_js calls)"] run by (auto simp: templates_update_def used_after_def)
next
  case (Inr existing)
  have ex: "existing \<in> set rows" "eid existing = i" using Inr findEntityById_Some by (auto simp: base_findById_Inr)
  have old: "generated used k" if "r \<in> set rows" "k \<in> refs r" for r k using inv that unfolding print_inv_def by blast
  have mono: "used \<subseteq> used_after used (uc_html calls) (uc_js calls)" by (auto simp: used_after_def)
  have run': "update_existing env calls i dto user existing (rows, objs) = ((rows', objs'), r)" using run Inr by (simp add: templates_update_def)
  show ?thesis
    using update_outcomes [OF run' fr]
  proof (elim disjE)
    assume "rows' = rows \<and> (\<exists>err. r = Inl err) \<and> (\<forall>k. generated used k \<longrightarrow> objs' k = objs k)"
    then show ?thesis using print_inv_frame [OF inv _ mono, of objs'] old by blast
  next
    assume "\<exists>h objs1 j objs2 x e. next_html env (uc_html calls) i dto existing objs = (Inr h, objs1)
        \<and> next_js env (uc_js calls) i dto existing objs1 = (Inr j, objs2) \<and> e = stamp_updated user ((update_patch dto h j x)\<lparr>eid := i\<rparr>)
        \<and> repo_findOne (\<lambda>q. eid q = i) rows = Some x \<and> rows' = put_row e rows \<and> r = Inr e
        \<and> objs' = remove_superseded env (uc_drop_js calls) j (remove_superseded env (uc_drop_html calls) h objs2)"
    then obtain h objs1 j objs2 x e where s: "next_html env (uc_html calls) i dto existing objs = (Inr h, objs1)"
      "next_js env (uc_js calls) i dto existing objs1 = (Inr j, objs2)"
      "objs' = remove_superseded env (uc_drop_js calls) j (remove_superseded env (uc_drop_html calls) h objs2)"
      "e = stamp_updated user ((update_patch dto h j x)\<lparr>eid := i\<rparr>)" "rows' = put_row e rows" by blast
    note T = updated_texts [OF inv ex(1) b fr s(1-4)]
    have ei: "eid e = i" unfolding s(4) by simp
    have own: "generated (used_after used (uc_html calls) (uc_js calls)) k \<and> fst k = pe_bucket env" if "k \<in> refs e" for k
      using T(5) [OF that] generated_mono [of used k, OF old [OF ex(1)] mono] generated_mono [of "{sc_uuid (uc_html calls), sc_uuid (uc_js calls)}" k]
      unfolding used_after_def by blast
    have sep: "objs' k = objs k \<and> k \<notin> refs e" if "q \<in> set rows" "eid q \<noteq> eid e" "k \<in> refs q" for q k
    proof -
      have "eid q \<noteq> eid existing" using that(2) ex(2) ei by simp
      then have "k \<notin> refs existing" using inv that(1,3) ex(1) unfolding print_inv_def by blast
      moreover have "\<not> generated {sc_uuid (uc_html calls), sc_uuid (uc_js calls)} k"
        by (rule generated_disjoint [OF old [OF that(1,3)]]) (use fr in \<open>simp add: fresh_calls_def\<close>)
      ultimately show ?thesis using T(5) [of k] T(6) [OF _ old [OF that(1,3)]] by blast
    qed
    show ?thesis unfolding s(5) by (rule print_inv_put [OF inv mono T(3,4) own sep])
  qed
qed

text \<open>The ways a creation ends.\<close>

definition nonempty :: "string option \<Rightarrow> string option" where
  "nonempty js = (case js of Some s \<Rightarrow> if s = [] then None else Some s | None \<Rightarrow> None)"

definition created_row :: "print_env \<Rightarrow> string \<Rightarrow> print_template \<Rightarrow> string \<Rightarrow> string option \<Rightarrow> actor \<Rightarrow> string \<times> string \<Rightarrow> (string \<times> string) option \<Rightarrow> print_template" where
  "created_row env i data html js user k1 k2 = stamp_created user (data\<lparr>eid := i, pt_html_bucket := fst k1, pt_html_path := snd k1,
     pt_html_hash := Some (pe_hash env html), pt_js_bucket := map_option fst k2, pt_js_path := map_option snd k2,
     pt_js_hash := map_option (pe_hash env) js\<rparr>)"

lemma created_row_simps [simp]:
  "eid (created_row env i data html js user k1 k2) = i"
  "html_ref (created_row env i data html js user k1 k2) = k1"
  "pt_html_hash (created_row env i data html js user k1 k2) = Some (pe_hash env html)"
  "pt_js_hash (created_row env i data html js user k1 k2) = map_option (pe_hash env) js"
  by (cases user; simp add: created_row_def html_ref_def)+

lemma created_row_js:
  "js_ref (created_row env i data html js user k1 None) = None"
  "pe_bucket env \<noteq> [] \<Longrightarrow> js_ref (created_row env i data html js user k1 (Some (call_key env c p f))) = Some (call_key env c p f)"
  by (cases user; simp add: created_row_def js_ref_def call_key_def)+

lemma create_outcomes:
  assumes run: "templates_create env i hc jc data html js user (rows, objs) = ((rows', objs'), r)"
    and fr: "fresh_calls used hc jc" and b: "pe_bucket env \<noteq> []"
  shows "(\<forall>k. generated used k \<longrightarrow> objs' k = objs k) \<and> (rows' = rows \<and> (\<exists>err. r = Inl err)
    \<or> (\<exists>e. r = Inr e \<and> rows' = put_row e rows \<and> eid e = i \<and> has_texts env objs' e \<and> js_ref e \<noteq> Some (html_ref e)
       \<and> (\<forall>k \<in> refs e. generated {sc_uuid hc, sc_uuid jc} k \<and> fst k = pe_bucket env)
       \<and> map_option s3_body (objs' (html_ref e)) = Some html \<and> js_text objs' e = nonempty js \<and> softDeleteFilter e = softDeleteFilter data))"
proof -
  let ?k1 = "call_key env hc (templateStorageKey i) (pt_code data @ ''.html'')"
  let ?k2 = "call_key env jc (templateStorageKey i) (pt_code data @ ''.js'')"
  have k12: "?k1 \<noteq> ?k2" using fr key_differs unfolding fresh_calls_def by blast
  have old: "k \<noteq> ?k1" "k \<noteq> ?k2" if "generated used k" for k using fr fresh_key that unfolding fresh_calls_def by blast+
  have gen: "generated {sc_uuid hc, sc_uuid jc} ?k1" "generated {sc_uuid hc, sc_uuid jc} ?k2" "fst ?k1 = pe_bucket env" "fst ?k2 = pe_bucket env"
    using fr key_generated unfolding fresh_calls_def by (auto simp: call_key_def)
  obtain rh objs1 where h: "uploadTemplateAsset env hc i (pt_code data @ ''.html'') ''text/html'' html ''HTML'' objs = (rh, objs1)" by fastforce
  note H = asset_uploaded [OF h]
  define up where "up = (case nonempty js of None \<Rightarrow> (Inr None, objs1)
    | Some s \<Rightarrow> (case uploadTemplateAsset env jc i (pt_code data @ ''.js'') ''text/javascript'' s ''JavaScript'' objs1 of
        (Inl e, objs2) \<Rightarrow> (Inl e, objs2) | (Inr ref, objs2) \<Rightarrow> (Inr (Some ref), objs2)))"
  obtain rj objs2 where j: "up = (rj, objs2)" by fastforce
  have J: "(\<forall>k. k \<noteq> ?k2 \<longrightarrow> objs2 k = objs1 k) \<and> (\<forall>k2. rj = Inr k2 \<longrightarrow> (case nonempty js of None \<Rightarrow> k2 = None
     | Some s \<Rightarrow> k2 = Some ?k2 \<and> objs2 ?k2 = Some \<lparr>s3_body = s, s3_type = ''text/javascript''\<rparr>))"
  proof (cases "nonempty js")
    case (Some s)
    obtain q o' where q: "uploadTemplateAsset env jc i (pt_code data @ ''.js'') ''text/javascript'' s ''JavaScript'' objs1 = (q, o')" by fastforce
    then show ?thesis using j Some asset_uploaded [OF q] by (cases q) (auto simp: up_def)
  qed (use j in \<open>auto simp: up_def\<close>)
  have run': "((rows', objs'), r) = (case rh of Inl e \<Rightarrow> ((rows, objs1), Inl e) | Inr k1 \<Rightarrow>
      (case rj of Inl e \<Rightarrow> ((rows, objs2), Inl e) | Inr k2 \<Rightarrow>
        (case executeDbOperation ''print_templates'' (repo_save (pe_chk env) (created_row env i data html (nonempty js) user k1 k2) rows) of
           Inl e \<Rightarrow> ((rows, objs2), Inl (exc_of e))
         | Inr rows' \<Rightarrow> ((rows', objs2), Inr (created_row env i data html (nonempty js) user k1 k2)))))"
    unfolding run [symmetric] templates_create_def Let_def nonempty_def [symmetric] prod.case h created_row_def [symmetric] up_def [symmetric] j
    by (simp split: sum.split)
  have "objs' = objs1 \<or> objs' = objs2" using run' by (auto split: sum.splits)
  moreover have "objs1 k = objs k" "objs2 k = objs k" if "generated used k" for k using J H(1) [OF old(1) [OF that]] old [OF that] by metis+
  ultimately have frame: "objs' k = objs k" if "generated used k" for k using that by blast
  show ?thesis
  proof (cases "\<exists>e. r = Inr e")
    case False
    then have "rows' = rows" "\<exists>err. r = Inl err" using run' by (auto split: sum.splits)
    then show ?thesis using frame by blast
  next
    case True
    then obtain k1 k2 where s: "rh = Inr k1" "rj = Inr k2" "objs' = objs2" "r = Inr (created_row env i data html (nonempty js) user k1 k2)"
      "rows' = put_row (created_row env i data html (nonempty js) user k1 k2) rows"
      using run' by (auto simp: executeDbOperation_Inr repo_save_def split: sum.splits option.splits)
    let ?e = "created_row env i data html (nonempty js) user k1 k2"
    have k1: "k1 = ?k1" and o1: "objs' ?k1 = Some \<lparr>s3_body = html, s3_type = ''text/html''\<rparr>"
      using H(2) [OF s(1)] spec [OF conjunct1 [OF J], of ?k1] k12 s(3) by simp_all
    have js: "js_ref ?e = None \<and> nonempty js = None \<or> (\<exists>t. nonempty js = Some t \<and> js_ref ?e = Some ?k2 \<and> objs' ?k2 = Some \<lparr>s3_body = t, s3_type = ''text/javascript''\<rparr>)"
      using J s(2,3) created_row_js b by (auto split: option.splits)
    have "has_texts env objs' ?e" using o1 k1 js by (auto simp: has_texts_def holds_text_def)
    moreover have "js_ref ?e \<noteq> Some (html_ref ?e)" using js k1 k12 by auto
    moreover have "generated {sc_uuid hc, sc_uuid jc} k \<and> fst k = pe_bucket env" if "k \<in> refs ?e" for k
    proof -
      have "k = ?k1 \<or> k = ?k2" using that js k1 by (auto simp: refs_def)
      then show ?thesis using gen by blast
    qed
    moreover have "map_option s3_body (objs' (html_ref ?e)) = Some html" "js_text objs' ?e = nonempty js" using o1 k1 js by (auto simp: js_text_def)
    moreover have "softDeleteFilter ?e = softDeleteFilter data" by (simp add: created_row_def softDeleteFilter_def)
    ultimately show ?thesis using frame s(4,5) by auto
  qed
qed

lemma create_keeps_inv:
  assumes inv: "print_inv env used rows objs" and b: "pe_bucket env \<noteq> []" and fr: "fresh_calls used hc jc"
    and run: "templates_create env i hc jc data html js user (rows, objs) = ((rows', objs'), r)"
  shows "print_inv env (used_after used hc jc) rows' objs'"
proof -
  have mono: "used \<subseteq> used_after used hc jc" by (auto simp: used_after_def)
  have old: "generated used k" if "q \<in> set rows" "k \<in> refs q" for q k using inv that unfolding print_inv_def by blast
  note out = create_outcomes [OF run fr b]
  show ?thesis
  proof (cases "\<exists>e. r = Inr e")
    case False
    then show ?thesis using out print_inv_frame [OF inv _ mono, of objs'] old by blast
  next
    case True
    then obtain e where e: "rows' = put_row e rows" "has_texts env objs' e" "js_ref e \<noteq> Some (html_ref e)"
      "\<And>k. k \<in> refs e \<Longrightarrow> generated {sc_uuid hc, sc_uuid jc} k \<and> fst k = pe_bucket env" using out by blast
    have own: "generated (used_after used hc jc) k \<and> fst k = pe_bucket env" if "k \<in> refs e" for k
      using e(4) [OF that] generated_mono [of "{sc_uuid hc, sc_uuid jc}" k] unfolding used_after_def by blast
    have sep: "objs' k = objs k \<and> k \<notin> refs e" if "q \<in> set rows" "eid q \<noteq> eid e" "k \<in> refs q" for q k
      using old [OF that(1,3)] out e(4) generated_disjoint [of used k "{sc_uuid hc, sc_uuid jc}"] fr unfolding fresh_calls_def by blast
    show ?thesis unfolding e(1) by (rule print_inv_put [OF inv mono e(2,3) own sep])
  qed
qed

text \<open>Deletion changes no text column, and a render adds an object of its own.\<close>

lemma delete_keeps_inv:
  assumes inv: "print_inv env used rows objs" and run: "base_delete ''print_templates'' now i soft user rows = Inr rows'"
  shows "print_inv env used rows' objs"
proof -
  have r': "rows' = fst (deleteEntity now i soft user rows)" using run by (auto simp: base_delete_def Let_def split: prod.splits if_splits)
  have cols: "eid (soft_deleted now user r) = eid r \<and> refs (soft_deleted now user r) = refs r \<and> html_ref (soft_deleted now user r) = html_ref r
     \<and> js_ref (soft_deleted now user r) = js_ref r \<and> pt_html_hash (soft_deleted now user r) = pt_html_hash r \<and> pt_js_hash (soft_deleted now user r) = pt_js_hash r" for r :: print_template
    by (cases user) (simp_all add: soft_deleted_def refs_def html_ref_def js_ref_def)
  have kept: "has_texts env objs (soft_deleted now user r) \<longleftrightarrow> has_texts env objs r" for r by (simp add: has_texts_def cols split: option.split)
  have from_old: "\<exists>r \<in> set rows. eid q = eid r \<and> refs q = refs r \<and> html_ref q = html_ref r \<and> js_ref q = js_ref r
      \<and> (has_texts env objs q \<longleftrightarrow> has_texts env objs r)" if q: "q \<in> set rows'" for q
  proof -
    obtain r where "r \<in> set rows" "q = r \<or> q = soft_deleted now user r"
      using q unfolding r' deleteEntity_def repo_update_def repo_delete_def by (auto split: if_splits)
    then show ?thesis using cols [of r] kept [of r] by metis
  qed
  have "keys_ok rows'" unfolding r' using inv deleteEntity_keys unfolding print_inv_def by blast
  then show ?thesis using inv from_old unfolding print_inv_def by (smt (verit))
qed

lemma render_keeps_inv:
  assumes inv: "print_inv env used rows objs" and up: "uuid_like (sc_uuid up)" "sc_uuid up \<notin> used"
    and run: "templates_render env reads up sign_delivery file_id i params (rows, objs) = (objs', r)"
  shows "print_inv env (insert (sc_uuid up) used) rows objs'"
proof (rule print_inv_frame [OF inv])
  fix q k assume q: "q \<in> set rows" "k \<in> refs q"
  have "generated used k" using inv q unfolding print_inv_def by blast
  note new = fresh_key [OF up this]
  show "objs' k = objs k"
    using run upload_frame [OF _ new] by (auto simp: templates_render_def split: sum.splits prod.splits if_splits)
qed blast

text \<open>The service at work: each operation with newly generated ids.\<close>

inductive print_step :: "print_env \<Rightarrow> string set \<times> print_template list \<times> objects \<Rightarrow> string set \<times> print_template list \<times> objects \<Rightarrow> bool" for env where
  Create: "fresh_calls used hc jc \<Longrightarrow> templates_create env i hc jc data html js user (rows, objs) = ((rows', objs'), r)
     \<Longrightarrow> print_step env (used, rows, objs) (used_after used hc jc, rows', objs')"
| Update: "fresh_calls used (uc_html calls) (uc_js calls) \<Longrightarrow> templates_update env calls i dto user (rows, objs) = ((rows', objs'), r)
     \<Longrightarrow> print_step env (used, rows, objs) (used_after used (uc_html calls) (uc_js calls), rows', objs')"
| Delete: "base_delete ''print_templates'' now i soft user rows = Inr rows' \<Longrightarrow> print_step env (used, rows, objs) (used, rows', objs)"
| Render: "uuid_like (sc_uuid up) \<Longrightarrow> sc_uuid up \<notin> used \<Longrightarrow> templates_render env reads up sign_delivery file_id i params (rows, objs) = (objs', r)
     \<Longrightarrow> print_step env (used, rows, objs) (insert (sc_uuid up) used, rows, objs')"

lemma print_step_inv:
  assumes "print_step env (used, rows, objs) (used', rows', objs')" and "pe_bucket env \<noteq> []" and "print_inv env used rows objs"
  shows "print_inv env used' rows' objs'"
  using assms(1)
proof cases
  case (Create hc jc i data html js user r)
  then show ?thesis using create_keeps_inv [OF assms(3,2)] by blast
next
  case (Update calls i dto user r)
  then show ?thesis using update_keeps_inv [OF assms(3,2)] by blast
next
  case (Delete now i soft user)
  then show ?thesis using delete_keeps_inv [OF assms(3)] by blast
next
  case (Render up reads sign_delivery file_id i params r)
  then show ?thesis using render_keeps_inv [OF assms(3)] by blast
qed

lemma print_reach_inv:
  assumes "(print_step env)\<^sup>*\<^sup>* ({}, [], objs0) s" and "pe_bucket env \<noteq> []"
  shows "print_inv env (fst s) (fst (snd s)) (snd (snd s))"
  using assms(1)
proof (induction rule: rtranclp_induct)
  case base
  show ?case by (simp add: print_inv_def keys_ok_def)
next
  case (step s t)
  then show ?case using print_step_inv [of env "fst s" "fst (snd s)" "snd (snd s)"] assms(2) by simp
qed

text \<open>C22: Starting from an empty table, after any sequence of creations, updates, deletions and renders, with any of the calls of the
  storage service failing or losing their answers, every template row has its HTML, and its script when it names one, in the object
  store with the recorded digest, and no two rows share an object.\<close>

theorem template_texts_kept:
  assumes "pe_bucket env \<noteq> []" and "(print_step env)\<^sup>*\<^sup>* ({}, [], objs0) (used, rows, objs)"
  shows "(\<forall>r \<in> set rows. has_texts env objs r) \<and> (\<forall>r \<in> set rows. \<forall>r' \<in> set rows. eid r \<noteq> eid r' \<longrightarrow> refs r \<inter> refs r' = {})"
proof -
  have "print_inv env used rows objs" using print_reach_inv [OF assms(2,1)] by simp
  then show ?thesis unfolding print_inv_def by auto
qed

section \<open>What is saved is what is read\<close>

text \<open>The signed links of the storage service lead to the objects of the bucket the templates are stored in.\<close>

definition links_work :: "print_env \<Rightarrow> bool" where
  "links_work env \<longleftrightarrow> defaultBucket (pe_storage env) = pe_bucket env
     \<and> (\<forall>key. \<exists>url. getSignedUrl (pe_storage env) (pe_bucket env) key None = Inr url \<and> url \<noteq> []
          \<and> (\<forall>objs. pe_http_get env objs url = map_option s3_body (objs (pe_bucket env, key))))"

text \<open>The storage service answers and one of the five attempts to read a link reaches it.\<close>

definition reads_through :: "read_calls \<Rightarrow> bool" where
  "reads_through calls \<longleftrightarrow> rc_html_delivery calls = Answered \<and> rc_js_delivery calls = Answered
     \<and> (\<exists>n \<in> {1..5}. rc_html_net calls n) \<and> (\<exists>n \<in> {1..5}. rc_js_net calls n)"

lemma fetch_from_reaches: "a \<le> k \<Longrightarrow> k < a + n \<Longrightarrow> net k \<Longrightarrow> fetch_from (\<lambda>k. if net k then Some t else None) a n = Some t"
proof (induction n arbitrary: a)
  case (Suc n)
  then show ?case by (cases "a = k") (auto simp: not_less_eq_eq)
qed simp

lemma fetched:
  assumes "links_work env" and "objs (pe_bucket env, key) = Some ob" and "\<exists>n \<in> {1..5}. net n"
  shows "fetchTemplateAsset env Answered net key label objs = Inr (s3_body ob)"
proof -
  obtain url where url: "getSignedUrl (pe_storage env) (pe_bucket env) key None = Inr url" "url \<noteq> []" "pe_http_get env objs url = Some (s3_body ob)"
    using assms(1,2) unfolding links_work_def by (metis option.simps(9))
  obtain n where n: "1 \<le> n" "n < 1 + 5" "net n" using assms(3) by auto
  have sign: "storage_sign env Answered key JNull = Inr (JArr [JStr url])"
    using url(1) assms(1) by (simp add: storage_sign_def generateSignedUrls_def content_disposition_def nth_option_def call_service_def sendWithContext_def links_work_def)
  have "fetch_from (\<lambda>k. if net k then pe_http_get env objs url else None) 1 5 = Some (s3_body ob)"
    unfolding url(3) by (rule fetch_from_reaches [of 1 n 5 net, OF n])
  then show ?thesis unfolding fetchTemplateAsset_def sign using url(2) by (simp add: Let_def first_element_def)
qed

text \<open>Reading a live template whose texts are in the store.\<close>

lemma read_row:
  assumes "links_work env" and "reads_through calls" and e: "findEntityById i rows = Some e" "has_texts env objs e" "\<forall>k \<in> refs e. fst k = pe_bucket env"
  shows "\<exists>html. map_option s3_body (objs (html_ref e)) = Some html \<and> templates_findById env calls i (rows, objs) = Inr (e, html, js_text objs e)"
proof -
  obtain ob where ob: "objs (html_ref e) = Some ob" using e(2) by (auto simp: has_texts_def holds_text_def)
  have "html_ref e = (pe_bucket env, pt_html_path e)" using e(3) by (simp add: refs_def html_ref_def)
  then have h: "fetchTemplateAsset env (rc_html_delivery calls) (rc_html_net calls) (pt_html_path e) ''HTML'' objs = Inr (s3_body ob)"
    using fetched [OF assms(1)] assms(2) ob by (simp add: reads_through_def)
  show ?thesis
  proof (cases "js_ref e")
    case None
    then show ?thesis using e(1) h ob by (simp add: templates_findById_def base_findById_def js_text_def)
  next
    case (Some k)
    obtain jo where jo: "objs k = Some jo" using e(2) Some by (auto simp: has_texts_def holds_text_def)
    obtain p where k: "k = (pe_bucket env, p)" using e(3) Some by (cases k) (simp add: refs_def)
    have "fetchTemplateAsset env (rc_js_delivery calls) (rc_js_net calls) p ''JavaScript'' objs = Inr (s3_body jo)"
      using fetched [OF assms(1)] assms(2) jo k by (simp add: reads_through_def)
    then show ?thesis using e(1) h ob Some jo k by (simp add: templates_findById_def base_findById_def js_text_def)
  qed
qed

text \<open>No two of the texts sent and stored have the same digest.\<close>

definition sent_texts :: "update_template_dto \<Rightarrow> string set" where
  "sent_texts dto = set_option (ud_html_content dto) \<union> (case ud_js_content dto of JsText c \<Rightarrow> {c} | _ \<Rightarrow> {})"

definition no_collision :: "print_env \<Rightarrow> update_template_dto \<Rightarrow> objects \<Rightarrow> bool" where
  "no_collision env dto objs \<longleftrightarrow> inj_on (pe_hash env) (sent_texts dto \<union> s3_body ` ran objs)"

lemma no_collisionD: "no_collision env dto objs \<Longrightarrow> c \<in> sent_texts dto \<Longrightarrow> objs k = Some ob \<Longrightarrow> pe_hash env c = pe_hash env (s3_body ob) \<Longrightarrow> c = s3_body ob"
  unfolding no_collision_def by (erule inj_onD) (auto intro: ranI)

definition read_js :: "update_template_dto \<Rightarrow> string option \<Rightarrow> string option" where
  "read_js dto js = (case ud_js_content dto of JsUnchanged \<Rightarrow> js | JsClear \<Rightarrow> None | JsText c \<Rightarrow> Some c)"

lemma sent_html_eq:
  assumes "has_texts env objs existing" and "no_collision env dto objs" and "map_option s3_body (objs (html_ref existing)) = Some html"
  shows "sent_html env dto existing objs = Some (assign (ud_html_content dto) html)"
proof -
  obtain ob where "objs (html_ref existing) = Some ob" "html = s3_body ob" "pt_html_hash existing = None \<or> pt_html_hash existing = Some (pe_hash env html)"
    using assms(1,3) by (auto simp: has_texts_def holds_text_def)
  moreover have "c = s3_body ob" if "ud_html_content dto = Some c" "pe_hash env c = pe_hash env (s3_body ob)" for c
    using no_collisionD [OF assms(2) _ calculation(1) that(2)] that(1) by (simp add: sent_texts_def)
  ultimately show ?thesis by (auto simp: sent_html_def assign_def split: option.split)
qed

lemma sent_js_eq:
  assumes "has_texts env objs existing" and "no_collision env dto objs"
  shows "sent_js env dto existing objs = read_js dto (js_text objs existing)"
proof (cases "\<exists>c. ud_js_content dto = JsText c \<and> Some (pe_hash env c) = pt_js_hash existing")
  case True
  then obtain c where c: "ud_js_content dto = JsText c" "pt_js_hash existing = Some (pe_hash env c)" by force
  then obtain k ob where "js_ref existing = Some k" "objs k = Some ob" "pe_hash env c = pe_hash env (s3_body ob)"
    using assms(1) by (auto simp: has_texts_def holds_text_def split: option.splits)
  then show ?thesis using c no_collisionD [OF assms(2), of c k ob] by (simp add: sent_js_def read_js_def js_text_def sent_texts_def)
qed (auto simp: sent_js_def read_js_def split: js_content.split)

lemma inv_row:
  assumes "print_inv env used rows objs" and "findEntityById i rows = Some e"
  shows "has_texts env objs e" and "\<forall>k \<in> refs e. generated used k \<and> fst k = pe_bucket env"
  using assms findEntityById_Some [OF assms(2)] unfolding print_inv_def by blast+

lemma read_row_inv:
  assumes "print_inv env used rows objs" and "links_work env" and "reads_through calls" and "findEntityById i rows = Some e"
  shows "\<exists>html. map_option s3_body (objs (html_ref e)) = Some html \<and> templates_findById env calls i (rows, objs) = Inr (e, html, js_text objs e)"
  using read_row [OF assms(2,3,4)] inv_row [OF assms(1,4)] by blast

lemma saved_live:
  assumes "keys_ok rows" and "findEntityById i rows = Some existing" and "repo_findOne (\<lambda>q. eid q = i) rows = Some x"
    and "e = stamp_updated user ((update_patch dto h j x)\<lparr>eid := i\<rparr>)"
  shows "(\<lambda>i. findEntityById i (put_row e rows)) = (\<lambda>i. findEntityById i rows)(i \<mapsto> e)"
proof -
  have "x \<in> set rows" "eid x = i" using assms(3) by (auto simp: repo_findOne_def dest: find_Some_iff_mem)
  then have "x = existing" using keys_eq [OF assms(1)] findEntityById_Some [OF assms(2)] by blast
  then have "softDeleteFilter x" using findEntityById_Some(3) [OF assms(2)] by simp
  then have "softDeleteFilter e" by (simp add: assms(4) softDeleteFilter_def update_patch_def apply_dto_def)
  from live_rows_put [OF assms(1) this] show ?thesis by (simp add: assms(4))
qed

text \<open>C23: In every reachable state, when an update of a template succeeds then reading it back gives the HTML and the script that were sent,
  or the ones that could be read before where the request left them out, and no script where it cleared it; reading any other
  template is unaffected. (The links lead to the stored objects, a read reaches the store, and no two of the texts have the same digest.)\<close>

theorem template_roundtrip:
  assumes "pe_bucket env \<noteq> []" and "(print_step env)\<^sup>*\<^sup>* ({}, [], objs0) (used, rows, objs)"
    and "links_work env" and "reads_through reads" and "no_collision env dto objs"
    and "fresh_calls used (uc_html calls) (uc_js calls)" and "templates_update env calls i dto user (rows, objs) = ((rows', objs'), Inr e)"
  shows "\<exists>existing html js. templates_findById env reads i (rows, objs) = Inr (existing, html, js)
    \<and> templates_findById env reads i (rows', objs') = Inr (e, assign (ud_html_content dto) html, read_js dto js)
    \<and> (\<forall>i'. i' \<noteq> i \<longrightarrow> templates_findById env reads i' (rows', objs') = templates_findById env reads i' (rows, objs))"
proof -
  have inv: "print_inv env used rows objs" using print_reach_inv [OF assms(2,1)] by simp
  have inv': "print_inv env (used_after used (uc_html calls) (uc_js calls)) rows' objs'" by (rule update_keeps_inv [OF inv assms(1,6,7)])
  obtain existing where ex: "findEntityById i rows = Some existing" and run: "update_existing env calls i dto user existing (rows, objs) = ((rows', objs'), Inr e)"
    using assms(7) by (auto simp: templates_update_def base_findById_Inr split: sum.splits)
  obtain h objs1 j objs2 x where s: "next_html env (uc_html calls) i dto existing objs = (Inr h, objs1)" "next_js env (uc_js calls) i dto existing objs1 = (Inr j, objs2)"
    "objs' = remove_superseded env (uc_drop_js calls) j (remove_superseded env (uc_drop_html calls) h objs2)"
    "e = stamp_updated user ((update_patch dto h j x)\<lparr>eid := i\<rparr>)" "repo_findOne (\<lambda>q. eid q = i) rows = Some x" "rows' = put_row e rows"
    using update_outcomes [OF run assms(6)] by blast
  note T = updated_texts [OF inv findEntityById_Some(1) [OF ex] assms(1,6) s(1-4)]
  have "keys_ok rows" using inv unfolding print_inv_def by blast
  from saved_live [OF this ex s(5,4)] have live: "findEntityById l rows' = (if l = i then Some e else findEntityById l rows)" for l
    unfolding s(6) by (metis fun_upd_apply)
  obtain html where before: "map_option s3_body (objs (html_ref existing)) = Some html" "templates_findById env reads i (rows, objs) = Inr (existing, html, js_text objs existing)"
    using read_row_inv [OF inv assms(3,4) ex] by blast
  have "templates_findById env reads i (rows', objs') = Inr (e, assign (ud_html_content dto) html, read_js dto (js_text objs existing))"
    using read_row_inv [OF inv' assms(3,4), of i e] live T(1,2) sent_html_eq [OF inv_row(1) [OF inv ex] assms(5) before(1)] sent_js_eq [OF inv_row(1) [OF inv ex] assms(5)] by auto
  moreover have "templates_findById env reads l (rows', objs') = templates_findById env reads l (rows, objs)" if "l \<noteq> i" for l
  proof (cases "findEntityById l rows")
    case None
    then show ?thesis using live [of l] that by (simp add: templates_findById_def base_findById_def)
  next
    case (Some q)
    have q: "q \<in> set rows" "eid q = l" using findEntityById_Some [OF Some] by blast+
    have "eid q \<noteq> eid existing" using q(2) findEntityById_Some(2) [OF ex] that by simp
    then have "k \<notin> refs existing" if "k \<in> refs q" for k using inv q(1) findEntityById_Some(1) [OF ex] that unfolding print_inv_def by blast
    then have same: "objs' k = objs k" if "k \<in> refs q" for k using T(6) inv_row(2) [OF inv Some] that by blast
    have "objs' (html_ref q) = objs (html_ref q)" "js_text objs' q = js_text objs q"
      using same by (auto simp: refs_def js_text_def split: option.split bind_splits)
    then show ?thesis using read_row_inv [OF inv assms(3,4) Some] read_row_inv [OF inv' assms(3,4), of l q] live [of l] that Some by auto
  qed
  ultimately show ?thesis using before(2) by blast
qed

text \<open>A created template reads back as it was sent; an empty script counts as none.\<close>

lemma template_create_roundtrip:
  assumes "pe_bucket env \<noteq> []" and "(print_step env)\<^sup>*\<^sup>* ({}, [], objs0) (used, rows, objs)"
    and "links_work env" and "reads_through reads" and "fresh_calls used hc jc" and "softDeleteFilter data"
    and "templates_create env i hc jc data html js user (rows, objs) = ((rows', objs'), Inr e)"
  shows "templates_findById env reads i (rows', objs') = Inr (e, html, nonempty js)"
proof -
  have inv: "print_inv env used rows objs" using print_reach_inv [OF assms(2,1)] by simp
  have inv': "print_inv env (used_after used hc jc) rows' objs'" by (rule create_keeps_inv [OF inv assms(1,5,7)])
  have e: "rows' = put_row e rows" "eid e = i" "map_option s3_body (objs' (html_ref e)) = Some html" "js_text objs' e = nonempty js" "softDeleteFilter e"
    using create_outcomes [OF assms(7,5,1)] assms(6) by blast+
  have "findEntityById i rows' = Some e"
    using live_rows_put [of rows e] inv e(1,2,5) unfolding print_inv_def by (metis fun_upd_same)
  from read_row_inv [OF inv' assms(3,4) this] e(3,4) show ?thesis by auto
qed

section \<open>Samples\<close>

definition print_sample_env :: print_env where
  "print_sample_env = \<lparr>pe_storage = \<lparr>defaultBucket = ''b'', decodeOriginalName = (\<lambda>s. s), getSignedUrl = (\<lambda>b k d. Inr (CHR ''/'' # k))\<rparr>,
     pe_rpc = \<lparr>digest24 = (\<lambda>s. s), to_json = (\<lambda>v. []), of_json = (\<lambda>s. None), cache_up = True, rpc_clock = 0\<rparr>,
     pe_wire = (\<lambda>e. Timeout), pe_bucket = ''b'', pe_hash = (\<lambda>s. s), pe_chk = (\<lambda>rows r. None),
     pe_http_get = (\<lambda>objs url. map_option s3_body (objs (''b'', tl url))), pe_paginator = [], pe_gotenberg = (\<lambda>r. Unreachable)\<rparr>"

definition print_sample_call :: "char \<Rightarrow> storage_call" where
  "print_sample_call c = \<lparr>sc_delivery = Answered, sc_outcome = S3_Ok, sc_uuid = replicate 36 c\<rparr>"

definition print_sample_template :: print_template where
  "print_sample_template = \<lparr>eid = ''t1'', created_by = None, updated_by = None, is_deleted = False, deleted_reason = None, deleted_at = None, deleted_by = None,
     pt_code = ''inv'', pt_html_bucket = [], pt_html_path = [], pt_html_hash = None, pt_js_bucket = None, pt_js_path = None, pt_js_hash = None,
     pt_is_active = True, pt_paper_size = ''A4'', pt_orientation = ''portrait'', pt_parameters = [], pt_template_engine = ''html'', pt_emulated_media_type = ''print''\<rparr>"

definition print_sample_created :: "print_template list \<times> objects" where
  "print_sample_created = fst (templates_create print_sample_env ''t1'' (print_sample_call CHR ''1'') (print_sample_call CHR ''2'') print_sample_template ''<p>'' (Some ''f()'') NoActor ([], Map.empty))"

definition print_sample_calls :: update_calls where
  "print_sample_calls = \<lparr>uc_html = print_sample_call CHR ''3'', uc_js = print_sample_call CHR ''4'', uc_drop_html = print_sample_call CHR ''5'', uc_drop_js = print_sample_call CHR ''6''\<rparr>"

definition no_change :: update_template_dto where
  "no_change = \<lparr>ud_code = None, ud_is_active = None, ud_paper_size = None, ud_orientation = None, ud_parameters = None, ud_template_engine = None,
     ud_emulated_media_type = None, ud_html_content = None, ud_js_content = JsUnchanged\<rparr>"

definition print_sample_reads :: read_calls where
  "print_sample_reads = \<lparr>rc_html_delivery = Answered, rc_html_net = (\<lambda>k. k = 2), rc_js_delivery = Answered, rc_js_net = (\<lambda>k. k = 1)\<rparr>"

lemma print_sample_fresh: "fresh_calls {} (print_sample_call CHR ''1'') (print_sample_call CHR ''2'')"
  "fresh_calls {replicate 36 CHR ''1'', replicate 36 CHR ''2''} (print_sample_call CHR ''3'') (print_sample_call CHR ''4'')"
  by (simp_all add: fresh_calls_def print_sample_call_def uuid_like_def)

lemma print_sample_reach: "(print_step print_sample_env)\<^sup>*\<^sup>* ({}, [], Map.empty) ({replicate 36 CHR ''1'', replicate 36 CHR ''2''}, fst print_sample_created, snd print_sample_created)"
proof -
  have "print_step print_sample_env ({}, [], Map.empty) (used_after {} (print_sample_call CHR ''1'') (print_sample_call CHR ''2''), fst print_sample_created, snd print_sample_created)"
    by (rule print_step.Create [OF print_sample_fresh(1)]) (unfold print_sample_created_def, rule prod_eqI, auto)
  then show ?thesis by (simp add: used_after_def print_sample_call_def insert_commute r_into_rtranclp)
qed

theorem template_texts_kept_witness:
  "\<exists>r. fst print_sample_created = [r] \<and> eid r = ''t1'' \<and> has_texts print_sample_env (snd print_sample_created) r"
proof -
  have "map eid (fst print_sample_created) = [''t1'']" by code_simp
  then obtain r where r: "fst print_sample_created = [r]" "eid r = ''t1''" by auto
  have "pe_bucket print_sample_env \<noteq> []" by (simp add: print_sample_env_def)
  from template_texts_kept [OF this print_sample_reach] r show ?thesis by auto
qed

theorem template_roundtrip_witness:
  "\<exists>st e. templates_update print_sample_env print_sample_calls ''t1'' (no_change\<lparr>ud_html_content := Some ''<b>''\<rparr>) NoActor print_sample_created = (st, Inr e)
     \<and> templates_findById print_sample_env print_sample_reads ''t1'' st = Inr (e, ''<b>'', Some ''f()'')"
proof -
  let ?dto = "no_change\<lparr>ud_html_content := Some ''<b>''\<rparr>"
  let ?run = "templates_update print_sample_env print_sample_calls ''t1'' ?dto NoActor print_sample_created"
  have "(case snd ?run of Inl _ \<Rightarrow> False | Inr _ \<Rightarrow> True)" by code_simp
  then obtain rows' objs' e where run: "?run = ((rows', objs'), Inr e)" by (cases ?run) (auto split: sum.splits)
  have old: "map_sum (\<lambda>_. ()) snd (templates_findById print_sample_env print_sample_reads ''t1'' print_sample_created) = Inr (''<p>'', Some ''f()'')" by code_simp
  have b: "pe_bucket print_sample_env \<noteq> []" and links: "links_work print_sample_env" by (simp_all add: print_sample_env_def links_work_def)
  have reads: "reads_through print_sample_reads" by (auto simp: reads_through_def print_sample_reads_def)
  have coll: "no_collision print_sample_env ?dto (snd print_sample_created)" by (simp add: no_collision_def print_sample_env_def)
  have fr: "fresh_calls {replicate 36 CHR ''1'', replicate 36 CHR ''2''} (uc_html print_sample_calls) (uc_js print_sample_calls)"
    using print_sample_fresh(2) by (simp add: print_sample_calls_def)
  have run': "templates_update print_sample_env print_sample_calls ''t1'' ?dto NoActor (fst print_sample_created, snd print_sample_created) = ((rows', objs'), Inr e)" using run by simp
  from template_roundtrip [OF b print_sample_reach links reads coll fr run'] old run
  show ?thesis by (auto simp: no_change_def assign_def read_js_def)
qed

section \<open>Two updates at once\<close>

text \<open>An update that sends no text has read the row; another one replaces the HTML and removes the old object; the first then
  writes back the columns it read. Both succeed, and the template cannot be read any more.\<close>

lemma template_update_race:
  "(let existing = hd (fst print_sample_created);
        (after_text, first_result) = templates_update print_sample_env print_sample_calls ''t1'' (no_change\<lparr>ud_html_content := Some ''<b>''\<rparr>) NoActor print_sample_created;
        (after_both, second_result) = update_existing print_sample_env print_sample_calls ''t1'' (no_change\<lparr>ud_is_active := Some False\<rparr>) NoActor existing after_text
    in isl first_result = False \<and> isl second_result = False
       \<and> isl (templates_findById print_sample_env print_sample_reads ''t1'' after_text) = False
       \<and> html_ref (hd (fst after_both)) = html_ref existing \<and> snd after_both (html_ref existing) = None
       \<and> isl (templates_findById print_sample_env print_sample_reads ''t1'' after_both))"
  by code_simp

end
