(* ===== verification/Paginator.thy ===== *)
theory Paginator
  imports Template_Text
begin

text \<open>
  \<open>apps/report-bc/src/modules/print-template/assets/paginator.inline.js\<close>: the script that fills the bands of a template and splits a
  report into pages. The browser is a parameter: whether the rows of a page overflow their box, and whether its last row
  ends in the safety margin. A page is the texts given to its parts. Members that every object inherits are not
  looked up, and only arrays, texts and objects with a numeric \<open>length\<close> are looped over. Shown: no row is lost, repeated or moved; what is on a
  page fits unless it is one row alone; a page ends only where the next row would not fit; the markup of a band does not depend on the data.
\<close>

section \<open>The bands\<close>

type_synonym scope = "(string \<times> jvalue) list"

definition js_member :: "jvalue \<Rightarrow> string \<Rightarrow> jvalue" where
  "js_member v k =
     (case v of
        JObj ob \<Rightarrow> get_prop v k
      | JArr xs \<Rightarrow>
          (if k = ''length'' then JNum (int (length xs))
           else case List.find (\<lambda>i. show_nat i = k) [0..<length xs] of None \<Rightarrow> JUndef | Some i \<Rightarrow> xs ! i)
      | JStr s \<Rightarrow>
          (if k = ''length'' then JNum (int (length s))
           else case List.find (\<lambda>i. show_nat i = k) [0..<length s] of None \<Rightarrow> JUndef | Some i \<Rightarrow> JStr [s ! i])
      | _ \<Rightarrow> JUndef)"

fun resolve_from :: "string list \<Rightarrow> jvalue \<Rightarrow> jvalue" where
  "resolve_from [] cur = cur"
| "resolve_from (p # ps) cur = (if nullish cur then JNull else resolve_from ps (js_member cur p))"

definition resolvePath :: "string \<Rightarrow> scope \<Rightarrow> jvalue" where
  "resolvePath path scope = resolve_from (js_split CHR ''.'' path) (JObj scope)"

definition escape_char :: "char \<Rightarrow> string" where
  "escape_char c =
     (if c = CHR ''&'' then ''&amp;'' else if c = CHR ''<'' then ''&lt;'' else if c = CHR ''>'' then ''&gt;''
      else if c = CHR 0x22 then ''&quot;'' else [c])"

definition escapeHtml :: "jvalue \<Rightarrow> string" where
  "escapeHtml v = concat (map escape_char (js_String v))"

text \<open>What \<open>for (i = 0; i < items.length; i++) items[i]\<close> visits.\<close>

definition js_items :: "jvalue \<Rightarrow> jvalue list" where
  "js_items v =
     (case v of
        JArr xs \<Rightarrow> xs
      | JStr s \<Rightarrow> map (\<lambda>c. JStr [c]) s
      | JObj ob \<Rightarrow> (case get_prop v ''length'' of JNum n \<Rightarrow> map (\<lambda>i. js_member v (show_nat i)) [0..<nat n] | _ \<Rightarrow> [])
      | _ \<Rightarrow> [])"

definition is_path_char :: "char \<Rightarrow> bool" where
  "is_path_char c \<longleftrightarrow> is_word_char c \<or> c = CHR ''.''"

text \<open>A placeholder at the start of the text: its path and what follows. Spaces and path characters are different, so
  the greedy match is the only one.\<close>

definition match_hole :: "string \<Rightarrow> (string \<times> string) option" where
  "match_hole s =
     (if is_prefix ''{{'' s
      then (let r = dropWhile is_space (drop 2 s); path = takeWhile is_path_char r;
                after = dropWhile is_space (dropWhile is_path_char r)
            in if path \<noteq> [] \<and> is_prefix ''}}'' after then Some (path, drop 2 after) else None)
      else None)"

definition PAGES_SPAN :: string where "PAGES_SPAN = ''<span data-rp-pages></span>''"

definition hole_text :: "scope \<Rightarrow> string \<Rightarrow> string" where
  "hole_text scope path =
     (if path = ''__pages'' then PAGES_SPAN
      else let v = resolvePath path scope in if nullish v then [] else escapeHtml v)"

lemma match_hole_shorter: "match_hole s = Some (path, rest) \<Longrightarrow> length rest < length s"
proof -
  assume m: "match_hole s = Some (path, rest)"
  let ?r = "dropWhile is_space (drop 2 s)"
  have "rest = drop 2 (dropWhile is_space (dropWhile is_path_char ?r))" "is_prefix ''{{'' s"
    using m by (auto simp: match_hole_def Let_def split: if_splits)
  moreover have "length (dropWhile is_space (dropWhile is_path_char ?r)) \<le> length (drop 2 s)"
    by (meson le_trans length_dropWhile_le)
  ultimately show ?thesis by (cases s) auto
qed

text \<open>The last \<open>replace\<close> of \<open>renderBand\<close>; the replacement is a function, so nothing in it is special.\<close>

function replace_holes :: "string \<Rightarrow> scope \<Rightarrow> string" where
  "replace_holes [] scope = []"
| "replace_holes (c # s) scope =
     (case match_hole (c # s) of
        Some (path, rest) \<Rightarrow> hole_text scope path @ replace_holes rest scope
      | None \<Rightarrow> c # replace_holes s scope)"
  by pat_completeness auto

termination
  by (relation "measure (\<lambda>(s, scope). length s)") (auto dest: match_hole_shorter)

definition REPEAT_OPEN :: string where "REPEAT_OPEN = ''<template data-repeat='' @ [CHR 0x22]"
definition REPEAT_CLOSE :: string where "REPEAT_CLOSE = ''</template>''"

text \<open>A repeated part at the start of the text: its key, its inner text up to the first closing tag, and what follows.\<close>

definition match_repeat :: "string \<Rightarrow> (string \<times> string \<times> string) option" where
  "match_repeat s =
     (if is_prefix REPEAT_OPEN s
      then (let r = drop (length REPEAT_OPEN) s; key = takeWhile is_path_char r; after = dropWhile is_path_char r
            in if key \<noteq> [] \<and> is_prefix [CHR 0x22, CHR ''>''] after
               then map_option (\<lambda>(inner, rest). (key, inner, rest)) (split_first REPEAT_CLOSE (drop 2 after))
               else None)
      else None)"

lemma match_repeat_shorter:
  assumes "match_repeat s = Some (key, inner, rest)"
  shows "length inner < length s" and "length rest < length s"
proof -
  let ?after = "dropWhile is_path_char (drop (length REPEAT_OPEN) s)"
  have p: "is_prefix REPEAT_OPEN s" and "split_first REPEAT_CLOSE (drop 2 ?after) = Some (inner, rest)"
    using assms by (auto simp: match_repeat_def Let_def split: if_splits)
  from this(2) have "drop 2 ?after = inner @ REPEAT_CLOSE @ rest" by (rule split_first_Some)
  from arg_cong [OF this, of length] have len: "length inner + length rest \<le> length (drop 2 ?after)" by simp
  have "length ?after \<le> length (drop (length REPEAT_OPEN) s)" by (rule length_dropWhile_le)
  moreover obtain zs where "s = REPEAT_OPEN @ zs" using p is_prefix_conv by blast
  ultimately show "length inner < length s" "length rest < length s" using len by (auto simp: REPEAT_OPEN_def)
qed

definition item_scope :: "scope \<Rightarrow> jvalue \<Rightarrow> nat \<Rightarrow> scope" where
  "item_scope scope item row_no = (''row'', item) # (''__row_no'', JNum (int row_no)) # scope"

text \<open>The first \<open>replace\<close> of \<open>renderBand\<close>, with the call of \<open>renderBand\<close> for each item written out.\<close>

function repeats :: "string \<Rightarrow> scope \<Rightarrow> string" where
  "repeats [] scope = []"
| "repeats (c # s) scope =
     (case match_repeat (c # s) of
        Some (key, inner, rest) \<Rightarrow>
          concat (map (\<lambda>(row_no, item). replace_holes (repeats inner (item_scope scope item row_no)) (item_scope scope item row_no))
            (enumerate 1 (js_items (resolvePath key scope)))) @ repeats rest scope
      | None \<Rightarrow> c # repeats s scope)"
  by pat_completeness auto

termination
  by (relation "measure (\<lambda>(s, scope). length s)") (auto dest: match_repeat_shorter)

definition renderBand :: "string \<Rightarrow> scope \<Rightarrow> string" where
  "renderBand html scope = replace_holes (repeats html scope) scope"

text \<open>The bands of a document, keyed by name and, where it has one, by \<open>data-when\<close>; a later one replaces an earlier one.\<close>

type_synonym bands = "string \<Rightarrow> string option"

definition band_key :: "string \<Rightarrow> string option \<Rightarrow> string" where
  "band_key name when = (case when of Some w \<Rightarrow> if w = [] then name else name @ '':'' @ w | None \<Rightarrow> name)"

definition read_bands :: "(string \<times> string option \<times> string) list \<Rightarrow> bands" where
  "read_bands ts = foldl (\<lambda>bands (name, when, html). bands(band_key name when \<mapsto> html)) (\<lambda>_. None) ts"

definition band :: "bands \<Rightarrow> string \<Rightarrow> string" where
  "band bands k = (case bands k of None \<Rightarrow> [] | Some html \<Rightarrow> html)"

section \<open>The pages\<close>

record page =
  pg_hdr :: string
  pg_thead :: string
  pg_rows :: "string list"
  pg_sum :: string
  pg_ftr :: string
  pg_scope :: scope

record browser =
  overflows :: "page \<Rightarrow> bool"
  last_row_low :: "page \<Rightarrow> bool"

definition page_scope :: "scope \<Rightarrow> nat \<Rightarrow> scope" where
  "page_scope D count = (''__page'', JNum (int count + 1)) # (''__next_page'', JNum (int count + 2)) # D"

text \<open>\<open>count\<close> is the number of pages so far.\<close>

definition newPage :: "bands \<Rightarrow> scope \<Rightarrow> nat \<Rightarrow> page" where
  "newPage bands D count =
     (let scope = page_scope D count
      in \<lparr>pg_hdr = renderBand (band bands ''page-header'') scope, pg_thead = renderBand (band bands ''detail-header'') scope, pg_rows = [],
          pg_sum = [], pg_ftr = renderBand (band bands ''page-footer:continuation'') scope, pg_scope = scope\<rparr>)"

definition appendRows :: "page \<Rightarrow> string \<Rightarrow> page" where
  "appendRows p html = p\<lparr>pg_rows := pg_rows p @ [html]\<rparr>"

text \<open>The step of the first two passes: rows that overflow the current page are taken off again and go to a new one.\<close>

definition place :: "browser \<Rightarrow> bands \<Rightarrow> scope \<Rightarrow> string \<Rightarrow> page list \<Rightarrow> page list" where
  "place dm bands D html pages =
     (let added = appendRows (List.last pages) html
      in if overflows dm added then pages @ [appendRows (newPage bands D (length pages)) html] else butlast pages @ [added])"

definition detail_items :: "scope \<Rightarrow> jvalue list" where
  "detail_items D = js_items (get_prop (JObj D) ''items'')"

definition detail_row :: "bands \<Rightarrow> scope \<Rightarrow> nat \<times> jvalue \<Rightarrow> string" where
  "detail_row bands D x = renderBand (band bands ''detail-row'') (item_scope D (snd x) (fst x))"

definition pass1 :: "browser \<Rightarrow> bands \<Rightarrow> scope \<Rightarrow> page list" where
  "pass1 dm bands D = foldl (\<lambda>pages x. place dm bands D (detail_row bands D x) pages) [newPage bands D 0] (enumerate 1 (detail_items D))"

definition pass2 :: "browser \<Rightarrow> bands \<Rightarrow> scope \<Rightarrow> page list \<Rightarrow> page list" where
  "pass2 dm bands D pages =
     (if band bands ''detail-extra'' = [] then pages else place dm bands D (renderBand (band bands ''detail-extra'') D) pages)"

definition set_summary :: "bands \<Rightarrow> page \<Rightarrow> page" where
  "set_summary bands p = p\<lparr>pg_sum := renderBand (band bands ''summary'') (pg_scope p)\<rparr>"

definition pass3 :: "browser \<Rightarrow> bands \<Rightarrow> scope \<Rightarrow> page list \<Rightarrow> page list" where
  "pass3 dm bands D pages =
     (if band bands ''summary'' = [] then pages
      else let with_summary = set_summary bands (List.last pages)
           in if overflows dm with_summary then pages @ [set_summary bands (newPage bands D (length pages))]
              else butlast pages @ [with_summary])"

definition fillerWouldOverflow :: "browser \<Rightarrow> page \<Rightarrow> bool" where
  "fillerWouldOverflow dm p \<longleftrightarrow> overflows dm p \<or> last_row_low dm p"

fun fill_page :: "browser \<Rightarrow> string \<Rightarrow> nat \<Rightarrow> page \<Rightarrow> page" where
  "fill_page dm html 0 p = p"
| "fill_page dm html (Suc n) p =
     (let added = appendRows p html in if fillerWouldOverflow dm added then p else fill_page dm html n added)"

definition filler :: "bands \<Rightarrow> page \<Rightarrow> string" where
  "filler bands p = renderBand (band bands ''filler-row'') (pg_scope p)"

definition pass4 :: "browser \<Rightarrow> bands \<Rightarrow> nat \<Rightarrow> nat \<times> page \<Rightarrow> page" where
  "pass4 dm bands pages_total x =
     (let idx = fst x; p = snd x;
          filled = (if band bands ''filler-row'' = [] then p else fill_page dm (filler bands p) 500 p)
      in filled\<lparr>pg_ftr := renderBand (band bands (if idx + 1 = pages_total then ''page-footer:last'' else ''page-footer:continuation'')) (pg_scope p)\<rparr>)"

definition laid_out :: "browser \<Rightarrow> bands \<Rightarrow> scope \<Rightarrow> page list" where
  "laid_out dm bands D = pass3 dm bands D (pass2 dm bands D (pass1 dm bands D))"

definition paginate :: "browser \<Rightarrow> bands \<Rightarrow> scope \<Rightarrow> page list" where
  "paginate dm bands D = (let pages = laid_out dm bands D in map (pass4 dm bands (length pages)) (enumerate 0 pages))"

section \<open>Rows and page breaks\<close>

definition detail_rows :: "bands \<Rightarrow> scope \<Rightarrow> string list" where
  "detail_rows bands D = map (detail_row bands D) (enumerate 1 (detail_items D))
     @ (if band bands ''detail-extra'' = [] then [] else [renderBand (band bands ''detail-extra'') D])"

text \<open>The pages of the first two passes: numbered new pages with the rows so far, in order; a page ends where the next row overflows it, and one that
  overflows has one row at most.\<close>

definition pages_inv :: "browser \<Rightarrow> bands \<Rightarrow> scope \<Rightarrow> string list \<Rightarrow> page list \<Rightarrow> bool" where
  "pages_inv dm bands D rs pages \<longleftrightarrow> pages \<noteq> [] \<and> concat (map pg_rows pages) = rs
     \<and> (\<forall>i < length pages. (pages ! i)\<lparr>pg_rows := []\<rparr> = newPage bands D i)
     \<and> (\<forall>i. Suc i < length pages \<longrightarrow> pg_rows (pages ! Suc i) \<noteq> [] \<and> overflows dm (appendRows (pages ! i) (hd (pg_rows (pages ! Suc i)))))
     \<and> (\<forall>p \<in> set pages. \<not> overflows dm p \<or> length (pg_rows p) \<le> 1)"

lemma appendRows_rows [simp]: "pg_rows (appendRows p html) = pg_rows p @ [html]"
  by (simp add: appendRows_def)

lemma appendRows_blank [simp]: "(appendRows p html)\<lparr>pg_rows := []\<rparr> = p\<lparr>pg_rows := []\<rparr>"
  by (simp add: appendRows_def)

lemma newPage_blank [simp]: "(newPage bands D n)\<lparr>pg_rows := []\<rparr> = newPage bands D n"
  by (simp add: newPage_def Let_def)

lemma newPage_rows [simp]: "pg_rows (newPage bands D n) = []"
  by (simp add: newPage_def Let_def)

lemma pages_invD:
  assumes "pages_inv dm bands D rs pages"
  shows "pages \<noteq> []" and "concat (map pg_rows pages) = rs" and "i < length pages \<Longrightarrow> (pages ! i)\<lparr>pg_rows := []\<rparr> = newPage bands D i"
    and "Suc i < length pages \<Longrightarrow> pg_rows (pages ! Suc i) \<noteq> [] \<and> overflows dm (appendRows (pages ! i) (hd (pg_rows (pages ! Suc i))))"
    and "p \<in> set pages \<Longrightarrow> \<not> overflows dm p \<or> length (pg_rows p) \<le> 1"
  using assms unfolding pages_inv_def by blast+

lemma nth_snoc: "i < Suc (length xs) \<Longrightarrow> (xs @ [x]) ! i = (if i < length xs then xs ! i else x)"
  by (auto simp: nth_append less_Suc_eq)

lemma place_inv:
  assumes inv: "pages_inv dm bands D rs pages"
  shows "pages_inv dm bands D (rs @ [html]) (place dm bands D html pages)"
proof -
  note I = pages_invD [OF inv]
  obtain front cur where pages: "pages = front @ [cur]" using I(1) by (metis append_butlast_last_id)
  have cur: "cur\<lparr>pg_rows := []\<rparr> = newPage bands D (length front)" using I(3) [of "length front"] by (simp add: pages)
  show ?thesis
  proof (cases "overflows dm (appendRows cur html)")
    case True
    let ?new = "appendRows (newPage bands D (length pages)) html"
    have run: "place dm bands D html pages = pages @ [?new]" using True by (simp add: place_def pages Let_def)
    have num: "((pages @ [?new]) ! i)\<lparr>pg_rows := []\<rparr> = newPage bands D i" if "i < length (pages @ [?new])" for i
      using that I(3) [of i] by (auto simp: nth_snoc less_Suc_eq)
    have brk: "pg_rows ((pages @ [?new]) ! Suc i) \<noteq> [] \<and> overflows dm (appendRows ((pages @ [?new]) ! i) (hd (pg_rows ((pages @ [?new]) ! Suc i))))"
      if i: "Suc i < length (pages @ [?new])" for i
    proof (cases "Suc i = length pages")
      case last_two: True
      then have "(pages @ [?new]) ! i = cur" "(pages @ [?new]) ! Suc i = ?new" by (simp_all add: pages nth_append)
      then show ?thesis using True by simp
    next
      case False
      then show ?thesis using i I(4) [of i] by (simp add: nth_append)
    qed
    have fit: "\<not> overflows dm p \<or> length (pg_rows p) \<le> 1" if "p \<in> set (pages @ [?new])" for p using that I(5) [of p] by auto
    show ?thesis unfolding run pages_inv_def using num brk fit I(2) by simp
  next
    case False
    let ?new = "appendRows cur html"
    have run: "place dm bands D html pages = front @ [?new]" using False by (simp add: place_def pages Let_def)
    have num: "((front @ [?new]) ! i)\<lparr>pg_rows := []\<rparr> = newPage bands D i" if "i < length (front @ [?new])" for i
      using that I(3) [of i] cur by (auto simp: pages nth_snoc less_Suc_eq)
    have brk: "pg_rows ((front @ [?new]) ! Suc i) \<noteq> [] \<and> overflows dm (appendRows ((front @ [?new]) ! i) (hd (pg_rows ((front @ [?new]) ! Suc i))))"
      if i: "Suc i < length (front @ [?new])" for i
      using I(4) [of i] i by (auto simp: pages nth_snoc split: if_splits)
    have fit: "\<not> overflows dm p \<or> length (pg_rows p) \<le> 1" if "p \<in> set (front @ [?new])" for p using that I(5) [of p] False by (auto simp: pages)
    show ?thesis unfolding run pages_inv_def using num brk fit I(2) by (simp add: pages)
  qed
qed

lemma pass1_inv: "pages_inv dm bands D (map (detail_row bands D) (enumerate 1 (detail_items D))) (pass1 dm bands D)"
proof -
  have "pages_inv dm bands D (rs @ map (detail_row bands D) xs) (foldl (\<lambda>pages x. place dm bands D (detail_row bands D x) pages) pages xs)"
    if "pages_inv dm bands D rs pages" for rs pages xs
    using that
  proof (induction xs arbitrary: rs pages)
    case (Cons x xs)
    from Cons.IH [OF place_inv [OF Cons.prems, of "detail_row bands D x"]] show ?case by simp
  qed simp
  moreover have "pages_inv dm bands D [] [newPage bands D 0]" by (simp add: pages_inv_def)
  ultimately show ?thesis unfolding pass1_def by (metis append_Nil)
qed

lemma pass2_inv: "pages_inv dm bands D (detail_rows bands D) (pass2 dm bands D (pass1 dm bands D))"
  using pass1_inv [of dm bands D] place_inv [OF pass1_inv [of dm bands D]] unfolding pass2_def detail_rows_def by simp

text \<open>The pages before the filler rows.\<close>

definition summary_text :: "bands \<Rightarrow> scope \<Rightarrow> nat \<Rightarrow> string" where
  "summary_text bands D i = (if band bands ''summary'' = [] then [] else renderBand (band bands ''summary'') (page_scope D i))"

definition break_needed :: "browser \<Rightarrow> bands \<Rightarrow> page \<Rightarrow> page \<Rightarrow> bool" where
  "break_needed dm bands p q \<longleftrightarrow>
     (if pg_rows q = [] then band bands ''summary'' \<noteq> [] \<and> overflows dm (set_summary bands p) else overflows dm (appendRows p (hd (pg_rows q))))"

lemma newPage_fields [simp]: "pg_scope (newPage bands D n) = page_scope D n" "pg_sum (newPage bands D n) = []"
  by (simp_all add: newPage_def Let_def)

lemma set_summary_fields [simp]: "pg_rows (set_summary bands p) = pg_rows p" "(set_summary bands p)\<lparr>pg_sum := s\<rparr> = p\<lparr>pg_sum := s\<rparr>"
  "pg_sum (set_summary bands p) = renderBand (band bands ''summary'') (pg_scope p)"
  by (simp_all add: set_summary_def)

lemma page_of_blank:
  assumes "p\<lparr>pg_rows := []\<rparr> = newPage bands D i"
  shows "pg_scope p = page_scope D i" and "pg_sum p = []" and "p = (newPage bands D i)\<lparr>pg_rows := pg_rows p\<rparr>"
  using arg_cong [OF assms, of pg_scope] arg_cong [OF assms, of pg_sum] arg_cong [OF assms, of "\<lambda>q. q\<lparr>pg_rows := pg_rows p\<rparr>"] by simp_all

lemma laid_out_pages:
  fixes dm bands D
  defines "pages \<equiv> laid_out dm bands D"
  shows "concat (map pg_rows pages) = detail_rows bands D"
    and "i < length pages \<Longrightarrow> pages ! i = (newPage bands D i)\<lparr>pg_rows := pg_rows (pages ! i), pg_sum := if Suc i = length pages then summary_text bands D i else []\<rparr>"
    and "Suc i < length pages \<Longrightarrow> break_needed dm bands (pages ! i) (pages ! Suc i)"
    and "p \<in> set pages \<Longrightarrow> \<not> overflows dm p \<or> length (pg_rows p) \<le> 1"
proof -
  define two where "two = pass2 dm bands D (pass1 dm bands D)"
  note I = pages_invD [OF pass2_inv [of dm bands D], folded two_def]
  obtain front cur where two: "two = front @ [cur]" using I(1) by (metis append_butlast_last_id)
  note B = page_of_blank [OF I(3)]
  have brk: "break_needed dm bands (two ! i) (two ! Suc i)" if "Suc i < length two" for i using I(4) [OF that] by (simp add: break_needed_def)
  have cur: "pg_scope cur = page_scope D (length front)" using B(1) [of "length front"] by (simp add: two)
  have def: "pages = pass3 dm bands D two" by (simp add: pages_def laid_out_def two_def)
  consider (none) "band bands ''summary'' = []" "pages = two"
    | (own) "band bands ''summary'' \<noteq> []" "overflows dm (set_summary bands cur)" "pages = two @ [set_summary bands (newPage bands D (length two))]"
    | (fits) "band bands ''summary'' \<noteq> []" "\<not> overflows dm (set_summary bands cur)" "pages = front @ [set_summary bands cur]"
    using def by (auto simp: pass3_def two Let_def split: if_splits)
  note cases = this
  show "concat (map pg_rows pages) = detail_rows bands D" using I(2) by (cases rule: cases) (auto simp: two)
  show "p \<in> set pages \<Longrightarrow> \<not> overflows dm p \<or> length (pg_rows p) \<le> 1" using I(5) [of p] by (cases rule: cases) (auto simp: two)
  show "Suc i < length pages \<Longrightarrow> break_needed dm bands (pages ! i) (pages ! Suc i)"
  proof (cases rule: cases)
    case own
    assume "Suc i < length pages"
    then consider "Suc i < length two" | "Suc i = length two" using own(3) by fastforce
    then show ?thesis
    proof cases
      case 1
      then show ?thesis using own(3) brk [of i] by (simp add: nth_append)
    next
      case 2
      then have "pages ! i = cur" "pages ! Suc i = set_summary bands (newPage bands D (length two))" by (simp_all add: own(3) nth_append) (simp add: two)
      then show ?thesis using own(1,2) by (simp add: break_needed_def)
    qed
  next
    case fits
    assume "Suc i < length pages"
    then show ?thesis using fits brk [of i] by (auto simp: nth_snoc two break_needed_def)
  qed (use brk in blast)
  show "i < length pages \<Longrightarrow> pages ! i = (newPage bands D i)\<lparr>pg_rows := pg_rows (pages ! i), pg_sum := if Suc i = length pages then summary_text bands D i else []\<rparr>"
  proof (cases rule: cases)
    case none
    assume "i < length pages"
    then show ?thesis using B [of i] none by (simp add: summary_text_def)
  next
    case own
    assume "i < length pages"
    then show ?thesis using own B [of i] by (auto simp: nth_snoc less_Suc_eq summary_text_def set_summary_def)
  next
    case fits
    assume "i < length pages"
    then show ?thesis using fits B [of i] cur by (auto simp: nth_snoc less_Suc_eq two summary_text_def set_summary_def)
  qed
qed

text \<open>The filler rows: as many as fit, and no more than 500.\<close>

lemma fill_page_rows:
  "\<exists>k \<le> n. fill_page dm html n p = p\<lparr>pg_rows := pg_rows p @ replicate k html\<rparr>
     \<and> (k = 0 \<or> \<not> fillerWouldOverflow dm (fill_page dm html n p)) \<and> (k = n \<or> fillerWouldOverflow dm (appendRows (fill_page dm html n p) html))"
proof (induction n arbitrary: p)
  case (Suc n)
  show ?case
  proof (cases "fillerWouldOverflow dm (appendRows p html)")
    case True
    then show ?thesis by (intro exI [of _ 0]) (simp add: Let_def)
  next
    case False
    have run: "fill_page dm html (Suc n) p = fill_page dm html n (appendRows p html)" using False by (simp add: Let_def)
    obtain k where k: "k \<le> n" "fill_page dm html n (appendRows p html) = (appendRows p html)\<lparr>pg_rows := pg_rows (appendRows p html) @ replicate k html\<rparr>"
      "k = 0 \<or> \<not> fillerWouldOverflow dm (fill_page dm html n (appendRows p html))"
      "k = n \<or> fillerWouldOverflow dm (appendRows (fill_page dm html n (appendRows p html)) html)"
      using Suc.IH [of "appendRows p html"] by blast
    have all: "fill_page dm html n (appendRows p html) = p\<lparr>pg_rows := pg_rows p @ replicate (Suc k) html\<rparr>" using k(2) by (simp add: appendRows_def)
    have "k = 0 \<Longrightarrow> fill_page dm html n (appendRows p html) = appendRows p html" using all by (simp add: appendRows_def)
    then show ?thesis unfolding run using k(1,3,4) all False by (intro exI [of _ "Suc k"]) auto
  qed
qed simp

lemma length_paginate [simp]: "length (paginate dm bands D) = length (laid_out dm bands D)"
  by (simp add: paginate_def Let_def)

lemma paginate_nth:
  "i < length (laid_out dm bands D) \<Longrightarrow> paginate dm bands D ! i = pass4 dm bands (length (laid_out dm bands D)) (i, laid_out dm bands D ! i)"
  by (simp add: paginate_def Let_def nth_enumerate_eq)

lemma paginate_page:
  assumes "i < length (laid_out dm bands D)"
  defines "p \<equiv> laid_out dm bands D ! i" and "q \<equiv> paginate dm bands D ! i"
  shows "\<exists>k \<le> 500. q\<lparr>pg_ftr := pg_ftr p\<rparr> = p\<lparr>pg_rows := pg_rows p @ replicate k (filler bands p)\<rparr>
      \<and> (k = 0 \<or> \<not> fillerWouldOverflow dm (q\<lparr>pg_ftr := pg_ftr p\<rparr>))
      \<and> (band bands ''filler-row'' = [] \<or> k = 500 \<or> fillerWouldOverflow dm (appendRows (q\<lparr>pg_ftr := pg_ftr p\<rparr>) (filler bands p)))
      \<and> pg_ftr q = renderBand (band bands (if Suc i = length (paginate dm bands D) then ''page-footer:last'' else ''page-footer:continuation'')) (page_scope D i)"
proof -
  have scope: "pg_scope p = page_scope D i" using arg_cong [OF laid_out_pages(2) [OF assms(1)], of pg_scope] by (simp add: p_def)
  have q: "q = (if band bands ''filler-row'' = [] then p else fill_page dm (filler bands p) 500 p)\<lparr>pg_ftr :=
      renderBand (band bands (if Suc i = length (paginate dm bands D) then ''page-footer:last'' else ''page-footer:continuation'')) (page_scope D i)\<rparr>"
    using assms(1) scope by (simp add: q_def p_def paginate_nth pass4_def Let_def)
  show ?thesis
  proof (cases "band bands ''filler-row'' = []")
    case True
    then show ?thesis unfolding q by (intro exI [of _ 0]) simp
  next
    case False
    obtain k where k: "k \<le> 500" "fill_page dm (filler bands p) 500 p = p\<lparr>pg_rows := pg_rows p @ replicate k (filler bands p)\<rparr>"
      "k = 0 \<or> \<not> fillerWouldOverflow dm (fill_page dm (filler bands p) 500 p)"
      "k = 500 \<or> fillerWouldOverflow dm (appendRows (fill_page dm (filler bands p) 500 p) (filler bands p))"
      using fill_page_rows by blast
    have "q\<lparr>pg_ftr := pg_ftr p\<rparr> = fill_page dm (filler bands p) 500 p" unfolding q using False k(2) by simp
    then show ?thesis using k False by (intro exI [of _ k]) (simp add: q)
  qed
qed

section \<open>The properties of the pages\<close>

text \<open>C24: The pages of a report hold every detail row, and the extra block after them, exactly once and in order: each page is a new page of its number with
  its share of the rows, at most 500 filler rows after them, the summary on the last page and on no other, and the footer for the last
  page on the last page and the one for continued pages on the others.\<close>

theorem paginate_keeps_rows:
  "concat (map pg_rows (laid_out dm bands D)) = detail_rows bands D
   \<and> length (paginate dm bands D) = length (laid_out dm bands D)
   \<and> (\<forall>i < length (paginate dm bands D). \<exists>k \<le> 500. paginate dm bands D ! i = (newPage bands D i)\<lparr>
        pg_rows := pg_rows (laid_out dm bands D ! i) @ replicate k (renderBand (band bands ''filler-row'') (page_scope D i)),
        pg_sum := (if Suc i = length (paginate dm bands D) then summary_text bands D i else []),
        pg_ftr := renderBand (band bands (if Suc i = length (paginate dm bands D) then ''page-footer:last'' else ''page-footer:continuation'')) (page_scope D i)\<rparr>)"
proof (intro conjI allI impI)
  fix i assume i: "i < length (paginate dm bands D)"
  let ?p = "laid_out dm bands D ! i"
  have p: "?p = (newPage bands D i)\<lparr>pg_rows := pg_rows ?p, pg_sum := if Suc i = length (laid_out dm bands D) then summary_text bands D i else []\<rparr>"
    using laid_out_pages(2) i by simp
  have f: "filler bands ?p = renderBand (band bands ''filler-row'') (page_scope D i)" using arg_cong [OF p, of pg_scope] by (simp add: filler_def)
  obtain k where k: "k \<le> 500" "(paginate dm bands D ! i)\<lparr>pg_ftr := pg_ftr ?p\<rparr> = ?p\<lparr>pg_rows := pg_rows ?p @ replicate k (filler bands ?p)\<rparr>"
    "pg_ftr (paginate dm bands D ! i) = renderBand (band bands (if Suc i = length (paginate dm bands D) then ''page-footer:last'' else ''page-footer:continuation'')) (page_scope D i)"
    using paginate_page [of i dm bands D] i by auto
  have "paginate dm bands D ! i = ?p\<lparr>pg_rows := pg_rows ?p @ replicate k (filler bands ?p), pg_ftr := pg_ftr (paginate dm bands D ! i)\<rparr>"
    using arg_cong [OF k(2), of "\<lambda>q. q\<lparr>pg_ftr := pg_ftr (paginate dm bands D ! i)\<rparr>"] by simp
  also have "\<dots> = ((newPage bands D i)\<lparr>pg_rows := pg_rows ?p, pg_sum := if Suc i = length (laid_out dm bands D) then summary_text bands D i else []\<rparr>)
      \<lparr>pg_rows := pg_rows ?p @ replicate k (filler bands ?p), pg_ftr := pg_ftr (paginate dm bands D ! i)\<rparr>" by (subst p) simp
  finally show "\<exists>k \<le> 500. paginate dm bands D ! i = (newPage bands D i)\<lparr>
        pg_rows := pg_rows ?p @ replicate k (renderBand (band bands ''filler-row'') (page_scope D i)),
        pg_sum := (if Suc i = length (paginate dm bands D) then summary_text bands D i else []),
        pg_ftr := renderBand (band bands (if Suc i = length (paginate dm bands D) then ''page-footer:last'' else ''page-footer:continuation'')) (page_scope D i)\<rparr>"
    using k(1,3) f by auto
qed (simp_all add: laid_out_pages(1))

definition two_rows :: browser where
  "two_rows = \<lparr>overflows = (\<lambda>p. 2 < length (pg_rows p)), last_row_low = (\<lambda>p. False)\<rparr>"

definition plain_bands :: bands where
  "plain_bands = read_bands [(''detail-row'', None, ''{{row.n}}''), (''filler-row'', None, ''-''), (''page-footer'', Some ''last'', ''end'')]"

definition three_items :: scope where
  "three_items = [(''items'', JArr [JObj [(''n'', JNum 1)], JObj [(''n'', JNum 2)], JObj [(''n'', JNum 3)]])]"

theorem paginate_keeps_rows_witness:
  "map pg_rows (paginate two_rows plain_bands three_items) = [[''1'', ''2''], [''3'', ''-'']]
   \<and> detail_rows plain_bands three_items = [''1'', ''2'', ''3'']
   \<and> concat (map pg_rows (laid_out two_rows plain_bands three_items)) = detail_rows plain_bands three_items
   \<and> pg_ftr (paginate two_rows plain_bands three_items ! 1) = ''end''"
proof -
  have e: "map pg_rows (paginate two_rows plain_bands three_items) = [[''1'', ''2''], [''3'', ''-'']]" "detail_rows plain_bands three_items = [''1'', ''2'', ''3'']"
    "renderBand (band plain_bands ''page-footer:last'') (page_scope three_items 1) = ''end''"
    by code_simp+
  have len: "length (paginate two_rows plain_bands three_items) = 2" using arg_cong [OF e(1), of length] by simp
  note T = paginate_keeps_rows [of two_rows plain_bands three_items]
  have l: "1 < length (paginate two_rows plain_bands three_items)" "Suc 1 = length (paginate two_rows plain_bands three_items)" unfolding len by simp_all
  from conjunct2 [OF conjunct2 [OF T], THEN spec, THEN mp, OF l(1)] obtain rs s where
    "paginate two_rows plain_bands three_items ! 1 = (newPage plain_bands three_items 1)\<lparr>pg_rows := rs, pg_sum := s, pg_ftr := ''end''\<rparr>"
    unfolding if_P [OF l(2)] e(3) by blast
  from arg_cong [OF this, of pg_ftr] have "pg_ftr (paginate two_rows plain_bands three_items ! 1) = ''end''" by simp
  then show ?thesis using T e by blast
qed

text \<open>As the browser measured it with the continued footer, a finished page overflows only when it holds a single row of the report or none, and then it has no filler
  rows; filler rows are added until one more would not fit or there are 500; and a page is ended only when the first row of the next page, or the summary,
  did not fit on it.\<close>

theorem pages_fit:
  "(\<forall>i < length (paginate dm bands D).
      let p = laid_out dm bands D ! i; q = (paginate dm bands D ! i)\<lparr>pg_ftr := pg_ftr p\<rparr>
      in (\<not> overflows dm q \<or> length (pg_rows q) \<le> 1 \<and> q = p)
         \<and> (band bands ''filler-row'' = [] \<or> length (pg_rows q) = length (pg_rows p) + 500 \<or> fillerWouldOverflow dm (appendRows q (filler bands p))))
   \<and> (\<forall>i. Suc i < length (paginate dm bands D) \<longrightarrow> break_needed dm bands (laid_out dm bands D ! i) (laid_out dm bands D ! Suc i))"
proof (intro conjI allI impI)
  fix i assume i: "i < length (paginate dm bands D)"
  let ?p = "laid_out dm bands D ! i" and ?q = "(paginate dm bands D ! i)\<lparr>pg_ftr := pg_ftr (laid_out dm bands D ! i)\<rparr>"
  obtain k where k: "?q = ?p\<lparr>pg_rows := pg_rows ?p @ replicate k (filler bands ?p)\<rparr>" "k = 0 \<or> \<not> fillerWouldOverflow dm ?q"
    "band bands ''filler-row'' = [] \<or> k = 500 \<or> fillerWouldOverflow dm (appendRows ?q (filler bands ?p))"
    using paginate_page [of i dm bands D] i unfolding length_paginate by blast
  have "\<not> overflows dm ?q \<or> length (pg_rows ?q) \<le> 1 \<and> ?q = ?p"
  proof (cases "k = 0")
    case True
    then have "?q = ?p" using k(1) by simp
    then show ?thesis using laid_out_pages(4) [of ?p dm bands D] i by (simp only: length_paginate nth_mem) blast
  qed (use k(2) in \<open>simp add: fillerWouldOverflow_def\<close>)
  moreover have "k = 500 \<Longrightarrow> length (pg_rows ?q) = length (pg_rows ?p) + 500" using arg_cong [OF k(1), of pg_rows] by simp
  ultimately show "let p = ?p; q = (paginate dm bands D ! i)\<lparr>pg_ftr := pg_ftr p\<rparr>
      in (\<not> overflows dm q \<or> length (pg_rows q) \<le> 1 \<and> q = p)
         \<and> (band bands ''filler-row'' = [] \<or> length (pg_rows q) = length (pg_rows p) + 500 \<or> fillerWouldOverflow dm (appendRows q (filler bands p)))"
    using k(3) unfolding Let_def by blast
qed (simp add: laid_out_pages(3))

theorem pages_fit_witness:
  "break_needed two_rows plain_bands (laid_out two_rows plain_bands three_items ! 0) (laid_out two_rows plain_bands three_items ! 1)
   \<and> (overflows two_rows (paginate two_rows plain_bands three_items ! 1) = False \<or> length (pg_rows (paginate two_rows plain_bands three_items ! 1)) \<le> 1)"
proof -
  have "length (paginate two_rows plain_bands three_items) = 2" by code_simp
  then have len: "Suc 0 < length (paginate two_rows plain_bands three_items)" "1 < length (paginate two_rows plain_bands three_items)" by simp_all
  note T = pages_fit [of two_rows plain_bands three_items]
  from T len(1) have "break_needed two_rows plain_bands (laid_out two_rows plain_bands three_items ! 0) (laid_out two_rows plain_bands three_items ! Suc 0)" by blast
  moreover have "overflows two_rows (q\<lparr>pg_ftr := f\<rparr>) = overflows two_rows q" for q f by (simp add: two_rows_def)
  ultimately show ?thesis using T len(2) unfolding Let_def by (metis One_nat_def page.select_convs(3) page.surjective page.update_convs(5))
qed

section \<open>Data in the bands\<close>

definition is_markup :: "char \<Rightarrow> bool" where
  "is_markup c \<longleftrightarrow> c = CHR ''<'' \<or> c = CHR ''>'' \<or> c = CHR 0x22"

lemma escaped_no_markup: "c \<in> set (escapeHtml v) \<Longrightarrow> \<not> is_markup c"
  by (auto simp: escapeHtml_def escape_char_def is_markup_def split: if_splits)

lemma hole_markup: "filter is_markup (hole_text scope path) = (if path = ''__pages'' then ''<><>'' else [])"
  using escaped_no_markup by (auto simp: hole_text_def Let_def PAGES_SPAN_def is_markup_def filter_empty_conv)

lemma holes_markup: "filter is_markup (replace_holes html scope) = filter is_markup (replace_holes html scope')"
  by (induction html scope rule: replace_holes.induct) (auto simp: hole_markup split: option.split)

lemma repeats_none: "\<not> js_includes REPEAT_OPEN html \<Longrightarrow> repeats html scope = html"
proof (induction html)
  case (Cons c s)
  then show ?case by (simp add: match_repeat_def)
qed simp

text \<open>In a band without repeated parts the angle brackets and quotes of the output are those of the template and of the place
  for the page count, whatever the data: no value of the report opens or closes a tag or an attribute.\<close>

theorem band_markup_fixed:
  assumes "\<not> js_includes REPEAT_OPEN html"
  shows "filter is_markup (renderBand html scope) = filter is_markup (renderBand html scope')"
  unfolding renderBand_def repeats_none [OF assms] by (rule holes_markup)

theorem band_markup_fixed_witness:
  "renderBand ''<b>{{ row.name }}</b>'' [(''row'', JObj [(''name'', JStr ''<script>'')])] = ''<b>&lt;script&gt;</b>''
   \<and> filter is_markup (renderBand ''<b>{{ row.name }}</b>'' [(''row'', JObj [(''name'', JStr ''<script>'')])])
     = filter is_markup (renderBand ''<b>{{ row.name }}</b>'' [])"
proof -
  have "renderBand ''<b>{{ row.name }}</b>'' [(''row'', JObj [(''name'', JStr ''<script>'')])] = ''<b>&lt;script&gt;</b>'' \<and> \<not> js_includes REPEAT_OPEN ''<b>{{ row.name }}</b>''"
    by code_simp
  then show ?thesis using band_markup_fixed [of "''<b>{{ row.name }}</b>''"] by blast
qed

text \<open>In a repeated part the values already filled in are scanned again, in the outer scope: a name that contains a placeholder shows
  another field of the report, and one that contains the placeholder of the page count adds markup.\<close>

lemma repeat_reinterprets:
  "renderBand (REPEAT_OPEN @ ''items'' @ [CHR 0x22] @ ''>{{row.name}};</template>'')
     [(''items'', JArr [JObj [(''name'', JStr ''{{cost}}'')], JObj [(''name'', JStr ''{{__pages}}'')]]), (''cost'', JNum 7)]
   = ''7;<span data-rp-pages></span>;''"
  by code_simp

text \<open>A first row higher than the box leaves an empty first page.\<close>

lemma oversized_first_row:
  "map (length \<circ> pg_rows) (paginate \<lparr>overflows = (\<lambda>p. pg_rows p \<noteq> []), last_row_low = (\<lambda>p. False)\<rparr> (\<lambda>k. if k = ''detail-row'' then Some ''x'' else None)
     [(''items'', JArr [JNum 1])]) = [0, 1]"
  by code_simp

end
