(* ===== verification/Response_Shape.thy ===== *)
theory Response_Shape
  imports Template_Text
begin

text \<open>
  What a controller's return value becomes on its way out, and what a failed request body or query becomes:
  \<open>libs/common/src/utils/http-success/localization-interceptor.util.ts\<close> (pairs of language columns),
  \<open>transform-interceptor.util.ts\<close> and \<open>json-api.util.ts\<close> (the envelope and its links),
  \<open>utils/http-exception/validation.helper.ts\<close> (nested validation errors) and \<open>postgres-error-mapper.util.ts\<close>. Objects are lists of
  properties in insertion order; the time stamp of an envelope is left out; numbers are integers. Shown: every item reaches the client in order
  with its id and its other fields, the links lead to the neighbouring pages, pairs of language columns are joined and nothing else
  changes, every validation message is reported under its path, and the two translations of database errors agree.
\<close>

section \<open>Pairs of language columns\<close>

text \<open>Assignment of a property keeps the place of one that is there.\<close>

fun set_prop :: "string \<Rightarrow> jvalue \<Rightarrow> (string \<times> jvalue) list \<Rightarrow> (string \<times> jvalue) list" where
  "set_prop k v [] = [(k, v)]"
| "set_prop k v ((l, w) # ob) = (if l = k then (l, v) # ob else (l, w) # set_prop k v ob)"

definition TH_SUFFIX :: string where "TH_SUFFIX = ''_th''"
definition EN_SUFFIX :: string where "EN_SUFFIX = ''_en''"

definition strip_suffix :: "string \<Rightarrow> string \<Rightarrow> string option" where
  "strip_suffix suffix k =
     (let n = length k - length suffix in if length suffix \<le> length k \<and> drop n k = suffix then Some (take n k) else None)"

text \<open>The pair a key belongs to: the base name when both columns are there.\<close>

definition pair_base :: "(string \<times> jvalue) list \<Rightarrow> string \<Rightarrow> string option" where
  "pair_base source k =
     (case strip_suffix TH_SUFFIX k of
        Some base \<Rightarrow> if has_prop (JObj source) (base @ EN_SUFFIX) then Some base else None
      | None \<Rightarrow>
     (case strip_suffix EN_SUFFIX k of
        Some base \<Rightarrow> if has_prop (JObj source) (base @ TH_SUFFIX) then Some base else None
      | None \<Rightarrow> None))"

definition localized :: "(string \<times> jvalue) list \<Rightarrow> string \<Rightarrow> jvalue" where
  "localized source base =
     JObj [(''th'', coalesce (get_prop (JObj source) (base @ TH_SUFFIX)) JNull), (''en'', coalesce (get_prop (JObj source) (base @ EN_SUFFIX)) JNull)]"

text \<open>The loop over the keys; \<open>collapsed\<close> has the property values already treated.\<close>

fun collapse_keys :: "(string \<times> jvalue) list \<Rightarrow> (string \<times> jvalue) list \<Rightarrow> string set \<Rightarrow> (string \<times> jvalue) list \<Rightarrow> (string \<times> jvalue) list" where
  "collapse_keys source [] handled result = result"
| "collapse_keys source ((k, v) # ob) handled result =
     (if k \<in> handled then collapse_keys source ob handled result
      else case pair_base source k of
        Some base \<Rightarrow> collapse_keys source ob ({base @ TH_SUFFIX, base @ EN_SUFFIX} \<union> handled) (set_prop base (localized source base) result)
      | None \<Rightarrow> collapse_keys source ob (insert k handled) (set_prop k v result))"

function collapseLocalizedFields :: "jvalue \<Rightarrow> jvalue" where
  "collapseLocalizedFields (JArr xs) = JArr (map collapseLocalizedFields xs)"
| "collapseLocalizedFields (JObj ob) = JObj (collapse_keys ob (map (\<lambda>(k, v). (k, collapseLocalizedFields v)) ob) {} [])"
| "collapseLocalizedFields JUndef = JUndef"
| "collapseLocalizedFields JNull = JNull"
| "collapseLocalizedFields (JBool b) = JBool b"
| "collapseLocalizedFields (JNum n) = JNum n"
| "collapseLocalizedFields (JStr s) = JStr s"
  by pat_completeness auto

termination
  by (relation "measure size") (auto simp: less_Suc_eq_le intro: size_list_estimation' dest: size_member)

section \<open>The envelope\<close>

type_synonym links = "(string \<times> string) list"

record resource =
  rs_type :: string
  rs_id :: jvalue
  rs_attributes :: "(string \<times> jvalue) list"
  rs_meta :: "(string \<times> jvalue) list option"
  rs_links :: "links option"

datatype resources = One resource | Many "resource list"

record json_api_response =
  ja_data :: resources
  ja_links :: "links option"
  ja_meta :: "(string \<times> jvalue) list"
  ja_status :: "(int \<times> string) option"

record response_options =
  ro_id :: "jvalue option"
  ro_meta :: "(string \<times> jvalue) list option"
  ro_links :: "links option"
  ro_status :: "(int \<times> string) option"

definition no_options :: response_options where
  "no_options = \<lparr>ro_id = None, ro_meta = None, ro_links = None, ro_status = None\<rparr>"

definition props :: "jvalue \<Rightarrow> (string \<times> jvalue) list" where
  "props v = (case v of JObj ob \<Rightarrow> ob | _ \<Rightarrow> [])"

definition without_id :: "(string \<times> jvalue) list \<Rightarrow> (string \<times> jvalue) list" where
  "without_id ob = filter (\<lambda>(k, v). k \<noteq> ''id'') ob"

definition createSuccessResponse :: "string \<Rightarrow> jvalue \<Rightarrow> string \<Rightarrow> response_options \<Rightarrow> json_api_response" where
  "createSuccessResponse type data baseUrl options =
     \<lparr>ja_data = One \<lparr>rs_type = type, rs_id = (case ro_id options of Some i \<Rightarrow> i | None \<Rightarrow> get_prop data ''id''), rs_attributes = without_id (props data),
         rs_meta = ro_meta options, rs_links = ro_links options\<rparr>,
      ja_links = Some [(''self'', baseUrl)], ja_meta = [],
      ja_status = Some (case ro_status options of Some st \<Rightarrow> st | None \<Rightarrow> (200000, ''Request Succeeded''))\<rparr>"

definition truthy :: "jvalue \<Rightarrow> bool" where
  "truthy v = (case v of JUndef \<Rightarrow> False | JNull \<Rightarrow> False | JBool b \<Rightarrow> b | JNum n \<Rightarrow> n \<noteq> 0 | JStr s \<Rightarrow> s \<noteq> [] | _ \<Rightarrow> True)"

definition final_id :: "string option \<Rightarrow> nat \<Rightarrow> jvalue \<Rightarrow> string" where
  "final_id idField index item =
     (case idField of
        Some f \<Rightarrow> if truthy (get_prop item f) then js_String (get_prop item f)
                  else if truthy (get_prop item ''id'') then js_String (get_prop item ''id'') else show_nat index
      | None \<Rightarrow> if truthy (get_prop item ''id'') then js_String (get_prop item ''id'') else show_nat index)"

definition createSuccessCollectionResponse ::
    "string \<Rightarrow> jvalue list \<Rightarrow> (string \<times> jvalue) list \<Rightarrow> links option \<Rightarrow> string option \<Rightarrow> (int \<times> string) option \<Rightarrow> json_api_response" where
  "createSuccessCollectionResponse type data meta links idField status =
     \<lparr>ja_data = Many (map (\<lambda>(index, item). \<lparr>rs_type = type, rs_id = JStr (final_id idField index item), rs_attributes = without_id (props item),
         rs_meta = None, rs_links = None\<rparr>) (enumerate 0 data)),
      ja_links = links, ja_meta = meta, ja_status = status\<rparr>"

definition num_over :: "jvalue \<Rightarrow> int \<Rightarrow> bool" where
  "num_over v n = (case v of JNum m \<Rightarrow> m > n | _ \<Rightarrow> False)"

definition num_of :: "jvalue \<Rightarrow> int" where
  "num_of v = (case v of JNum m \<Rightarrow> m | _ \<Rightarrow> 0)"

definition page_link :: "string \<Rightarrow> jvalue \<Rightarrow> jvalue \<Rightarrow> string" where
  "page_link baseUrl page page_size = baseUrl @ ''?page='' @ js_String page @ ''&limit='' @ js_String page_size"

definition page_links :: "jvalue list \<Rightarrow> jvalue \<Rightarrow> string \<Rightarrow> links" where
  "page_links data pagination baseUrl =
     (let page = get_prop pagination ''page''; page_size = get_prop pagination ''page_size''; total_pages = get_prop pagination ''total_pages''
      in (if data \<noteq> [] then [(''first'', page_link baseUrl (JNum 1) page_size), (''last'', page_link baseUrl total_pages page_size)] else [])
         @ [(''self'', page_link baseUrl page page_size)]
         @ (if num_over page 1 then [(''prev'', page_link baseUrl (JNum (num_of page - 1)) page_size)] else [])
         @ (if num_over total_pages (num_of page) \<and> num_over page (num_of page - 1)
            then [(''next'', page_link baseUrl (JNum (num_of page + 1)) page_size)] else []))"

definition merge_props :: "(string \<times> jvalue) list \<Rightarrow> (string \<times> jvalue) list \<Rightarrow> (string \<times> jvalue) list" where
  "merge_props a b = foldl (\<lambda>ob (k, v). set_prop k v ob) a b"

definition createPaginatedResponse ::
    "string \<Rightarrow> jvalue list \<Rightarrow> jvalue \<Rightarrow> string \<Rightarrow> (string \<times> jvalue) list \<Rightarrow> string option \<Rightarrow> (int \<times> string) option \<Rightarrow> json_api_response" where
  "createPaginatedResponse type data pagination baseUrl extra idField status =
     createSuccessCollectionResponse type data (merge_props [(''pagination'', pagination)] extra) (Some (page_links data pagination baseUrl)) idField
       (Some (case status of Some st \<Rightarrow> st | None \<Rightarrow> (200000, ''Request Succeeded'')))"

definition createCreatedResponse :: "string \<Rightarrow> jvalue \<Rightarrow> string \<Rightarrow> string \<Rightarrow> response_options \<Rightarrow> json_api_response" where
  "createCreatedResponse type data location baseUrl options =
     createSuccessResponse type data baseUrl (options\<lparr>
       ro_status := Some (case ro_status options of Some st \<Rightarrow> st | None \<Rightarrow> (201000, ''Created successfully'')),
       ro_links := Some (case ro_links options of Some ls \<Rightarrow> (if map_of ls ''self'' = None then (''self'', location) # ls else ls) | None \<Rightarrow> [(''self'', location)])\<rparr>)"

section \<open>The interceptor\<close>

record web_request =
  wr_protocol :: "string option"
  wr_hostname :: "string option"
  wr_url :: "string option"

definition base_url :: "web_request \<Rightarrow> string" where
  "base_url q = (let text = (\<lambda>v d. case v of None \<Rightarrow> d | Some s \<Rightarrow> s)
     in text (wr_protocol q) ''http'' @ ''://'' @ text (wr_hostname q) [] @ text (wr_url q) [])"

definition isPaginatedData :: "jvalue \<Rightarrow> bool" where
  "isPaginatedData v \<longleftrightarrow> is_object v \<and> has_prop v ''pagination'' \<and> has_prop v ''data'' \<and> is_array (get_prop v ''data'')"

datatype response_body = Raw jvalue | Wrapped json_api_response

definition TransformInterceptor :: "string option \<Rightarrow> int \<Rightarrow> web_request \<Rightarrow> jvalue \<Rightarrow> response_body" where
  "TransformInterceptor resourceType statusCode request data =
     (case resourceType of
        None \<Rightarrow> Raw data
      | Some type \<Rightarrow>
          (if type = [] then Raw data
           else let baseUrl = base_url request in
           if isPaginatedData data
           then Wrapped (createPaginatedResponse type (elements (get_prop data ''data'')) (get_prop data ''pagination'') baseUrl
                  (filter (\<lambda>(k, v). k \<noteq> ''data'' \<and> k \<noteq> ''pagination'') (props data)) None None)
           else if is_array data then Wrapped (createSuccessCollectionResponse type (elements data) [] None None None)
           else if statusCode = 201 \<and> is_object data
           then Wrapped (createCreatedResponse type data (baseUrl @ ''/'' @ js_String (get_prop data ''id'')) baseUrl no_options)
           else if is_object data then Wrapped (createSuccessResponse type data baseUrl no_options)
           else Raw data))"

text \<open>\<open>useGlobalInterceptors\<close> lists the joining of pairs before the envelope, and the framework applies the last one to the answer first: the pairs are
  joined in the finished envelope, whose own properties are no pairs.\<close>

definition localize_props :: "(string \<times> jvalue) list \<Rightarrow> (string \<times> jvalue) list" where
  "localize_props ob = props (collapseLocalizedFields (JObj ob))"

definition localize_resource :: "resource \<Rightarrow> resource" where
  "localize_resource r = r\<lparr>rs_id := collapseLocalizedFields (rs_id r), rs_attributes := localize_props (rs_attributes r), rs_meta := map_option localize_props (rs_meta r)\<rparr>"

fun LocalizationInterceptor :: "response_body \<Rightarrow> response_body" where
  "LocalizationInterceptor (Raw v) = Raw (collapseLocalizedFields v)"
| "LocalizationInterceptor (Wrapped r) = Wrapped (r\<lparr>
     ja_data := (case ja_data r of One x \<Rightarrow> One (localize_resource x) | Many xs \<Rightarrow> Many (map localize_resource xs)), ja_meta := localize_props (ja_meta r)\<rparr>)"

definition respond :: "string option \<Rightarrow> int \<Rightarrow> web_request \<Rightarrow> jvalue \<Rightarrow> response_body" where
  "respond resourceType statusCode request data = LocalizationInterceptor (TransformInterceptor resourceType statusCode request data)"

section \<open>Validation errors\<close>

datatype validation_error = ValidationError (ve_property: string) (ve_constraints: "string list option") (ve_children: "validation_error list option")

definition field_path :: "string \<Rightarrow> string \<Rightarrow> string" where
  "field_path parentPath field = (if parentPath \<noteq> [] then parentPath @ ''.'' @ field else field)"

fun flatten_error :: "string \<Rightarrow> validation_error \<Rightarrow> (string \<times> string list) list" where
  "flatten_error parentPath (ValidationError field constraints children) =
     (let currentPath = field_path parentPath field
      in (case constraints of Some messages \<Rightarrow> [(currentPath, messages)] | None \<Rightarrow> [])
         @ (case children of Some cs \<Rightarrow> concat (map (flatten_error currentPath) cs) | None \<Rightarrow> []))"

definition flattenValidationErrors :: "validation_error list \<Rightarrow> string \<Rightarrow> (string \<times> string list) list" where
  "flattenValidationErrors errors parentPath = concat (map (flatten_error parentPath) errors)"

section \<open>Database errors\<close>

definition handleUniqueViolation :: "driver_error \<Rightarrow> js_error" where
  "handleUniqueViolation err = HttpException Conflict (Some ''23505'')
     (case Option.bind (de_detail err) match_key_columns of
        Some cols \<Rightarrow> ''A record with this '' @ js_join '' and '' (map (\<lambda>c. underscores_to_spaces (js_trim c)) (js_split (CHR '','') cols)) @ '' already exists.''
      | None \<Rightarrow> ''A record with the provided details already exists.'')"

definition handleForeignKeyViolation :: "string \<Rightarrow> driver_error \<Rightarrow> js_error" where
  "handleForeignKeyViolation tableName err =
     (let fkTable = (case de_table err of Some t \<Rightarrow> t | None \<Rightarrow> tableName); fkDetail = (case de_detail err of Some d \<Rightarrow> d | None \<Rightarrow> [])
      in if js_includes ''is still referenced from table'' fkDetail
         then HttpException Conflict (Some ''23503'') (''Cannot delete this '' @ underscores_to_spaces fkTable @ '' because it is still referenced by ''
                @ (case match_referenced_table fkDetail of Some t \<Rightarrow> underscores_to_spaces t | None \<Rightarrow> ''another record'') @ ''.'')
         else HttpException BadRequest (Some ''23503'')
                (case de_constraint err of
                   Some c \<Rightarrow> ''Invalid reference for '' @ quoted (underscores_to_spaces (strip_fk_prefix c)) @ ''. The referenced record does not exist.''
                 | None \<Rightarrow> ''Invalid reference to another record. Please check your input.''))"

definition handleNotNullViolation :: "driver_error \<Rightarrow> js_error" where
  "handleNotNullViolation err = HttpException BadRequest (Some ''23502'')
     (case de_column err of Some c \<Rightarrow> ''Required field '' @ quoted c @ '' cannot be empty.'' | None \<Rightarrow> ''A required field was left empty. Please check your input.'')"

definition handleInvalidTextRepresentation :: js_error where
  "handleInvalidTextRepresentation = HttpException BadRequest (Some ''22P02'') ''Invalid format for a field. Please check your input.''"

definition handleStringTooLong :: js_error where
  "handleStringTooLong = HttpException BadRequest (Some ''22001'') ''The value provided for a field is too long. Please shorten the input.''"

definition handleUnknown :: "string \<Rightarrow> driver_error \<Rightarrow> js_error" where
  "handleUnknown tableName err = HttpException InternalServerError (Some (case de_code err of Some c \<Rightarrow> c | None \<Rightarrow> ''DATABASE_ERROR''))
     (''Database error ('' @ (case de_code err of Some c \<Rightarrow> c | None \<Rightarrow> ''UNKNOWN'') @ '') on table '' @ tableName @ '': ''
      @ (case de_message err of Some m \<Rightarrow> m | None \<Rightarrow> ''Unknown error''))"

definition mapper_map :: "string \<Rightarrow> driver_error \<Rightarrow> js_error" where
  "mapper_map tableName err =
     (case de_code err of
        None \<Rightarrow> handleUnknown tableName err
      | Some code \<Rightarrow>
          (if code = ''23505'' then handleUniqueViolation err else if code = ''23503'' then handleForeignKeyViolation tableName err
           else if code = ''23502'' then handleNotNullViolation err else if code = ''22P02'' then handleInvalidTextRepresentation
           else if code = ''22001'' then handleStringTooLong else handleUnknown tableName err))"

section \<open>Joining the pairs\<close>

lemma set_prop_map [simp]: "map_of (set_prop k v ob) = (map_of ob)(k \<mapsto> v)"
  by (induction k v ob rule: set_prop.induct) (auto simp: fun_eq_iff)

lemma strip_suffix_Some: "strip_suffix suffix k = Some base \<Longrightarrow> k = base @ suffix"
  by (auto simp: strip_suffix_def Let_def split: if_splits) (metis append_take_drop_id)

lemma strip_suffix_append [simp]: "strip_suffix suffix (base @ suffix) = Some base"
  by (simp add: strip_suffix_def)

lemma suffixes_differ [simp]: "strip_suffix TH_SUFFIX (base @ EN_SUFFIX) = None"
  by (auto simp: strip_suffix_def TH_SUFFIX_def EN_SUFFIX_def Let_def)

definition is_pair :: "(string \<times> jvalue) list \<Rightarrow> string \<Rightarrow> bool" where
  "is_pair ob base \<longleftrightarrow> has_prop (JObj ob) (base @ TH_SUFFIX) \<and> has_prop (JObj ob) (base @ EN_SUFFIX)"

lemma pair_base_Some:
  assumes "pair_base ob k = Some base" and "has_prop (JObj ob) k"
  shows "(k = base @ TH_SUFFIX \<or> k = base @ EN_SUFFIX) \<and> is_pair ob base"
  using assms by (auto simp: pair_base_def is_pair_def split: option.splits if_splits dest!: strip_suffix_Some)

lemma pair_base_pair:
  assumes "is_pair ob base"
  shows "pair_base ob (base @ TH_SUFFIX) = Some base" and "pair_base ob (base @ EN_SUFFIX) = Some base"
  using assms by (simp_all add: pair_base_def is_pair_def)

lemma collapse_keys_map:
  assumes "distinct (map fst ob)" and "\<And>l. l \<in> fst ` set ob \<Longrightarrow> has_prop (JObj source) l" and clean: "\<And>b. is_pair source b \<Longrightarrow> \<not> has_prop (JObj source) b"
  shows "map_of (collapse_keys source ob handled result) k =
    (if \<exists>l \<in> fst ` set ob - handled. pair_base source l = Some k then Some (localized source k)
     else if k \<in> fst ` set ob - handled \<and> pair_base source k = None then map_of ob k else map_of result k)"
  using assms(1,2)
proof (induction ob arbitrary: handled result)
  case (Cons x ob)
  obtain k0 v where x: "x = (k0, v)" by fastforce
  have mem: "has_prop (JObj source) l" if "l \<in> insert k0 (fst ` set ob)" for l using Cons.prems(2) [of l] that by (auto simp: x)
  have fresh: "k0 \<notin> fst ` set ob" "distinct (map fst ob)" using Cons.prems(1) by (auto simp: x)
  have IH: "map_of (collapse_keys source ob H R) k =
    (if \<exists>l \<in> fst ` set ob - H. pair_base source l = Some k then Some (localized source k)
     else if k \<in> fst ` set ob - H \<and> pair_base source k = None then map_of ob k else map_of R k)" for H R
    by (rule Cons.IH [OF fresh(2)]) (use mem in auto)
  have "map_of (collapse_keys source ((k0, v) # ob) handled result) k =
    (if \<exists>l \<in> fst ` set ((k0, v) # ob) - handled. pair_base source l = Some k then Some (localized source k)
     else if k \<in> fst ` set ((k0, v) # ob) - handled \<and> pair_base source k = None then map_of ((k0, v) # ob) k else map_of result k)"
  proof (cases "k0 \<in> handled")
    case True
    have keys: "fst ` set ((k0, v) # ob) - handled = fst ` set ob - handled" using True by auto
    have "k \<in> fst ` set ob - handled \<Longrightarrow> map_of ((k0, v) # ob) k = map_of ob k" using fresh by auto
    then show ?thesis unfolding keys using IH [of handled result] True by simp
  next
    case new: False
    show ?thesis
    proof (cases "pair_base source k0")
      case None
      have run: "collapse_keys source ((k0, v) # ob) handled result = collapse_keys source ob (insert k0 handled) (set_prop k0 v result)" using new None by simp
      have keys: "fst ` set ((k0, v) # ob) - handled = insert k0 (fst ` set ob - insert k0 handled)" using new fresh by auto
      show ?thesis unfolding run keys IH using None by (auto simp: image_iff)
    next
      case (Some b)
      let ?pair = "{b @ TH_SUFFIX, b @ EN_SUFFIX}"
      have pair: "k0 \<in> ?pair" "is_pair source b" using pair_base_Some [OF Some] mem by auto
      have run: "collapse_keys source ((k0, v) # ob) handled result = collapse_keys source ob (?pair \<union> handled) (set_prop b (localized source b) result)"
        using new Some by simp
      have in_pair: "pair_base source l = Some b" if "l \<in> ?pair" for l using pair_base_pair [OF pair(2)] that by auto
      show ?thesis
      proof (cases "k = b")
        case True
        have "l \<in> ?pair" if "l \<in> fst ` set ob" "pair_base source l = Some b" for l using pair_base_Some [OF that(2)] mem that(1) by auto
        moreover have "b \<notin> fst ` set ob" using clean [OF pair(2)] mem [of b] by blast
        ultimately have "map_of (collapse_keys source ((k0, v) # ob) handled result) k = Some (localized source k)" unfolding run IH using True by auto
        then show ?thesis using True Some new by auto
      next
        case False
        have "(\<exists>l \<in> fst ` set ((k0, v) # ob) - handled. pair_base source l = Some k) \<longleftrightarrow> (\<exists>l \<in> fst ` set ob - (?pair \<union> handled). pair_base source l = Some k)"
          using in_pair False Some by auto
        moreover have "k \<in> fst ` set ((k0, v) # ob) - handled \<and> pair_base source k = None \<longleftrightarrow> k \<in> fst ` set ob - (?pair \<union> handled) \<and> pair_base source k = None"
          using in_pair Some by auto
        moreover have "map_of ((k0, v) # ob) k = map_of ob k" if "pair_base source k = None" using that Some by auto
        ultimately show ?thesis unfolding run IH using False by auto
      qed
    qed
  qed
  then show ?case by (simp only: x)
qed simp

lemma map_of_collapsed: "map_of (map (\<lambda>(k, v). (k, collapseLocalizedFields v)) ob) k = map_option collapseLocalizedFields (map_of ob k)"
  by (induction ob) auto

text \<open>In the answer to a request every pair of columns \<open>f_th\<close>, \<open>f_en\<close> of an object has become one field \<open>f\<close> with both texts (\<open>null\<close> for one that is missing), the two columns
  are gone, and every other field is there under its name, treated the same way inside; nothing is added. (No field has the name a pair gets.)\<close>

theorem localized_fields:
  assumes "distinct (map fst ob)" and "\<forall>b. is_pair ob b \<longrightarrow> \<not> has_prop (JObj ob) b"
  shows "get_prop (collapseLocalizedFields (JObj ob)) k =
    (if is_pair ob k then localized ob k
     else if \<exists>b. is_pair ob b \<and> (k = b @ TH_SUFFIX \<or> k = b @ EN_SUFFIX) then JUndef
     else collapseLocalizedFields (get_prop (JObj ob) k))"
proof -
  let ?ob = "map (\<lambda>(l, v). (l, collapseLocalizedFields v)) ob"
  have keys: "fst ` set ?ob = fst ` set ob" by force
  have has: "has_prop (JObj ob) l \<longleftrightarrow> l \<in> fst ` set ob" for l using map_of_eq_None_iff [of ob l] by auto
  have d: "distinct (map fst ?ob)" using assms(1) by (simp add: comp_def case_prod_unfold)
  have pb: "pair_base ob l = Some b \<longleftrightarrow> (l = b @ TH_SUFFIX \<or> l = b @ EN_SUFFIX) \<and> is_pair ob b" if "l \<in> fst ` set ob" for l b
    using pair_base_Some [of ob l b] pair_base_pair [of ob b] that unfolding has by blast
  have run: "map_of (collapse_keys ob ?ob {} []) k =
    (if \<exists>l \<in> fst ` set ob. pair_base ob l = Some k then Some (localized ob k)
     else if k \<in> fst ` set ob \<and> pair_base ob k = None then map_of ?ob k else None)"
    using collapse_keys_map [OF d, where source = ob and k = k and handled = "{}" and result = "[]"] assms(2) unfolding keys has by simp
  have pair: "(\<exists>l \<in> fst ` set ob. pair_base ob l = Some k) \<longleftrightarrow> is_pair ob k"
    using pb [of _ k] unfolding is_pair_def has by metis
  have "map_of ?ob k = map_option collapseLocalizedFields (map_of ob k)" by (rule map_of_collapsed)
  moreover have "k \<notin> fst ` set ob \<Longrightarrow> map_of ob k = None" by (simp add: map_of_eq_None_iff)
  moreover have "k \<in> fst ` set ob \<and> pair_base ob k = None \<longleftrightarrow> k \<in> fst ` set ob \<and> \<not> (\<exists>b. is_pair ob b \<and> (k = b @ TH_SUFFIX \<or> k = b @ EN_SUFFIX))"
  proof -
    have "(\<exists>b. pair_base ob k = Some b) \<longleftrightarrow> (\<exists>b. is_pair ob b \<and> (k = b @ TH_SUFFIX \<or> k = b @ EN_SUFFIX))" if "k \<in> fst ` set ob"
      unfolding pb [OF that] conj_commute [of "_ = _ \<or> _"] ..
    then show ?thesis unfolding not_None_eq [symmetric] by argo
  qed
  moreover have "\<exists>b. is_pair ob b \<and> (k = b @ TH_SUFFIX \<or> k = b @ EN_SUFFIX) \<Longrightarrow> k \<in> fst ` set ob" unfolding is_pair_def has by blast
  ultimately show ?thesis using run pair by (simp split: option.split) auto
qed

theorem localized_fields_witness:
  "get_prop (collapseLocalizedFields (JObj [(''code'', JStr ''A''), (''name_en'', JNull), (''name_th'', JStr ''x'')])) ''name''
     = JObj [(''th'', JStr ''x''), (''en'', JNull)]"
proof -
  let ?ob = "[(''code'', JStr ''A''), (''name_en'', JNull), (''name_th'', JStr ''x'')]"
  have "b = ''name''" if "is_pair ?ob b" for b
    using that by (auto simp: is_pair_def TH_SUFFIX_def EN_SUFFIX_def append_eq_Cons_conv split: if_splits)
  then have "\<forall>b. is_pair ?ob b \<longrightarrow> \<not> has_prop (JObj ?ob) b" by force
  moreover have "distinct (map fst ?ob)" by simp
  ultimately have "get_prop (collapseLocalizedFields (JObj ?ob)) ''name'' = localized ?ob ''name''"
    using localized_fields [of ?ob "''name''"] by (simp add: is_pair_def TH_SUFFIX_def EN_SUFFIX_def)
  then show ?thesis by (simp add: localized_def TH_SUFFIX_def EN_SUFFIX_def coalesce_def nullish_def)
qed

text \<open>A field with the name of a pair is overwritten, or overwrites it, whichever comes last.\<close>

lemma localized_collision:
  "get_prop (collapseLocalizedFields (JObj [(''name'', JStr ''short''), (''name_th'', JStr ''t''), (''name_en'', JStr ''e'')])) ''name'' = JObj [(''th'', JStr ''t''), (''en'', JStr ''e'')]"
  "get_prop (collapseLocalizedFields (JObj [(''name_th'', JStr ''t''), (''name_en'', JStr ''e''), (''name'', JStr ''short'')])) ''name'' = JStr ''short''"
  by code_simp+

section \<open>Items and links\<close>

lemma collapse_text [simp]: "collapseLocalizedFields (JStr s) = JStr s" by simp

text \<open>A page of a list endpoint reaches the client item by item, in order: each as a resource of the controller's type with the item's id and, apart from the id, its fields with the pairs of
  language columns joined; and the envelope has the pagination of the service.\<close>

theorem collection_reaches_client:
  assumes "type \<noteq> []" and "isPaginatedData data" and "i < length (elements (get_prop data ''data''))"
    and "elements (get_prop data ''data'') ! i = JObj ob" and "map_of ob ''id'' = Some (JStr x)" and "x \<noteq> []"
  shows "\<exists>r rs. respond (Some type) statusCode q data = Wrapped r \<and> ja_data r = Many rs \<and> length rs = length (elements (get_prop data ''data''))
    \<and> rs_type (rs ! i) = type \<and> rs_id (rs ! i) = JStr x \<and> JObj (rs_attributes (rs ! i)) = collapseLocalizedFields (JObj (without_id ob))
    \<and> ja_links r = Some (page_links (elements (get_prop data ''data'')) (get_prop data ''pagination'') (base_url q))"
proof -
  let ?items = "elements (get_prop data ''data'')"
  have id: "final_id None i (?items ! i) = x" using assms(4-6) by (simp add: final_id_def truthy_def)
  show ?thesis
    using assms(1-4) id
    by (simp add: respond_def TransformInterceptor_def Let_def createPaginatedResponse_def createSuccessCollectionResponse_def localize_resource_def
        nth_enumerate_eq localize_props_def props_def)
qed

theorem collection_reaches_client_witness:
  "\<exists>r rs. respond (Some ''units'') 200 \<lparr>wr_protocol = None, wr_hostname = Some ''h'', wr_url = Some ''/u''\<rparr>
       (JObj [(''data'', JArr [JObj [(''id'', JStr ''7''), (''name_th'', JStr ''t''), (''name_en'', JStr ''e'')]]), (''pagination'', JObj [(''page'', JNum 1)])]) = Wrapped r
     \<and> ja_data r = Many rs \<and> rs_id (rs ! 0) = JStr ''7'' \<and> JObj (rs_attributes (rs ! 0)) = JObj [(''name'', JObj [(''th'', JStr ''t''), (''en'', JStr ''e'')])]"
proof -
  let ?d = "JObj [(''data'', JArr [JObj [(''id'', JStr ''7''), (''name_th'', JStr ''t''), (''name_en'', JStr ''e'')]]), (''pagination'', JObj [(''page'', JNum 1)])]"
  have "collapseLocalizedFields (JObj (without_id [(''id'', JStr ''7''), (''name_th'', JStr ''t''), (''name_en'', JStr ''e'')])) = JObj [(''name'', JObj [(''th'', JStr ''t''), (''en'', JStr ''e'')])]"
    by code_simp
  then show ?thesis
    using collection_reaches_client [of "''units''" ?d 0 "[(''id'', JStr ''7''), (''name_th'', JStr ''t''), (''name_en'', JStr ''e'')]" "''7''" 200
        "\<lparr>wr_protocol = None, wr_hostname = Some ''h'', wr_url = Some ''/u''\<rparr>"]
    by (auto simp: isPaginatedData_def)
qed

definition pagination_of :: "int \<Rightarrow> int \<Rightarrow> int \<Rightarrow> jvalue" where
  "pagination_of page page_size total_pages = JObj [(''page'', JNum page), (''page_size'', JNum page_size), (''total_pages'', JNum total_pages)]"

definition link_to :: "string \<Rightarrow> int \<Rightarrow> int \<Rightarrow> string" where
  "link_to url page_size n = url @ ''?page='' @ show_int n @ ''&limit='' @ show_int page_size"

text \<open>The links of a page: the page itself; the page before it exactly when there is one, the page after it exactly when there is one; the first and
  the last page exactly when the page has items.\<close>

theorem page_links_exact:
  "map_of (page_links items (pagination_of page page_size total_pages) url) =
    [''self'' \<mapsto> link_to url page_size page]
      ++ (if page > 1 then [''prev'' \<mapsto> link_to url page_size (page - 1)] else Map.empty)
      ++ (if page < total_pages then [''next'' \<mapsto> link_to url page_size (page + 1)] else Map.empty)
      ++ (if items = [] then Map.empty else [''first'' \<mapsto> link_to url page_size 1, ''last'' \<mapsto> link_to url page_size total_pages])"
  by (auto simp: page_links_def Let_def num_over_def num_of_def page_link_def fun_eq_iff map_add_def pagination_of_def link_to_def)

text \<open>The address the links start from is that of the request, query and all: a link of a list that was asked for with parameters has two question marks, and
  the parameters of its first query keep the page that was asked for.\<close>

lemma links_repeat_query:
  "map_of (page_links [JNull] (JObj [(''page'', JNum 2), (''page_size'', JNum 10), (''total_pages'', JNum 5)])
      (base_url \<lparr>wr_protocol = Some ''https'', wr_hostname = Some ''h'', wr_url = Some ''/products?page=2&limit=10''\<rparr>)) ''next''
   = Some ''https://h/products?page=2&limit=10?page=3&limit=10''"
  by code_simp

section \<open>Reports of errors\<close>

text \<open>An error below others, with the names on the way to it.\<close>

inductive reported :: "validation_error list \<Rightarrow> string list \<Rightarrow> string list \<Rightarrow> bool" where
  Here: "ValidationError field (Some messages) children \<in> set errors \<Longrightarrow> reported errors [field] messages"
| Below: "ValidationError field constraints (Some cs) \<in> set errors \<Longrightarrow> reported cs names messages \<Longrightarrow> reported errors (field # names) messages"

fun named :: "validation_error \<Rightarrow> bool" where
  "named (ValidationError field constraints children) \<longleftrightarrow> field \<noteq> [] \<and> (case children of None \<Rightarrow> True | Some cs \<Rightarrow> list_all named cs)"

lemma flatten_complete:
  assumes "reported errors names messages" and "list_all named errors"
  shows "(foldl field_path parent names, messages) \<in> set (flattenValidationErrors errors parent)"
  using assms
proof (induction arbitrary: parent rule: reported.induct)
  case (Here field messages children errors)
  then show ?case by (force simp: flattenValidationErrors_def Let_def)
next
  case (Below field constraints cs errors names messages)
  have "list_all named cs" using Below.hyps(1) Below.prems by (auto simp: list_all_iff dest!: bspec)
  from Below.IH [OF this, of "field_path parent field"]
  show ?case using Below.hyps(1) by (force simp: flattenValidationErrors_def Let_def)
qed

lemma flatten_sound:
  "(f, messages) \<in> set (flatten_error parent e) \<Longrightarrow> named e \<Longrightarrow> \<exists>names. reported [e] names messages \<and> f = foldl field_path parent names"
proof (induction parent e arbitrary: f rule: flatten_error.induct)
  case (1 parent field constraints children)
  let ?e = "ValidationError field constraints children"
  from 1(2) consider (here) "constraints = Some messages" "f = field_path parent field"
    | (below) cs c where "children = Some cs" "c \<in> set cs" "(f, messages) \<in> set (flatten_error (field_path parent field) c)"
    by (auto simp: Let_def split: option.splits)
  then show ?case
  proof cases
    case here
    then show ?thesis using reported.Here [of field messages children "[?e]"] by force
  next
    case below
    have "named c" using 1(3) below by (auto simp: list_all_iff)
    from 1(1) [OF refl below(1,2) below(3) this] obtain names where n: "reported [c] names messages" "f = foldl field_path (field_path parent field) names" by blast
    have "reported cs names messages" using n(1) below(2) by (cases rule: reported.cases) (auto intro: reported.intros)
    then have "reported [?e] (field # names) messages" using below(1) by (auto intro: reported.Below)
    then show ?thesis using n(2) by force
  qed
qed

lemma foldl_path:
  assumes "parent \<noteq> []"
  shows "foldl field_path parent names = js_join ''.'' (parent # names)"
  using assms
proof (induction names arbitrary: parent)
  case (Cons n names)
  have "foldl field_path parent (n # names) = js_join ''.'' ((parent @ ''.'' @ n) # names)"
    using Cons.IH [of "parent @ ''.'' @ n"] Cons.prems by (simp add: field_path_def [of parent])
  then show ?case by (cases names) simp_all
qed simp

lemma reported_named: "reported errors names messages \<Longrightarrow> list_all named errors \<Longrightarrow> names \<noteq> [] \<and> hd names \<noteq> []"
  by (induction rule: reported.induct) (auto simp: list_all_iff dest!: bspec)

lemma path_of_names: "names \<noteq> [] \<Longrightarrow> hd names \<noteq> [] \<Longrightarrow> foldl field_path [] names = js_join ''.'' names"
  using foldl_path [of "hd names" "tl names"] by (cases names) (simp_all add: field_path_def [of "[]"])

text \<open>The report of a rejected body lists, under the dotted path of the field, exactly the messages of every violated
  constraint at any depth of nesting.\<close>

theorem validation_report_exact:
  assumes "list_all named errors"
  shows "(f, messages) \<in> set (flattenValidationErrors errors []) \<longleftrightarrow> (\<exists>names. reported errors names messages \<and> f = js_join ''.'' names)"
proof
  assume "(f, messages) \<in> set (flattenValidationErrors errors [])"
  then obtain e where e: "e \<in> set errors" "(f, messages) \<in> set (flatten_error [] e)" by (auto simp: flattenValidationErrors_def)
  obtain names where n: "reported [e] names messages" "f = foldl field_path [] names" using flatten_sound [OF e(2)] assms e(1) by (auto simp: list_all_iff)
  have "reported errors names messages" using n(1) e(1) by (cases rule: reported.cases) (auto intro: reported.intros)
  then show "\<exists>names. reported errors names messages \<and> f = js_join ''.'' names" using n(2) path_of_names reported_named assms by metis
next
  assume "\<exists>names. reported errors names messages \<and> f = js_join ''.'' names"
  then obtain names where n: "reported errors names messages" "f = js_join ''.'' names" by blast
  show "(f, messages) \<in> set (flattenValidationErrors errors [])"
    using flatten_complete [OF n(1) assms, of "[]"] path_of_names reported_named [OF n(1) assms] n(2) by simp
qed

theorem validation_report_exact_witness:
  "(''items.0.qty'', [''must be positive'']) \<in> set (flattenValidationErrors
     [ValidationError ''items'' None (Some [ValidationError ''0'' None (Some [ValidationError ''qty'' (Some [''must be positive'']) None])])] [])"
proof -
  let ?q = "ValidationError ''qty'' (Some [''must be positive'']) None"
  let ?e = "[ValidationError ''items'' None (Some [ValidationError ''0'' None (Some [?q])])]"
  have "reported [?q] [''qty''] [''must be positive'']" by (auto intro: reported.Here)
  then have "reported [ValidationError ''0'' None (Some [?q])] [''0'', ''qty''] [''must be positive'']" by (rule reported.Below [rotated]) simp
  then have "reported ?e [''items'', ''0'', ''qty''] [''must be positive'']" by (rule reported.Below [rotated]) simp
  moreover have "''items.0.qty'' = js_join ''.'' [''items'', ''0'', ''qty'']" by simp
  ultimately have "\<exists>names. reported ?e names [''must be positive''] \<and> ''items.0.qty'' = js_join ''.'' names" by blast
  moreover have "list_all named ?e" by simp
  ultimately show ?thesis using validation_report_exact [of ?e "''items.0.qty''" "[''must be positive'']"] by blast
qed

text \<open>The mapper of database errors and the one inside the base service answer alike for every error of the driver.\<close>

theorem error_mappers_agree: "mapper_map tableName err = map_driver_error tableName err"
  by (auto simp: mapper_map_def map_driver_error_def handleUniqueViolation_def unique_violation_message_def handleForeignKeyViolation_def handleNotNullViolation_def
      handleInvalidTextRepresentation_def handleStringTooLong_def handleUnknown_def Let_def split: option.splits)

end
