(* ===== verification/Spec2Isabelle.thy ===== *)
theory Spec2Isabelle
  imports Tree_Service Access_Keys Products Document_Numbers Permission_Catalog Identity_Admin Auth_Web Api_Routes Print_Templates Paginator Response_Shape
begin

text \<open>
  The backend of an ERP system (NestJS, TypeORM on Postgres, Redis): several services that share a
  library. The development follows the path of a request and the life of the data behind it.

  \<^bold>\<open>Parts and theories\<close>

  \<^item> \<open>Prelude\<close>: errors and results, the JavaScript string and array functions the code uses.
  \<^item> \<open>Nested_Set\<close>: \<open>libs/common/src/utils/nested-set/rebuild-nested-set.util.ts\<close>. \<open>rebuildNestedSet\<close> is the recursive visitor over the child lists, with its
    counter and its array of numbered rows; an unbounded descent on cyclic input is the value
    \<open>None\<close>. Shown: it returns on every forest, the numbers of a node enclose exactly those of its
    descendants, and they use every integer up to twice the number of rows once.
  \<^item> \<open>Base_Service\<close>: \<open>libs/common/src/utils/base-operations\<close>: the generic CRUD service over a
    repository, its one-to-many and many-to-many synchronisation, its error boundary. A table is
    the list of its rows; a read sees the rows whose \<open>deleted_at\<close> is empty. The locale
    \<open>entity_store\<close> is the contract of a store and is interpreted by the soft-deleting and by the
    hard-deleting service. Shown: refinement of a map, exact reconciliation of bulk and relation
    updates, what leaves the error boundary.
  \<^item> \<open>Tree_Service\<close>: the item-group and warehouse services of \<open>apps/inventory-bc\<close> on the two theories above.
    Shown: the invariant of the tree over every operation, rejection of cycles, the exact effect of
    create and delete.
  \<^item> \<open>Iam_Data\<close>, \<open>Permission_Resolver\<close>: the identity tables of \<open>apps/iam\<close> and how roles, policies,
    statements and conditions become permissions. Shown: deny overrides, the request-time
    decision, and their agreement.
  \<^item> \<open>Session_Store\<close>: the live sessions in Redis and the push of permission changes into them.
    The locale \<open>session_directory\<close> is the contract the auth service relies on, interpreted on the
    store. Shown: the per-user index lists every live session in every reachable state, lifetimes,
    exact revocation and synchronisation, and the lost revocation in a race.
  \<^item> \<open>Auth_Service\<close>: login with lockout, refresh-token rotation, logout, credential flows and session
    administration of \<open>apps/auth\<close>. Shown: who gets in and with which session, lockout, single use
    of a refresh token and the race that breaks it.
  \<^item> \<open>Guards\<close>: the four request guards of \<open>libs/common/src/guards\<close> in the order of their
    registration. Shown: complete mediation, lockout of an access key, what a signature binds.
  \<^item> \<open>Access_Keys\<close>: issuing, administering and verifying access keys in \<open>apps/iam/src/modules/access-keys\<close>,
    with the Redis cache in front of the table. The locale \<open>read_through\<close> is the contract of such a
    cache, interpreted on the service. Shown: the cache is invisible in every reachable state, a
    revoked key is refused at once, an issued key works; and the race and the reactivation that break
    the revocation.
  \<^item> \<open>Query_Where\<close>, \<open>Query_Fields\<close>, \<open>Query_Meaning\<close>, \<open>Query_Builder\<close>: the query builder of the list
    endpoints, \<open>typeorm-query-builder.util.ts\<close>: where objects and their merging; fields, operators,
    dates, JSON columns and the \<open>s\<close>, \<open>filter\<close>, \<open>or\<close> parameters; what they mean; pagination, sorting,
    relations, field selection and \<open>build\<close>. Shown: a built query means the conjunction of its
    parts, names only columns and relations of the metadata, keeps user text out of the SQL text, binds
    no parameter twice; page sizes are bounded.
  \<^item> \<open>List_Service\<close>: the list reads of the CRUD service on top of it. Shown: a read returns only live rows
    the query is about and counts all of them, and the pages tile the result.
  \<^item> \<open>Products\<close>: products, variants, conversion factors and the nested lists of \<open>apps/inventory-bc\<close>, with the
    lookup of the supplier service. Shown: generated variants are exactly the combinations, whole-number
    units stay whole and the update that breaks this, nested lists show only the rows of their parent.
  \<^item> \<open>Document_Numbers\<close>: document types and their running numbers, \<open>apps/report-bc/src/modules/document-type\<close>. Shown:
    numbers count up without repetition within a period, a numbered type can always issue one, and
    the sequence that outgrows its digits starts again.
  \<^item> \<open>Permission_Scan\<close>, \<open>Permission_Catalog\<close>: the permissions the sources declare and the table that lists
    them. \<open>permission-sync-scan.util.ts\<close> over a model of the source tree (decorator calls with balanced
    parentheses, permission literals in views, the manifest file); \<open>sync-permissions.script.ts\<close>, the
    sync and the manual administration inside \<open>apps/iam\<close>. Shown: every scanned entry is well formed and a
    declaration in the sources is read back; after a sync the live synced rows are exactly the
    declared ones and manual rows are kept; the script and the service agree; no manual operation
    changes a synced row's identity. The redeclared permission on which the service fails is shown too.
  \<^item> \<open>Rpc_Transport\<close>: what an exception becomes on its way from one service to the client of another:
    \<open>rpc-exceptions-filter\<close>, \<open>all-exceptions-filter\<close> and \<open>rpc-error-handler\<close> in \<open>libs/common/src/utils/http-exception\<close>, and \<open>sendWithContext\<close>
    of \<open>microservice-client.service.ts\<close> with its cache, fallback and call context. Shown: status and message
    of an HTTP exception survive the hop, the cache serves what it stored until it expires, a
    chain of calls keeps one trace id; and the codes and shapes that do not survive.
  \<^item> \<open>Identity_Admin\<close>: the services of \<open>apps/iam\<close> that write users, roles, policies and statements, with the
    sessions they push to. The locale \<open>permission_push\<close> is the contract of an operation that changes the tables
    and then synchronises, interpreted for users, roles and policies. Shown: sessions stay current over every
    sequence of such operations, assignments and statements are stored exactly and read back, deletion
    of something in use is refused, what creation and password reset leave behind on every outcome.
  \<^item> \<open>Auth_Web\<close>: the handlers of \<open>auth.controller.ts\<close> and the cookies of \<open>auth-cookie.util.ts\<close>, with the browser as a list of cookies under the rules of
    RFC 6265. Shown: a logout takes down what the login set up in browser, session store and database; and the time in which a refresh is
    not covered by the CSRF check.
  \<^item> \<open>Api_Routes\<close>: the controllers of all services as tables of endpoints (verb, path, access metadata, checked parameters, call), and the way of a
    request through template, guards and parameter checks to the call, with the generic controller of \<open>base-controller-operations.util.ts\<close> resolved.
    Shown: at most one endpoint of a service carries out a request, who reaches a handler, that permissions to read open nothing else, that
    deletions are soft; and that no endpoint takes access keys and nested items are not tied to the parent in their path.
  \<^item> \<open>File_Storage\<close>: \<open>apps/storage/src/storage.service.ts\<close> over an object store that is a partial map. Shown: an upload writes one new object below its
    prefix, whatever the name of the file.
  \<^item> \<open>Template_Text\<close>: how report data gets into a template: \<open>substituteParameters\<close> and \<open>banded-render.service.ts\<close>, with the replacement patterns of
    JavaScript. Shown: both are exact for plain values, the data cannot leave its script element; and the dollar signs and placeholders in values that break both.
  \<^item> \<open>Print_Templates\<close>: \<open>print-templates.service.ts\<close> and \<open>gotenberg.service.ts\<close>: rows in Postgres whose texts live in the object store, with
    storage calls that may fail or lose their answer. Shown: every row has its texts in every reachable state, what is saved is what is read; and the
    concurrent update that loses a text.
  \<^item> \<open>Paginator\<close>: \<open>paginator.inline.js\<close>, which fills the bands of a template and lays the report out in pages, with the measuring of the
    browser as a parameter. Shown: no row is lost, repeated or moved, pages fit and end only where they must, data adds no markup.
  \<^item> \<open>Response_Shape\<close>: the success envelope with its links, the joining of language columns, the reports of validation and database errors in
    \<open>libs/common/src/utils/http-success\<close> and \<open>http-exception\<close>. Shown: items reach the client in order and complete, the links lead to the neighbouring pages, pairs are joined
    and nothing else changes, every validation message is reported under its path, the two translations of database errors agree.
  \<^item> This theory: the services composed, the identity service's handlers in place of its answers.
    Shown: the path from the login form to the handler, that a policy change reaches live sessions,
    that an administrator's revocation shuts a client out.

  \<^bold>\<open>State and effects\<close>

  A repository is a list of rows and every operation returns the new list; an operation that may
  throw returns a sum, and one that keeps writes made before it throws returns a pair of its result
  and the new state. Redis has a clock in milliseconds; a key is alive up to its expiry. Where two
  database statements are not atomic in the code, they are two definitions and the
  interleaving is explicit.

  \<^bold>\<open>Parameters\<close>

  bcrypt, SHA-256, JWT signing and verification, \<open>Date.parse\<close>, \<open>Number\<close>, the regular-expression engine,
  \<open>isUUID\<close>, random values and the constraint checks of Postgres are arguments, with what a property needs
  of them as its hypotheses; Dayjs, \<open>JSON.parse\<close> and the way Postgres evaluates, orders and cuts
  rows are arguments of the query theories. The signing of links, the object store's answers, the PDF renderer and the heights a browser measures are
  arguments of the printing theories. The services talk over RPC; where a theory
  uses the answer of another service it is an option, \<open>None\<close> for the fallback of \<open>sendWithContext\<close>, and \<open>Rpc_Transport\<close> models
  when that fallback is used and when an HTTP exception is thrown in its place.

  \<^bold>\<open>Bounds and fuel\<close>

  No definition uses fuel. The recursions that may not end in the code (the nested-set visitor
  and the keyspace scan) are partial functions into an option, and that they return is
  proved for the inputs the code gives them. The page arithmetic of the list reads rounds as doubles
  do; other integers, which the code keeps below \<open>2^53\<close>, are unbounded. Messages with a dash outside ASCII have a hyphen.

  \<^bold>\<open>Not modelled\<close>

  What most controllers make of an answer, DTO classes, Swagger, configuration, bootstrap, logging, migrations and seeds; the wiring of the
  transport, the sample invoice, the texts and scripts of the pages of the identity service. They are listed with reasons in the
  manifest.
\<close>

section \<open>The services wired together\<close>

text \<open>An error answer of the identity service leaves the caller without an answer: it denies.\<close>

definition answer :: "'a result \<Rightarrow> 'a option" where
  "answer r = (case r of Inl _ \<Rightarrow> None | Inr v \<Rightarrow> Some v)"

text \<open>The auth service and the guards, with the identity service's own handlers in place of its
  answers.\<close>

definition with_iam :: "iam_db \<Rightarrow> string \<Rightarrow> auth_env \<Rightarrow> auth_env" where
  "with_iam db today env =
     env\<lparr>iam_findById := (\<lambda>u. answer (events_findById db u)),
         iam_resolvePermissions := (\<lambda>u. Some (events_resolvePermissions db today u))\<rparr>"

definition guards_with_iam :: "'n::linorder js_lib \<Rightarrow> iam_db \<Rightarrow> string \<Rightarrow> guard_env \<Rightarrow> guard_env" where
  "guards_with_iam lib db today env =
     env\<lparr>ge_evaluate := (\<lambda>u resource action ctx. answer (evaluateConditions lib db today u ''*'' resource action ctx))\<rparr>"

lemma answer_Some [simp]: "answer r = Some v \<longleftrightarrow> r = Inr v"
  by (cases r) (auto simp: answer_def)

lemma with_iam_simps [simp]:
  "access_ttl (with_iam db today env) = access_ttl env"
  "iam_findById (with_iam db today env) u = answer (events_findById db u)"
  "resolved_for (with_iam db today env) u = resolveForUser db today u"
  "bcrypt_compare (with_iam db today env) = bcrypt_compare env"
  "refresh_ttl (with_iam db today env) = refresh_ttl env"
  "jwt_sign (with_iam db today env) = jwt_sign env"
  by (simp_all add: with_iam_def access_ttl_def refresh_ttl_def resolved_for_def events_resolvePermissions_def)

lemma guards_with_iam_evaluate [simp]:
  "ge_evaluate (guards_with_iam lib db today env) u resource action ctx =
     answer (evaluateConditions lib db today u ''*'' resource action ctx)"
  by (simp add: guards_with_iam_def)

lemma events_findById_id: "events_findById db u = Inr v \<Longrightarrow> iu_id v = u"
  by (auto simp: events_findById_def repo_findOne_def split: option.splits dest: find_Some_iff_mem)

text \<open>No condition pattern makes the regular-expression engine throw.\<close>

definition regexes_ok :: "'n js_lib \<Rightarrow> bool" where
  "regexes_ok lib \<longleftrightarrow> (\<forall>pat s. is_ok (RegExp_test lib pat s))"

text \<open>A route that asks for a permission and opts out of nothing.\<close>

definition protected_route :: "string \<Rightarrow> string \<Rightarrow> route \<Rightarrow> bool" where
  "protected_route resource action rt \<longleftrightarrow>
     \<not> flag m_isPublic rt \<and> \<not> flag m_isAccessKeyRoute rt \<and> \<not> flag m_skip_permission_check rt
     \<and> required_permission rt = Some (resource @ '':'' @ action)
     \<and> CHR '':'' \<notin> set resource \<and> CHR '':'' \<notin> set action"

text \<open>A session whose permissions are those the tables give now.\<close>

definition session_current :: "iam_db \<Rightarrow> string \<Rightarrow> session_data \<Rightarrow> bool" where
  "session_current db today d \<longleftrightarrow>
     sd_permissions d = res_permissions (resolveForUser db today (sd_user_id d))
     \<and> sd_conditional_permissions d = res_conditional (resolveForUser db today (sd_user_id d))"

lemma split_permission:
  assumes "protected_route resource action rt"
  shows "js_split (CHR '':'') (resource @ '':'' @ action) = [resource, action]"
  using assms by (simp add: protected_route_def js_split_append js_split_no_sep)

text \<open>The outright permissions and the request-time decision together are the semantics of the
  tables.\<close>

lemma permission_decision:
  assumes "keys_ok (permissions_table db)" and "regexes_ok lib"
  shows "granted_now lib db today u perm ctx \<longleftrightarrow>
     perm \<in> set (res_permissions (resolveForUser db today u))
     \<or> perm \<in> set (res_conditional (resolveForUser db today u))
       \<and> evaluate lib db today u svc perm ctx = Inr True"
  unfolding granted_now_def evaluate_total [OF assms(1) assms(2) [unfolded regexes_ok_def, rule_format]]
    resolve_sets [OF assms(1)]
  by (auto simp: satisfied_def) (metis list.set_cases statement_effect.exhaust empty_iff empty_set)+

text \<open>The decision of the whole chain for a request with a live session.\<close>

lemma chain_decides:
  assumes keys: "keys_ok (permissions_table db)" and re: "regexes_ok lib"
    and rt: "protected_route resource action rt" and http: "is_http q" and csrf: "csrf_safe rt q"
    and tok: "extractToken q = Some t" "t \<noteq> []" "jv t = Some p"
    and d: "session_get (cl_jti p) r = Some d" "session_current db today d" "sd_user_id d = cl_sub p" "cl_sub p \<noteq> []"
      "\<not> isExpired today (sd_expired_at d)" "sd_must_change_password d \<Longrightarrow> flag m_skip_password_change_check rt"
  shows "is_ok (fst (guard_chain jv (guards_with_iam lib db today env) today ct r rt q g)) \<longleftrightarrow>
     granted_now lib db today (cl_sub p) (resource @ '':'' @ action) (buildEvaluationContext ct q)"
proof -
  have a: "AuthGuard jv today r rt q = Inr (q\<lparr>req_user := Some (session_user p d)\<rparr>)"
    using rt http tok d by (auto simp: AuthGuard_def protected_route_def)
  have k: "AccessKeyGuard env' rt (q\<lparr>req_user := v\<rparr>) g = (Inr (q\<lparr>req_user := v\<rparr>), g)" for env' v
    using rt by (simp add: AccessKeyGuard_def protected_route_def)
  have c: "CsrfGuard rt (q\<lparr>req_user := v\<rparr>) = Inr (q\<lparr>req_user := v\<rparr>)" for v
    using http csrf by (simp add: CsrfGuard_Inr)
  have p: "is_ok (PermissionGuard (guards_with_iam lib db today env) ct rt (q\<lparr>req_user := Some (session_user p d)\<rparr>)) \<longleftrightarrow>
      granted_now lib db today (cl_sub p) (resource @ '':'' @ action) (buildEvaluationContext ct q)"
    using rt http d split_permission [OF rt] permission_decision [OF keys re, of today "cl_sub p" "resource @ '':'' @ action" _ "''*''"]
    by (auto simp: PermissionGuard_def protected_route_def session_user_def session_current_def evaluateConditions_def)
  show ?thesis using a k c p by (simp add: guard_chain_def)
qed

lemma login_session:
  assumes "fst (login (with_iam db today env) rnd today uname pw ip agent s) = Inr res" and "access_ttl env = Inr a" and "0 < a"
  obtains c u where "login_credential uname s = Some c" "iu_id u = cr_user_id c" "\<not> isExpired today (iu_expired_at u)"
    "\<And>ms. session_get (rnd_jti rnd) (tick ms (store (snd (login (with_iam db today env) rnd today uname pw ip agent s)))) =
       (if ms \<le> 1000 * a then Some (session_of u (resolveForUser db today (cr_user_id c)) (must_change_password c)) else None)"
proof -
  let ?r = "\<lambda>d. session_create (rnd_jti rnd) d (int a) (store s)"
  have get: "session_get (rnd_jti rnd) (tick ms (?r d)) = (if ms \<le> 1000 * a then Some d else None)" for ms d
    using assms(3) by (auto simp: session_create_def tick_def redis_view redis_sadd_def redis_setex_def)
  from assms(1) show thesis
  proof (rule login_Inr_state)
    fix c u a' b
    assume c: "login_credential uname s = Some c" "may_enter (with_iam db today env) today c u s"
      "access_ttl (with_iam db today env) = Inr a'"
      "store (snd (login (with_iam db today env) rnd today uname pw ip agent s)) =
         session_create (rnd_jti rnd) (session_of u (resolved_for (with_iam db today env) (cr_user_id c)) (must_change_password c)) (int a') (store s)"
    have u: "iu_id u = cr_user_id c" "\<not> isExpired today (iu_expired_at u)"
      using c(2) by (auto simp: may_enter_def intro: events_findById_id)
    have "a' = a" using c(3) assms(2) by simp
    then show thesis using get by (intro that [OF c(1) u]) (simp add: c(4))
  qed
qed

section \<open>Properties across the services\<close>



text \<open>C18: an administrator's revocation shuts a client out: no request with a token of the revoked
  session passes a route that authenticates, and none of the refresh tokens its owner had is
  redeemed.\<close>

theorem admin_revoke_shuts_out:
  assumes "admin_revoke jti by s = Inr s'" and "session_get jti (store s) = Some d"
    and "extractToken q = Some t" and "jv t = Some p" and "cl_jti p = jti"
    and "\<not> flag m_isPublic rt" and "\<not> flag m_isAccessKeyRoute rt" and "is_http q"
    and "\<And>tok. tok \<in> set (refresh_tokens s) \<Longrightarrow> token_hash tok = hashToken aenv raw \<Longrightarrow> rt_user_id tok = sd_user_id d"
  shows "\<not> is_ok (fst (guard_chain jv genv today ct (tick ms (store s')) rt q g))
     \<and> refresh aenv rnd today raw (wait ms s') = (Inl (UnauthorizedException ''Refresh token is invalid or expired.''), wait ms s')"
proof
  have s': "store s' = session_revoke jti (store s)"
    "refresh_tokens s' = map (\<lambda>r. if rt_user_id r = sd_user_id d \<and> revoked_at r = None
                       then r\<lparr>revoked_at := Some (now_ms s)\<rparr> else r) (refresh_tokens s)"
    using assms(1,2) by (auto simp: admin_revoke_def Let_def)
  have "session_get jti (tick ms (store s')) \<noteq> Some e" for e
    using tick_view(1) [of jti ms "store s'" e] by (auto simp: s' ss.get_revoke)
  then have "session_get jti (tick ms (store s')) = None" by auto
  then have "\<exists>e. AuthGuard jv today (tick ms (store s')) rt q = Inl e"
    using assms(3-8) by (auto simp: AuthGuard_def)
  then show "\<not> is_ok (fst (guard_chain jv genv today ct (tick ms (store s')) rt q g))"
    by (auto simp: guard_chain_def)
  have "find_refresh aenv raw (wait ms s') = None"
    using assms(9) by (auto simp: find_refresh_def s' usable_token_def find_None_iff)
  then show "refresh aenv rnd today raw (wait ms s') = (Inl (UnauthorizedException ''Refresh token is invalid or expired.''), wait ms s')"
    by (simp add: refresh_def)
qed

text \<open>the request-time decision for an access key reads the roles of the key's owner and not the
  policies of the key: a permission the key holds conditionally is refused in every context when
  the owner has no role, whatever the key's policies say.\<close>

theorem access_key_conditional_needs_owner_role:
  assumes "user_roleIds db (kc_owner_id c) = []" and "protected_permission \<notin> set (kc_permissions c)"
    and "required_permission rt = Some protected_permission" and "\<not> flag m_isPublic rt" and "\<not> flag m_skip_permission_check rt"
    and "is_http q"
  shows "\<not> is_ok (PermissionGuard (guards_with_iam lib db today genv) ct rt (q\<lparr>req_user := Some (key_user c)\<rparr>))"
  using assms by (auto simp: PermissionGuard_def key_user_def evaluateConditions_def evaluate_def)

text \<open>The guards with the identity service's verification of signatures in a given state of its keys.\<close>

definition guards_with_keys :: "key_env \<Rightarrow> iam_db \<Rightarrow> string \<Rightarrow> key_state \<Rightarrow> guard_env \<Rightarrow> guard_env" where
  "guards_with_keys kenv db today ks env =
     env\<lparr>ge_verify := (\<lambda>k text signature ip. answer (fst (verifySignature kenv db today True k text signature ip ks)))\<rparr>"

lemma guards_with_keys_simps [simp]:
  "ge_verify (guards_with_keys kenv db today ks env) k text signature ip =
     answer (fst (verifySignature kenv db today True k text signature ip ks))"
  "ge_evaluate (guards_with_keys kenv db today ks env) = ge_evaluate env"
  "isTimestampFresh (guards_with_keys kenv db today ks env) = isTimestampFresh env"
  "buildStringToSign (guards_with_keys kenv db today ks env) = buildStringToSign env"
  by (simp_all add: guards_with_keys_def isTimestampFresh_def buildStringToSign_def fun_eq_iff)

lemma verify_valid_iff:
  assumes "keys_inv ks"
  shows "(\<exists>res c. fst (verifySignature kenv db today touched k text signature ip ks) = Inr res \<and> vr_valid res \<and> vr_context res = Some c \<and> P c)
     \<longleftrightarrow> (\<exists>r. key_row k (ks_keys ks) = Some r \<and> key_accepts kenv (ks_clock ks) text signature ip r \<and> P (key_context_of db today ks r))"
proof -
  have "vr_reason res = None" if "fst (verifySignature kenv db today touched k text signature ip ks) = Inr res" "vr_valid res" for res
    using that by (auto simp: verify_uncached [OF assms] check_record_def refused_def Let_def
        split: sum.splits option.splits if_splits prod.splits)
  moreover have "res = \<lparr>vr_valid = True, vr_context = Some c, vr_reason = None\<rparr>"
    if "vr_valid res" "vr_context res = Some c" "vr_reason res = None" for res c
    using that by (cases res) simp
  ultimately have "(\<exists>res c. fst (verifySignature kenv db today touched k text signature ip ks) = Inr res \<and> vr_valid res \<and> vr_context res = Some c \<and> P c)
     \<longleftrightarrow> (\<exists>c. fst (verifySignature kenv db today touched k text signature ip ks)
              = Inr \<lparr>vr_valid = True, vr_context = Some c, vr_reason = None\<rparr> \<and> P c)"
    by fastforce
  then show ?thesis using verify_row [OF assms] by auto
qed


section \<open>The services on a concrete database\<close>

definition read_route :: route where
  "read_route = \<lparr>on_handler = no_meta\<lparr>m_require_permission := Some ''doc:read''\<rparr>, on_class = no_meta\<rparr>"

definition one_user :: auth_state where
  "one_user = example_auth\<lparr>credentials := [new_credential ''c'' ''u'' ''somchai'' ''secret'' False None]\<rparr>"

definition token_env :: auth_env where
  "token_env = example_env\<lparr>jwt_sign := (\<lambda>_ _ _. ''tok'')\<rparr>"

abbreviation token_of :: "string \<Rightarrow> claims option" where
  "token_of \<equiv> (\<lambda>t. if t = ''tok'' then Some \<lparr>cl_sub = ''u'', cl_jti = ''j''\<rparr> else None)"

lemma read_route_ok: "protected_route ''doc'' ''read'' read_route" "csrf_safe read_route example_request"
  "is_http example_request" "extractToken example_request = Some ''tok''"
proof -
  show "extractToken example_request = Some ''tok''" by code_simp
qed (simp_all add: protected_route_def read_route_def no_meta_def flag_def getAllAndOverride_def
    required_permission_def csrf_safe_def example_request_def)

lemma example_lib_ok: "regexes_ok example_lib"
  by (simp add: regexes_ok_def example_lib_def)

lemma read_granted: "granted_now example_lib example_iam ''2025-01-01'' ''u'' (''doc'' @ '':'' @ ''read'') ctx"
  unfolding permission_decision [OF example_iam_keys example_lib_ok, where svc = "''*''"] by (simp add: example_iam_resolved)

lemma one_user_login:
  "fst (login (with_iam example_iam ''2025-01-01'' token_env) example_rnd ''2025-01-01'' ''somchai'' ''secret'' None None one_user)
     = Inr \<lparr>access_token = ''tok'', refresh_token_raw = ''fresh'', csrf_token = ''x'', expires_in = 900, lr_must_change_password = False\<rparr>"
proof -
  have "events_findById example_iam ''u'' = Inr \<lparr>iu_id = ''u'', iu_username = ''somchai'', iu_email = None,
      iu_full_name = ''Somchai'', iu_department = None, iu_status = ActiveStatus, iu_expired_at = None\<rparr>" by code_simp
  moreover have "access_ttl token_env = Inr 900" "refresh_ttl token_env = Inr 604800"
    using example_ttl by (simp_all add: token_env_def access_ttl_def refresh_ttl_def)
  ultimately show ?thesis
    unfolding login_Inr
    by (simp add: login_credential_def repo_findOne_def visible_def one_user_def new_credential_def may_enter_def
        answer_def isExpired_def example_auth_def)
       (simp add: token_env_def example_rnd_def)
qed



theorem admin_revoke_shuts_out_witness:
  "\<exists>s'. admin_revoke ''j'' None example_auth2 = Inr s'
     \<and> \<not> is_ok (fst (guard_chain token_of example_guard_env ''2025-01-01'' ''9:00'' (tick 5 (store s')) read_route example_request example_guard_redis))
     \<and> refresh example_env example_rnd ''2025-01-01'' ''old'' (wait 5 s')
         = (Inl (UnauthorizedException ''Refresh token is invalid or expired.''), wait 5 s')"
proof -
  obtain s' where s': "admin_revoke ''j'' None example_auth2 = Inr s'"
    by (simp add: admin_revoke_def Let_def example_auth2_view)
  show ?thesis
    using s' admin_revoke_shuts_out [OF s' example_auth2_view(2), where jv = token_of and q = example_request and rt = read_route
        and aenv = example_env and raw = "''old''"] read_route_ok
    by (auto simp: protected_route_def example_auth2_def example_auth_def example_session_def)
qed

theorem access_key_conditional_needs_owner_role_witness:
  "\<not> is_ok (PermissionGuard (guards_with_iam example_lib example_iam ''2025-01-01'' example_guard_env) ''9:00'' read_route
     (example_request\<lparr>req_user := Some (key_user \<lparr>kc_id = ''i'', kc_access_key_id = ''AKIA'', kc_name = ''k'',
        kc_owner_id = ''nobody'', kc_owner_type = UserOwner, kc_permissions = [], kc_conditional_permissions = [''doc:read'']\<rparr>)\<rparr>))"
proof -
  have "user_roleIds example_iam ''nobody'' = []" by code_simp
  then show ?thesis
    using read_route_ok
    by (intro access_key_conditional_needs_owner_role) (simp_all add: protected_route_def)
qed


end
